(* ===== verification/Prelude.thy ===== *)
theory Prelude
imports Main "HOL-Library.AList" "HOL-Library.Sublist" "HOL-Library.Multiset"
begin

text \<open>
  What every component of the development shares: the JavaScript notions the source is
  written with (strings and their methods, insertion-ordered maps, the stable
  \<^verbatim>\<open>Array.prototype.sort\<close>, dynamic values with their conversion to text), results that
  may be a thrown error, and the interfaces (a keyed map, a comparator, a machine with an
  invariant, a reducer) that the components are clients or providers of.

  Strings are lists of characters over the 256 characters of the HOL type; the methods below
  agree with the ECMAScript ones on them. Numbers are integers unless a component says
  otherwise. A thrown \<^verbatim>\<open>Error\<close> is the left summand of a result.
\<close>

named_theorems js_defs \<open>definitions that the simplifier may always unfold\<close>

section \<open>Results\<close>

type_synonym 'a result = "string + 'a"

abbreviation throws :: "string \<Rightarrow> 'a result" where
  "throws \<equiv> Inl"

abbreviation returns :: "'a \<Rightarrow> 'a result" where
  "returns \<equiv> Inr"

fun res_bind :: "'a result \<Rightarrow> ('a \<Rightarrow> 'b result) \<Rightarrow> 'b result" where
  "res_bind (Inl e) f = Inl e"
| "res_bind (Inr x) f = f x"

lemma res_bind_Inr: "res_bind r f = Inr y \<longleftrightarrow> (\<exists>x. r = Inr x \<and> f x = Inr y)"
  by (cases r) simp_all

definition or_else :: "'a option \<Rightarrow> 'a \<Rightarrow> 'a" where
  "or_else x d = (case x of Some y \<Rightarrow> y | None \<Rightarrow> d)"

lemma or_else_simps [simp]: "or_else (Some y) d = y" "or_else None d = d"
  by (simp_all add: or_else_def)

definition first_some :: "'a option \<Rightarrow> 'a option \<Rightarrow> 'a option" where
  "first_some x y = (case x of Some z \<Rightarrow> Some z | None \<Rightarrow> y)"

lemma first_some_simps [simp]: "first_some (Some z) y = Some z" "first_some None y = y"
  by (simp_all add: first_some_def)

section \<open>Strings\<close>

definition starts_with :: "string \<Rightarrow> string \<Rightarrow> bool" where
  "starts_with s p = (take (length p) s = p)"

definition ends_with :: "string \<Rightarrow> string \<Rightarrow> bool" where
  "ends_with s p = (length p \<le> length s \<and> drop (length s - length p) s = p)"

definition strip_leading :: "(char \<Rightarrow> bool) \<Rightarrow> string \<Rightarrow> string" where
  "strip_leading P s = dropWhile P s"

definition strip_trailing :: "(char \<Rightarrow> bool) \<Rightarrow> string \<Rightarrow> string" where
  "strip_trailing P s = rev (dropWhile P (rev s))"

definition is_space :: "char \<Rightarrow> bool" where
  "is_space c = (let n = (of_char c :: nat) in (9 \<le> n \<and> n \<le> 13) \<or> n = 32 \<or> n = 160)"

definition js_trim :: "string \<Rightarrow> string" where
  "js_trim s = strip_trailing is_space (strip_leading is_space s)"

definition lower_char :: "char \<Rightarrow> char" where
  "lower_char c = (let n = (of_char c :: nat) in
     if (65 \<le> n \<and> n \<le> 90) \<or> (192 \<le> n \<and> n \<le> 222 \<and> n \<noteq> 215) then char_of (n + 32) else c)"

definition to_lower :: "string \<Rightarrow> string" where
  "to_lower s = map lower_char s"

fun split_on :: "char \<Rightarrow> string \<Rightarrow> string list" where
  "split_on c [] = [[]]"
| "split_on c (x # xs) =
     (if x = c then [] # split_on c xs
      else (case split_on c xs of [] \<Rightarrow> [[x]] | w # ws \<Rightarrow> (x # w) # ws))"

fun join_with :: "string \<Rightarrow> string list \<Rightarrow> string" where
  "join_with sep [] = []"
| "join_with sep [w] = w"
| "join_with sep (w # v # ws) = w @ sep @ join_with sep (v # ws)"

fun last_index_of :: "char \<Rightarrow> string \<Rightarrow> nat option" where
  "last_index_of c [] = None"
| "last_index_of c (x # xs) =
     (case last_index_of c xs of
        Some i \<Rightarrow> Some (Suc i)
      | None \<Rightarrow> (if x = c then Some 0 else None))"

fun index_of_sub :: "string \<Rightarrow> string \<Rightarrow> nat option" where
  "index_of_sub p [] = (if p = [] then Some 0 else None)"
| "index_of_sub p (x # xs) =
     (if starts_with (x # xs) p then Some 0
      else map_option Suc (index_of_sub p xs))"

definition includes_str :: "string \<Rightarrow> string \<Rightarrow> bool" where
  "includes_str s p = (index_of_sub p s \<noteq> None)"

lemma starts_with_prefix: "starts_with s p = prefix p s"
  unfolding starts_with_def prefix_def by (metis append_eq_conv_conj append_take_drop_id)

lemma starts_with_append [simp]: "starts_with (p @ s) p"
  by (simp add: starts_with_def)

lemma starts_with_Nil [simp]: "starts_with s []"
  by (simp add: starts_with_def)

lemma starts_with_Cons [simp]:
  "starts_with (x # xs) (y # ys) \<longleftrightarrow> x = y \<and> starts_with xs ys" "\<not> starts_with [] (y # ys)"
  by (auto simp: starts_with_def)

lemma starts_with_dest: "starts_with s p \<Longrightarrow> s = p @ drop (length p) s"
  unfolding starts_with_def by (metis append_take_drop_id)

lemma ends_with_append [simp]: "ends_with (s @ p) p"
  by (simp add: ends_with_def)

lemma ends_with_iff: "ends_with s p \<longleftrightarrow> (\<exists>q. s = q @ p)"
  unfolding ends_with_def
  by (metis append_take_drop_id diff_diff_cancel drop_append length_append length_drop
      le_add2 append_Nil diff_self_eq_0 drop0 add_diff_cancel_right' append_eq_conv_conj)

lemma strip_trailing_Nil [simp]: "strip_trailing P [] = []"
  by (simp add: strip_trailing_def)

lemma strip_trailing_snoc [simp]:
  "strip_trailing P (s @ [c]) = (if P c then strip_trailing P s else s @ [c])"
  by (simp add: strip_trailing_def)

lemma strip_trailing_append_strip: "\<exists>t. s = strip_trailing P s @ t \<and> (\<forall>c \<in> set t. P c)"
proof (intro exI conjI)
  show "s = strip_trailing P s @ rev (takeWhile P (rev s))"
    unfolding strip_trailing_def by (metis rev_append rev_rev_ident takeWhile_dropWhile_id)
  show "\<forall>c \<in> set (rev (takeWhile P (rev s))). P c"
    using set_takeWhileD by fastforce
qed

lemma strip_trailing_last: "strip_trailing P s \<noteq> [] \<Longrightarrow> \<not> P (last (strip_trailing P s))"
  unfolding strip_trailing_def
  by (metis hd_dropWhile hd_rev rev_is_Nil_conv rev_rev_ident)

lemma strip_trailing_idem [simp]:
  "strip_trailing P (strip_trailing P s) = strip_trailing P s"
  by (metis append_butlast_last_id strip_trailing_Nil strip_trailing_last strip_trailing_snoc)

lemma strip_leading_idem [simp]: "strip_leading P (strip_leading P s) = strip_leading P s"
  by (simp add: strip_leading_def)

lemma split_on_not_Nil [simp]: "split_on c s \<noteq> []"
  by (induction s) (auto split: list.splits)

lemma join_with_Cons: "ws \<noteq> [] \<Longrightarrow> join_with sep (w # ws) = w @ sep @ join_with sep ws"
  by (cases ws) auto

lemma join_split [simp]: "join_with [c] (split_on c s) = s"
  by (induction s) (auto simp: join_with_Cons split: list.splits dest: arg_cong [where f = length],
    metis append_Cons join_with.simps(2) join_with_Cons)

lemma split_on_no_sep: "w \<in> set (split_on c s) \<Longrightarrow> c \<notin> set w"
  by (induction s arbitrary: w) (auto split: if_splits list.splits)

lemma split_on_single: "c \<notin> set w \<Longrightarrow> split_on c w = [w]"
  by (induction w) auto

lemma split_on_append_sep: "c \<notin> set w \<Longrightarrow> split_on c (w @ c # s) = w # split_on c s"
  by (induction w) auto

lemma split_join: "ws \<noteq> [] \<Longrightarrow> \<forall>w \<in> set ws. c \<notin> set w \<Longrightarrow> split_on c (join_with [c] ws) = ws"
  by (induction ws rule: induct_list012) (auto simp: split_on_single split_on_append_sep)

lemma last_index_of_None: "last_index_of c s = None \<longleftrightarrow> c \<notin> set s"
  by (induction s) (auto split: option.splits)

lemma last_index_of_Some:
  "last_index_of c s = Some i \<Longrightarrow> i < length s \<and> s ! i = c \<and> c \<notin> set (drop (Suc i) s)"
proof (induction s arbitrary: i)
  case (Cons x xs)
  then show ?case
    using last_index_of_None [of c xs] by (auto split: option.splits if_splits)
qed simp

lemma last_index_of_append: "c \<notin> set w \<Longrightarrow> last_index_of c (q @ c # w) = Some (length q)"
  using last_index_of_None [of c w] by (induction q) auto

lemma strip_trailing_none: "s = [] \<or> \<not> P (last s) \<Longrightarrow> strip_trailing P s = s"
  by (cases s rule: rev_cases) auto

lemma to_lower_length [simp]: "length (to_lower s) = length s"
  by (simp add: to_lower_def)

lemma to_lower_append [simp]: "to_lower (s @ t) = to_lower s @ to_lower t"
  by (simp add: to_lower_def)

text \<open>
  \<^verbatim>\<open>encodeURIComponent\<close> percent-encodes the UTF-8 bytes of every character but the unreserved
  ones; characters from 128 on take two bytes.
\<close>

definition uri_unreserved :: "char \<Rightarrow> bool" where
  "uri_unreserved c = (let n = (of_char c :: nat) in
     (48 \<le> n \<and> n \<le> 57) \<or> (65 \<le> n \<and> n \<le> 90) \<or> (97 \<le> n \<and> n \<le> 122) \<or>
     n \<in> {33, 39, 40, 41, 42, 45, 46, 95, 126})"

definition upper_hex :: "nat \<Rightarrow> char" where
  "upper_hex n = (if n < 10 then char_of (48 + n) else char_of (55 + n))"

definition percent_byte :: "nat \<Rightarrow> string" where
  "percent_byte n = [CHR 0x25, upper_hex (n div 16), upper_hex (n mod 16)]"

definition encode_char :: "char \<Rightarrow> string" where
  "encode_char c = (let n = (of_char c :: nat) in
     if uri_unreserved c then [c]
     else if n < 128 then percent_byte n
     else percent_byte (192 + n div 64) @ percent_byte (128 + n mod 64))"

definition encodeURIComponent :: "string \<Rightarrow> string" where
  "encodeURIComponent s = concat (map encode_char s)"

definition form_encode_char :: "char \<Rightarrow> string" where
  "form_encode_char c =
     (if of_char c = (32 :: nat) then [CHR 0x2B]
      else if uri_unreserved c \<and> of_char c \<notin> {33 :: nat, 39, 40, 41, 126} then [c]
      else (let n = (of_char c :: nat) in
        if n < 128 then percent_byte n
        else percent_byte (192 + n div 64) @ percent_byte (128 + n mod 64)))"

definition form_encode :: "string \<Rightarrow> string" where
  "form_encode s = concat (map form_encode_char s)"

lemma upper_hex_inj: "m < 16 \<Longrightarrow> n < 16 \<Longrightarrow> upper_hex m = upper_hex n \<longleftrightarrow> m = n"
proof
  assume a: "m < 16" "n < 16" and "upper_hex m = upper_hex n"
  then have "(of_char (upper_hex m) :: nat) = of_char (upper_hex n)" by simp
  with a show "m = n"
    by (auto simp: upper_hex_def take_bit_eq_mod split: if_splits)
qed simp

lemma percent_byte_inj:
  assumes "m < 256" and "n < 256"
  shows "percent_byte m @ s = percent_byte n @ t \<longleftrightarrow> m = n \<and> s = t"
proof -
  have "m div 16 < 16" "n div 16 < 16" "m mod 16 < 16" "n mod 16 < 16"
    using assms by auto
  then show ?thesis
    by (auto simp: percent_byte_def upper_hex_inj) (metis div_mult_mod_eq)
qed

lemma of_char_less: "(of_char c :: nat) < 256"
  by (metis of_char_mod_256 mod_less_divisor zero_less_numeral)

lemma encode_char_inj: "encode_char c @ s = encode_char d @ t \<Longrightarrow> c = d \<and> s = t"
proof -
  assume eq: "encode_char c @ s = encode_char d @ t"
  let ?m = "of_char c :: nat" and ?n = "of_char d :: nat"
  have lt: "?m < 256" "?n < 256" by (rule of_char_less)+
  have np: "uri_unreserved e \<Longrightarrow> e \<noteq> CHR 0x25" for e
    by (auto simp: uri_unreserved_def Let_def)
  have two: "192 + k div 64 < 256" "128 + k mod 64 < 256" if "k < 256" for k :: nat
    using that by auto
  have "?m = ?n \<and> s = t"
  proof (cases "uri_unreserved c \<or> uri_unreserved d")
    case True
    with eq np [of c] np [of d] show ?thesis
      by (auto simp: encode_char_def Let_def percent_byte_def split: if_splits)
  next
    case False
    have "?m < 128 \<longleftrightarrow> ?n < 128"
    proof (rule ccontr)
      assume "\<not> ?thesis"
      then consider "?m < 128" "\<not> ?n < 128" | "\<not> ?m < 128" "?n < 128" by blast
      then show False
        using False eq lt two percent_byte_inj [of ?m "192 + ?n div 64"]
          percent_byte_inj [of "192 + ?m div 64" ?n]
        by cases (simp_all add: encode_char_def Let_def)
    qed
    show ?thesis
    proof (cases "?m < 128")
      case True
      with \<open>?m < 128 \<longleftrightarrow> ?n < 128\<close> False eq have "percent_byte ?m @ s = percent_byte ?n @ t"
        by (simp add: encode_char_def Let_def)
      then show ?thesis using percent_byte_inj [OF lt] by blast
    next
      case big: False
      with \<open>?m < 128 \<longleftrightarrow> ?n < 128\<close> False eq
      have "percent_byte (192 + ?m div 64) @ percent_byte (128 + ?m mod 64) @ s
          = percent_byte (192 + ?n div 64) @ percent_byte (128 + ?n mod 64) @ t"
        by (simp add: encode_char_def Let_def)
      then have "?m div 64 = ?n div 64" "?m mod 64 = ?n mod 64" "s = t"
        using percent_byte_inj [OF two(1) [OF lt(1)] two(1) [OF lt(2)]]
          percent_byte_inj [OF two(2) [OF lt(1)] two(2) [OF lt(2)]] by auto
      then show ?thesis by (metis div_mult_mod_eq)
    qed
  qed
  then show ?thesis by (simp only: of_char_eq_iff simp_thms)
qed

lemma encode_char_not_Nil: "encode_char c \<noteq> []"
  by (simp add: encode_char_def Let_def percent_byte_def)

lemma encodeURIComponent_inj: "encodeURIComponent s = encodeURIComponent t \<longleftrightarrow> s = t"
proof
  show "encodeURIComponent s = encodeURIComponent t \<Longrightarrow> s = t"
    unfolding encodeURIComponent_def
  proof (induction s arbitrary: t)
    case Nil
    then show ?case by (cases t) (auto simp: encode_char_not_Nil)
  next
    case (Cons c s)
    then obtain d t' where t: "t = d # t'"
      by (cases t) (auto simp: encode_char_not_Nil)
    with Cons.prems have "c = d \<and> concat (map encode_char s) = concat (map encode_char t')"
      by (intro encode_char_inj) simp
    with Cons.IH t show ?case by blast
  qed
qed simp

section \<open>Dynamic values and their text\<close>

text \<open>
  A value whose static type is \<^verbatim>\<open>unknown\<close> or \<^verbatim>\<open>any\<close> in the source. Objects keep their
  properties in insertion order; \<^verbatim>\<open>JUndef\<close> is \<^verbatim>\<open>undefined\<close>, also the value of an absent
  property.
\<close>

datatype json =
    JUndef
  | JNull
  | JBool bool
  | JNum int
  | JStr string
  | JArr "json list"
  | JObj "(string \<times> json) list"

definition digit_char :: "nat \<Rightarrow> char" where
  "digit_char n = char_of (48 + n)"

fun show_nat :: "nat \<Rightarrow> string" where
  "show_nat n = (if n < 10 then [digit_char n] else show_nat (n div 10) @ [digit_char (n mod 10)])"

declare show_nat.simps [simp del]

definition show_int :: "int \<Rightarrow> string" where
  "show_int i = (if i < 0 then ''-'' @ show_nat (nat (- i)) else show_nat (nat i))"

fun js_string :: "json \<Rightarrow> string"
  and js_elements :: "json list \<Rightarrow> string list" where
  "js_string JUndef = ''undefined''"
| "js_string JNull = ''null''"
| "js_string (JBool b) = (if b then ''true'' else ''false'')"
| "js_string (JNum i) = show_int i"
| "js_string (JStr s) = s"
| "js_string (JArr vs) = join_with '','' (js_elements vs)"
| "js_string (JObj kvs) = ''[object Object]''"
| "js_elements [] = []"
| "js_elements (v # vs) =
     (case v of JUndef \<Rightarrow> [] | JNull \<Rightarrow> [] | _ \<Rightarrow> js_string v) # js_elements vs"

definition js_join :: "string \<Rightarrow> json list \<Rightarrow> string" where
  "js_join sep vs = join_with sep (js_elements vs)"

fun nullish :: "json \<Rightarrow> bool" where
  "nullish JUndef = True"
| "nullish JNull = True"
| "nullish _ = False"

fun truthy :: "json \<Rightarrow> bool" where
  "truthy JUndef = False"
| "truthy JNull = False"
| "truthy (JBool b) = b"
| "truthy (JNum i) = (i \<noteq> 0)"
| "truthy (JStr s) = (s \<noteq> [])"
| "truthy (JArr _) = True"
| "truthy (JObj _) = True"

fun is_object :: "json \<Rightarrow> bool" where
  "is_object (JObj _) = True"
| "is_object (JArr _) = True"
| "is_object _ = False"

fun is_array :: "json \<Rightarrow> bool" where
  "is_array (JArr _) = True"
| "is_array _ = False"

fun is_str :: "json \<Rightarrow> bool" where
  "is_str (JStr _) = True"
| "is_str _ = False"

fun js_prop :: "json \<Rightarrow> string \<Rightarrow> json" where
  "js_prop (JObj kvs) k = or_else (map_of kvs k) JUndef"
| "js_prop _ k = JUndef"

fun has_prop :: "json \<Rightarrow> string \<Rightarrow> bool" where
  "has_prop (JObj kvs) k = (map_of kvs k \<noteq> None)"
| "has_prop _ k = False"

definition or_nullish :: "json \<Rightarrow> json \<Rightarrow> json" where
  "or_nullish v w = (if nullish v then w else v)"

definition hex_digit :: "nat \<Rightarrow> char" where
  "hex_digit n = (if n < 10 then char_of (48 + n) else char_of (87 + n))"

definition quote_char :: "char \<Rightarrow> string" where
  "quote_char c = (let n = (of_char c :: nat) in
     if n = 34 then [CHR 0x5C, CHR 0x22]
     else if n = 92 then [CHR 0x5C, CHR 0x5C]
     else if n = 8 then [CHR 0x5C, CHR 0x62]
     else if n = 9 then [CHR 0x5C, CHR 0x74]
     else if n = 10 then [CHR 0x5C, CHR 0x6E]
     else if n = 12 then [CHR 0x5C, CHR 0x66]
     else if n = 13 then [CHR 0x5C, CHR 0x72]
     else if n < 32 then CHR 0x5C # ''u00'' @ [hex_digit (n div 16), hex_digit (n mod 16)]
     else [c])"

definition quote_str :: "string \<Rightarrow> string" where
  "quote_str s = CHR 0x22 # concat (map quote_char s) @ [CHR 0x22]"

text \<open>
  \<^verbatim>\<open>JSON.stringify(v, null, n)\<close>: \<^verbatim>\<open>gap\<close> is the indentation unit (empty for the compact
  form) and \<^verbatim>\<open>cur\<close> the indentation reached. An undefined property is left out, an
  undefined element is written \<^verbatim>\<open>null\<close>.
\<close>

definition wrap_items :: "string \<Rightarrow> string \<Rightarrow> string \<Rightarrow> string \<Rightarrow> string list \<Rightarrow> string" where
  "wrap_items op cl gap cur items =
     (if items = [] then op @ cl
      else if gap = [] then op @ join_with '','' items @ cl
      else op @ [CHR 0x0A] @ cur @ gap @ join_with ('','' @ [CHR 0x0A] @ cur @ gap) items
             @ [CHR 0x0A] @ cur @ cl)"

fun json_render :: "string \<Rightarrow> string \<Rightarrow> json \<Rightarrow> string"
  and json_items :: "string \<Rightarrow> string \<Rightarrow> json list \<Rightarrow> string list"
  and json_members :: "string \<Rightarrow> string \<Rightarrow> (string \<times> json) list \<Rightarrow> string list" where
  "json_render gap cur JUndef = ''null''"
| "json_render gap cur JNull = ''null''"
| "json_render gap cur (JBool b) = (if b then ''true'' else ''false'')"
| "json_render gap cur (JNum i) = show_int i"
| "json_render gap cur (JStr s) = quote_str s"
| "json_render gap cur (JArr vs) = wrap_items ''['' '']'' gap cur (json_items gap (cur @ gap) vs)"
| "json_render gap cur (JObj kvs) = wrap_items ''{'' ''}'' gap cur (json_members gap (cur @ gap) kvs)"
| "json_items gap cur [] = []"
| "json_items gap cur (v # vs) = json_render gap cur v # json_items gap cur vs"
| "json_members gap cur [] = []"
| "json_members gap cur ((k, v) # kvs) =
     (if v = JUndef then json_members gap cur kvs
      else (quote_str k @ (if gap = [] then '':'' else '': '') @ json_render gap cur v)
             # json_members gap cur kvs)"

definition json_stringify :: "json \<Rightarrow> string option" where
  "json_stringify v = (if v = JUndef then None else Some (json_render [] [] v))"

definition json_stringify2 :: "json \<Rightarrow> string option" where
  "json_stringify2 v = (if v = JUndef then None else Some (json_render ''  '' [] v))"

lemma show_nat_not_Nil [simp]: "show_nat n \<noteq> []"
  by (subst show_nat.simps) simp

lemma show_int_not_Nil [simp]: "show_int i \<noteq> []"
  by (simp add: show_int_def)

definition digit_value :: "char \<Rightarrow> nat" where
  "digit_value c = of_char c - 48"

definition read_nat :: "string \<Rightarrow> nat" where
  "read_nat s = foldl (\<lambda>a c. 10 * a + digit_value c) 0 s"

lemma digit_value_digit [simp]: "n < 10 \<Longrightarrow> digit_value (digit_char n) = n"
  by (simp add: digit_value_def digit_char_def take_bit_eq_mod)

lemma read_show_nat [simp]: "read_nat (show_nat n) = n"
proof (induction n rule: show_nat.induct)
  case (1 n)
  show ?case
  proof (cases "n < 10")
    case True
    then show ?thesis by (subst show_nat.simps) (simp add: read_nat_def)
  next
    case False
    then have "read_nat (show_nat n) = 10 * read_nat (show_nat (n div 10)) + n mod 10"
      by (subst show_nat.simps) (simp add: read_nat_def)
    with 1 False show ?thesis by simp
  qed
qed

lemma show_nat_inj [simp]: "show_nat m = show_nat n \<longleftrightarrow> m = n"
  by (metis read_show_nat)

lemma show_nat_digits: "c \<in> set (show_nat n) \<Longrightarrow> 48 \<le> (of_char c :: nat) \<and> (of_char c :: nat) \<le> 57"
proof (induction n rule: show_nat.induct)
  case (1 n)
  have d: "48 \<le> (of_char (digit_char m) :: nat) \<and> (of_char (digit_char m) :: nat) \<le> 57" if "m < 10" for m
    using that by (simp add: digit_char_def take_bit_eq_mod)
  show ?case
  proof (cases "n < 10")
    case True
    with 1(2) d [of n] show ?thesis by (subst (asm) show_nat.simps) simp
  next
    case False
    with 1 d [of "n mod 10"] show ?thesis by (subst (asm) (2) show_nat.simps) auto
  qed
qed

lemma colon_not_in_show_nat [simp]: "CHR '':'' \<notin> set (show_nat n)"
  using show_nat_digits [of "CHR '':''" n] by auto

lemma wrap_items_not_Nil [simp]: "op \<noteq> [] \<Longrightarrow> wrap_items op cl gap cur items \<noteq> []"
  by (simp add: wrap_items_def)

lemma json_render_not_Nil [simp]: "json_render gap cur v \<noteq> []"
  by (cases v) (simp_all add: quote_str_def)

lemma or_nullish_simps [simp]:
  "or_nullish JUndef w = w" "or_nullish JNull w = w" "or_nullish (JStr s) w = JStr s"
  "or_nullish (JObj kvs) w = JObj kvs" "or_nullish (JArr vs) w = JArr vs"
  by (simp_all add: or_nullish_def)

lemma js_prop_None: "\<not> has_prop v k \<Longrightarrow> js_prop v k = JUndef"
  by (cases v) auto

section \<open>Insertion-ordered maps\<close>

text \<open>
  \<^verbatim>\<open>Map\<close>, \<^verbatim>\<open>Set\<close> and plain objects used as dictionaries keep the order in which their
  keys were first inserted; \<^verbatim>\<open>set\<close> on a present key overwrites in place. That is
  \<^const>\<open>AList.update\<close> of the library.
\<close>

type_synonym ('k, 'v) jmap = "('k \<times> 'v) list"

abbreviation jset :: "'k \<Rightarrow> 'v \<Rightarrow> ('k, 'v) jmap \<Rightarrow> ('k, 'v) jmap" where
  "jset \<equiv> AList.update"

abbreviation jdel :: "'k \<Rightarrow> ('k, 'v) jmap \<Rightarrow> ('k, 'v) jmap" where
  "jdel \<equiv> AList.delete"

definition jkeys :: "('k, 'v) jmap \<Rightarrow> 'k list" where
  "jkeys m = map fst m"

definition jhas :: "('k, 'v) jmap \<Rightarrow> 'k \<Rightarrow> bool" where
  "jhas m k = (map_of m k \<noteq> None)"

definition jok :: "('k, 'v) jmap \<Rightarrow> bool" where
  "jok m = distinct (map fst m)"

lemma jhas_iff: "jhas m k \<longleftrightarrow> k \<in> set (jkeys m)"
  by (force simp: jhas_def jkeys_def map_of_eq_None_iff)

lemma jok_Nil [simp]: "jok []"
  by (simp add: jok_def)

lemma jok_jset [simp]: "jok m \<Longrightarrow> jok (jset k v m)"
  by (simp add: jok_def distinct_update)

lemma jok_jdel [simp]: "jok m \<Longrightarrow> jok (jdel k m)"
  by (simp add: jok_def distinct_delete)

lemma map_of_jset [simp]: "map_of (jset k v m) k' = (if k' = k then Some v else map_of m k')"
  by (simp add: update_conv)

lemma map_of_jdel [simp]: "map_of (jdel k m) k' = (if k' = k then None else map_of m k')"
  by (simp add: delete_conv)

lemma map_of_filter_key:
  "map_of (filter (\<lambda>(k, _). P k) m) k = (if P k then map_of m k else None)"
  by (induction m) auto

lemma jkeys_jset: "jkeys (jset k v m) = (if k \<in> set (jkeys m) then jkeys m else jkeys m @ [k])"
  by (simp add: jkeys_def update_keys)

lemma in_map_filter: "y \<in> set (List.map_filter f xs) \<longleftrightarrow> (\<exists>x \<in> set xs. f x = Some y)"
  by (force simp: List.map_filter_def)

lemma map_filter_map: "List.map_filter f (map g xs) = List.map_filter (\<lambda>x. f (g x)) xs"
  by (simp add: List.map_filter_def filter_map comp_def)

lemma find_only:
  "x \<in> set xs \<Longrightarrow> P x \<Longrightarrow> (\<And>y. y \<in> set xs \<Longrightarrow> P y \<Longrightarrow> y = x) \<Longrightarrow> find P xs = Some x"
proof (induction xs)
  case (Cons a xs)
  show ?case
  proof (cases "P a")
    case True
    then show ?thesis using Cons.prems(3) [of a] by simp
  next
    case False
    have "x \<in> set xs" using Cons.prems(1,2) False by auto
    then have "find P xs = Some x"
      using Cons.prems(2) by (rule Cons.IH) (rule Cons.prems(3), simp_all)
    then show ?thesis using False by simp
  qed
qed simp

text \<open>
  Looking a key up in a plain object also finds what \<^verbatim>\<open>Object.prototype\<close> gives every object:
  \<^verbatim>\<open>Inherited\<close> stands for such a member (a function, never nullish, equal to no value of
  the program).
\<close>

datatype 'v js_member = Own 'v | Inherited | Absent

definition object_prototype :: "string list" where
  "object_prototype =
     [''constructor'', ''__defineGetter__'', ''__defineSetter__'', ''hasOwnProperty'',
      ''__lookupGetter__'', ''__lookupSetter__'', ''isPrototypeOf'', ''propertyIsEnumerable'',
      ''toString'', ''valueOf'', ''__proto__'', ''toLocaleString'']"

definition js_member :: "(string, 'v) jmap \<Rightarrow> string \<Rightarrow> 'v js_member" where
  "js_member m k =
     (case map_of m k of
        Some v \<Rightarrow> Own v
      | None \<Rightarrow> if k \<in> set object_prototype then Inherited else Absent)"

definition js_in :: "string \<Rightarrow> (string, 'v) jmap \<Rightarrow> bool" where
  "js_in k m = (js_member m k \<noteq> Absent)"

lemma js_member_own [simp]: "map_of m k = Some v \<Longrightarrow> js_member m k = Own v"
  by (simp add: js_member_def)

lemma js_in_iff: "js_in k m \<longleftrightarrow> map_of m k \<noteq> None \<or> k \<in> set object_prototype"
  by (simp add: js_in_def js_member_def split: option.splits)

text \<open>
  Object spread \<^verbatim>\<open>{...v, k: w}\<close>: own enumerable properties; strings and arrays have their
  indices, other primitives nothing.
\<close>

fun own_entries :: "json \<Rightarrow> (string, json) jmap" where
  "own_entries (JObj kvs) = kvs"
| "own_entries (JArr vs) = zip (map show_nat [0..<length vs]) vs"
| "own_entries (JStr s) = zip (map show_nat [0..<length s]) (map (\<lambda>c. JStr [c]) s)"
| "own_entries _ = []"

fun spread_with :: "json \<Rightarrow> (string \<times> json) list \<Rightarrow> json" where
  "spread_with v upd = JObj (fold (\<lambda>(k, w). jset k w) upd (own_entries v))"

text \<open>The interface of a keyed map, for the components that fold writes into one.\<close>

locale keyed_map =
  fixes get :: "'m \<Rightarrow> 'k \<Rightarrow> 'v option"
    and put :: "'k \<Rightarrow> 'v \<Rightarrow> 'm \<Rightarrow> 'm"
    and keys :: "'m \<Rightarrow> 'k list"
    and ok :: "'m \<Rightarrow> bool"
  assumes get_put: "get (put k v m) k' = (if k' = k then Some v else get m k')"
    and keys_get: "k \<in> set (keys m) \<longleftrightarrow> get m k \<noteq> None"
    and keys_put: "keys (put k v m) = (if k \<in> set (keys m) then keys m else keys m @ [k])"
    and ok_keys: "ok m \<Longrightarrow> distinct (keys m)"
    and ok_put: "ok m \<Longrightarrow> ok (put k v m)"
begin

lemma ok_fold: "ok m \<Longrightarrow> ok (fold (\<lambda>x. put (f x) (g x)) xs m)"
  by (induction xs arbitrary: m) (auto intro: ok_put)

lemma get_fold:
  "get (fold (\<lambda>x. put (f x) (g x)) xs m) k =
     first_some (map_option g (find (\<lambda>x. f x = k) (rev xs))) (get m k)"
proof (induction xs arbitrary: m)
  case (Cons x xs)
  have "find P (ys @ [x]) = first_some (find P ys) (if P x then Some x else None)" for P ys
    by (induction ys) auto
  then show ?case
    by (simp add: Cons.IH get_put first_some_def split: option.splits)
qed simp

lemma get_fold_last:
  "get (fold (\<lambda>x. put (f x) (g x)) (xs @ [x]) m) (f x) = Some (g x)"
  by (simp add: get_put)

lemma keys_fold_set:
  "set (keys (fold (\<lambda>x. put (f x) (g x)) xs m)) = set (keys m) \<union> f ` set xs"
  by (induction xs arbitrary: m) (auto simp: keys_put)

lemma keys_fold_prefix: "prefix (keys m) (keys (fold (\<lambda>x. put (f x) (g x)) xs m))"
proof (induction xs arbitrary: m)
  case (Cons x xs)
  have "prefix (keys m) (keys (put (f x) (g x) m))"
    by (simp add: keys_put)
  with Cons.IH [of "put (f x) (g x) m"] show ?case
    using prefix_order.trans by force
qed simp

lemma distinct_keys_fold: "ok m \<Longrightarrow> distinct (keys (fold (\<lambda>x. put (f x) (g x)) xs m))"
  by (intro ok_keys ok_fold)

lemma get_fold_distinct:
  assumes "distinct (map f xs)" "x \<in> set xs"
  shows "get (fold (\<lambda>x. put (f x) (g x)) xs m) (f x) = Some (g x)"
proof -
  have "find (\<lambda>y. f y = f x) (rev xs) = Some x"
    using assms by (intro find_only) (auto simp: distinct_map inj_on_def)
  then show ?thesis
    by (simp add: get_fold)
qed

end

interpretation am: keyed_map "map_of :: ('k, 'v) jmap \<Rightarrow> 'k \<Rightarrow> 'v option" jset jkeys jok
  by unfold_locales (simp_all add: jkeys_jset jhas_iff [symmetric] jhas_def jok_def
      distinct_update, simp add: jkeys_def)

section \<open>The stable sort\<close>

text \<open>
  \<^verbatim>\<open>Array.prototype.sort\<close> is a stable sort by a numeric comparator; insertion from the
  right, before the first element that is not smaller, computes it.
\<close>

fun insert_by :: "('a \<Rightarrow> 'a \<Rightarrow> int) \<Rightarrow> 'a \<Rightarrow> 'a list \<Rightarrow> 'a list" where
  "insert_by cmp x [] = [x]"
| "insert_by cmp x (y # ys) = (if cmp x y \<le> 0 then x # y # ys else y # insert_by cmp x ys)"

definition js_sort :: "('a \<Rightarrow> 'a \<Rightarrow> int) \<Rightarrow> 'a list \<Rightarrow> 'a list" where
  "js_sort cmp xs = foldr (insert_by cmp) xs []"

lemma js_sort_Nil [simp]: "js_sort cmp [] = []"
  by (simp add: js_sort_def)

lemma js_sort_Cons: "js_sort cmp (x # xs) = insert_by cmp x (js_sort cmp xs)"
  by (simp add: js_sort_def)

lemma mset_insert_by [simp]: "mset (insert_by cmp x xs) = add_mset x (mset xs)"
  by (induction xs) auto

lemma mset_js_sort [simp]: "mset (js_sort cmp xs) = mset xs"
  by (induction xs) (simp_all add: js_sort_Cons)

lemma set_js_sort [simp]: "set (js_sort cmp xs) = set xs"
  by (metis mset_js_sort set_mset_mset)

lemma length_js_sort [simp]: "length (js_sort cmp xs) = length xs"
  by (metis mset_js_sort size_mset)

lemma distinct_map_js_sort [simp]: "distinct (map f (js_sort cmp xs)) = distinct (map f xs)"
  by (metis mset_js_sort mset_map mset_eq_imp_distinct_iff)

locale comparator =
  fixes cmp :: "'a \<Rightarrow> 'a \<Rightarrow> int"
  assumes cmp_total: "cmp x y \<le> 0 \<or> cmp y x \<le> 0"
    and cmp_trans: "cmp x y \<le> 0 \<Longrightarrow> cmp y z \<le> 0 \<Longrightarrow> cmp x z \<le> 0"
begin

lemma sorted_insert_by:
  "sorted_wrt (\<lambda>a b. cmp a b \<le> 0) xs \<Longrightarrow> sorted_wrt (\<lambda>a b. cmp a b \<le> 0) (insert_by cmp x xs)"
proof (induction xs)
  case (Cons y ys)
  have "set (insert_by cmp x ys) = insert x (set ys)"
    by (metis mset_insert_by set_mset_add_mset_insert set_mset_mset)
  then show ?case
    using Cons cmp_total [of x y] by (auto intro: cmp_trans)
qed simp

lemma sorted_js_sort: "sorted_wrt (\<lambda>a b. cmp a b \<le> 0) (js_sort cmp xs)"
  by (induction xs) (simp_all add: js_sort_Cons sorted_insert_by)

lemma js_sort_id: "sorted_wrt (\<lambda>a b. cmp a b \<le> 0) xs \<Longrightarrow> js_sort cmp xs = xs"
proof (induction xs)
  case (Cons x xs)
  then show ?case by (cases xs) (auto simp: js_sort_Cons)
qed simp

lemma sorted_unique:
  assumes "sorted_wrt (\<lambda>a b. cmp a b \<le> 0) xs" "sorted_wrt (\<lambda>a b. cmp a b \<le> 0) ys"
    and "mset xs = mset ys"
    and anti: "\<And>a b. a \<in> set xs \<Longrightarrow> b \<in> set xs \<Longrightarrow> cmp a b \<le> 0 \<Longrightarrow> cmp b a \<le> 0 \<Longrightarrow> a = b"
  shows "xs = ys"
  using assms
proof (induction xs arbitrary: ys)
  case (Cons x xs)
  then obtain y ys' where ys: "ys = y # ys'"
    by (cases ys) auto
  have sets: "set (x # xs) = set (y # ys')"
    using Cons.prems(3) ys by (metis set_mset_mset)
  have "cmp x x \<le> 0" using cmp_total [of x x] by simp
  moreover have "cmp y y \<le> 0" using cmp_total [of y y] by simp
  ultimately have "cmp x y \<le> 0" "cmp y x \<le> 0"
    using Cons.prems(1,2) sets unfolding ys by auto
  then have "x = y"
    using Cons.prems(4) [of x y] sets by auto
  with Cons.prems ys have "xs = ys'"
    by (intro Cons.IH) auto
  with \<open>x = y\<close> ys show ?case by simp
qed simp

lemma js_sort_perm:
  assumes "mset xs = mset ys"
    and "\<And>a b. a \<in> set xs \<Longrightarrow> b \<in> set xs \<Longrightarrow> cmp a b \<le> 0 \<Longrightarrow> cmp b a \<le> 0 \<Longrightarrow> a = b"
  shows "js_sort cmp xs = js_sort cmp ys"
  using assms by (intro sorted_unique sorted_js_sort) auto

end

section \<open>Machines\<close>

inductive reachable :: "('s \<Rightarrow> bool) \<Rightarrow> ('s \<Rightarrow> 'e \<Rightarrow> 's \<Rightarrow> bool) \<Rightarrow> 's \<Rightarrow> bool"
  for init step where
  reach_init: "init s \<Longrightarrow> reachable init step s"
| reach_step: "reachable init step s \<Longrightarrow> step s e t \<Longrightarrow> reachable init step t"

text \<open>A transition system with an inductive invariant, the contract of every stateful part.\<close>

locale transition_system =
  fixes init :: "'s \<Rightarrow> bool"
    and step :: "'s \<Rightarrow> 'e \<Rightarrow> 's \<Rightarrow> bool"
    and inv :: "'s \<Rightarrow> bool"
  assumes init_inv: "init s \<Longrightarrow> inv s"
    and step_inv: "inv s \<Longrightarrow> step s e t \<Longrightarrow> inv t"
begin

lemma reach_inv: "reachable init step s \<Longrightarrow> inv s"
  by (induction rule: reachable.induct) (auto intro: init_inv step_inv)

end

text \<open>A reducer: the next state is a function of the state and the event.\<close>

locale reducer =
  fixes start :: "'s"
    and react :: "'s \<Rightarrow> 'e \<Rightarrow> 's"
    and good :: "'s \<Rightarrow> bool"
  assumes start_good: "good start"
    and react_good: "good s \<Longrightarrow> good (react s e)"

sublocale reducer \<subseteq> ts: transition_system "\<lambda>s. s = start" "\<lambda>s e t. t = react s e" good
  by unfold_locales (auto intro: start_good react_good)

context reducer
begin

lemma run_good: "good s \<Longrightarrow> good (foldl react s es)"
  by (induction es arbitrary: s) (auto intro: react_good)

lemma run_start_good: "good (foldl react start es)"
  by (rule run_good [OF start_good])

end

end
