(* ===== verification/Config.thy ===== *)
theory Config
imports Prelude
begin

text \<open>
  Which deployment and which agent the page talks to: the agent registry of
  \<^verbatim>\<open>app/config/agents.ts\<close>, the build-time switches of \<^verbatim>\<open>lib/auth/enabled.ts\<close> and
  \<^verbatim>\<open>lib/config.ts\<close>, the stored configuration with its pinning rules, the availability map of
  \<^verbatim>\<open>useAgentAvailability.ts\<close>, and the settings form of \<^verbatim>\<open>ConfigDialog.tsx\<close>.

  A stored configuration is a dynamic value, since the code never validates what
  \<^verbatim>\<open>JSON.parse\<close> returned. \<^verbatim>\<open>JSON.parse\<close> is the argument \<^verbatim>\<open>parse\<close>, None when it throws.
\<close>

section \<open>Build-time switches\<close>

record build_env =
  NEXT_PUBLIC_AUTH_ENABLED :: "string option"
  NEXT_PUBLIC_AUTH_GOOGLE_ENABLED :: "string option"
  NEXT_PUBLIC_AUTH_EMAIL_PASSWORD_ENABLED :: "string option"
  NEXT_PUBLIC_MODEL_OVERRIDE_ENABLED :: "string option"
  NEXT_PUBLIC_CONNECTION_SETTINGS_ENABLED :: "string option"
  NEXT_PUBLIC_LANGGRAPH_DEPLOYMENT_URL :: "string option"
  NEXT_PUBLIC_LANGGRAPH_ASSISTANT_ID :: "string option"
  NEXT_PUBLIC_LANGSMITH_API_KEY :: "string option"

definition isAuthEnabled :: "build_env \<Rightarrow> bool" where
  "isAuthEnabled e = (NEXT_PUBLIC_AUTH_ENABLED e = Some ''true'')"

definition isGoogleAuthEnabled :: "build_env \<Rightarrow> bool" where
  "isGoogleAuthEnabled e = (NEXT_PUBLIC_AUTH_GOOGLE_ENABLED e = Some ''true'')"

definition isEmailPasswordAuthEnabled :: "build_env \<Rightarrow> bool" where
  "isEmailPasswordAuthEnabled e = (NEXT_PUBLIC_AUTH_EMAIL_PASSWORD_ENABLED e \<noteq> Some ''false'')"

definition isModelOverrideEnabled :: "build_env \<Rightarrow> bool" where
  "isModelOverrideEnabled e = (NEXT_PUBLIC_MODEL_OVERRIDE_ENABLED e \<noteq> Some ''false'')"

definition isConnectionSettingsEnabled :: "build_env \<Rightarrow> bool" where
  "isConnectionSettingsEnabled e = (NEXT_PUBLIC_CONNECTION_SETTINGS_ENABLED e \<noteq> Some ''false'')"

fun env_value :: "string option \<Rightarrow> json" where
  "env_value (Some s) = JStr s"
| "env_value None = JUndef"

section \<open>The agent registry\<close>

datatype agent_icon = Compass | BarChart3

record agent_meta =
  graphId :: string
  agent_name :: string
  agent_description :: string
  agent_color :: string
  agent_icon :: agent_icon

definition CAREER_AGENT_ID :: string where
  "CAREER_AGENT_ID = ''career_agent''"

definition ANALYTICS_AGENT_ID :: string where
  "ANALYTICS_AGENT_ID = ''analytics_agent''"

definition AGENTS :: "(string, agent_meta) jmap" where
  "AGENTS =
     [(CAREER_AGENT_ID,
        \<lparr>graphId = CAREER_AGENT_ID, agent_name = ''Career Agent'',
         agent_description = ''Orchestrates your end-to-end prep'',
         agent_color = ''var(--brand-accent)'', agent_icon = Compass\<rparr>),
      (ANALYTICS_AGENT_ID,
        \<lparr>graphId = ANALYTICS_AGENT_ID, agent_name = ''Analytics Agent'',
         agent_description = ''Answers questions about product usage and cost'',
         agent_color = ''#5b5bd6'', agent_icon = BarChart3\<rparr>)]"

definition AGENT_IDS :: "string list" where
  "AGENT_IDS = [CAREER_AGENT_ID, ANALYTICS_AGENT_ID]"

definition DEFAULT_AGENT_ID :: string where
  "DEFAULT_AGENT_ID = CAREER_AGENT_ID"

datatype agent_access = Allowed | AdminOnly | NotDeployed

definition agentAccess :: "(string, agent_access) jmap \<Rightarrow> string \<Rightarrow> agent_access js_member" where
  "agentAccess availability gid =
     (case js_member availability gid of Absent \<Rightarrow> Own Allowed | m \<Rightarrow> m)"

fun isKnownAgentId :: "json \<Rightarrow> bool" where
  "isKnownAgentId (JStr v) = js_in v AGENTS"
| "isKnownAgentId _ = False"

definition fallback_meta :: "string option \<Rightarrow> agent_meta" where
  "fallback_meta gid =
     \<lparr>graphId = or_else gid DEFAULT_AGENT_ID, agent_name = or_else gid ''Assistant'',
      agent_description = [], agent_color = ''var(--brand-accent)'', agent_icon = Compass\<rparr>"

definition agentMeta :: "string option \<Rightarrow> agent_meta js_member" where
  "agentMeta gid =
     (case gid of
        Some g \<Rightarrow> if isKnownAgentId (JStr g) then js_member AGENTS g else Own (fallback_meta gid)
      | None \<Rightarrow> Own (fallback_meta gid))"

definition CAREER_SUBAGENTS :: "(string \<times> string \<times> string) list" where
  "CAREER_SUBAGENTS =
     [(''Resume Tailor'', ''Rewrites your resume against the JD'', ''#0e9f6e''),
      (''Interview Coach'', ''STAR stories, round-by-round'', ''#2563eb''),
      (''Company Research'', ''Live recon on the company & role'', ''#d9785a'')]"

section \<open>Availability\<close>

text \<open>The body of \<^verbatim>\<open>GET /agents/available\<close>: the optional list of (graph id, allowed).\<close>

definition toAgentAccess :: "(string \<times> bool) list option \<Rightarrow> (string, agent_access) jmap" where
  "toAgentAccess agents =
     (let allowed = fold (\<lambda>(g, a). jset g a) (or_else agents []) [] in
      fold (\<lambda>(g, a). jset g a)
        (map (\<lambda>g. (g, case map_of allowed g of
                          None \<Rightarrow> NotDeployed
                        | Some a \<Rightarrow> if a then Allowed else AdminOnly)) AGENT_IDS) [])"

definition availability_url :: "string \<Rightarrow> string" where
  "availability_url url = strip_trailing (\<lambda>c. c = CHR ''/'') url @ ''/agents/available''"

text \<open>
  The hook: no request without a deployment URL; a response that is not ok, or a request
  that throws, leaves the data undefined, which the hook returns as the empty map.
\<close>

definition useAgentAvailability ::
  "json \<Rightarrow> (string \<Rightarrow> (bool \<times> (string \<times> bool) list option) option) \<Rightarrow> (string, agent_access) jmap"
where
  "useAgentAvailability config fetch =
     (case js_prop config ''deploymentUrl'' of
        JStr url \<Rightarrow>
          (if url = [] then []
           else case fetch (availability_url url) of
                  Some (True, body) \<Rightarrow> toAgentAccess body
                | _ \<Rightarrow> [])
      | _ \<Rightarrow> [])"

section \<open>The stored configuration\<close>

definition CONFIG_KEY :: string where
  "CONFIG_KEY = ''deep-agent-config''"

definition DEFAULT_CONFIG :: "build_env \<Rightarrow> json" where
  "DEFAULT_CONFIG e =
     (let url = env_value (NEXT_PUBLIC_LANGGRAPH_DEPLOYMENT_URL e);
          aid = env_value (NEXT_PUBLIC_LANGGRAPH_ASSISTANT_ID e);
          key = env_value (NEXT_PUBLIC_LANGSMITH_API_KEY e) in
      if truthy url \<and> truthy aid
      then JObj [(''deploymentUrl'', url), (''assistantId'', aid),
                 (''langsmithApiKey'', if truthy key then key else JUndef)]
      else JNull)"

definition getConfig ::
  "build_env \<Rightarrow> (string \<Rightarrow> json option) \<Rightarrow> bool \<Rightarrow> (string, string) jmap \<Rightarrow> json" where
  "getConfig e parse has_window storage =
     (if \<not> has_window then DEFAULT_CONFIG e
      else case map_of storage CONFIG_KEY of
        None \<Rightarrow> DEFAULT_CONFIG e
      | Some stored \<Rightarrow>
          if stored = [] then DEFAULT_CONFIG e
          else case parse stored of
            None \<Rightarrow> DEFAULT_CONFIG e
          | Some parsed \<Rightarrow>
              let d = DEFAULT_CONFIG e in
              if \<not> isConnectionSettingsEnabled e \<and> truthy d
              then spread_with parsed
                     [(''deploymentUrl'', js_prop d ''deploymentUrl''),
                      (''assistantId'', js_prop d ''assistantId''),
                      (''langsmithApiKey'', js_prop d ''langsmithApiKey'')]
              else if isAuthEnabled e \<and> truthy d
              then spread_with parsed
                     [(''deploymentUrl'', js_prop d ''deploymentUrl''),
                      (''assistantId'', js_prop d ''assistantId'')]
              else parsed)"

definition saveConfig :: "bool \<Rightarrow> json \<Rightarrow> (string, string) jmap \<Rightarrow> (string, string) jmap" where
  "saveConfig has_window config storage =
     (if has_window
      then jset CONFIG_KEY (or_else (json_stringify config) ''undefined'') storage
      else storage)"

definition access_allowed :: "(string, agent_access) jmap \<Rightarrow> json \<Rightarrow> bool" where
  "access_allowed availability v =
     (case v of JStr s \<Rightarrow> agentAccess availability s = Own Allowed | _ \<Rightarrow> False)"

definition getEffectiveAgentId :: "json \<Rightarrow> (string, agent_access) jmap \<Rightarrow> json" where
  "getEffectiveAgentId config availability =
     (let picked = js_prop config ''selectedAgentId'';
          aid = js_prop config ''assistantId'' in
      if isKnownAgentId picked \<and> access_allowed availability picked then picked
      else if isKnownAgentId aid then aid
      else if truthy aid then aid
      else JStr DEFAULT_AGENT_ID)"

section \<open>The settings form\<close>

record settings_form =
  form_deploymentUrl :: string
  form_assistantId :: string
  form_langsmithApiKey :: string
  form_mainAgentModel :: string
  form_subagentModel :: string

definition str_or_empty :: "json \<Rightarrow> string" where
  "str_or_empty v = (case v of JStr s \<Rightarrow> s | _ \<Rightarrow> [])"

definition initial_form :: "build_env \<Rightarrow> json option \<Rightarrow> settings_form" where
  "initial_form e initialConfig =
     (let c = or_else initialConfig (DEFAULT_CONFIG e) in
      \<lparr>form_deploymentUrl = str_or_empty (js_prop c ''deploymentUrl''),
       form_assistantId = str_or_empty (js_prop c ''assistantId''),
       form_langsmithApiKey = str_or_empty (js_prop c ''langsmithApiKey''),
       form_mainAgentModel = str_or_empty (js_prop c ''mainAgentModel''),
       form_subagentModel = str_or_empty (js_prop c ''subagentModel'')\<rparr>)"

definition opt_text :: "string \<Rightarrow> json" where
  "opt_text s = (if s = [] then JUndef else JStr s)"

text \<open>\<^verbatim>\<open>handleSave\<close>: the configuration handed to \<^verbatim>\<open>onSave\<close>, or the alert.\<close>

definition handleSave :: "settings_form \<Rightarrow> json result" where
  "handleSave f =
     (if form_deploymentUrl f = [] \<or> form_assistantId f = []
      then throws ''Please fill in all required fields''
      else returns (JObj
        [(''deploymentUrl'', JStr (form_deploymentUrl f)),
         (''assistantId'', JStr (form_assistantId f)),
         (''langsmithApiKey'', opt_text (form_langsmithApiKey f)),
         (''mainAgentModel'', opt_text (js_trim (form_mainAgentModel f))),
         (''subagentModel'', opt_text (js_trim (form_subagentModel f)))]))"

text \<open>
  What the dialog shows: sections with their input fields (id, label, placeholder, input type
  and current value), and the onChange handler of each field.
\<close>

record field_view =
  field_id :: string
  field_label :: string
  field_placeholder :: string
  field_type :: string
  field_value :: string

datatype settings_section =
    AppearanceSection
  | ModelSection "field_view list"
  | ConnectionSection "field_view list"

definition settings_sections :: "build_env \<Rightarrow> settings_form \<Rightarrow> settings_section list" where
  "settings_sections e f =
     [AppearanceSection]
     @ (if isModelOverrideEnabled e
        then [ModelSection
          [\<lparr>field_id = ''mainAgentModel'', field_label = ''Main agent - provider:model'',
            field_placeholder = ''anthropic:claude-sonnet-5-5'', field_type = ''text'',
            field_value = form_mainAgentModel f\<rparr>,
           \<lparr>field_id = ''subagentModel'', field_label = ''Subagents'',
            field_placeholder = ''anthropic:claude-sonnet-5-5'', field_type = ''text'',
            field_value = form_subagentModel f\<rparr>]]
        else [])
     @ (if isConnectionSettingsEnabled e
        then [ConnectionSection
          [\<lparr>field_id = ''deploymentUrl'', field_label = ''Deployment URL'',
            field_placeholder = ''https://<deployment-url>'', field_type = ''text'',
            field_value = form_deploymentUrl f\<rparr>,
           \<lparr>field_id = ''assistantId'', field_label = ''Assistant ID'',
            field_placeholder = ''<assistant-id>'', field_type = ''text'',
            field_value = form_assistantId f\<rparr>,
           \<lparr>field_id = ''langsmithApiKey'', field_label = ''LangSmith API Key (optional)'',
            field_placeholder = ''lsv2_pt_...'', field_type = ''password'',
            field_value = form_langsmithApiKey f\<rparr>]]
        else [])"

definition change_field :: "string \<Rightarrow> string \<Rightarrow> settings_form \<Rightarrow> settings_form" where
  "change_field i v f =
     (if i = ''mainAgentModel'' then f\<lparr>form_mainAgentModel := v\<rparr>
      else if i = ''subagentModel'' then f\<lparr>form_subagentModel := v\<rparr>
      else if i = ''deploymentUrl'' then f\<lparr>form_deploymentUrl := v\<rparr>
      else if i = ''assistantId'' then f\<lparr>form_assistantId := v\<rparr>
      else if i = ''langsmithApiKey'' then f\<lparr>form_langsmithApiKey := v\<rparr>
      else f)"

section \<open>Lemmas\<close>

lemma js_prop_spread:
  "js_prop (spread_with v upd) k =
     (case find (\<lambda>x. fst x = k) (rev upd) of
        Some x \<Rightarrow> snd x
      | None \<Rightarrow> or_else (map_of (own_entries v) k) JUndef)"
  by (simp add: case_prod_unfold am.get_fold first_some_def split: option.splits)

lemma DEFAULT_CONFIG_cases:
  "DEFAULT_CONFIG e = JNull \<or>
   (\<exists>u a. u \<noteq> [] \<and> a \<noteq> [] \<and> NEXT_PUBLIC_LANGGRAPH_DEPLOYMENT_URL e = Some u
      \<and> NEXT_PUBLIC_LANGGRAPH_ASSISTANT_ID e = Some a
      \<and> js_prop (DEFAULT_CONFIG e) ''deploymentUrl'' = JStr u
      \<and> js_prop (DEFAULT_CONFIG e) ''assistantId'' = JStr a)"
  by (cases "NEXT_PUBLIC_LANGGRAPH_DEPLOYMENT_URL e"; cases "NEXT_PUBLIC_LANGGRAPH_ASSISTANT_ID e")
     (auto simp: DEFAULT_CONFIG_def Let_def)

lemma jkeys_toAgentAccess: "jkeys (toAgentAccess body) = AGENT_IDS"
  by (simp add: toAgentAccess_def AGENT_IDS_def CAREER_AGENT_ID_def ANALYTICS_AGENT_ID_def
      jkeys_def Let_def)

lemma map_of_toAgentAccess:
  "map_of (toAgentAccess body) g =
     (if g \<in> set AGENT_IDS
      then Some (case map_of (fold (\<lambda>(g, a). jset g a) (or_else body []) []) g of
                   None \<Rightarrow> NotDeployed | Some a \<Rightarrow> if a then Allowed else AdminOnly)
      else None)"
  by (auto simp: toAgentAccess_def AGENT_IDS_def CAREER_AGENT_ID_def ANALYTICS_AGENT_ID_def Let_def)

lemma agent_ids_not_inherited: "g \<in> set AGENT_IDS \<Longrightarrow> g \<notin> set object_prototype"
  by (auto simp: AGENT_IDS_def CAREER_AGENT_ID_def ANALYTICS_AGENT_ID_def object_prototype_def)

lemma keys_AGENTS:
  "map_of AGENTS g = None \<longleftrightarrow> g \<notin> set AGENT_IDS"
  "(\<exists>y. map_of AGENTS g = Some y) \<longleftrightarrow> g \<in> set AGENT_IDS"
  by (simp_all add: AGENTS_def AGENT_IDS_def)

lemma isKnownAgentId_iff:
  "isKnownAgentId v \<longleftrightarrow> (\<exists>s. v = JStr s \<and> (s \<in> set AGENT_IDS \<or> s \<in> set object_prototype))"
  by (cases v) (auto simp: js_in_iff keys_AGENTS)

text \<open>C6: In multi-user mode the backend URL and the assistant come from the build, whatever
  \<^verbatim>\<open>localStorage\<close> holds and whatever \<^verbatim>\<open>JSON.parse\<close> makes of it: a stored override cannot
  redirect bearer tokens to another origin.\<close>

theorem config_pinned_in_auth_mode:
  assumes "isAuthEnabled e" and "truthy (DEFAULT_CONFIG e)"
  shows "js_prop (getConfig e parse w storage) ''deploymentUrl''
           = js_prop (DEFAULT_CONFIG e) ''deploymentUrl''
       \<and> js_prop (getConfig e parse w storage) ''assistantId''
           = js_prop (DEFAULT_CONFIG e) ''assistantId''"
  using assms
  by (auto simp: getConfig_def Let_def js_prop_spread simp del: spread_with.simps split: option.split)

definition prod_env :: build_env where
  "prod_env = \<lparr>NEXT_PUBLIC_AUTH_ENABLED = Some ''true'', NEXT_PUBLIC_AUTH_GOOGLE_ENABLED = None,
     NEXT_PUBLIC_AUTH_EMAIL_PASSWORD_ENABLED = None, NEXT_PUBLIC_MODEL_OVERRIDE_ENABLED = None,
     NEXT_PUBLIC_CONNECTION_SETTINGS_ENABLED = Some ''false'',
     NEXT_PUBLIC_LANGGRAPH_DEPLOYMENT_URL = Some ''https://api'',
     NEXT_PUBLIC_LANGGRAPH_ASSISTANT_ID = Some ''career_agent'',
     NEXT_PUBLIC_LANGSMITH_API_KEY = None\<rparr>"

definition evil_config :: json where
  "evil_config = JObj [(''deploymentUrl'', JStr ''https://evil''), (''assistantId'', JStr ''x''),
     (''langsmithApiKey'', JStr ''k''), (''mainAgentModel'', JStr ''m'')]"

lemma config_pinned_in_auth_mode_witness:
  "js_prop (getConfig prod_env (\<lambda>_. Some evil_config) True [(CONFIG_KEY, ''x'')]) ''deploymentUrl''
     = JStr ''https://api''"
  using config_pinned_in_auth_mode
    [of prod_env "\<lambda>_. Some evil_config" True "[(CONFIG_KEY, ''x'')]"]
  by (simp add: prod_env_def isAuthEnabled_def DEFAULT_CONFIG_def)

text \<open>Where the Connection settings are hidden, the URL, the assistant and the LangSmith
  key are all the build's, and every other stored preference (such as the model choice) is
  still the stored one.\<close>

theorem config_hidden_connection:
  assumes "\<not> isConnectionSettingsEnabled e" and "truthy (DEFAULT_CONFIG e)"
    and "map_of storage CONFIG_KEY = Some text" and "text \<noteq> []" and "parse text = Some (JObj kvs)"
  shows "js_prop (getConfig e parse True storage) k =
     (if k \<in> {''deploymentUrl'', ''assistantId'', ''langsmithApiKey''}
      then js_prop (DEFAULT_CONFIG e) k else js_prop (JObj kvs) k)"
  using assms
  by (simp add: getConfig_def Let_def js_prop_spread del: spread_with.simps)

lemma config_hidden_connection_witness:
  "js_prop (getConfig prod_env (\<lambda>_. Some evil_config) True [(CONFIG_KEY, ''x'')]) ''langsmithApiKey''
     = JUndef"
  using config_hidden_connection
    [of prod_env "[(CONFIG_KEY, ''x'')]" "''x''" "\<lambda>_. Some evil_config" _ "''langsmithApiKey''"]
  by (simp add: prod_env_def isConnectionSettingsEnabled_def DEFAULT_CONFIG_def evil_config_def)

text \<open>The agent the page talks to is the user's pick only when the registry lists it and
  the availability check, in the shape \<^verbatim>\<open>toAgentAccess\<close> gives it, says it is allowed;
  otherwise it is the configured assistant, or the default agent when none is configured.
  So a link to an agent that is not deployed, or that only admins may run, is never followed.\<close>

theorem effective_agent_sound:
  "getEffectiveAgentId config (toAgentAccess body) =
     (let picked = js_prop config ''selectedAgentId''; aid = js_prop config ''assistantId'' in
      if \<exists>g \<in> set AGENT_IDS. picked = JStr g \<and> map_of (toAgentAccess body) g = Some Allowed
      then picked
      else if truthy aid then aid else JStr ''career_agent'')"
proof -
  have known: "isKnownAgentId p \<and> access_allowed (toAgentAccess body) p
      \<longleftrightarrow> (\<exists>g \<in> set AGENT_IDS. p = JStr g \<and> map_of (toAgentAccess body) g = Some Allowed)" for p
    by (cases p)
       (auto simp: js_in_iff access_allowed_def agentAccess_def js_member_def map_of_toAgentAccess
         keys_AGENTS agent_ids_not_inherited split: option.splits if_splits)
  have truthy_known: "truthy v" if "isKnownAgentId v" for v
    using that by (auto simp: isKnownAgentId_iff AGENT_IDS_def CAREER_AGENT_ID_def
        ANALYTICS_AGENT_ID_def object_prototype_def)
  show ?thesis
    unfolding getEffectiveAgentId_def Let_def known
    using truthy_known by (auto simp: DEFAULT_AGENT_ID_def CAREER_AGENT_ID_def)
qed

text \<open>The availability map has exactly the picker's agents as keys, and an agent is allowed
  only if the backend's list has it with a true flag in its last entry; a listed agent whose
  flag is false is admin-only and an unlisted one is not deployed.\<close>

theorem toAgentAccess_correct:
  "jkeys (toAgentAccess body) = AGENT_IDS \<and>
   (g \<in> set AGENT_IDS \<longrightarrow>
      map_of (toAgentAccess body) g =
        Some (case find (\<lambda>x. fst x = g) (rev (or_else body [])) of
                None \<Rightarrow> NotDeployed
              | Some x \<Rightarrow> if snd x then Allowed else AdminOnly))"
  by (simp add: jkeys_toAgentAccess map_of_toAgentAccess case_prod_unfold am.get_fold
      first_some_def split: option.split)

lemma toAgentAccess_correct_witness:
  "map_of (toAgentAccess (Some [(''career_agent'', True)])) ''analytics_agent'' = Some NotDeployed"
  using toAgentAccess_correct [of "Some [(''career_agent'', True)]" "''analytics_agent''"]
  by (simp add: AGENT_IDS_def CAREER_AGENT_ID_def ANALYTICS_AGENT_ID_def)

text \<open>Saving a configuration and reading it back is the identity on a deployment that
  neither hides the Connection settings nor requires login, for any \<^verbatim>\<open>JSON.parse\<close> that reads
  back what \<^verbatim>\<open>JSON.stringify\<close> wrote.\<close>

theorem save_get_config:
  assumes "\<And>t. json_stringify c = Some t \<Longrightarrow> parse t = Some c"
    and "c \<noteq> JUndef" and "isConnectionSettingsEnabled e" and "\<not> isAuthEnabled e"
  shows "getConfig e parse True (saveConfig True c storage) = c"
proof -
  obtain t where t: "json_stringify c = Some t" "t = json_render [] [] c"
    using assms(2) by (simp add: json_stringify_def)
  have "t \<noteq> []"
    unfolding t(2) by simp
  with t assms show ?thesis
    by (simp add: getConfig_def saveConfig_def Let_def)
qed

lemma save_get_config_witness:
  "getConfig (prod_env\<lparr>NEXT_PUBLIC_AUTH_ENABLED := None,
       NEXT_PUBLIC_CONNECTION_SETTINGS_ENABLED := None\<rparr>)
     (\<lambda>t. if json_stringify evil_config = Some t then Some evil_config else None)
     True (saveConfig True evil_config []) = evil_config"
  by (rule save_get_config)
     (simp_all add: prod_env_def isConnectionSettingsEnabled_def isAuthEnabled_def evil_config_def)

text \<open>The settings form refuses to save without a URL and an assistant, and what it saves
  holds exactly the fields of the form, so saving the settings forgets the agent the user had
  picked: without an \<^verbatim>\<open>?agent=\<close> parameter the page falls back to the assistant of the form.\<close>

theorem handleSave_result:
  "(handleSave f = throws ''Please fill in all required fields'' \<longleftrightarrow>
      form_deploymentUrl f = [] \<or> form_assistantId f = []) \<and>
   (\<forall>c. handleSave f = returns c \<longrightarrow>
      js_prop c ''selectedAgentId'' = JUndef \<and>
      getEffectiveAgentId c availability = JStr (form_assistantId f) \<and>
      js_prop c ''mainAgentModel'' = opt_text (js_trim (form_mainAgentModel f)))"
  by (auto simp: handleSave_def getEffectiveAgentId_def Let_def)

lemma handleSave_result_witness:
  "getEffectiveAgentId
     (JObj [(''deploymentUrl'', JStr ''u''), (''assistantId'', JStr ''career_agent''),
            (''langsmithApiKey'', JUndef), (''mainAgentModel'', JUndef), (''subagentModel'', JUndef)]) []
   = JStr ''career_agent''"
  using handleSave_result [of "\<lparr>form_deploymentUrl = ''u'', form_assistantId = ''career_agent'',
      form_langsmithApiKey = [], form_mainAgentModel = [], form_subagentModel = []\<rparr>" "[]"]
  by (simp add: handleSave_def opt_text_def js_trim_def strip_leading_def)

end
