(* ===== verification/AuthToken.thy ===== *)
theory AuthToken
imports Config
begin

text \<open>
  Bearer tokens: \<^verbatim>\<open>lib/auth/token.ts\<close> (the cache, the single flight of the mint request, the
  header injection and the one retry on 401) and the cached handler pair of
  \<^verbatim>\<open>app/api/auth/[...all]/route.ts\<close>.

  The module state is a record. \<^verbatim>\<open>getBearerToken\<close> is given twice: as a step machine over
  calls and completions, where several callers may wait for one mint, and as the sequential
  function an undisturbed caller sees. \<^verbatim>\<open>atob\<close>, \<^verbatim>\<open>JSON.parse\<close>, the clock, the auth server's
  reply and \<^verbatim>\<open>fetch\<close> are arguments.
\<close>

section \<open>The cache\<close>

record cached_token =
  token :: string
  expiresAtMs :: int

definition EXPIRY_SLACK_MS :: int where
  "EXPIRY_SLACK_MS = 30000"

text \<open>The platform functions the decoding uses; None is a thrown exception.\<close>

record decoders =
  atob :: "string \<Rightarrow> string option"
  json_parse :: "string \<Rightarrow> json option"

definition url_char :: "char \<Rightarrow> char" where
  "url_char c = (if c = CHR ''-'' then CHR ''+'' else if c = CHR ''_'' then CHR ''/'' else c)"

definition token_claims :: "decoders \<Rightarrow> string \<Rightarrow> json option" where
  "token_claims d tok =
     (case split_on (CHR ''.'') tok of
        _ # payload # _ \<Rightarrow> Option.bind (atob d (map url_char payload)) (json_parse d)
      | _ \<Rightarrow> None)"

definition decodeExpiryMs :: "decoders \<Rightarrow> int \<Rightarrow> string \<Rightarrow> int" where
  "decodeExpiryMs d now tok =
     (case token_claims d tok of
        Some claims \<Rightarrow> (case js_prop claims ''exp'' of JNum e \<Rightarrow> e * 1000 | _ \<Rightarrow> now + 60000)
      | None \<Rightarrow> now + 60000)"

text \<open>What \<^verbatim>\<open>authClient.token()\<close> settles to.\<close>

datatype mint_reply = MintThrows | MintError | MintData "string option"

fun minted :: "mint_reply \<Rightarrow> string option" where
  "minted (MintData (Some t)) = (if t = [] then None else Some t)"
| "minted _ = None"

definition fresh :: "int \<Rightarrow> cached_token option \<Rightarrow> string option" where
  "fresh now c =
     (case c of
        Some k \<Rightarrow> if now < expiresAtMs k - EXPIRY_SLACK_MS then Some (token k) else None
      | None \<Rightarrow> None)"

definition store_minted ::
  "decoders \<Rightarrow> int \<Rightarrow> mint_reply \<Rightarrow> cached_token option \<Rightarrow> cached_token option" where
  "store_minted d now r c =
     (case minted r of
        Some t \<Rightarrow> Some \<lparr>token = t, expiresAtMs = decodeExpiryMs d now t\<rparr>
      | None \<Rightarrow> c)"

section \<open>Concurrent callers\<close>

record token_state =
  cached :: "cached_token option"
  inflight :: "nat list option"
  settled :: "(nat \<times> string option) list"
  mints_sent :: nat
  mints_done :: nat

datatype token_event =
    Call nat int
  | MintReply mint_reply int
  | ClearBearerToken

definition token_init :: token_state where
  "token_init = \<lparr>cached = None, inflight = None, settled = [], mints_sent = 0, mints_done = 0\<rparr>"

text \<open>
  A call settles at once when auth is off or the cache is fresh, otherwise it joins the mint in
  flight or starts one. A reply settles every waiter with the same token and ends the flight.
\<close>

fun token_react :: "bool \<Rightarrow> decoders \<Rightarrow> token_state \<Rightarrow> token_event \<Rightarrow> token_state" where
  "token_react auth d st (Call i now) =
     (if \<not> auth then st\<lparr>settled := settled st @ [(i, None)]\<rparr>
      else case fresh now (cached st) of
        Some t \<Rightarrow> st\<lparr>settled := settled st @ [(i, Some t)]\<rparr>
      | None \<Rightarrow>
          (case inflight st of
             Some ws \<Rightarrow> st\<lparr>inflight := Some (ws @ [i])\<rparr>
           | None \<Rightarrow> st\<lparr>inflight := Some [i], mints_sent := mints_sent st + 1\<rparr>))"
| "token_react auth d st (MintReply r now) =
     (case inflight st of
        None \<Rightarrow> st
      | Some ws \<Rightarrow>
          st\<lparr>cached := store_minted d now r (cached st), inflight := None,
             settled := settled st @ map (\<lambda>i. (i, minted r)) ws,
             mints_done := mints_done st + 1\<rparr>)"
| "token_react auth d st ClearBearerToken = st\<lparr>cached := None\<rparr>"

definition token_good :: "token_state \<Rightarrow> bool" where
  "token_good st =
     (mints_sent st = mints_done st + (if inflight st = None then 0 else 1) \<and>
      inflight st \<noteq> Some [] \<and>
      (\<forall>k. cached st = Some k \<longrightarrow> token k \<noteq> []))"

section \<open>The sequential view and the request wrappers\<close>

record auth_world =
  auth_on :: bool
  dec :: decoders
  clock :: int
  reply :: mint_reply

definition getBearerToken ::
  "auth_world \<Rightarrow> cached_token option \<Rightarrow> string option \<times> cached_token option" where
  "getBearerToken w c =
     (if \<not> auth_on w then (None, c)
      else case fresh (clock w) c of
        Some t \<Rightarrow> (Some t, c)
      | None \<Rightarrow> (minted (reply w), store_minted (dec w) (clock w) (reply w) c))"

definition clearBearerToken :: "cached_token option \<Rightarrow> cached_token option" where
  "clearBearerToken c = None"

text \<open>A request: its target and, when an init object was passed, its headers.\<close>

record http_init =
  init_method :: string
  init_headers :: "(string, string) jmap"
  init_body :: "string option"

type_synonym http_request = "string \<times> http_init option"

record http_response =
  resp_status :: nat
  resp_body :: string

definition resp_ok :: "http_response \<Rightarrow> bool" where
  "resp_ok r = (200 \<le> resp_status r \<and> resp_status r \<le> 299)"

definition default_init :: http_init where
  "default_init = \<lparr>init_method = ''GET'', init_headers = [], init_body = None\<rparr>"

definition with_bearer :: "string \<Rightarrow> http_init option \<Rightarrow> http_init" where
  "with_bearer t i =
     (let base = or_else i default_init in
      base\<lparr>init_headers := jset ''authorization'' (''Bearer '' @ t) (init_headers base)\<rparr>)"

definition truthy_token :: "string option \<Rightarrow> string option" where
  "truthy_token t = (case t of Some s \<Rightarrow> if s = [] then None else Some s | None \<Rightarrow> None)"

definition authOnRequest ::
  "auth_world \<Rightarrow> cached_token option \<Rightarrow> http_init \<Rightarrow> http_init \<times> cached_token option" where
  "authOnRequest w c i =
     (let (tok, c') = getBearerToken w c in
      case truthy_token tok of
        None \<Rightarrow> (i, c')
      | Some t \<Rightarrow> (with_bearer t (Some i), c'))"

text \<open>
  \<^verbatim>\<open>authedFetch\<close>: the requests it makes in order, the response it returns and the cache it
  leaves. The worlds are the ones seen by the first and by the second token request.
\<close>

definition authedFetch ::
  "auth_world \<Rightarrow> auth_world \<Rightarrow> (http_request \<Rightarrow> http_response) \<Rightarrow> (http_request \<Rightarrow> http_response) \<Rightarrow>
   cached_token option \<Rightarrow> string \<Rightarrow> http_init option \<Rightarrow>
   http_request list \<times> http_response \<times> cached_token option" where
  "authedFetch w1 w2 fetch1 fetch2 c input i =
     (let (tok1, c1) = getBearerToken w1 c in
      case truthy_token tok1 of
        None \<Rightarrow> ([(input, i)], fetch1 (input, i), c1)
      | Some t \<Rightarrow>
          let r1 = (input, Some (with_bearer t i)); res = fetch1 r1 in
          if resp_status res \<noteq> 401 then ([r1], res, c1)
          else let (tok2, c2) = getBearerToken w2 (clearBearerToken c1) in
            case truthy_token tok2 of
              None \<Rightarrow> ([r1], res, c2)
            | Some t2 \<Rightarrow>
                if t2 = t then ([r1], res, c2)
                else let r2 = (input, Some (with_bearer t2 i)) in ([r1, r2], fetch2 r2, c2))"

section \<open>The auth route\<close>

text \<open>
  \<^verbatim>\<open>loadHandlers\<close> remembers the promise of the two imports, also one that rejected. The
  import is the argument; \<^verbatim>\<open>'h\<close> is a handler pair.
\<close>

type_synonym 'h route_cache = "'h result option"

definition loadHandlers :: "'h result \<Rightarrow> 'h route_cache \<Rightarrow> 'h result \<times> 'h route_cache" where
  "loadHandlers import_result c =
     (case c of Some p \<Rightarrow> (p, c) | None \<Rightarrow> (import_result, Some import_result))"

definition auth_disabled_response :: http_response where
  "auth_disabled_response = \<lparr>resp_status = 404, resp_body = ''Not Found''\<rparr>"

definition auth_route ::
  "bool \<Rightarrow> 'h result \<Rightarrow> ('h \<Rightarrow> http_request \<Rightarrow> http_response) \<Rightarrow> 'h route_cache \<Rightarrow> http_request
   \<Rightarrow> http_response result \<times> 'h route_cache" where
  "auth_route enabled import_result handle c req =
     (if \<not> enabled then (returns auth_disabled_response, c)
      else case loadHandlers import_result c of
        (Inl e, c') \<Rightarrow> (throws e, c')
      | (Inr h, c') \<Rightarrow> (returns (handle h req), c'))"

section \<open>The session gate\<close>

datatype gate_view = Children | LoadingGate

definition session_gate :: "bool \<Rightarrow> bool \<Rightarrow> bool \<Rightarrow> gate_view \<times> bool" where
  "session_gate enabled has_session is_pending =
     (if \<not> enabled then (Children, False)
      else (if has_session then Children else LoadingGate, \<not> is_pending \<and> \<not> has_session))"

section \<open>Lemmas\<close>

lemma minted_not_Nil: "minted r = Some t \<Longrightarrow> t \<noteq> []"
  by (induction r rule: minted.induct) (auto split: if_splits)

lemma store_minted_None [simp]: "minted r = None \<Longrightarrow> store_minted d now r c = c"
  by (simp add: store_minted_def)

lemma fresh_Some:
  "fresh now c = Some t \<longleftrightarrow>
     (\<exists>k. c = Some k \<and> token k = t \<and> now < expiresAtMs k - EXPIRY_SLACK_MS)"
  by (auto simp: fresh_def split: option.splits)

lemma token_good_react: "token_good st \<Longrightarrow> token_good (token_react auth d st ev)"
  by (cases ev) (auto simp: token_good_def store_minted_def minted_not_Nil split: option.splits)

interpretation tok: reducer token_init "token_react auth d" token_good
  by unfold_locales (simp_all add: token_good_react, simp add: token_good_def token_init_def)

lemma getBearerToken_off [simp]: "\<not> auth_on w \<Longrightarrow> getBearerToken w c = (None, c)"
  by (simp add: getBearerToken_def)

lemma truthy_token_Some: "truthy_token t = Some s \<longleftrightarrow> t = Some s \<and> s \<noteq> []"
  by (auto simp: truthy_token_def split: option.splits)

fun event_calls :: "token_event list \<Rightarrow> nat list" where
  "event_calls [] = []"
| "event_calls (Call i now # es) = i # event_calls es"
| "event_calls (_ # es) = event_calls es"

definition waiting :: "token_state \<Rightarrow> nat list" where
  "waiting st = or_else (inflight st) []"

lemma token_react_accounts:
  "mset (map fst (settled (token_react auth d st ev))) + mset (waiting (token_react auth d st ev)) =
   mset (map fst (settled st)) + mset (waiting st) + mset (event_calls [ev])"
  by (cases ev) (auto simp: waiting_def comp_def image_mset.compositionality split: option.splits)

lemma event_calls_Cons: "event_calls (e # es) = event_calls [e] @ event_calls es"
  by (cases e) auto

lemma token_run_accounts:
  "mset (map fst (settled (foldl (token_react auth d) st es)))
     + mset (waiting (foldl (token_react auth d) st es)) =
   mset (map fst (settled st)) + mset (waiting st) + mset (event_calls es)"
proof (induction es arbitrary: st)
  case (Cons e es)
  then show ?case
    using token_react_accounts [of auth d st e] event_calls_Cons [of e es] by (simp add: ac_simps)
qed simp

text \<open>C5: However calls, replies and clears interleave, at most one mint request is outstanding,
  and every call is accounted for exactly once: it has been settled or it waits for the mint in
  flight, so no caller is lost and none is answered twice.\<close>

theorem token_single_flight:
  "let st = foldl (token_react auth d) token_init es in
   mints_sent st \<le> mints_done st + 1 \<and>
   (waiting st \<noteq> [] \<longleftrightarrow> mints_sent st = mints_done st + 1) \<and>
   mset (map fst (settled st)) + mset (waiting st) = mset (event_calls es)"
  using tok.run_start_good [of auth d es] token_run_accounts [of auth d token_init es]
  by (auto simp: Let_def token_good_def token_init_def waiting_def split: option.splits if_splits)

text \<open>The sequential \<^verbatim>\<open>getBearerToken\<close> is the machine run by one undisturbed caller: the call
  followed by the reply settles that caller with the token the function returns and leaves the
  cache the function leaves.\<close>

theorem getBearerToken_refines:
  assumes "inflight st = None" and "token_good st"
  shows "let st' = foldl (token_react (auth_on w) (dec w)) st
                     (Call i (clock w) # (if auth_on w \<and> fresh (clock w) (cached st) = None
                                          then [MintReply (reply w) (clock w)] else [])) in
         settled st' = settled st @ [(i, fst (getBearerToken w (cached st)))] \<and>
         cached st' = snd (getBearerToken w (cached st)) \<and> inflight st' = None"
  using assms by (auto simp: Let_def getBearerToken_def split: option.splits)

definition sample_world :: auth_world where
  "sample_world = \<lparr>auth_on = True, dec = \<lparr>atob = Some, json_parse = \<lambda>_. None\<rparr>, clock = 1000,
     reply = MintData (Some ''tok'')\<rparr>"

lemma getBearerToken_refines_witness:
  "settled (foldl (token_react True (dec sample_world)) token_init
     [Call 7 1000, MintReply (MintData (Some ''tok'')) 1000]) = [(7, Some ''tok'')]"
  using getBearerToken_refines [of token_init sample_world 7]
  by (simp add: sample_world_def token_init_def token_good_def fresh_def getBearerToken_def Let_def)

text \<open>\<^verbatim>\<open>authedFetch\<close> sends one request or two, and two only after a 401 answered with a
  different fresh token; every request of an authenticated caller carries a bearer header, the
  retry the new token, and the result is the answer to the last request sent.\<close>

theorem authedFetch_retry:
  assumes "authedFetch w1 w2 f1 f2 c input i = (reqs, res, c')"
  shows "(\<exists>r. reqs = [r] \<and> res = f1 r) \<or>
         (\<exists>t t2. reqs = [(input, Some (with_bearer t i)), (input, Some (with_bearer t2 i))] \<and>
            resp_status (f1 (hd reqs)) = 401 \<and> t2 \<noteq> t \<and> res = f2 (last reqs) \<and>
            fst (getBearerToken w1 c) = Some t \<and>
            fst (getBearerToken w2 None) = Some t2)"
  using assms
  by (auto simp: authedFetch_def Let_def clearBearerToken_def truthy_token_Some
      split: prod.splits option.splits if_splits)

lemma authedFetch_retry_witness:
  "length (fst (authedFetch sample_world (sample_world\<lparr>reply := MintData (Some ''new'')\<rparr>)
      (\<lambda>_. \<lparr>resp_status = 401, resp_body = []\<rparr>) (\<lambda>_. \<lparr>resp_status = 200, resp_body = []\<rparr>) None ''/x'' None)) = 2"
  using authedFetch_retry [of sample_world "sample_world\<lparr>reply := MintData (Some ''new'')\<rparr>"
      "\<lambda>_. \<lparr>resp_status = 401, resp_body = []\<rparr>" "\<lambda>_. \<lparr>resp_status = 200, resp_body = []\<rparr>" None "''/x''" None]
  by (simp add: authedFetch_def sample_world_def getBearerToken_def fresh_def truthy_token_def
      clearBearerToken_def Let_def)

text \<open>In zero-login mode the wrapper is transparent: one request, unchanged down to the
  absent init object, whatever the cache holds, and the cache is left alone.\<close>

theorem authedFetch_zero_login:
  assumes "\<not> auth_on w1"
  shows "authedFetch w1 w2 f1 f2 c input i = ([(input, i)], f1 (input, i), c)"
  using assms by (simp add: authedFetch_def truthy_token_def)

lemma authedFetch_zero_login_witness:
  "fst (authedFetch (sample_world\<lparr>auth_on := False\<rparr>) sample_world
     (\<lambda>_. \<lparr>resp_status = 200, resp_body = []\<rparr>) (\<lambda>_. \<lparr>resp_status = 200, resp_body = []\<rparr>) None ''/x'' None)
   = [(''/x'', None)]"
  using authedFetch_zero_login [of "sample_world\<lparr>auth_on := False\<rparr>"]
  by (simp add: sample_world_def)

end
