(* ===== verification/Usage.thy ===== *)
theory Usage
imports Config
begin

text \<open>
  The usage quota (\<^verbatim>\<open>app/hooks/useUsage.ts\<close>): the message of a blocked composer, the reading
  of a refused run, and the hook that refetches when a run ends. Dates are argument functions:
  \<^verbatim>\<open>same_day\<close> compares with today, \<^verbatim>\<open>locale_time\<close> prints with or without the weekday.
\<close>

datatype block_reason = RunsDay | RunsWeek | UsdDay | UsdWeek | GlobalUsdDay

record usage_status =
  enabled :: bool
  blocked :: "bool option"
  block_reason :: "block_reason option"
  usage_message :: "string option"
  resets_at :: "string option"
  runs_left_today :: "int option"

fun BLOCKED_COPY :: "block_reason \<Rightarrow> string" where
  "BLOCKED_COPY RunsDay = ''You've used all your runs for the last 24 hours.''"
| "BLOCKED_COPY RunsWeek = ''You've used all your runs for the last 7 days.''"
| "BLOCKED_COPY UsdDay = ''You've used your usage allowance for the last 24 hours.''"
| "BLOCKED_COPY UsdWeek = ''You've used your usage allowance for the last 7 days.''"
| "BLOCKED_COPY GlobalUsdDay = ''NextRole has reached its shared daily capacity.''"

definition non_empty :: "string option \<Rightarrow> string option" where
  "non_empty s = (case s of Some t \<Rightarrow> if t = [] then None else Some t | None \<Rightarrow> None)"

definition blockedMessage ::
  "(string \<Rightarrow> bool) \<Rightarrow> (bool \<Rightarrow> string \<Rightarrow> string) \<Rightarrow> usage_status \<Rightarrow> string" where
  "blockedMessage same_day locale_time usage =
     (let base = (case block_reason usage of
                    Some r \<Rightarrow> BLOCKED_COPY r
                  | None \<Rightarrow> or_else (non_empty (usage_message usage)) ''Usage limit reached.'') in
      case non_empty (resets_at usage) of
        None \<Rightarrow> base
      | Some at \<Rightarrow>
          base @ '' You can start a new run after '' @ locale_time (\<not> same_day at) at @ ''.'')"

text \<open>\<^verbatim>\<open>/^429:\s*([\s\S]+)$/\<close>: the group is the rest after white space, or, when the rest is all
  white space, the one character the backtracking leaves to it.\<close>

definition match_429 :: "string \<Rightarrow> string option" where
  "match_429 msg =
     (if starts_with msg ''429:''
      then (let rest = drop 4 msg; body = strip_leading is_space rest in
            if rest = [] then None else if body \<noteq> [] then Some body else Some [last rest])
      else None)"

definition quotaRefusalMessage :: "(string \<Rightarrow> json option) \<Rightarrow> json \<Rightarrow> string option" where
  "quotaRefusalMessage parse error =
     (if \<not> truthy error \<or> \<not> is_object error then None
      else if js_prop error ''status'' \<noteq> JNum 429
      then (case js_prop error ''message'' of
              JStr msg \<Rightarrow> map_option js_trim (match_429 msg)
            | _ \<Rightarrow> None)
      else case js_prop error ''text'' of
        JStr t \<Rightarrow>
          if t = [] then Some ''Usage limit reached. Try again later.''
          else (case parse t of
                  None \<Rightarrow> Some t
                | Some body \<Rightarrow>
                    if nullish body then Some t
                    else (case js_prop body ''detail'' of
                            JStr d \<Rightarrow> Some d
                          | _ \<Rightarrow> Some ''Usage limit reached. Try again later.''))
      | _ \<Rightarrow> Some ''Usage limit reached. Try again later.'')"

text \<open>The hook: what it exposes, and its effect on a change of \<^verbatim>\<open>isLoading\<close>.\<close>

definition exposed_usage :: "usage_status option \<Rightarrow> usage_status option" where
  "exposed_usage data = (case data of Some u \<Rightarrow> if enabled u then Some u else None | None \<Rightarrow> None)"

definition usage_fetch ::
  "json \<Rightarrow> (string \<Rightarrow> (nat \<times> usage_status) option) \<Rightarrow> usage_status option" where
  "usage_fetch config fetch =
     (case js_prop config ''deploymentUrl'' of
        JStr url \<Rightarrow>
          if url = [] then None
          else (case fetch (strip_trailing (\<lambda>c. c = CHR ''/'') url @ ''/usage'') of
                  Some (st, u) \<Rightarrow> if 200 \<le> st \<and> st \<le> 299 then Some u else None
                | None \<Rightarrow> None)
      | _ \<Rightarrow> None)"

record usage_hook =
  wasLoading :: bool
  refetches :: nat

definition usage_effect :: "usage_hook \<Rightarrow> bool \<Rightarrow> usage_hook" where
  "usage_effect h isLoading =
     \<lparr>wasLoading = isLoading,
      refetches = (if wasLoading h \<and> \<not> isLoading then refetches h + 1 else refetches h)\<rparr>"

fun falling_edges :: "bool \<Rightarrow> bool list \<Rightarrow> nat" where
  "falling_edges prev [] = 0"
| "falling_edges prev (b # bs) = (if prev \<and> \<not> b then 1 else 0) + falling_edges b bs"

text \<open>A refused run is recognised in both shapes the server's answer takes: an error object
  with status 429 always yields a message, the server's own detail when the body has one; any
  other error yields one exactly when its message starts with \<^verbatim>\<open>429:\<close> and has more text.\<close>

theorem quota_refusal_shapes:
  "(quotaRefusalMessage parse (JObj kvs) = None \<longleftrightarrow>
      js_prop (JObj kvs) ''status'' \<noteq> JNum 429 \<and>
      (\<forall>rest. js_prop (JObj kvs) ''message'' = JStr (''429:'' @ rest) \<longrightarrow> rest = [])) \<and>
   (js_prop (JObj kvs) ''status'' = JNum 429 \<longrightarrow> js_prop (JObj kvs) ''text'' = JStr t \<longrightarrow>
      t \<noteq> [] \<longrightarrow> parse t = Some (JObj [(''detail'', JStr d)]) \<longrightarrow>
      quotaRefusalMessage parse (JObj kvs) = Some d)"
proof (intro conjI impI)
  have m: "match_429 msg = None \<longleftrightarrow> (\<forall>rest. msg = ''429:'' @ rest \<longrightarrow> rest = [])" for msg
  proof
    assume a: "match_429 msg = None"
    show "\<forall>rest. msg = ''429:'' @ rest \<longrightarrow> rest = []"
    proof (intro allI impI)
      fix rest assume "msg = ''429:'' @ rest"
      with a show "rest = []" by (simp add: match_429_def Let_def split: if_splits)
    qed
  next
    assume a: "\<forall>rest. msg = ''429:'' @ rest \<longrightarrow> rest = []"
    show "match_429 msg = None"
    proof (cases "starts_with msg ''429:''")
      case True
      have "msg = ''429:'' @ drop 4 msg" using starts_with_dest [OF True] by (simp add: eval_nat_numeral)
      with a have "drop 4 msg = []" by blast
      then show ?thesis by (simp add: match_429_def)
    qed (simp add: match_429_def)
  qed
  show "quotaRefusalMessage parse (JObj kvs) = None \<longleftrightarrow>
      js_prop (JObj kvs) ''status'' \<noteq> JNum 429 \<and>
      (\<forall>rest. js_prop (JObj kvs) ''message'' = JStr (''429:'' @ rest) \<longrightarrow> rest = [])"
    by (cases "js_prop (JObj kvs) ''status'' = JNum 429")
       (simp_all add: quotaRefusalMessage_def m split: json.split option.split)
qed (simp add: quotaRefusalMessage_def)

lemma quota_refusal_shapes_witness:
  "quotaRefusalMessage (\<lambda>_. Some (JObj [(''detail'', JStr ''limit'')]))
     (JObj [(''status'', JNum 429), (''text'', JStr ''x'')]) = Some ''limit''"
  using quota_refusal_shapes [of "\<lambda>_. Some (JObj [(''detail'', JStr ''limit'')])"
      "[(''status'', JNum 429), (''text'', JStr ''x'')]" "''x''" "''limit''"]
  by simp

lemma usage_effect_run:
  "foldl usage_effect h bs =
     \<lparr>wasLoading = last (wasLoading h # bs),
      refetches = refetches h + falling_edges (wasLoading h) bs\<rparr>"
  by (induction bs arbitrary: h) (auto simp: usage_effect_def)

end
