(* ===== verification/Threads.thy ===== *)
theory Threads
imports Config
begin

text \<open>
  The history of conversations: the paging keys, the search request and the row of a thread
  (\<^verbatim>\<open>app/hooks/useThreads.ts\<close>), and the list that groups and shows the rows
  (\<^verbatim>\<open>app/components/ThreadList.tsx\<close>). \<^verbatim>\<open>Date\<close> parsing and \<^verbatim>\<open>date-fns\<close> formatting are
  arguments; dates are epoch milliseconds.
\<close>

section \<open>Paging and rows\<close>

datatype thread_status = Idle | Busy | Interrupted | ErrorStatus

record thread_item =
  t_id :: string
  t_updatedAt :: int
  t_status :: thread_status
  t_title :: string
  t_description :: string
  t_assistantId :: json
  t_graphId :: string

definition DEFAULT_PAGE_SIZE :: nat where
  "DEFAULT_PAGE_SIZE = 20"

record page_key =
  pk_pageIndex :: nat
  pk_pageSize :: nat
  pk_deploymentUrl :: json
  pk_assistantId :: json
  pk_graphId :: string
  pk_apiKey :: json
  pk_status :: "thread_status option"

definition or_falsy :: "json \<Rightarrow> json \<Rightarrow> json" where
  "or_falsy v w = (if truthy v then v else w)"

definition page_size :: "nat option \<Rightarrow> nat" where
  "page_size limit = (case limit of Some n \<Rightarrow> if n = 0 then DEFAULT_PAGE_SIZE else n
                                   | None \<Rightarrow> DEFAULT_PAGE_SIZE)"

definition thread_page_key ::
  "build_env \<Rightarrow> json \<Rightarrow> nat option \<Rightarrow> string \<Rightarrow> thread_status option \<Rightarrow>
   nat \<Rightarrow> thread_item list option \<Rightarrow> page_key option" where
  "thread_page_key e config limit gid st pageIndex previous =
     (if \<not> truthy config then None
      else if previous = Some [] then None
      else Some \<lparr>pk_pageIndex = pageIndex, pk_pageSize = page_size limit,
             pk_deploymentUrl = js_prop config ''deploymentUrl'',
             pk_assistantId = js_prop config ''assistantId'', pk_graphId = gid,
             pk_apiKey = or_falsy (js_prop config ''langsmithApiKey'')
                          (or_falsy (env_value (NEXT_PUBLIC_LANGSMITH_API_KEY e)) (JStr [])),
             pk_status = st\<rparr>)"

record thread_search =
  ts_limit :: nat
  ts_offset :: nat
  ts_sortBy :: string
  ts_sortOrder :: string
  ts_status :: "thread_status option"
  ts_graph_id :: string

definition thread_query :: "page_key \<Rightarrow> thread_search" where
  "thread_query k =
     \<lparr>ts_limit = pk_pageSize k, ts_offset = pk_pageIndex k * pk_pageSize k,
      ts_sortBy = ''updated_at'', ts_sortOrder = ''desc'', ts_status = pk_status k,
      ts_graph_id = pk_graphId k\<rparr>"

text \<open>A thread as the server returns it.\<close>

record api_thread =
  thread_id :: string
  updated_at :: string
  api_status :: thread_status
  api_values :: json
  api_graph_id :: "string option"

text \<open>
  \<^verbatim>\<open>messages.find(m => m.type === kind)\<close>; None when it throws (a nullish element met before
  the match, or \<^verbatim>\<open>messages\<close> not an array).
\<close>

fun find_message :: "string \<Rightarrow> json list \<Rightarrow> json option" where
  "find_message kind [] = Some JUndef"
| "find_message kind (m # ms) =
     (if nullish m then None
      else if js_prop m ''type'' = JStr kind then Some m
      else find_message kind ms)"

definition message_of :: "string \<Rightarrow> json \<Rightarrow> json option" where
  "message_of kind vals =
     (case js_prop vals ''messages'' of JArr ms \<Rightarrow> find_message kind ms | _ \<Rightarrow> None)"

text \<open>The text of a message with content: the string, or the first block's \<^verbatim>\<open>text\<close> or the empty
  string. Text that is not a string has no \<^verbatim>\<open>slice\<close> and throws.\<close>

definition first_element :: "json \<Rightarrow> json" where
  "first_element c = (case c of JArr (b # _) \<Rightarrow> b | JObj _ \<Rightarrow> js_prop c ''0'' | _ \<Rightarrow> JUndef)"

definition content_text :: "json \<Rightarrow> string option" where
  "content_text c =
     (case c of
        JStr s \<Rightarrow> Some s
      | _ \<Rightarrow> (case or_falsy (js_prop (first_element c) ''text'') (JStr []) of
                JStr s \<Rightarrow> Some s
              | _ \<Rightarrow> None))"

text \<open>The two steps of the \<^verbatim>\<open>try\<close> block, each keeping the given text where no message has
  content, None where the block throws.\<close>

definition message_text :: "string \<Rightarrow> json \<Rightarrow> (string \<Rightarrow> string) \<Rightarrow> string \<Rightarrow> string option" where
  "message_text kind vals f old =
     Option.bind (message_of kind vals)
       (\<lambda>m. let c = js_prop m ''content'' in
         if truthy c then map_option f (content_text c) else Some old)"

definition title_text :: "string \<Rightarrow> string" where
  "title_text s = take 50 s @ (if length s > 50 then ''...'' else [])"

definition row_texts :: "api_thread \<Rightarrow> string \<times> string" where
  "row_texts t =
     (let v = api_values t; fallback = ''Thread '' @ take 8 (thread_id t) in
      if truthy v \<and> is_object v
      then (case message_text ''human'' v title_text ''Untitled Thread'' of
              None \<Rightarrow> (fallback, [])
            | Some title \<Rightarrow>
                (case message_text ''ai'' v (take 100) [] of
                   None \<Rightarrow> (fallback, [])
                 | Some d \<Rightarrow> (title, d)))
      else (''Untitled Thread'', []))"

definition to_thread_item :: "(string \<Rightarrow> int) \<Rightarrow> page_key \<Rightarrow> api_thread \<Rightarrow> thread_item" where
  "to_thread_item date k t =
     \<lparr>t_id = thread_id t, t_updatedAt = date (updated_at t), t_status = api_status t,
      t_title = fst (row_texts t), t_description = snd (row_texts t),
      t_assistantId = pk_assistantId k, t_graphId = or_else (api_graph_id t) (pk_graphId k)\<rparr>"

definition fetch_page ::
  "(string \<Rightarrow> int) \<Rightarrow> (thread_search \<Rightarrow> api_thread list) \<Rightarrow> page_key \<Rightarrow> thread_item list" where
  "fetch_page date search k = map (to_thread_item date k) (search (thread_query k))"

section \<open>Grouping\<close>

datatype group = GInterrupted | GToday | GYesterday | GWeek | GOlder

definition all_groups :: "group list" where
  "all_groups = [GInterrupted, GToday, GYesterday, GWeek, GOlder]"

fun GROUP_LABELS :: "group \<Rightarrow> string" where
  "GROUP_LABELS GInterrupted = ''Requiring Attention''"
| "GROUP_LABELS GToday = ''Today''"
| "GROUP_LABELS GYesterday = ''Yesterday''"
| "GROUP_LABELS GWeek = ''This Week''"
| "GROUP_LABELS GOlder = ''Older''"

fun getThreadColor :: "thread_status \<Rightarrow> string" where
  "getThreadColor Idle = ''bg-green-500''"
| "getThreadColor Busy = ''bg-blue-500''"
| "getThreadColor Interrupted = ''bg-orange-500''"
| "getThreadColor ErrorStatus = ''bg-red-600''"

definition days_since :: "int \<Rightarrow> int \<Rightarrow> int" where
  "days_since now date = (now - date) div (1000 * 60 * 60 * 24)"

definition formatTime :: "(string \<Rightarrow> int \<Rightarrow> string) \<Rightarrow> int \<Rightarrow> int \<Rightarrow> string" where
  "formatTime fmt date now =
     (let days = days_since now date in
      if days = 0 then fmt ''HH:mm'' date
      else if days = 1 then ''Yesterday''
      else if days < 7 then fmt ''EEEE'' date
      else fmt ''MM/dd'' date)"

definition group_of :: "int \<Rightarrow> thread_item \<Rightarrow> group" where
  "group_of now t =
     (if t_status t = Interrupted then GInterrupted
      else let days = days_since now (t_updatedAt t) in
        if days = 0 then GToday
        else if days = 1 then GYesterday
        else if days < 7 then GWeek
        else GOlder)"

text \<open>The loop over the rows, pushing each into one group.\<close>

definition push_group :: "int \<Rightarrow> (group \<Rightarrow> thread_item list) \<Rightarrow> thread_item \<Rightarrow> group \<Rightarrow> thread_item list"
where
  "push_group now gs t = (\<lambda>g. if g = group_of now t then gs g @ [t] else gs g)"

definition grouped :: "int \<Rightarrow> thread_item list \<Rightarrow> group \<Rightarrow> thread_item list" where
  "grouped now ts = foldl (push_group now) (\<lambda>_. []) ts"

definition interruptedCount :: "thread_item list \<Rightarrow> nat" where
  "interruptedCount ts = length (filter (\<lambda>t. t_status t = Interrupted) ts)"

section \<open>What the list shows\<close>

record threads_swr =
  swr_data :: "thread_item list list option"
  swr_size :: nat
  swr_isLoading :: bool
  swr_error :: "string option"

definition flattened :: "threads_swr \<Rightarrow> thread_item list" where
  "flattened s = concat (or_else (swr_data s) [])"

definition isLoadingMore :: "threads_swr \<Rightarrow> bool" where
  "isLoadingMore s =
     (swr_size s > 0 \<and>
      (case swr_data s of None \<Rightarrow> True | Some d \<Rightarrow> swr_size s - 1 \<ge> length d))"

definition isEmpty :: "threads_swr \<Rightarrow> bool" where
  "isEmpty s = (case swr_data s of Some (p # _) \<Rightarrow> p = [] | _ \<Rightarrow> False)"

definition isReachingEnd :: "threads_swr \<Rightarrow> bool" where
  "isReachingEnd s =
     (isEmpty s \<or>
      (case swr_data s of
         None \<Rightarrow> True
       | Some d \<Rightarrow> (if d = [] then 0 else length (last d)) < 20))"

record row_view =
  rv_id :: string
  rv_title :: string
  rv_time :: string
  rv_description :: string
  rv_color :: string
  rv_current :: bool

record threads_view =
  tv_error :: "string option"
  tv_loading :: bool
  tv_empty :: bool
  tv_groups :: "(string \<times> row_view list) list"
  tv_load_more :: "bool option"

definition row_view_of ::
  "(string \<Rightarrow> int \<Rightarrow> string) \<Rightarrow> int \<Rightarrow> string option \<Rightarrow> thread_item \<Rightarrow> row_view" where
  "row_view_of fmt now current t =
     \<lparr>rv_id = t_id t, rv_title = t_title t, rv_time = formatTime fmt (t_updatedAt t) now,
      rv_description = t_description t, rv_color = getThreadColor (t_status t),
      rv_current = (current = Some (t_id t))\<rparr>"

text \<open>The body of the list; \<^verbatim>\<open>tv_load_more\<close> is the button, with its disabled flag.\<close>

definition threads_body ::
  "(string \<Rightarrow> int \<Rightarrow> string) \<Rightarrow> int \<Rightarrow> string option \<Rightarrow> threads_swr \<Rightarrow> threads_view" where
  "threads_body fmt now current s =
     (let shown = swr_error s = None \<and> \<not> isEmpty s in
      \<lparr>tv_error = swr_error s,
       tv_loading = (swr_error s = None \<and> swr_data s = None \<and> swr_isLoading s),
       tv_empty = (swr_error s = None \<and> \<not> swr_isLoading s \<and> isEmpty s),
       tv_groups =
         (if shown
          then map (\<lambda>g. (GROUP_LABELS g, map (row_view_of fmt now current) (grouped now (flattened s) g)))
                 (filter (\<lambda>g. grouped now (flattened s) g \<noteq> []) all_groups)
          else []),
       tv_load_more = (if shown \<and> \<not> isReachingEnd s then Some (isLoadingMore s) else None)\<rparr>)"

text \<open>The filter menu of the header: value, label, dot colour and badge.\<close>

definition filter_options :: "nat \<Rightarrow> (string \<times> string \<times> string option \<times> nat option) list" where
  "filter_options cnt =
     [(''all'', ''All statuses'', None, None),
      (''idle'', ''Idle'', Some (getThreadColor Idle), None),
      (''busy'', ''Busy'', Some (getThreadColor Busy), None),
      (''interrupted'', ''Interrupted'', Some (getThreadColor Interrupted),
         if cnt > 0 then Some cnt else None),
      (''error'', ''Error'', Some (getThreadColor ErrorStatus), None)]"

definition pin_label :: "bool \<Rightarrow> string \<times> string" where
  "pin_label pinned = (if pinned then (''Unpin threads'', ''Unpin'')
                       else (''Pin threads open'', ''Pin open''))"

definition load_more :: "threads_swr \<Rightarrow> threads_swr" where
  "load_more s = s\<lparr>swr_size := swr_size s + 1\<rparr>"

section \<open>Lemmas\<close>

lemma grouped_filter: "grouped now ts g = filter (\<lambda>t. group_of now t = g) ts"
proof -
  have "foldl (push_group now) gs ts g = gs g @ filter (\<lambda>t. group_of now t = g) ts" for gs
    by (induction ts arbitrary: gs) (auto simp: push_group_def)
  then show ?thesis by (simp add: grouped_def)
qed

text \<open>The groups partition the history: concatenated they are a permutation of the rows, each
  keeps the order of the rows, the attention group holds exactly the counted interrupted ones,
  and outside it the group agrees with the time shown in the row.\<close>

theorem groups_partition:
  "mset (concat (map (grouped now ts) all_groups)) = mset ts \<and>
   (\<forall>g. subseq (grouped now ts g) ts) \<and>
   length (grouped now ts GInterrupted) = interruptedCount ts \<and>
   (\<forall>g. \<forall>t \<in> set (grouped now ts g). g \<noteq> GInterrupted \<longrightarrow>
      formatTime fmt (t_updatedAt t) now =
        (case g of GToday \<Rightarrow> fmt ''HH:mm'' (t_updatedAt t) | GYesterday \<Rightarrow> ''Yesterday''
         | GWeek \<Rightarrow> fmt ''EEEE'' (t_updatedAt t) | _ \<Rightarrow> fmt ''MM/dd'' (t_updatedAt t)))"
proof (intro conjI allI ballI impI)
  show "mset (concat (map (grouped now ts) all_groups)) = mset ts"
    unfolding all_groups_def grouped_filter
    by (induction ts) (auto simp: group_of_def Let_def)
  have "group_of now t = GInterrupted \<longleftrightarrow> t_status t = Interrupted" for t
    by (simp add: group_of_def Let_def)
  then show "length (grouped now ts GInterrupted) = interruptedCount ts"
    by (simp add: grouped_filter interruptedCount_def)
qed (auto simp: grouped_filter formatTime_def group_of_def Let_def split: if_splits)

lemma groups_partition_witness:
  "let a = \<lparr>t_id = ''a'', t_updatedAt = 0, t_status = Idle, t_title = ''x'', t_description = [],
         t_assistantId = JNull, t_graphId = ''g''\<rparr> in
   formatTime (\<lambda>f d. f) (t_updatedAt a) 5 = ''HH:mm''"
  using groups_partition [of 5 "[\<lparr>t_id = ''a'', t_updatedAt = 0, t_status = Idle, t_title = ''x'',
      t_description = [], t_assistantId = JNull, t_graphId = ''g''\<rparr>]" "\<lambda>f d. f"]
  by (simp add: grouped_filter group_of_def days_since_def formatTime_def)

text \<open>A row can always be shown: whatever the values of the thread are, its title is never
  longer than 53 characters and its description never longer than 100, and a thread whose
  values the code cannot read gets a title from its id and no description.\<close>

theorem row_texts_bounded:
  "length (fst (row_texts t)) \<le> 53 \<and> length (snd (row_texts t)) \<le> 100 \<and>
   (truthy (api_values t) \<and> is_object (api_values t) \<and> message_of ''human'' (api_values t) = None \<longrightarrow>
      row_texts t = (''Thread '' @ take 8 (thread_id t), []))"
proof -
  have title: "length s \<le> 53" if "message_text k v title_text ''Untitled Thread'' = Some s" for k v s
    using that by (auto simp: message_text_def title_text_def Let_def bind_eq_Some_conv split: if_splits)
  have desc: "length s \<le> 100" if "message_text k v (take 100) [] = Some s" for k v s
    using that by (auto simp: message_text_def Let_def bind_eq_Some_conv split: if_splits)
  have "length (fst (row_texts t)) \<le> 53 \<and> length (snd (row_texts t)) \<le> 100"
    using title desc by (auto simp: row_texts_def Let_def split: option.split)
  then show ?thesis
    by (auto simp: row_texts_def Let_def message_text_def)
qed

lemma row_texts_bounded_witness:
  "row_texts \<lparr>thread_id = ''0123456789'', updated_at = [], api_status = Idle,
     api_values = JObj [], api_graph_id = None\<rparr> = (''Thread 01234567'', [])"
  using row_texts_bounded [of "\<lparr>thread_id = ''0123456789'', updated_at = [], api_status = Idle,
     api_values = JObj [], api_graph_id = None\<rparr>"]
  by (simp add: message_of_def)

text \<open>Paging reads the history without gaps or overlaps: page i asks for the rows from i times
  the page size on, always scoped to the agent, and no page is asked for after an empty one or
  without a configuration.\<close>

theorem paging_contiguous:
  "(thread_page_key e config limit gid st i prev = None \<longleftrightarrow> \<not> truthy config \<or> prev = Some []) \<and>
   (\<forall>k k' prev'. thread_page_key e config limit gid st i prev = Some k \<longrightarrow>
      thread_page_key e config limit gid st (Suc i) prev' = Some k' \<longrightarrow>
      ts_offset (thread_query k') = ts_offset (thread_query k) + ts_limit (thread_query k) \<and>
      ts_offset (thread_query k) = i * page_size limit \<and> ts_limit (thread_query k) > 0 \<and>
      ts_graph_id (thread_query k) = gid)"
  by (auto simp: thread_page_key_def thread_query_def page_size_def DEFAULT_PAGE_SIZE_def
      split: if_splits option.splits)

definition page_config :: json where
  "page_config = JObj [(''deploymentUrl'', JStr ''u''), (''assistantId'', JStr ''a'')]"

lemma paging_contiguous_witness:
  "map_option (\<lambda>k. ts_offset (thread_query k)) (thread_page_key prod_env page_config None ''g'' None 2 None)
     = Some 40"
  using paging_contiguous [of prod_env page_config None "''g''" None 2 None]
  by (auto simp: thread_page_key_def page_config_def thread_query_def page_size_def
      DEFAULT_PAGE_SIZE_def)

lemma future_thread_in_week:
  "now < t_updatedAt t \<Longrightarrow> t_status t \<noteq> Interrupted \<Longrightarrow> group_of now t = GWeek"
proof -
  assume a: "now < t_updatedAt t" "t_status t \<noteq> Interrupted"
  have "days_since now (t_updatedAt t) < 0"
    using a(1) by (simp add: days_since_def)
  then show ?thesis using a(2) by (simp add: group_of_def Let_def)
qed

end
