(* ===== verification/FilePaths.thy ===== *)
theory FilePaths
imports Prelude
begin

text \<open>
  Paths and names of virtual files: categories and splitting (\<^verbatim>\<open>app/lib/fileCategories.ts\<close>),
  the extension tests of \<^verbatim>\<open>app/lib/agentFiles.ts\<close>, \<^verbatim>\<open>charts.ts\<close> and \<^verbatim>\<open>uploadFiles.ts\<close>, and
  the linking of paths in chat text (\<^verbatim>\<open>app/utils/filePaths.ts\<close>): the regular expression as the
  matcher it denotes, the splitting loop, and the tree walk of the remark plugin.
\<close>

abbreviation slash :: char where
  "slash \<equiv> CHR ''/''"

abbreviation dot :: char where
  "dot \<equiv> CHR ''.''"

section \<open>Categories\<close>

record file_category =
  cat_prefix :: string
  cat_label :: string
  cat_iconVar :: string

definition FILE_CATEGORIES :: "file_category list" where
  "FILE_CATEGORIES =
     [\<lparr>cat_prefix = ''tailored_resume'', cat_label = ''Tailored Resume'',
       cat_iconVar = ''var(--color-primary)''\<rparr>,
      \<lparr>cat_prefix = ''interview_battlecard'', cat_label = ''Interview Battlecard'',
       cat_iconVar = ''var(--color-warning)''\<rparr>,
      \<lparr>cat_prefix = ''interview_coach'', cat_label = ''Interview Coach'',
       cat_iconVar = ''var(--color-category-plum)''\<rparr>,
      \<lparr>cat_prefix = ''research'', cat_label = ''Research'',
       cat_iconVar = ''var(--color-category-slate)''\<rparr>,
      \<lparr>cat_prefix = ''processed'', cat_label = ''Processed'',
       cat_iconVar = ''var(--color-category-sage)''\<rparr>,
      \<lparr>cat_prefix = ''upload'', cat_label = ''Upload'',
       cat_iconVar = ''var(--color-category-rose)''\<rparr>,
      \<lparr>cat_prefix = ''charts'', cat_label = ''Chart'',
       cat_iconVar = ''var(--color-category-indigo)''\<rparr>,
      \<lparr>cat_prefix = ''reports'', cat_label = ''Report'',
       cat_iconVar = ''var(--color-category-amber)''\<rparr>]"

definition getFileCategory :: "string \<Rightarrow> file_category option" where
  "getFileCategory virtualPath =
     (let trimmed = strip_leading (\<lambda>c. c = slash) virtualPath;
          head = hd (split_on slash trimmed) in
      if head = [] then None
      else find (\<lambda>c. cat_prefix c = head) FILE_CATEGORIES)"

definition splitFilePath :: "string \<Rightarrow> string \<times> string" where
  "splitFilePath virtualPath =
     (case last_index_of slash virtualPath of
        None \<Rightarrow> ([], virtualPath)
      | Some i \<Rightarrow> (take (i + 1) virtualPath, drop (i + 1) virtualPath))"

definition splitBasename :: "string \<Rightarrow> string \<times> string" where
  "splitBasename basename =
     (case last_index_of dot basename of
        None \<Rightarrow> (basename, [])
      | Some d \<Rightarrow>
          if d = 0 \<or> d = length basename - 1 then (basename, [])
          else (take d basename, drop d basename))"

section \<open>Extensions\<close>

definition IMAGE_EXTS :: "string list" where
  "IMAGE_EXTS = [''png'', ''jpg'', ''jpeg'', ''gif'', ''webp'', ''bmp'', ''ico'']"

definition BINARY_EXTS :: "string list" where
  "BINARY_EXTS = IMAGE_EXTS @
     [''pdf'', ''doc'', ''docx'', ''zip'', ''gz'', ''tar'', ''mp3'', ''mp4'', ''wav'', ''ogg'',
      ''woff'', ''woff2'', ''ttf'', ''otf'']"

definition isImagePath :: "string \<Rightarrow> bool" where
  "isImagePath p = (to_lower (last (split_on dot p)) \<in> set IMAGE_EXTS)"

definition isBinaryPath :: "string \<Rightarrow> bool" where
  "isBinaryPath p = (to_lower (last (split_on dot p)) \<in> set BINARY_EXTS)"

definition isChartPath :: "string \<Rightarrow> bool" where
  "isChartPath path = ends_with path ''.plotly.json''"

definition CAREER_AGENT_UPLOAD_DIR :: string where
  "CAREER_AGENT_UPLOAD_DIR = ''/upload''"

definition UPLOAD_ACCEPT :: string where
  "UPLOAD_ACCEPT = ''.pdf,.doc,.docx,.txt,.md''"

definition UPLOAD_ACCEPT_EXTS :: "string list" where
  "UPLOAD_ACCEPT_EXTS = split_on (CHR '','') UPLOAD_ACCEPT"

definition isAcceptedUploadName :: "string \<Rightarrow> bool" where
  "isAcceptedUploadName name =
     (case last_index_of dot name of
        None \<Rightarrow> False
      | Some d \<Rightarrow> to_lower (drop d name) \<in> set UPLOAD_ACCEPT_EXTS)"

section \<open>Paths in chat text\<close>

definition FILE_PATH_URL_PREFIX :: string where
  "FILE_PATH_URL_PREFIX = ''nextrole-file:''"

definition alnum :: "char \<Rightarrow> bool" where
  "alnum c = (let n = (of_char c :: nat) in
     (48 \<le> n \<and> n \<le> 57) \<or> (65 \<le> n \<and> n \<le> 90) \<or> (97 \<le> n \<and> n \<le> 122))"

definition path_char :: "char \<Rightarrow> bool" where
  "path_char c = (alnum c \<or> c = CHR ''_'' \<or> c = dot \<or> c = CHR ''-'')"

text \<open>
  \<^verbatim>\<open>FILE_PATH_RE\<close>, piece by piece. \<^verbatim>\<open>seg_len\<close> is one \<^verbatim>\<open>[\w.-]+\/\<close>, deterministic because the
  class has no slash. \<^verbatim>\<open>tail_len\<close> is the greedy \<^verbatim>\<open>[\w.-]+\.[A-Za-z0-9]+\<close>: the last dot of the run,
  not the first character, that an alphanumeric follows. \<^verbatim>\<open>more_segs\<close> is the greedy repetition
  that backtracks to fewer segments, \<^verbatim>\<open>match_at\<close> the whole expression, with the length matched.
\<close>

definition seg_len :: "string \<Rightarrow> nat option" where
  "seg_len s =
     (let n = length (takeWhile path_char s) in
      if n > 0 \<and> starts_with (drop n s) ''/'' then Some (n + 1) else None)"

fun ext_at :: "string \<Rightarrow> nat \<Rightarrow> nat option" where
  "ext_at run 0 = None"
| "ext_at run (Suc j) =
     (if run ! Suc j = dot \<and> Suc (Suc j) < length run \<and> alnum (run ! Suc (Suc j))
      then Some (Suc (Suc j) + length (takeWhile alnum (drop (Suc (Suc j)) run)))
      else ext_at run j)"

definition tail_len :: "string \<Rightarrow> nat option" where
  "tail_len s = (let run = takeWhile path_char s in ext_at run (length run - 1))"

lemma length_takeWhile_pos: "takeWhile P s \<noteq> [] \<Longrightarrow> s \<noteq> []"
  by auto

function more_segs :: "string \<Rightarrow> nat option" where
  "more_segs s =
     (case seg_len s of
        None \<Rightarrow> tail_len s
      | Some n \<Rightarrow>
          (case more_segs (drop n s) of
             Some m \<Rightarrow> Some (n + m)
           | None \<Rightarrow> tail_len s))"
  by pat_completeness auto
termination
  by (relation "measure length")
     (auto simp: seg_len_def Let_def split: if_splits intro!: diff_less dest: length_takeWhile_pos)

declare more_segs.simps [simp del]

definition match_at :: "string \<Rightarrow> nat option" where
  "match_at s =
     (case s of
        [] \<Rightarrow> None
      | c # s1 \<Rightarrow>
          if c \<noteq> slash then None
          else case seg_len s1 of
            None \<Rightarrow> None
          | Some n \<Rightarrow> map_option (\<lambda>m. 1 + n + m) (more_segs (drop n s1)))"

text \<open>\<^verbatim>\<open>RegExp.exec\<close>: start and length of the leftmost match.\<close>

fun exec_from :: "string \<Rightarrow> (nat \<times> nat) option" where
  "exec_from [] = None"
| "exec_from (c # s) =
     (case match_at (c # s) of
        Some n \<Rightarrow> Some (0, n)
      | None \<Rightarrow> map_option (\<lambda>(st, n). (Suc st, n)) (exec_from s))"

definition strip_open :: "char \<Rightarrow> bool" where
  "strip_open c = (c \<in> {CHR 0x60, CHR 0x27, CHR 0x22, CHR ''('', CHR ''<'', CHR ''[''})"

definition strip_close :: "char \<Rightarrow> bool" where
  "strip_close c = (c \<in> {CHR 0x60, CHR 0x27, CHR 0x22, CHR '')'', CHR ''>'', CHR '']'', CHR ''.'',
      CHR '','', CHR '';'', CHR '':'', CHR ''!'', CHR ''?''})"

definition normalizeFilePath :: "string \<Rightarrow> string" where
  "normalizeFilePath candidate =
     (let s = strip_trailing strip_close (strip_leading strip_open (js_trim candidate)) in
      if starts_with s ''/'' then s else slash # s)"

text \<open>A markdown node: type, value, url and children, the last three where present.\<close>

datatype md_node = MdNode (md_type: string) (md_value: "string option") (md_url: "string option")
    (md_children: "md_node list option")

definition md_text :: "string \<Rightarrow> md_node" where
  "md_text v = MdNode ''text'' (Some v) None None"

definition md_path_link :: "string \<Rightarrow> md_node" where
  "md_path_link p = MdNode ''link'' None (Some (FILE_PATH_URL_PREFIX @ p)) (Some [md_text p])"

lemma exec_from_bounds:
  "exec_from s = Some (st, n) \<Longrightarrow> st < length s \<and> 0 < n \<and> match_at (drop st s) = Some n"
proof (induction s arbitrary: st n)
  case (Cons c s)
  then show ?case
    by (auto simp: match_at_def split: option.splits if_splits)
qed simp

text \<open>
  The loop of \<^verbatim>\<open>splitTextNode\<close>, on the text from \<^verbatim>\<open>last\<close> on; the two trailing conditions of the
  source are the flag \<^verbatim>\<open>first\<close> (no node pushed yet).
\<close>

function split_nodes :: "bool \<Rightarrow> string \<Rightarrow> md_node list" where
  "split_nodes first s =
     (case exec_from s of
        None \<Rightarrow> if first \<or> s \<noteq> [] then [md_text s] else []
      | Some (st, n) \<Rightarrow>
          (if st > 0 then [md_text (take st s)] else [])
            @ md_path_link (take n (drop st s)) # split_nodes False (drop (st + n) s))"
  by pat_completeness auto
termination
  by (relation "measure (\<lambda>(f, s). length s)") (auto dest: exec_from_bounds)

declare split_nodes.simps [simp del]

definition splitTextNode :: "string \<Rightarrow> md_node list" where
  "splitTextNode value = split_nodes True value"

fun md_walk :: "md_node \<Rightarrow> md_node"
  and md_walk_children :: "md_node list \<Rightarrow> md_node list" where
  "md_walk (MdNode ty v u None) = MdNode ty v u None"
| "md_walk (MdNode ty v u (Some cs)) = MdNode ty v u (Some (md_walk_children cs))"
| "md_walk_children [] = []"
| "md_walk_children (c # cs) =
     (if md_type c = ''text'' \<and> md_value c \<noteq> None
      then splitTextNode (or_else (md_value c) [])
      else if md_type c \<noteq> ''link'' \<and> md_type c \<noteq> ''inlineCode'' \<and> md_type c \<noteq> ''code''
      then [md_walk c] else [c]) @ md_walk_children cs"

definition remarkFilePaths :: "md_node \<Rightarrow> md_node" where
  "remarkFilePaths tree = md_walk tree"

section \<open>Lemmas: splitting and names\<close>

text \<open>Splitting a path into folder and name, or a name into stem and extension, loses
  nothing: the parts concatenate to the whole, the name has no slash, the folder is empty or
  ends in one, and an extension is a dot with text after it and a non-empty stem before.\<close>

theorem split_path_reassembles:
  "fst (splitFilePath p) @ snd (splitFilePath p) = p \<and> slash \<notin> set (snd (splitFilePath p)) \<and>
   (fst (splitFilePath p) = [] \<or> last (fst (splitFilePath p)) = slash) \<and>
   fst (splitBasename b) @ snd (splitBasename b) = b \<and>
   (snd (splitBasename b) = [] \<or>
      hd (snd (splitBasename b)) = dot \<and> 2 \<le> length (snd (splitBasename b))
        \<and> dot \<notin> set (tl (snd (splitBasename b))) \<and> fst (splitBasename b) \<noteq> [])"
proof (intro conjI)
  show "slash \<notin> set (snd (splitFilePath p))"
    using last_index_of_Some [of slash p] last_index_of_None [of slash p]
    by (auto simp: splitFilePath_def split: option.splits)
  show "fst (splitFilePath p) = [] \<or> last (fst (splitFilePath p)) = slash"
    using last_index_of_Some [of slash p]
    by (auto simp: splitFilePath_def take_Suc_conv_app_nth split: option.splits)
  show "snd (splitBasename b) = [] \<or>
      hd (snd (splitBasename b)) = dot \<and> 2 \<le> length (snd (splitBasename b))
        \<and> dot \<notin> set (tl (snd (splitBasename b))) \<and> fst (splitBasename b) \<noteq> []"
    using last_index_of_Some [of dot b]
    by (auto simp: splitBasename_def hd_drop_conv_nth drop_Suc tl_drop split: option.splits)
qed (simp_all add: splitFilePath_def splitBasename_def split: option.split)

lemma lower_char_dot [simp]: "lower_char c = dot \<longleftrightarrow> c = dot"
proof -
  have "lower_char c = dot \<longleftrightarrow> (of_char (lower_char c) :: nat) = of_char dot"
    by (simp only: of_char_eq_iff)
  also have "\<dots> \<longleftrightarrow> (of_char c :: nat) = of_char dot"
    by (auto simp: lower_char_def Let_def take_bit_eq_mod)
  finally show ?thesis by (simp only: of_char_eq_iff)
qed

lemma last_index_of_to_lower: "last_index_of dot (to_lower s) = last_index_of dot s"
  by (induction s) (auto simp: to_lower_def split: option.splits)

lemma drop_to_lower: "drop d (to_lower s) = to_lower (drop d s)"
  by (simp add: to_lower_def drop_map)

lemma ends_with_dot_ext:
  assumes "dot \<notin> set w"
  shows "ends_with s (dot # w) \<longleftrightarrow> (\<exists>d. last_index_of dot s = Some d \<and> drop d s = dot # w)"
proof
  assume "ends_with s (dot # w)"
  then obtain q where "s = q @ dot # w" by (auto simp: ends_with_iff)
  then show "\<exists>d. last_index_of dot s = Some d \<and> drop d s = dot # w"
    using last_index_of_append [OF assms, of q] by simp
next
  assume "\<exists>d. last_index_of dot s = Some d \<and> drop d s = dot # w"
  then show "ends_with s (dot # w)"
    by (metis append_take_drop_id ends_with_iff)
qed

lemma UPLOAD_ACCEPT_EXTS_eq:
  "UPLOAD_ACCEPT_EXTS = [''.pdf'', ''.doc'', ''.docx'', ''.txt'', ''.md'']"
  by (simp add: UPLOAD_ACCEPT_EXTS_def UPLOAD_ACCEPT_def)

text \<open>A file name is accepted for upload exactly when, in lower case, it ends in one of the
  five listed extensions.\<close>

theorem accepted_upload_names:
  "isAcceptedUploadName name \<longleftrightarrow>
     list_ex (ends_with (to_lower name)) [''.pdf'', ''.doc'', ''.docx'', ''.txt'', ''.md'']"
proof -
  have "isAcceptedUploadName name \<longleftrightarrow>
      (\<exists>e \<in> set UPLOAD_ACCEPT_EXTS. \<exists>d. last_index_of dot (to_lower name) = Some d
         \<and> drop d (to_lower name) = e)"
    by (auto simp: isAcceptedUploadName_def last_index_of_to_lower drop_to_lower
        split: option.splits)
  also have "\<dots> \<longleftrightarrow> (\<exists>e \<in> set UPLOAD_ACCEPT_EXTS. ends_with (to_lower name) e)"
    unfolding UPLOAD_ACCEPT_EXTS_eq by (simp add: ends_with_dot_ext)
  finally show ?thesis
    by (simp add: UPLOAD_ACCEPT_EXTS_eq)
qed

lemma hd_split_on: "c \<notin> set w \<Longrightarrow> hd (split_on c (w @ c # rest)) = w"
  by (simp add: split_on_append_sep)

lemma dropWhile_replicate: "c \<noteq> x \<Longrightarrow> dropWhile (\<lambda>d. d = c) (replicate n c @ x # xs) = x # xs"
  by (induction n) auto

text \<open>The category of a path is decided by its first folder alone, however many slashes lead
  and whatever follows; a path whose first folder is not registered has no category.\<close>

theorem category_of_first_folder:
  assumes "w \<noteq> []" and "slash \<notin> set w"
  shows "getFileCategory (replicate n slash @ w @ slash # rest)
           = find (\<lambda>c. cat_prefix c = w) FILE_CATEGORIES"
proof (cases w)
  case (Cons x xs)
  then have "strip_leading (\<lambda>c. c = slash) (replicate n slash @ w @ slash # rest) = w @ slash # rest"
    using assms(2) by (simp add: strip_leading_def dropWhile_replicate)
  then show ?thesis
    using assms by (simp add: getFileCategory_def Let_def hd_split_on)
qed (use assms in simp)

lemma category_of_first_folder_witness:
  "map_option cat_label (getFileCategory ''/charts/spend.plotly.json'') = Some ''Chart''"
  using category_of_first_folder [of "''charts''" 1 "''spend.plotly.json''"]
  by (simp add: FILE_CATEGORIES_def)

section \<open>Lemmas: normalisation\<close>

lemma strip_leading_app:
  "\<forall>c \<in> set w. P c \<Longrightarrow> s \<noteq> [] \<Longrightarrow> \<not> P (hd s) \<Longrightarrow> strip_leading P (w @ s) = s"
  by (cases s) (auto simp: strip_leading_def dropWhile_append)

lemma strip_trailing_app:
  "\<forall>c \<in> set w. P c \<Longrightarrow> s \<noteq> [] \<Longrightarrow> \<not> P (last s) \<Longrightarrow> strip_trailing P (s @ w) = s"
proof -
  assume "\<forall>c \<in> set w. P c" "s \<noteq> []" "\<not> P (last s)"
  then have "strip_leading P (rev w @ rev s) = rev s"
    by (intro strip_leading_app) (auto simp: hd_rev)
  then show ?thesis
    by (simp add: strip_trailing_def strip_leading_def)
qed

lemma strip_chars_not_space:
  "strip_open c \<Longrightarrow> \<not> is_space c" "strip_close c \<Longrightarrow> \<not> is_space c"
  by (auto simp: strip_open_def strip_close_def is_space_def)

text \<open>A known path is recognised however it is written in a sentence: white space around
  it, opening quotes and brackets before it, closing ones and punctuation after it are all
  removed, so the normalised text is the path itself.\<close>

theorem normalizeFilePath_wrapped:
  assumes "starts_with path ''/''"
    and "\<not> is_space (last path)" and "\<not> strip_close (last path)"
    and "list_all is_space ws1" and "list_all is_space ws2"
    and "list_all strip_open opening" and "list_all strip_close closing"
  shows "normalizeFilePath (ws1 @ opening @ path @ closing @ ws2) = path"
proof -
  have path: "path \<noteq> []" "hd path = slash"
    using assms(1) by (cases path; simp)+
  let ?core = "opening @ path @ closing"
  have core: "?core \<noteq> []" "\<not> is_space (hd ?core)" "\<not> is_space (last ?core)"
    using path assms(2,6,7) strip_chars_not_space
    by (auto simp: hd_append last_append list_all_iff is_space_def dest: hd_in_set last_in_set)
  have "strip_leading is_space (ws1 @ (?core @ ws2)) = ?core @ ws2"
    using core assms(4) hd_append2 [OF core(1), of ws2]
    by (intro strip_leading_app) (auto simp: list_all_iff simp del: append_assoc)
  moreover have "strip_trailing is_space (?core @ ws2) = ?core"
    by (rule strip_trailing_app) (use core assms(5) in \<open>auto simp: list_all_iff\<close>)
  ultimately have trim: "js_trim (ws1 @ ?core @ ws2) = ?core"
    by (simp add: js_trim_def)
  have "strip_leading strip_open ?core = path @ closing"
    using path assms(6) by (intro strip_leading_app) (auto simp: list_all_iff strip_open_def)
  moreover have "strip_trailing strip_close (path @ closing) = path"
    using path assms(3,7) by (intro strip_trailing_app) (auto simp: list_all_iff)
  ultimately show ?thesis
    using trim assms(1) by (simp add: normalizeFilePath_def)
qed

lemma normalizeFilePath_wrapped_witness:
  "normalizeFilePath '' (/upload/cv.pdf). '' = ''/upload/cv.pdf''"
  using normalizeFilePath_wrapped [of "''/upload/cv.pdf''" "'' ''" "'' ''" "''(''" "'').''"]
  by (simp add: is_space_def strip_open_def strip_close_def starts_with_def)

section \<open>Lemmas: the matcher and its language\<close>

definition tail_lang :: "string \<Rightarrow> bool" where
  "tail_lang t = (\<exists>stem ext. stem \<noteq> [] \<and> list_all path_char stem \<and> ext \<noteq> [] \<and> list_all alnum ext
      \<and> t = stem @ dot # ext)"

definition segs_text :: "string list \<Rightarrow> string" where
  "segs_text segs = concat (map (\<lambda>w. w @ [slash]) segs)"

definition segs_ok :: "string list \<Rightarrow> bool" where
  "segs_ok segs = (\<forall>w \<in> set segs. w \<noteq> [] \<and> list_all path_char w)"

text \<open>The paths \<^verbatim>\<open>FILE_PATH_RE\<close> describes, declaratively.\<close>

definition file_path_lang :: "string \<Rightarrow> bool" where
  "file_path_lang p = (\<exists>segs t. segs \<noteq> [] \<and> segs_ok segs \<and> tail_lang t \<and> p = slash # segs_text segs @ t)"

lemma not_path_char_slash [simp]: "\<not> path_char slash"
  by (simp add: path_char_def alnum_def)

lemma path_char_dot [simp]: "path_char dot"
  by (simp add: path_char_def)

lemma alnum_path_char: "alnum c \<Longrightarrow> path_char c"
  by (simp add: path_char_def)

lemma takeWhile_run:
  "list_all P w \<Longrightarrow> \<not> P c \<Longrightarrow> takeWhile P (w @ c # u) = w"
  by (induction w) auto

lemma seg_len_Some:
  "seg_len s = Some n \<longleftrightarrow>
     (\<exists>w u. w \<noteq> [] \<and> list_all path_char w \<and> s = w @ slash # u \<and> n = length w + 1)"
proof
  assume a: "seg_len s = Some n"
  let ?w = "takeWhile path_char s"
  have "?w \<noteq> []" "n = length ?w + 1" "starts_with (drop (length ?w) s) ''/''"
    using a by (auto simp: seg_len_def Let_def split: if_splits)
  moreover from this(3) obtain u where "drop (length ?w) s = slash # u"
    by (cases "drop (length ?w) s") auto
  then have "s = ?w @ slash # u"
    by (metis takeWhile_dropWhile_id dropWhile_eq_drop)
  ultimately show "\<exists>w u. w \<noteq> [] \<and> list_all path_char w \<and> s = w @ slash # u \<and> n = length w + 1"
    by (metis list_all_iff set_takeWhileD)
qed (auto simp: seg_len_def Let_def takeWhile_run)

lemma ext_at_sound:
  "ext_at run j = Some n \<Longrightarrow>
   \<exists>i. 0 < i \<and> i + 1 < length run \<and> run ! i = dot \<and> alnum (run ! (i + 1))
     \<and> n = i + 1 + length (takeWhile alnum (drop (i + 1) run))"
  by (induction run j rule: ext_at.induct) (fastforce split: if_splits)+

lemma ext_at_complete:
  "0 < i \<Longrightarrow> i \<le> j \<Longrightarrow> i + 1 < length run \<Longrightarrow> run ! i = dot \<Longrightarrow> alnum (run ! (i + 1)) \<Longrightarrow>
   ext_at run j \<noteq> None"
  by (induction run j rule: ext_at.induct) (auto simp: le_Suc_eq)

lemma tail_len_sound:
  assumes "tail_len s = Some n"
  shows "n \<le> length s \<and> tail_lang (take n s)"
proof -
  let ?run = "takeWhile path_char s"
  obtain i where i: "0 < i" "i + 1 < length ?run" "?run ! i = dot" "alnum (?run ! (i + 1))"
    and n: "n = i + 1 + length (takeWhile alnum (drop (i + 1) ?run))"
    using assms ext_at_sound unfolding tail_len_def Let_def by blast
  define ext where "ext = takeWhile alnum (drop (i + 1) ?run)"
  have le: "n \<le> length ?run"
    unfolding n using length_takeWhile_le [of alnum "drop (i + 1) ?run"] i(2) by simp
  have "take n s = take n ?run"
    by (metis le takeWhile_dropWhile_id take_append diff_is_0_eq take0 append_Nil2)
  also have "\<dots> = take i ?run @ ?run ! i # take (length ext) (drop (i + 1) ?run)"
    using i(2) Cons_nth_drop_Suc [of i ?run] take_add [of i "Suc (length ext)" ?run]
    unfolding n ext_def [symmetric] by (metis One_nat_def Suc_eq_plus1 Suc_lessD add.assoc
        add.commute plus_1_eq_Suc take_Suc_Cons)
  also have "take (length ext) (drop (i + 1) ?run) = ext"
    unfolding ext_def by (metis takeWhile_eq_take)
  finally have eq: "take n s = take i ?run @ dot # ext" using i(3) by simp
  have "take i ?run \<noteq> []" using i(1,2) by auto
  moreover have "list_all path_char (take i ?run)"
    by (metis list_all_iff set_takeWhileD in_set_takeD)
  moreover have "ext \<noteq> []"
    using i(2,4) unfolding ext_def by (cases "drop (i + 1) ?run") (auto simp: hd_drop_conv_nth [symmetric])
  moreover have "list_all alnum ext" unfolding ext_def by (metis list_all_iff set_takeWhileD)
  ultimately have "tail_lang (take n s)" unfolding tail_lang_def eq by blast
  with le show ?thesis using length_takeWhile_le [of path_char s] by linarith
qed

lemma tail_len_complete:
  assumes "tail_lang t"
  shows "tail_len (t @ u) \<noteq> None"
proof -
  obtain stem ext where t: "t = stem @ dot # ext" and ne: "stem \<noteq> []" "ext \<noteq> []"
    and ok: "list_all path_char stem" "list_all alnum ext"
    using assms unfolding tail_lang_def by blast
  have all: "\<forall>x \<in> set t. path_char x"
    using ok unfolding t by (auto simp: list_all_iff alnum_path_char)
  have run: "takeWhile path_char (t @ u) = t @ takeWhile path_char u"
    using all by (simp add: takeWhile_append)
  show ?thesis
    unfolding tail_len_def run Let_def
    by (rule ext_at_complete [where i = "length stem"])
      (use ne ok in \<open>auto simp: t nth_append list_all_iff neq_Nil_conv\<close>)
qed

lemma more_segs_sound:
  "more_segs s = Some n \<Longrightarrow>
   n \<le> length s \<and> (\<exists>segs t. segs_ok segs \<and> tail_lang t \<and> take n s = segs_text segs @ t)"
proof (induction s arbitrary: n rule: more_segs.induct)
  case (1 s)
  have tail: ?case if "tail_len s = Some n"
    using tail_len_sound [OF that] by (force simp: segs_text_def segs_ok_def intro: exI [of _ "[]"])
  show ?case
  proof (cases "seg_len s")
    case None
    then show ?thesis using 1(2) tail by (simp add: more_segs.simps [of s])
  next
    case (Some k)
    obtain w u where w: "w \<noteq> []" "list_all path_char w" "s = w @ slash # u" "k = length w + 1"
      using Some unfolding seg_len_Some by blast
    show ?thesis
    proof (cases "more_segs (drop k s)")
      case None
      then show ?thesis using 1(2) Some tail by (simp add: more_segs.simps [of s])
    next
      case m: (Some m)
      have n: "n = k + m" using 1(2) Some m by (simp add: more_segs.simps [of s])
      obtain segs t where "m \<le> length u" "segs_ok segs" "tail_lang t" "take m u = segs_text segs @ t"
        using 1(1) [OF Some m] w by auto
      then have "n \<le> length s \<and> segs_ok (w # segs) \<and> tail_lang t
          \<and> take n s = segs_text (w # segs) @ t"
        using w n by (auto simp: segs_ok_def segs_text_def)
      then show ?thesis by blast
    qed
  qed
qed

lemma more_segs_complete:
  "segs_ok segs \<Longrightarrow> tail_lang t \<Longrightarrow> more_segs (segs_text segs @ t @ u) \<noteq> None"
proof (induction segs)
  case Nil
  then show ?case
    using tail_len_complete [of t u]
    by (simp add: segs_text_def more_segs.simps [of "t @ u"] split: option.split)
next
  case (Cons w segs)
  let ?s = "segs_text (w # segs) @ t @ u"
  have "seg_len ?s = Some (length w + 1)"
    using Cons.prems(1) by (auto simp: seg_len_Some segs_ok_def segs_text_def)
  moreover have "drop (length w + 1) ?s = segs_text segs @ t @ u"
    by (simp add: segs_text_def)
  moreover have "more_segs (segs_text segs @ t @ u) \<noteq> None"
    using Cons by (simp add: segs_ok_def)
  ultimately show ?case
    by (subst more_segs.simps) (auto split: option.split)
qed

lemma match_at_sound:
  assumes a: "match_at s = Some n"
  shows "n \<le> length s" and "file_path_lang (take n s)"
proof -
  from a obtain s1 k m where s: "s = slash # s1" "seg_len s1 = Some k" "more_segs (drop k s1) = Some m"
    "n = 1 + k + m"
    by (auto simp: match_at_def split: list.splits option.splits if_splits)
  obtain w u where w: "w \<noteq> []" "list_all path_char w" "s1 = w @ slash # u" "k = length w + 1"
    using s(2) unfolding seg_len_Some by blast
  obtain segs t where t: "m \<le> length u" "segs_ok segs" "tail_lang t" "take m u = segs_text segs @ t"
    using more_segs_sound [OF s(3)] w by auto
  show "n \<le> length s" using s w t by simp
  have "take n s = slash # segs_text (w # segs) @ t"
    using s w t by (simp add: segs_text_def)
  moreover have "segs_ok (w # segs)" using w t by (simp add: segs_ok_def)
  ultimately show "file_path_lang (take n s)"
    using t(3) unfolding file_path_lang_def by blast
qed

lemma match_at_complete:
  assumes "s = p @ u" and "file_path_lang p"
  shows "match_at s \<noteq> None"
proof -
  from assms obtain w segs t u where "segs_ok (w # segs)" "tail_lang t"
    "s = slash # segs_text (w # segs) @ t @ u"
    unfolding file_path_lang_def by (metis append_Cons append_assoc neq_Nil_conv)
  then obtain s1 where s1: "s = slash # s1" "s1 = w @ slash # segs_text segs @ t @ u"
    and ok: "segs_ok segs" "w \<noteq> []" "list_all path_char w"
    by (auto simp: segs_ok_def segs_text_def)
  then have "seg_len s1 = Some (length w + 1)" by (auto simp: seg_len_Some)
  then show "match_at s \<noteq> None"
    using more_segs_complete [OF ok(1) \<open>tail_lang t\<close>, of u] s1 by (simp add: match_at_def)
qed

text \<open>C27: The matcher that stands for the path expression is sound and complete for it: what it
  returns is a leading slash, at least one folder and a name with an extension, and it finds a
  match wherever some prefix of the text is such a path.\<close>

theorem match_at_correct:
  "(match_at s = Some n \<longrightarrow> n \<le> length s \<and> file_path_lang (take n s)) \<and>
   ((\<exists>p u. s = p @ u \<and> file_path_lang p) \<longrightarrow> match_at s \<noteq> None)"
  using match_at_sound match_at_complete by blast

lemma match_at_correct_witness:
  "match_at ''/a/b.md, and'' = Some 7"
proof -
  have "tail_lang ''b.md''"
    unfolding tail_lang_def
    by (rule exI [of _ "''b''"], rule exI [of _ "''md''"]) (simp add: path_char_def alnum_def)
  then have "file_path_lang ''/a/b.md''"
    unfolding file_path_lang_def
    by (intro exI [of _ "[''a'']"] exI [of _ "''b.md''"])
      (simp add: segs_ok_def segs_text_def path_char_def alnum_def)
  then have "match_at ''/a/b.md, and'' \<noteq> None"
    using match_at_correct [of "''/a/b.md, and''" 0]
    by (metis append_Cons append_Nil)
  moreover have "match_at ''/a/b.md, and'' = Some 7"
    by code_simp
  ultimately show ?thesis by blast
qed

section \<open>Lemmas: the markdown walk\<close>

lemma match_at_mono: "match_at s \<noteq> None \<Longrightarrow> match_at (s @ t) \<noteq> None"
proof -
  assume "match_at s \<noteq> None"
  then obtain n where n: "match_at s = Some n" by blast
  then have "s @ t = take n s @ drop n s @ t" "file_path_lang (take n s)"
    using match_at_sound [OF n] by simp_all
  then show ?thesis by (rule match_at_complete)
qed

lemma match_at_Nil [simp]: "match_at [] = None"
  by (simp add: match_at_def)

lemma exec_from_None: "exec_from s = None \<longleftrightarrow> (\<forall>j. match_at (drop j s) = None)"
proof (induction s)
  case (Cons c s)
  have "(\<forall>j. match_at (drop j (c # s)) = None) \<longleftrightarrow>
      match_at (c # s) = None \<and> (\<forall>j. match_at (drop j s) = None)"
    by (metis drop0 drop_Suc_Cons not0_implies_Suc)
  with Cons show ?case by (auto split: option.split)
qed simp

lemma exec_from_leftmost: "exec_from s = Some (st, n) \<Longrightarrow> j < st \<Longrightarrow> match_at (drop j s) = None"
proof (induction s arbitrary: st n j)
  case (Cons c s)
  then show ?case by (cases j) (auto split: option.splits)
qed simp

lemma exec_from_before: "exec_from s = Some (st, n) \<Longrightarrow> exec_from (take st s) = None"
proof -
  assume a: "exec_from s = Some (st, n)"
  have "match_at (drop j (take st s)) = None" for j
  proof (cases "j < st")
    case True
    have "drop j s = drop j (take st s @ drop st s)" by simp
    also have "\<dots> = drop j (take st s) @ drop st s"
      using True exec_from_bounds [OF a] by (simp only: drop_append) simp
    finally have "drop j s = drop j (take st s) @ drop st s" .
    then show ?thesis
      using match_at_mono [of "drop j (take st s)" "drop st s"] exec_from_leftmost [OF a True] by metis
  qed simp
  then show ?thesis by (simp add: exec_from_None)
qed

fun md_flat :: "md_node \<Rightarrow> string"
  and md_flat_list :: "md_node list \<Rightarrow> string" where
  "md_flat (MdNode ty v u None) = or_else v []"
| "md_flat (MdNode ty v u (Some cs)) = or_else v [] @ md_flat_list cs"
| "md_flat_list [] = []"
| "md_flat_list (c # cs) = md_flat c @ md_flat_list cs"

text \<open>In a parsed tree a text node is a leaf.\<close>

fun md_wf :: "md_node \<Rightarrow> bool"
  and md_wf_list :: "md_node list \<Rightarrow> bool" where
  "md_wf (MdNode ty v u None) = True"
| "md_wf (MdNode ty v u (Some cs)) = (ty \<noteq> ''text'' \<and> md_wf_list cs)"
| "md_wf_list [] = True"
| "md_wf_list (c # cs) = (md_wf c \<and> md_wf_list cs)"

lemma md_flat_list_append [simp]: "md_flat_list (xs @ ys) = md_flat_list xs @ md_flat_list ys"
  by (induction xs) auto

lemma md_flat_text [simp]: "md_flat (md_text v) = v"
  by (simp add: md_text_def)

lemma md_flat_link [simp]: "md_flat (md_path_link p) = p"
  by (simp add: md_path_link_def)

lemma split_nodes_flat: "md_flat_list (split_nodes f s) = s"
proof (induction f s rule: split_nodes.induct)
  case (1 f s)
  show ?case
  proof (cases "exec_from s")
    case None
    then show ?thesis by (subst split_nodes.simps) auto
  next
    case (Some r)
    obtain st n where r: "r = (st, n)" by (cases r)
    have "s = take st s @ take n (drop st s) @ drop (st + n) s"
      by (metis append_take_drop_id drop_drop add.commute)
    then show ?thesis
      using 1 [OF Some r [symmetric]] Some r by (subst split_nodes.simps) auto
  qed
qed

lemma split_nodes_elems:
  "x \<in> set (split_nodes f s) \<Longrightarrow>
     (\<exists>t. x = md_text t \<and> exec_from t = None) \<or> (\<exists>p. x = md_path_link p \<and> file_path_lang p)"
proof (induction f s rule: split_nodes.induct)
  case (1 f s)
  show ?case
  proof (cases "exec_from s")
    case None
    then show ?thesis using 1(2) by (subst (asm) split_nodes.simps) (auto split: if_splits)
  next
    case (Some r)
    obtain st n where r: "r = (st, n)" by (cases r)
    have "file_path_lang (take n (drop st s))"
      using exec_from_bounds match_at_sound(2) Some r by blast
    moreover have "exec_from (take st s) = None"
      using exec_from_before Some r by blast
    ultimately show ?thesis
      using 1(1) [OF Some r [symmetric]] 1(2) Some r by (subst (asm) split_nodes.simps) (auto split: if_splits)
  qed
qed

lemma md_walk_text: "md_walk (md_text v) = md_text v"
  by (simp add: md_text_def)

lemma md_walk_children_append:
  "md_walk_children (xs @ ys) = md_walk_children xs @ md_walk_children ys"
  by (induction xs) auto

lemma splitTextNode_plain: "exec_from t = None \<Longrightarrow> splitTextNode t = [md_text t]"
  unfolding splitTextNode_def by (subst split_nodes.simps) simp

lemma md_text_sel [simp]: "md_type (md_text v) = ''text''" "md_value (md_text v) = Some v"
  by (simp_all add: md_text_def)

lemma split_nodes_stable:
  "(\<forall>x \<in> set xs. (\<exists>t. x = md_text t \<and> exec_from t = None) \<or> (\<exists>p. x = md_path_link p)) \<Longrightarrow>
   md_walk_children xs = xs"
proof (induction xs)
  case (Cons x xs)
  then consider t where "x = md_text t" "exec_from t = None" | p where "x = md_path_link p"
    by auto
  then show ?case
  proof cases
    case 1
    then show ?thesis
      using Cons by (simp add: splitTextNode_plain)
  next
    case 2
    then show ?thesis using Cons by (simp add: md_path_link_def)
  qed
qed simp

lemma md_type_walk [simp]: "md_type (md_walk t) = md_type t" "md_value (md_walk t) = md_value t"
  by (cases t rule: md_walk.cases; simp)+

lemma md_walk_flat_idem:
  "md_wf t \<Longrightarrow> md_flat (md_walk t) = md_flat t \<and> md_walk (md_walk t) = md_walk t"
  "md_wf_list cs \<Longrightarrow> md_flat_list (md_walk_children cs) = md_flat_list cs \<and>
     md_walk_children (md_walk_children cs) = md_walk_children cs"
proof (induction t and cs rule: md_walk_md_walk_children.induct)
  case (4 c cs)
  have leaf: "md_flat c = or_else (md_value c) []" if "md_type c = ''text''" "md_wf c"
    using that by (cases c rule: md_flat.cases) auto
  have stable: "md_walk_children (splitTextNode v) = splitTextNode v" for v
    unfolding splitTextNode_def
    by (rule split_nodes_stable) (use split_nodes_elems in blast)
  have flat: "md_flat_list (splitTextNode v) = v" for v
    by (simp add: splitTextNode_def split_nodes_flat)
  show ?case
    using 4 by (auto simp: leaf flat md_walk_children_append stable)
qed auto

text \<open>Linking changes no text: the walked tree reads exactly as the original one, and a second
  walk changes nothing any more.\<close>

theorem remarkFilePaths_text_and_idempotent:
  assumes "md_wf t"
  shows "md_flat (remarkFilePaths t) = md_flat t \<and>
         remarkFilePaths (remarkFilePaths t) = remarkFilePaths t"
  using md_walk_flat_idem(1) [OF assms] by (simp add: remarkFilePaths_def)

definition sample_tree :: md_node where
  "sample_tree = MdNode ''root'' None None (Some [md_text ''see /a/b.md'', md_path_link ''/c/d.md''])"

lemma remarkFilePaths_text_and_idempotent_witness:
  "md_flat (remarkFilePaths sample_tree) = ''see /a/b.md/c/d.md''"
  using remarkFilePaths_text_and_idempotent [of sample_tree]
  by (simp add: sample_tree_def md_text_def md_path_link_def)

end
