(* ===== verification/AgentFiles.thy ===== *)
theory AgentFiles
imports Config AuthToken FilePaths
begin

text \<open>
  The files an agent works on: where they live (\<^verbatim>\<open>app/config/agentFiles.ts\<close>), listing, merging
  and writing them (\<^verbatim>\<open>app/lib/agentFiles.ts\<close>), uploading and deleting them
  (\<^verbatim>\<open>app/lib/uploadFiles.ts\<close>).

  The store, the files API, \<^verbatim>\<open>Date.parse\<close> and \<^verbatim>\<open>localeCompare\<close> are arguments. The store
  reads of one agent run concurrently and append their rows as they finish: the order in which
  the prefixes finish is an argument too.
\<close>

section \<open>Where files live\<close>

record store_sources =
  namespacePrefix :: "string list"
  store_pathPrefixes :: "string list"

record agent_file_sources =
  src_store :: "store_sources option"
  src_artifacts :: "string list option"

definition AGENT_FILE_SOURCES :: "(string, agent_file_sources) jmap" where
  "AGENT_FILE_SOURCES =
     [(''analytics_agent'',
        \<lparr>src_store = None, src_artifacts = Some [''/charts/'', ''/reports/'']\<rparr>),
      (''career_agent'',
        \<lparr>src_store = Some
           \<lparr>namespacePrefix = [''career_agent''],
            store_pathPrefixes = [''/memory/'', ''/processed/'', ''/research/'', ''/interview_coach/'',
              ''/workspace/'']\<rparr>,
         src_artifacts = Some [''/upload/'', ''/tailored_resume/'', ''/interview_battlecard/'']\<rparr>)]"

definition no_sources :: agent_file_sources where
  "no_sources = \<lparr>src_store = None, src_artifacts = None\<rparr>"

text \<open>An inherited member of the registry object has neither a store nor artifacts.\<close>

definition getAgentFileSources :: "string option \<Rightarrow> agent_file_sources option" where
  "getAgentFileSources gid =
     (case gid of
        None \<Rightarrow> None
      | Some g \<Rightarrow>
          if g = [] then None
          else case js_member AGENT_FILE_SOURCES g of
            Own s \<Rightarrow> Some s
          | Inherited \<Rightarrow> Some no_sources
          | Absent \<Rightarrow> None)"

definition filesApiUrl :: "json \<Rightarrow> string \<Rightarrow> string" where
  "filesApiUrl config pathAndQuery =
     strip_trailing (\<lambda>c. c = slash) (str_or_empty (js_prop config ''deploymentUrl'')) @ pathAndQuery"

section \<open>Files\<close>

datatype file_source = StateSource | StoreSource | ArtifactSource

datatype file_encoding = Utf8 | Base64

record agent_file =
  f_path :: string
  f_content :: string
  f_encoding :: file_encoding
  f_source :: file_source
  f_sourceKey :: string
  f_modifiedAt :: "int option"

definition state_content :: "json \<Rightarrow> string" where
  "state_content raw =
     (case raw of
        JStr s \<Rightarrow> s
      | _ \<Rightarrow>
          if is_object raw \<and> has_prop raw ''content''
          then (case js_prop raw ''content'' of
                  JArr inner \<Rightarrow> js_join [CHR 0x0A] inner
                | inner \<Rightarrow> js_string (or_nullish inner (JStr [])))
          else js_string (or_nullish raw (JStr [])))"

definition stateFilesToAgentFiles :: "(string, json) jmap \<Rightarrow> agent_file list" where
  "stateFilesToAgentFiles stateFiles =
     map (\<lambda>(key, raw). \<lparr>f_path = key, f_content = state_content raw, f_encoding = Utf8,
            f_source = StateSource, f_sourceKey = key, f_modifiedAt = None\<rparr>) stateFiles"

definition trim_prefix :: "string \<Rightarrow> string" where
  "trim_prefix pfx = strip_trailing (\<lambda>c. c = slash) pfx"

definition prefix_namespace :: "store_sources \<Rightarrow> string \<Rightarrow> string list" where
  "prefix_namespace cfg trimmed =
     namespacePrefix cfg @ filter (\<lambda>w. w \<noteq> []) (split_on slash trimmed)"

definition by_length_desc :: "string \<Rightarrow> string \<Rightarrow> int" where
  "by_length_desc a b = int (length b) - int (length a)"

fun resolve_among :: "store_sources \<Rightarrow> string list \<Rightarrow> string \<Rightarrow> (string list \<times> string) option" where
  "resolve_among cfg [] storeRel = None"
| "resolve_among cfg (pfx # rest) storeRel =
     (let trimmed = trim_prefix pfx in
      if storeRel = trimmed \<or> starts_with storeRel (trimmed @ ''/'')
      then (let remainder = drop (length trimmed) storeRel in
            Some (prefix_namespace cfg trimmed,
                  if starts_with remainder ''/'' then remainder else slash # remainder))
      else resolve_among cfg rest storeRel)"

definition resolveStoreLocation ::
  "store_sources \<Rightarrow> string \<Rightarrow> (string list \<times> string) option" where
  "resolveStoreLocation cfg storeRel =
     resolve_among cfg (js_sort by_length_desc (store_pathPrefixes cfg)) storeRel"

section \<open>Reading\<close>

record store_item =
  item_key :: string
  item_value :: json
  item_updatedAt :: "string option"
  item_updated_at :: "string option"

definition store_content :: "json \<Rightarrow> string" where
  "store_content rawContent =
     (case rawContent of
        JStr s \<Rightarrow> s
      | JArr vs \<Rightarrow> js_join [CHR 0x0A] vs
      | _ \<Rightarrow> if nullish rawContent then [] else js_string rawContent)"

definition parse_stamp :: "(string \<Rightarrow> int option) \<Rightarrow> string option \<Rightarrow> int option" where
  "parse_stamp date_parse u =
     (case u of Some s \<Rightarrow> if s = [] then None else date_parse s | None \<Rightarrow> None)"

definition store_item_file ::
  "(string \<Rightarrow> int option) \<Rightarrow> string \<Rightarrow> store_item \<Rightarrow> agent_file" where
  "store_item_file date_parse trimmed item =
     (let itemKey = (if starts_with (item_key item) ''/'' then item_key item
                     else slash # item_key item);
          storeRel = trimmed @ itemKey in
      \<lparr>f_path = storeRel, f_content = store_content (js_prop (item_value item) ''content''),
       f_encoding = (if js_prop (item_value item) ''encoding'' = JStr ''base64'' then Base64 else Utf8),
       f_source = StoreSource, f_sourceKey = storeRel,
       f_modifiedAt = parse_stamp date_parse (first_some (item_updatedAt item) (item_updated_at item))\<rparr>)"

text \<open>The search request of a prefix: namespace and limit; None when it rejects.\<close>

type_synonym store_search = "string list \<Rightarrow> nat \<Rightarrow> store_item list option"

definition prefix_files ::
  "(string \<Rightarrow> int option) \<Rightarrow> store_search \<Rightarrow> store_sources \<Rightarrow> string \<Rightarrow> agent_file list" where
  "prefix_files date_parse search cfg pfx =
     (let trimmed = trim_prefix pfx in
      case search (prefix_namespace cfg trimmed) 200 of
        Some items \<Rightarrow> map (store_item_file date_parse trimmed) items
      | None \<Rightarrow> [])"

definition fetchStoreFiles ::
  "(string \<Rightarrow> int option) \<Rightarrow> store_search \<Rightarrow> store_sources \<Rightarrow> string list \<Rightarrow> agent_file list" where
  "fetchStoreFiles date_parse search cfg finished =
     concat (map (prefix_files date_parse search cfg) finished)"

text \<open>The files API as the code reads it; None is a rejected request or an unreadable body.\<close>

record list_entry =
  le_path :: string
  le_isBinary :: bool
  le_modifiedAt :: "string option"

record files_api =
  api_list :: "string \<Rightarrow> (bool \<times> list_entry list) option"
  api_read :: "string \<Rightarrow> (bool \<times> string \<times> file_encoding) option"

definition list_url :: "json \<Rightarrow> string list \<Rightarrow> string" where
  "list_url config pfxs =
     filesApiUrl config (''/files/list?prefixes='' @ form_encode (join_with '','' pfxs))"

definition read_url :: "json \<Rightarrow> string \<Rightarrow> string" where
  "read_url config p = filesApiUrl config (''/files/read?path='' @ encodeURIComponent p)"

definition read_artifact ::
  "json \<Rightarrow> (string \<Rightarrow> int option) \<Rightarrow> files_api \<Rightarrow> list_entry \<Rightarrow> agent_file option" where
  "read_artifact config date_parse api f =
     (case api_read api (read_url config (le_path f)) of
        Some (True, c, enc) \<Rightarrow>
          Some \<lparr>f_path = le_path f, f_content = c, f_encoding = enc, f_source = ArtifactSource,
                f_sourceKey = le_path f, f_modifiedAt = parse_stamp date_parse (le_modifiedAt f)\<rparr>
      | _ \<Rightarrow> None)"

definition fetchArtifactFiles ::
  "json \<Rightarrow> (string \<Rightarrow> int option) \<Rightarrow> files_api \<Rightarrow> string list \<Rightarrow> agent_file list" where
  "fetchArtifactFiles config date_parse api pfxs =
     (case api_list api (list_url config pfxs) of
        Some (True, entries) \<Rightarrow> List.map_filter (read_artifact config date_parse api) entries
      | _ \<Rightarrow> [])"

text \<open>Newest first; without a time stamp last, by name.\<close>

definition file_cmp :: "(string \<Rightarrow> string \<Rightarrow> int) \<Rightarrow> agent_file \<Rightarrow> agent_file \<Rightarrow> int" where
  "file_cmp localeCompare a b =
     (case (f_modifiedAt a, f_modifiedAt b) of
        (Some am, Some bm) \<Rightarrow> if am \<noteq> bm then bm - am else localeCompare (f_path a) (f_path b)
      | (Some am, None) \<Rightarrow> -1
      | (None, Some bm) \<Rightarrow> 1
      | (None, None) \<Rightarrow> localeCompare (f_path a) (f_path b))"

definition merge_by_path :: "agent_file list \<Rightarrow> (string, agent_file) jmap" where
  "merge_by_path fs = fold (\<lambda>f. jset (f_path f) f) fs []"

record file_world =
  fw_config :: json
  fw_date_parse :: "string \<Rightarrow> int option"
  fw_search :: store_search
  fw_api :: files_api
  fw_localeCompare :: "string \<Rightarrow> string \<Rightarrow> int"

definition fetch_extra ::
  "file_world \<Rightarrow> agent_file_sources option \<Rightarrow> string list \<Rightarrow> agent_file list" where
  "fetch_extra w cfg finished =
     (case cfg of
        None \<Rightarrow> []
      | Some c \<Rightarrow>
          (case src_store c of
             Some st \<Rightarrow> fetchStoreFiles (fw_date_parse w) (fw_search w) st finished
           | None \<Rightarrow> [])
          @ (case src_artifacts c of
               Some ps \<Rightarrow> fetchArtifactFiles (fw_config w) (fw_date_parse w) (fw_api w) ps
             | None \<Rightarrow> []))"

definition fetchAgentFiles ::
  "file_world \<Rightarrow> string option \<Rightarrow> (string, json) jmap \<Rightarrow> string list \<Rightarrow> agent_file list" where
  "fetchAgentFiles w gid stateFiles finished =
     js_sort (file_cmp (fw_localeCompare w))
       (map snd (merge_by_path
          (fetch_extra w (getAgentFileSources gid) finished @ stateFilesToAgentFiles stateFiles)))"

section \<open>Writing, uploading, deleting\<close>

datatype write_request =
    PutItem "string list" string string file_encoding
  | PutArtifact string string string file_encoding
  | UpdateState string "(string, string) jmap"

datatype write_reply = WriteDone | WriteNotOk nat string | WriteThrows string

definition settle_write :: "write_reply \<Rightarrow> unit result" where
  "settle_write r =
     (case r of
        WriteDone \<Rightarrow> returns ()
      | WriteNotOk st txt \<Rightarrow> throws (''Artifact write failed: '' @ show_nat st @ '' '' @ txt)
      | WriteThrows e \<Rightarrow> throws e)"

text \<open>The request sent, if any, and how the call settles.\<close>

definition writeAgentFile ::
  "json \<Rightarrow> (write_request \<Rightarrow> write_reply) \<Rightarrow> string option \<Rightarrow> string option \<Rightarrow> agent_file \<Rightarrow>
   (string, string) jmap option \<Rightarrow> write_request option \<times> unit result" where
  "writeAgentFile config send threadId gid file stateFiles =
     (case f_source file of
        StoreSource \<Rightarrow>
          (case Option.bind (getAgentFileSources gid) src_store of
             None \<Rightarrow> (None, throws ''Store backend not configured for this agent'')
           | Some st \<Rightarrow>
               (case resolveStoreLocation st (f_sourceKey file) of
                  None \<Rightarrow> (None, throws (''No matching store pathPrefix for '' @ f_sourceKey file
                             @ '' (configured: '' @ join_with '', '' (store_pathPrefixes st) @ '')''))
                | Some (ns, key) \<Rightarrow>
                    let r = PutItem ns key (f_content file) (f_encoding file) in
                    (Some r, settle_write (send r))))
      | ArtifactSource \<Rightarrow>
          let r = PutArtifact (filesApiUrl config ''/files/write'') (f_sourceKey file)
                    (f_content file) (f_encoding file) in
          (Some r, settle_write (send r))
      | StateSource \<Rightarrow>
          (case threadId of
             None \<Rightarrow> (None, throws ''No threadId for state write'')
           | Some t \<Rightarrow>
               if t = [] then (None, throws ''No threadId for state write'')
               else let r = UpdateState t
                          (jset (f_sourceKey file) (f_content file) (or_else stateFiles [])) in
                    (Some r, settle_write (send r))))"

text \<open>
  An upload: the form entries in order (the directory, then one entry per file), and the reply
  as status and body, None for a body that is not JSON.
\<close>

record upload_file =
  uf_name :: string
  uf_bytes :: string

record upload_request =
  up_url :: string
  up_path :: string
  up_files :: "(string \<times> upload_file) list"

definition upload_request_of :: "json \<Rightarrow> upload_file list \<Rightarrow> string \<Rightarrow> upload_request" where
  "upload_request_of config files targetDir =
     \<lparr>up_url = filesApiUrl config ''/files/upload'', up_path = targetDir,
      up_files = map (\<lambda>f. (uf_name f, f)) files\<rparr>"

definition ok_status :: "nat \<Rightarrow> bool" where
  "ok_status st = (200 \<le> st \<and> st \<le> 299)"

definition settle_upload :: "nat \<Rightarrow> json option \<Rightarrow> json result" where
  "settle_upload st body =
     (let data = or_else body JNull in
      if \<not> ok_status st
      then (if truthy data \<and> \<not> is_object data then throws ''TypeError''
            else if truthy data \<and> has_prop data ''error'' \<and> truthy (js_prop data ''error'')
            then throws (js_string (js_prop data ''error''))
            else throws (''Upload failed ('' @ show_nat st @ '')''))
      else returns data)"

definition uploadAgentFiles ::
  "json \<Rightarrow> (upload_request \<Rightarrow> (nat \<times> json option) result) \<Rightarrow> upload_file list \<Rightarrow> string \<Rightarrow>
   upload_request \<times> json result" where
  "uploadAgentFiles config send files targetDir =
     (let r = upload_request_of config files targetDir in
      (r, res_bind (send r) (\<lambda>(st, body). settle_upload st body)))"

definition delete_url :: "json \<Rightarrow> string \<Rightarrow> string" where
  "delete_url config p = filesApiUrl config (''/files/delete?path='' @ encodeURIComponent p)"

definition settle_delete :: "nat \<Rightarrow> json option \<Rightarrow> unit result" where
  "settle_delete st body =
     (if ok_status st then returns ()
      else throws (js_string (or_nullish (js_prop (or_else body JNull) ''error'')
             (JStr (''Delete failed ('' @ show_nat st @ '')'')))))"

definition deleteAgentFile ::
  "json \<Rightarrow> (string \<Rightarrow> (nat \<times> json option) result) \<Rightarrow> string \<Rightarrow> string \<times> unit result" where
  "deleteAgentFile config send virtualPath =
     (let u = delete_url config virtualPath in
      (u, res_bind (send u) (\<lambda>(st, body). settle_delete st body)))"

section \<open>Lemmas: store locations\<close>

interpretation by_len: comparator by_length_desc
  by unfold_locales (auto simp: by_length_desc_def)

definition prefix_matches :: "string \<Rightarrow> string \<Rightarrow> bool" where
  "prefix_matches storeRel pfx =
     (storeRel = trim_prefix pfx \<or> starts_with storeRel (trim_prefix pfx @ ''/''))"

definition location_in :: "store_sources \<Rightarrow> string \<Rightarrow> string \<Rightarrow> string list \<times> string" where
  "location_in cfg pfx storeRel =
     (let remainder = drop (length (trim_prefix pfx)) storeRel in
      (prefix_namespace cfg (trim_prefix pfx),
       if starts_with remainder ''/'' then remainder else slash # remainder))"

lemma resolve_among_find:
  "resolve_among cfg ps storeRel =
     map_option (\<lambda>p. location_in cfg p storeRel) (find (prefix_matches storeRel) ps)"
  by (induction ps) (simp_all add: prefix_matches_def location_in_def Let_def)

lemma find_split: "find P xs = Some x \<Longrightarrow> \<exists>us vs. xs = us @ x # vs \<and> P x \<and> (\<forall>u \<in> set us. \<not> P u)"
proof (induction xs)
  case (Cons a xs)
  show ?case
  proof (cases "P a")
    case True
    with Cons.prems show ?thesis by (intro exI [of _ "[]"] exI [of _ xs]) auto
  next
    case False
    with Cons obtain us vs where "xs = us @ x # vs" "P x" "\<forall>u \<in> set us. \<not> P u" by auto
    with False show ?thesis by (intro exI [of _ "a # us"] exI [of _ vs]) auto
  qed
qed simp

text \<open>C23: A store path resolves exactly when some configured prefix covers it, and then to the
  longest such prefix: the namespace is the agent's with the prefix's segments appended and the
  key is the rest of the path, always with a leading slash.\<close>

theorem resolve_longest_prefix:
  "(resolveStoreLocation cfg p = None \<longleftrightarrow> \<not> list_ex (prefix_matches p) (store_pathPrefixes cfg)) \<and>
   (\<forall>loc. resolveStoreLocation cfg p = Some loc \<longrightarrow>
      (\<exists>pfx \<in> set (store_pathPrefixes cfg). prefix_matches p pfx \<and> loc = location_in cfg pfx p \<and>
         starts_with (snd loc) ''/'' \<and>
         (\<forall>q \<in> set (store_pathPrefixes cfg). prefix_matches p q \<longrightarrow> length q \<le> length pfx)))"
proof (intro conjI allI impI)
  show "resolveStoreLocation cfg p = None \<longleftrightarrow> \<not> list_ex (prefix_matches p) (store_pathPrefixes cfg)"
    by (auto simp: resolveStoreLocation_def resolve_among_find find_None_iff list_ex_iff)
next
  fix loc assume "resolveStoreLocation cfg p = Some loc"
  then obtain pfx where f: "find (prefix_matches p) (js_sort by_length_desc (store_pathPrefixes cfg))
      = Some pfx" and loc: "loc = location_in cfg pfx p"
    by (auto simp: resolveStoreLocation_def resolve_among_find)
  obtain us vs where split: "js_sort by_length_desc (store_pathPrefixes cfg) = us @ pfx # vs"
    and m: "prefix_matches p pfx" and no: "\<forall>u \<in> set us. \<not> prefix_matches p u"
    using find_split [OF f] by blast
  have "sorted_wrt (\<lambda>a b. by_length_desc a b \<le> 0) (us @ pfx # vs)"
    using by_len.sorted_js_sort [of "store_pathPrefixes cfg"] split by simp
  then have le: "\<forall>q \<in> set vs. length q \<le> length pfx"
    by (auto simp: sorted_wrt_append by_length_desc_def)
  have set: "set (store_pathPrefixes cfg) = set us \<union> {pfx} \<union> set vs"
    using split set_js_sort [of by_length_desc "store_pathPrefixes cfg"] by auto
  have "\<forall>q \<in> set (store_pathPrefixes cfg). prefix_matches p q \<longrightarrow> length q \<le> length pfx"
    using le no set by auto
  moreover have "starts_with (snd loc) ''/''"
    by (simp add: loc location_in_def Let_def)
  ultimately show "\<exists>pfx \<in> set (store_pathPrefixes cfg). prefix_matches p pfx \<and>
      loc = location_in cfg pfx p \<and> starts_with (snd loc) ''/'' \<and>
      (\<forall>q \<in> set (store_pathPrefixes cfg). prefix_matches p q \<longrightarrow> length q \<le> length pfx)"
    using m loc set by blast
qed

lemma resolve_longest_prefix_witness:
  "resolveStoreLocation \<lparr>namespacePrefix = [''n''], store_pathPrefixes = [''/a/'', ''/a/b/'']\<rparr> ''/a/b/x''
     = Some ([''n'', ''a'', ''b''], ''/x'')"
proof -
  let ?c = "\<lparr>namespacePrefix = [''n''], store_pathPrefixes = [''/a/'', ''/a/b/'']\<rparr>"
  have "resolveStoreLocation ?c ''/a/b/x'' \<noteq> None"
    using resolve_longest_prefix [of ?c "''/a/b/x''"]
    by (simp add: prefix_matches_def trim_prefix_def strip_trailing_def)
  moreover have "resolveStoreLocation ?c ''/a/b/x'' = Some ([''n'', ''a'', ''b''], ''/x'')"
    by code_simp
  ultimately show ?thesis by blast
qed

definition career_store :: store_sources where
  "career_store =
     \<lparr>namespacePrefix = [''career_agent''],
      store_pathPrefixes = [''/memory/'', ''/processed/'', ''/research/'', ''/interview_coach/'',
        ''/workspace/'']\<rparr>"

lemma career_sources:
  "getAgentFileSources (Some ''career_agent'') =
     Some \<lparr>src_store = Some career_store,
           src_artifacts = Some [''/upload/'', ''/tailored_resume/'', ''/interview_battlecard/'']\<rparr>"
  by (simp add: getAgentFileSources_def AGENT_FILE_SOURCES_def career_store_def)

lemma career_resolve:
  assumes "pfx \<in> set (store_pathPrefixes career_store)" and "starts_with key ''/''"
  shows "resolveStoreLocation career_store (trim_prefix pfx @ key)
           = Some (prefix_namespace career_store (trim_prefix pfx), key)"
proof -
  obtain k where key: "key = slash # k" using assms(2) by (cases key) auto
  have sorted: "js_sort by_length_desc (store_pathPrefixes career_store) =
      [''/interview_coach/'', ''/processed/'', ''/workspace/'', ''/research/'', ''/memory/'']"
    by (simp add: career_store_def js_sort_def by_length_desc_def)
  have trims: "trim_prefix ''/interview_coach/'' = ''/interview_coach''"
    "trim_prefix ''/processed/'' = ''/processed''" "trim_prefix ''/workspace/'' = ''/workspace''"
    "trim_prefix ''/research/'' = ''/research''" "trim_prefix ''/memory/'' = ''/memory''"
    by (simp_all add: trim_prefix_def strip_trailing_def)
  have "pfx = ''/memory/'' \<or> pfx = ''/processed/'' \<or> pfx = ''/research/'' \<or>
      pfx = ''/interview_coach/'' \<or> pfx = ''/workspace/''"
    using assms(1) by (simp add: career_store_def)
  then show ?thesis
    unfolding resolveStoreLocation_def sorted by (elim disjE) (simp_all add: Let_def trims key)
qed


definition sample_item :: store_item where
  "sample_item = \<lparr>item_key = ''/notes.md'', item_value = JObj [(''content'', JStr ''hi'')],
     item_updatedAt = None, item_updated_at = None\<rparr>"


section \<open>Lemmas: listing\<close>

lemma map_of_stateFiles_paths: "map f_path (stateFilesToAgentFiles sf) = map fst sf"
  by (simp add: stateFilesToAgentFiles_def comp_def case_prod_unfold)

lemma merge_paths: "set (map fst (merge_by_path fs)) = f_path ` set fs"
  using am.keys_fold_set [where f = f_path and g = "\<lambda>f. f" and xs = fs and m = "[]"]
  by (simp add: merge_by_path_def jkeys_def)

lemma merge_distinct: "distinct (map fst (merge_by_path fs))"
  using am.distinct_keys_fold [where f = f_path and g = "\<lambda>f. f" and xs = fs and m = "[]"]
  by (simp add: merge_by_path_def jkeys_def)

lemma merge_get: "map_of (merge_by_path fs) p = find (\<lambda>f. f_path f = p) (rev fs)"
  by (simp add: merge_by_path_def am.get_fold first_some_def option.map_ident split: option.split)

lemma merge_entry: "(p, f) \<in> set (merge_by_path fs) \<Longrightarrow> f_path f = p \<and> f \<in> set fs"
  using map_of_is_SomeI [OF merge_distinct, of p f fs] merge_get [of fs p]
  by (simp add: find_Some_iff) (metis length_rev nth_mem set_rev)

lemma merge_values_paths: "map f_path (map snd (merge_by_path fs)) = map fst (merge_by_path fs)"
  using merge_entry [of _ _ fs] by (auto simp: prod.case_eq_if)

lemma merge_value_iff:
  "f \<in> set (map snd (merge_by_path fs)) \<longleftrightarrow> find (\<lambda>g. f_path g = f_path f) (rev fs) = Some f"
proof -
  have "f \<in> set (map snd (merge_by_path fs)) \<longleftrightarrow> (f_path f, f) \<in> set (merge_by_path fs)"
  proof
    assume "f \<in> set (map snd (merge_by_path fs))"
    then obtain p where "(p, f) \<in> set (merge_by_path fs)" by auto
    then show "(f_path f, f) \<in> set (merge_by_path fs)" using merge_entry by metis
  qed force
  also have "\<dots> \<longleftrightarrow> map_of (merge_by_path fs) (f_path f) = Some f"
    by (rule map_of_eq_Some_iff [OF merge_distinct, symmetric])
  finally show ?thesis by (simp add: merge_get)
qed

lemma file_cmp_comparator: "comparator lc \<Longrightarrow> comparator (file_cmp lc)"
proof
  assume lc: "comparator lc"
  show "file_cmp lc x y \<le> 0 \<or> file_cmp lc y x \<le> 0" for x y
    using comparator.cmp_total [OF lc, of "f_path x" "f_path y"]
    by (auto simp: file_cmp_def split: option.splits)
  show "file_cmp lc x y \<le> 0 \<Longrightarrow> file_cmp lc y z \<le> 0 \<Longrightarrow> file_cmp lc x z \<le> 0" for x y z
    using comparator.cmp_trans [OF lc, of "f_path x" "f_path y" "f_path z"]
    by (auto simp: file_cmp_def split: option.splits if_splits)
qed

lemma fetchAgentFiles_facts:
  assumes "comparator (fw_localeCompare w)"
  shows "distinct (map f_path (fetchAgentFiles w gid sf finished)) \<and>
     f_path ` set (fetchAgentFiles w gid sf finished)
       = f_path ` set (fetch_extra w (getAgentFileSources gid) finished @ stateFilesToAgentFiles sf)"
proof -
  let ?all = "fetch_extra w (getAgentFileSources gid) finished @ stateFilesToAgentFiles sf"
  let ?vals = "map snd (merge_by_path ?all)"
  have "distinct (map f_path ?vals)"
    unfolding merge_values_paths by (rule merge_distinct)
  moreover have "f_path ` set ?vals = f_path ` set ?all"
    using merge_paths [of ?all] unfolding merge_values_paths [symmetric] by (simp only: set_map)
  ultimately show ?thesis
    unfolding fetchAgentFiles_def by (simp only: distinct_map_js_sort set_js_sort simp_thms)
qed


text \<open>A concrete collation: by code units.\<close>

fun code_compare :: "string \<Rightarrow> string \<Rightarrow> int" where
  "code_compare [] [] = 0"
| "code_compare [] (y # ys) = -1"
| "code_compare (x # xs) [] = 1"
| "code_compare (x # xs) (y # ys) =
     (let m = (of_char x :: int); n = of_char y in
      if m < n then -1 else if n < m then 1 else code_compare xs ys)"

lemma code_compare_swap: "code_compare a b = - code_compare b a"
  by (induction a b rule: code_compare.induct) (auto simp: Let_def)

lemma code_compare_eq: "code_compare a b = 0 \<longleftrightarrow> a = b"
  by (induction a b rule: code_compare.induct) (auto simp: Let_def)

lemma code_compare_trans:
  "code_compare a b \<le> 0 \<Longrightarrow> code_compare b c \<le> 0 \<Longrightarrow> code_compare a c \<le> 0"
proof (induction a c arbitrary: b rule: code_compare.induct)
  case (3 x xs)
  then show ?case by (cases b) auto
next
  case (4 x xs y ys)
  show ?case
  proof (cases b)
    case (Cons z zs)
    have "of_char x = (of_char y :: int) \<Longrightarrow> x = y" "of_char x = (of_char z :: int) \<Longrightarrow> x = z"
      by simp_all
    moreover have "code_compare xs ys \<le> 0"
      if "\<not> of_char x < (of_char y :: int)" "\<not> of_char y < (of_char x :: int)"
        "code_compare xs zs \<le> 0" "code_compare zs ys \<le> 0"
      using 4(1) [OF refl refl that(1,2,3,4)] .
    ultimately show ?thesis
      using 4(2,3) unfolding Cons by (simp add: Let_def split: if_splits; force)
  qed (use 4 in simp)
qed simp_all

interpretation code_order: comparator code_compare
proof
  show "code_compare x y \<le> 0 \<or> code_compare y x \<le> 0" for x y
    using code_compare_swap [of x y] by linarith
qed (rule code_compare_trans)

definition sample_files_world :: file_world where
  "sample_files_world = \<lparr>fw_config = JNull, fw_date_parse = (\<lambda>_. Some 5),
     fw_search = (\<lambda>ns n. if ns = [''career_agent'', ''memory''] then Some [sample_item] else None),
     fw_api = \<lparr>api_list = (\<lambda>_. None), api_read = (\<lambda>_. None)\<rparr>,
     fw_localeCompare = code_compare\<rparr>"


lemma mset_concat_map: "mset (concat (map f xs)) = (\<Sum>x \<in># mset xs. mset (f x))"
  by (induction xs) simp_all

lemma concat_map_mset: "mset xs = mset ys \<Longrightarrow> mset (concat (map f xs)) = mset (concat (map f ys))"
  by (simp add: mset_concat_map)

lemma fetch_extra_mset:
  "mset fin1 = mset fin2 \<Longrightarrow> mset (fetch_extra w cfg fin1) = mset (fetch_extra w cfg fin2)"
  by (auto simp: fetch_extra_def fetchStoreFiles_def intro: concat_map_mset split: option.split)

lemma find_rev_perm:
  assumes "mset xs = mset ys" and "distinct (map f xs)"
  shows "find (\<lambda>x. f x = k) (rev xs) = find (\<lambda>x. f x = k) (rev ys)"
proof (cases "\<exists>x \<in> set xs. f x = k")
  case True
  then obtain x where x: "x \<in> set xs" "f x = k" by blast
  have set: "set ys = set xs" using assms(1) by (metis set_mset_mset)
  have "find (\<lambda>x. f x = k) (rev zs) = Some x" if "set zs = set xs" for zs
    by (rule find_only) (use x that assms(2) in \<open>auto simp: distinct_map inj_on_def\<close>)
  then show ?thesis using set by simp
next
  case False
  moreover have "set ys = set xs" using assms(1) by (metis set_mset_mset)
  ultimately have "find (\<lambda>x. f x = k) (rev xs) = None" "find (\<lambda>x. f x = k) (rev ys) = None"
    by (auto simp: find_None_iff)
  then show ?thesis by simp
qed

lemma find_append: "find P (xs @ ys) = first_some (find P xs) (find P ys)"
  by (induction xs) auto

lemma file_cmp_anti:
  assumes "\<And>a b. lc a b \<le> 0 \<Longrightarrow> lc b a \<le> 0 \<Longrightarrow> a = b"
    and "file_cmp lc f g \<le> 0" "file_cmp lc g f \<le> 0"
  shows "f_path f = f_path g"
  using assms(2,3) assms(1) [of "f_path f" "f_path g"]
  by (auto simp: file_cmp_def split: option.splits if_splits)

text \<open>The list does not depend on the order in which the concurrent store reads finish, as
  long as no two rows of the sources share a path and the collation tells paths apart.\<close>

theorem listing_order_independent:
  assumes "comparator (fw_localeCompare w)"
    and "\<And>a b. fw_localeCompare w a b \<le> 0 \<Longrightarrow> fw_localeCompare w b a \<le> 0 \<Longrightarrow> a = b"
    and "mset fin1 = mset fin2"
    and "distinct (map f_path (fetch_extra w (getAgentFileSources gid) fin1))"
  shows "fetchAgentFiles w gid sf fin1 = fetchAgentFiles w gid sf fin2"
proof -
  let ?e1 = "fetch_extra w (getAgentFileSources gid) fin1"
  let ?e2 = "fetch_extra w (getAgentFileSources gid) fin2"
  let ?st = "stateFilesToAgentFiles sf"
  let ?v1 = "map snd (merge_by_path (?e1 @ ?st))"
  let ?v2 = "map snd (merge_by_path (?e2 @ ?st))"
  have "find (\<lambda>f. f_path f = p) (rev ?e1) = find (\<lambda>f. f_path f = p) (rev ?e2)" for p
    by (rule find_rev_perm [OF fetch_extra_mset [OF assms(3)] assms(4)])
  then have "set ?v1 = set ?v2"
    by (intro set_eqI) (simp only: merge_value_iff rev_append find_append)
  moreover have "distinct ?v1" "distinct ?v2"
    using merge_distinct unfolding merge_values_paths [symmetric]
    by (blast intro: distinct_map [THEN iffD1, THEN conjunct1])+
  ultimately have "mset ?v1 = mset ?v2"
    by (simp only: set_eq_iff_mset_eq_distinct)
  moreover have "a = b" if "a \<in> set ?v1" "b \<in> set ?v1"
    "file_cmp (fw_localeCompare w) a b \<le> 0" "file_cmp (fw_localeCompare w) b a \<le> 0" for a b
  proof -
    have "f_path a = f_path b"
      using file_cmp_anti [OF assms(2) that(3,4)] by blast
    then show ?thesis using that(1,2) by (simp only: merge_value_iff) simp
  qed
  ultimately show ?thesis
    unfolding fetchAgentFiles_def
    by (intro comparator.js_sort_perm [OF file_cmp_comparator [OF assms(1)]]) auto
qed

lemma listing_order_independent_witness:
  "fetchAgentFiles sample_files_world (Some ''career_agent'') [] (store_pathPrefixes career_store)
   = fetchAgentFiles sample_files_world (Some ''career_agent'') [] (rev (store_pathPrefixes career_store))"
proof (rule listing_order_independent)
  show "comparator (fw_localeCompare sample_files_world)"
    using code_order.comparator_axioms by (simp add: sample_files_world_def)
  show "a = b" if "fw_localeCompare sample_files_world a b \<le> 0"
    "fw_localeCompare sample_files_world b a \<le> 0" for a b
    using that code_compare_swap [of a b] code_compare_eq [of a b] by (simp add: sample_files_world_def)
qed (simp, code_simp)

text \<open>A saved state file is what the next listing shows: the update sent for it keeps every
  other state file, and a listing of the updated state holds the file with the new content at
  its path, whatever the store and the artifacts report.\<close>

theorem state_write_visible:
  assumes "f_source file = StateSource" and "threadId = Some t" and "t \<noteq> []"
    and "jok (or_else old [])"
  shows "\<exists>new. fst (writeAgentFile config send threadId gid file old) = Some (UpdateState t new) \<and>
     (\<forall>k. map_of new k = (if k = f_sourceKey file then Some (f_content file)
                           else map_of (or_else old []) k)) \<and>
     (\<exists>g \<in> set (fetchAgentFiles w gid' (map (\<lambda>(k, v). (k, JStr v)) new) finished).
        f_path g = f_sourceKey file \<and> f_content g = f_content file \<and> f_source g = StateSource)"
proof -
  define new where "new = jset (f_sourceKey file) (f_content file) (or_else old [])"
  let ?sf = "map (\<lambda>(k, v). (k, JStr v)) new"
  define g where "g = \<lparr>f_path = f_sourceKey file, f_content = f_content file, f_encoding = Utf8,
    f_source = StateSource, f_sourceKey = f_sourceKey file, f_modifiedAt = None\<rparr>"
  have "(f_sourceKey file, f_content file) \<in> set new"
    by (rule map_of_SomeD) (simp add: new_def)
  then have g_in: "g \<in> set (stateFilesToAgentFiles ?sf)"
    by (force simp: stateFilesToAgentFiles_def g_def state_content_def)
  have "jok new" using assms(4) by (simp add: new_def)
  then have "distinct (map f_path (stateFilesToAgentFiles ?sf))"
    by (simp add: map_of_stateFiles_paths comp_def case_prod_unfold jok_def)
  then have "find (\<lambda>h. f_path h = f_path g) (rev (stateFilesToAgentFiles ?sf)) = Some g"
    by (intro find_only) (use g_in in \<open>auto simp: distinct_map inj_on_def\<close>)
  then have "g \<in> set (fetchAgentFiles w gid' ?sf finished)"
    unfolding fetchAgentFiles_def set_js_sort merge_value_iff by (simp add: find_append)
  moreover have "fst (writeAgentFile config send threadId gid file old) = Some (UpdateState t new)"
    using assms by (simp add: writeAgentFile_def Let_def new_def)
  moreover have "f_path g = f_sourceKey file" "f_content g = f_content file" "f_source g = StateSource"
    by (simp_all add: g_def)
  moreover have "map_of new k = (if k = f_sourceKey file then Some (f_content file)
      else map_of (or_else old []) k)" for k
    by (simp add: new_def)
  ultimately show ?thesis by blast
qed

lemma state_write_visible_witness:
  "\<exists>new. fst (writeAgentFile JNull (\<lambda>_. WriteDone) (Some ''t'') None
      \<lparr>f_path = ''/a'', f_content = ''x'', f_encoding = Utf8, f_source = StateSource,
       f_sourceKey = ''/a'', f_modifiedAt = None\<rparr> None) = Some (UpdateState ''t'' new)"
  using state_write_visible [of "\<lparr>f_path = ''/a'', f_content = ''x'', f_encoding = Utf8,
      f_source = StateSource, f_sourceKey = ''/a'', f_modifiedAt = None\<rparr>" "Some ''t''" "''t''" None
      JNull "\<lambda>_. WriteDone" None sample_files_world None "[]"]
  by (simp del: fst_conv) blast

text \<open>A write reaches a backend only when the file can be placed: without a configured store,
  without a matching prefix or without a thread nothing is sent and the error says why, and a
  request that was sent settles as its backend answered.\<close>

theorem write_errors:
  "writeAgentFile config send threadId gid file old = (req, res) \<Longrightarrow>
     (case req of
        None \<Rightarrow> \<exists>e. res = throws e \<and>
          (f_source file = StateSource \<and> (threadId = None \<or> threadId = Some []) \<or>
           f_source file = StoreSource \<and>
             (\<forall>st. Option.bind (getAgentFileSources gid) src_store = Some st \<longrightarrow>
                resolveStoreLocation st (f_sourceKey file) = None))
      | Some r \<Rightarrow> res = settle_write (send r))"
  by (auto simp: writeAgentFile_def Let_def split: file_source.splits option.splits if_splits prod.splits)

lemma write_errors_witness:
  "\<exists>e. snd (writeAgentFile JNull (\<lambda>_. WriteDone) (Some ''t'') (Some ''analytics_agent'')
      \<lparr>f_path = ''/a'', f_content = ''x'', f_encoding = Utf8, f_source = StoreSource,
       f_sourceKey = ''/a'', f_modifiedAt = None\<rparr> None) = throws e"
proof -
  let ?f = "\<lparr>f_path = ''/a'', f_content = ''x'', f_encoding = Utf8, f_source = StoreSource,
       f_sourceKey = ''/a'', f_modifiedAt = None\<rparr>"
  have w: "writeAgentFile JNull (\<lambda>_. WriteDone) (Some ''t'') (Some ''analytics_agent'') ?f None
      = (None, throws ''Store backend not configured for this agent'')"
    by (simp add: writeAgentFile_def getAgentFileSources_def AGENT_FILE_SOURCES_def)
  show ?thesis using write_errors [OF w] w by auto
qed

text \<open>Deleting a file sends one request, whose address names that file and no other, and
  succeeds exactly when the backend answers with a success status.\<close>

theorem delete_settles:
  "(fst (deleteAgentFile config send p) = fst (deleteAgentFile config send' q) \<longleftrightarrow> p = q) \<and>
   (snd (deleteAgentFile config send p) = returns () \<longleftrightarrow>
      (\<exists>st body. send (delete_url config p) = returns (st, body) \<and> 200 \<le> st \<and> st \<le> 299))"
  by (cases "send (delete_url config p)")
     (auto simp: deleteAgentFile_def Let_def delete_url_def filesApiUrl_def encodeURIComponent_inj
       settle_delete_def ok_status_def split: if_splits)

lemma upload_settles:
  "snd (uploadAgentFiles config send files dir) = returns v \<longleftrightarrow>
     (\<exists>st body. send (upload_request_of config files dir) = returns (st, body) \<and> ok_status st
        \<and> v = or_else body JNull)"
  by (cases "send (upload_request_of config files dir)")
     (auto simp: uploadAgentFiles_def Let_def settle_upload_def split: if_splits)

end
