(* ===== verification/ChatFiles.thy ===== *)
theory ChatFiles
imports AgentFiles Usage
begin

text \<open>
  The chat hook \<^verbatim>\<open>app/hooks/useChat.ts\<close>: the time stamps given to state files, the refresh that
  lists all files, saving an edited file map, deleting artifacts, the note a finished upload
  leaves in the composer, and the requests sent to the stream. The stream itself (the SDK) is
  outside: what the hook asks of it is a list of effects.
\<close>

section \<open>State\<close>

record assistant =
  assistant_id :: string
  graph_id :: string
  as_config :: json
  as_metadata :: json
  as_name :: string

record chat_state =
  extendedFiles :: "agent_file list"
  filesReady :: bool
  stamps :: "(string, string \<times> int) jmap"
  chat_input :: string
  focusComposerNonce :: nat

definition chat_init :: chat_state where
  "chat_init = \<lparr>extendedFiles = [], filesReady = False, stamps = [], chat_input = [],
     focusComposerNonce = 0\<rparr>"

definition stateFileSignature :: "json \<Rightarrow> string" where
  "stateFileSignature v =
     (let other = ''x:'' @ show_nat (length (js_string (or_nullish v (JStr [])))) in
      case v of
        JStr s \<Rightarrow> ''s:'' @ show_nat (length s) @ '':'' @ take 64 s
      | _ \<Rightarrow>
          if truthy v \<and> is_object v \<and> has_prop v ''content''
          then (case js_prop v ''content'' of
                  JStr inner \<Rightarrow> ''o:'' @ show_nat (length inner) @ '':'' @ take 64 inner
                | JArr inner \<Rightarrow> ''a:'' @ show_nat (length inner)
                | _ \<Rightarrow> other)
          else other)"

section \<open>Refreshing\<close>

definition stamp_one ::
  "int \<Rightarrow> nat \<times> string \<times> json \<Rightarrow> (string, string \<times> int) jmap \<Rightarrow> (string, string \<times> int) jmap" where
  "stamp_one now e m =
     (case e of (i, p, v) \<Rightarrow>
        let sig = stateFileSignature v in
        (case map_of m p of
           Some (sig', at) \<Rightarrow> if sig' \<noteq> sig then jset p (sig, now + int i) m else m
         | None \<Rightarrow> jset p (sig, now + int i) m))"

definition stamp_all ::
  "int \<Rightarrow> (string, json) jmap \<Rightarrow> (string, string \<times> int) jmap \<Rightarrow> (string, string \<times> int) jmap" where
  "stamp_all now sf m = fold (stamp_one now) (zip [0..<length sf] sf) m"

definition refresh_start :: "int \<Rightarrow> (string, json) jmap \<Rightarrow> chat_state \<Rightarrow> chat_state" where
  "refresh_start now sf st =
     st\<lparr>stamps := filter (\<lambda>(p, _). p \<in> fst ` set sf) (stamp_all now sf (stamps st))\<rparr>"

definition overlay_stamp :: "(string, string \<times> int) jmap \<Rightarrow> agent_file \<Rightarrow> agent_file" where
  "overlay_stamp m f =
     (if f_source f \<noteq> StateSource then f
      else case map_of m (f_path f) of
        Some (_, at) \<Rightarrow> f\<lparr>f_modifiedAt := Some at\<rparr>
      | None \<Rightarrow> f)"

text \<open>The second half, when \<^verbatim>\<open>fetchAgentFiles\<close> has settled; None when it rejected.\<close>

definition refresh_finish ::
  "(string \<Rightarrow> string \<Rightarrow> int) \<Rightarrow> string option \<Rightarrow> agent_file list option \<Rightarrow> chat_state \<Rightarrow> chat_state" where
  "refresh_finish lc gid fetched st =
     (let st' = (case fetched of
                   Some files \<Rightarrow>
                     st\<lparr>extendedFiles := js_sort (file_cmp lc) (map (overlay_stamp (stamps st)) files)\<rparr>
                 | None \<Rightarrow> st) in
      if gid \<noteq> None \<and> gid \<noteq> Some [] then st'\<lparr>filesReady := True\<rparr> else st')"

definition refreshFiles ::
  "file_world \<Rightarrow> string option \<Rightarrow> (string, json) jmap \<Rightarrow> string list \<Rightarrow> int \<Rightarrow> chat_state \<Rightarrow> chat_state" where
  "refreshFiles w gid sf finished now st =
     refresh_finish (fw_localeCompare w) gid (Some (fetchAgentFiles w gid sf finished))
       (refresh_start now sf st)"

definition filesMap :: "chat_state \<Rightarrow> (string, string) jmap" where
  "filesMap st = fold (\<lambda>f. jset (f_path f) (f_content f)) (extendedFiles st) []"

section \<open>Saving an edited map\<close>

record save_plan =
  plan_writes :: "agent_file list"
  plan_state :: "(string, string) jmap"
  plan_changed :: bool

definition new_file :: "file_source \<Rightarrow> string \<Rightarrow> string \<Rightarrow> agent_file" where
  "new_file src p c = \<lparr>f_path = p, f_content = c, f_encoding = Utf8, f_source = src,
     f_sourceKey = p, f_modifiedAt = None\<rparr>"

definition second_segment :: "string \<Rightarrow> string" where
  "second_segment p = (case split_on slash p of _ # seg # _ \<Rightarrow> seg | _ \<Rightarrow> [])"

definition synthesize :: "agent_file_sources option \<Rightarrow> string \<Rightarrow> string \<Rightarrow> agent_file option" where
  "synthesize cfg p c =
     (let in_store = (case Option.bind cfg src_store of
                        Some s \<Rightarrow> resolveStoreLocation s p \<noteq> None
                      | None \<Rightarrow> False) in
      if in_store then Some (new_file StoreSource p c)
      else case Option.bind cfg src_artifacts of
        None \<Rightarrow> None
      | Some ps \<Rightarrow>
          let seg = second_segment p in
          if seg \<noteq> [] \<and> (''/'' @ seg @ ''/'') \<in> set ps then Some (new_file ArtifactSource p c)
          else None)"

definition plan_one ::
  "agent_file_sources option \<Rightarrow> (string, agent_file) jmap \<Rightarrow> string \<times> string \<Rightarrow> save_plan \<Rightarrow> save_plan" where
  "plan_one cfg cur e plan =
     (case e of (p, c) \<Rightarrow>
        (case map_of cur p of
           Some existing \<Rightarrow>
             if f_source existing = StateSource
             then plan\<lparr>plan_state := jset p c (plan_state plan),
                       plan_changed := (plan_changed plan \<or> f_content existing \<noteq> c)\<rparr>
             else if f_content existing \<noteq> c
             then plan\<lparr>plan_writes := plan_writes plan @ [existing\<lparr>f_content := c\<rparr>]\<rparr>
             else plan
         | None \<Rightarrow>
             (case synthesize cfg p c of
                Some f \<Rightarrow> plan\<lparr>plan_writes := plan_writes plan @ [f]\<rparr>
              | None \<Rightarrow> plan\<lparr>plan_state := jset p c (plan_state plan), plan_changed := True\<rparr>)))"

definition save_plan_of ::
  "agent_file_sources option \<Rightarrow> (string, agent_file) jmap \<Rightarrow> (string, string) jmap \<Rightarrow> save_plan" where
  "save_plan_of cfg cur files =
     fold (plan_one cfg cur) files \<lparr>plan_writes = [], plan_state = [], plan_changed = False\<rparr>"

definition truthy_id :: "string option \<Rightarrow> bool" where
  "truthy_id t = (t \<noteq> None \<and> t \<noteq> Some [])"

text \<open>
  The requests issued, how each settled, and the state afterwards. All writes are issued before
  any is awaited; one that rejects makes the call reject before the list is fetched again. The
  refetch uses the state files the callback closed over.
\<close>

definition setFiles ::
  "file_world \<Rightarrow> (write_request \<Rightarrow> write_reply) \<Rightarrow> string option \<Rightarrow> string option \<Rightarrow>
   (string, json) jmap \<Rightarrow> string list \<Rightarrow> (string, string) jmap \<Rightarrow> chat_state \<Rightarrow>
   write_request list \<times> unit result list \<times> chat_state" where
  "setFiles w send threadId gid closed_over finished files st =
     (if getAgentFileSources gid = None
      then (if truthy_id threadId
            then (let r = UpdateState (or_else threadId []) files in ([r], [settle_write (send r)], st))
            else ([], [], st))
      else
        let cur = fold (\<lambda>f. jset (f_path f) f) (extendedFiles st) [];
            plan = save_plan_of (getAgentFileSources gid) cur files;
            external = map (\<lambda>f. writeAgentFile (fw_config w) send threadId gid f None) (plan_writes plan);
            state = (if plan_changed plan \<and> truthy_id threadId
                     then (let r = UpdateState (or_else threadId []) (plan_state plan) in
                           [(Some r, settle_write (send r))])
                     else []);
            all = external @ state;
            outcomes = map snd all;
            st' = (if list_all (\<lambda>r. \<not> isl r) outcomes
                   then st\<lparr>extendedFiles := fetchAgentFiles w gid closed_over finished\<rparr>
                   else st) in
        (List.map_filter fst all, outcomes, st'))"

section \<open>Deleting\<close>

definition remove_one ::
  "json \<Rightarrow> (string \<Rightarrow> (nat \<times> json option) result) \<Rightarrow> agent_file list \<Rightarrow> string \<Rightarrow>
   string option \<times> unit result" where
  "remove_one config send files vp =
     (case find (\<lambda>f. f_path f = vp) files of
        None \<Rightarrow> (None, throws (''File not found: '' @ vp))
      | Some f \<Rightarrow>
          if f_source f \<noteq> ArtifactSource
          then (None, throws ''Only artifact files can be deleted from the UI'')
          else (case deleteAgentFile config send (f_sourceKey f) of (u, r) \<Rightarrow> (Some u, r)))"

definition removeFile ::
  "file_world \<Rightarrow> (string \<Rightarrow> (nat \<times> json option) result) \<Rightarrow> string option \<Rightarrow> (string, json) jmap \<Rightarrow>
   string list \<Rightarrow> int \<Rightarrow> string \<Rightarrow> chat_state \<Rightarrow> unit result \<times> chat_state" where
  "removeFile w send gid sf finished now vp st =
     (case snd (remove_one (fw_config w) send (extendedFiles st) vp) of
        Inl e \<Rightarrow> (throws e, st)
      | Inr _ \<Rightarrow> (returns (), refreshFiles w gid sf finished now st))"

definition collect_removals ::
  "(string \<times> unit result) list \<Rightarrow> string list \<times> (string \<times> string) list" where
  "collect_removals rs =
     foldl (\<lambda>(deleted, errors) (vp, r).
              case r of Inr _ \<Rightarrow> (deleted @ [vp], errors)
              | Inl reason \<Rightarrow> (deleted, errors @ [(vp, reason)])) ([], []) rs"

definition removeFiles ::
  "file_world \<Rightarrow> (string \<Rightarrow> (nat \<times> json option) result) \<Rightarrow> string option \<Rightarrow> (string, json) jmap \<Rightarrow>
   string list \<Rightarrow> int \<Rightarrow> string list \<Rightarrow> chat_state \<Rightarrow>
   (string list \<times> (string \<times> string) list) \<times> chat_state" where
  "removeFiles w send gid sf finished now vps st =
     (collect_removals
        (map (\<lambda>vp. (vp, snd (remove_one (fw_config w) send (extendedFiles st) vp))) vps),
      refreshFiles w gid sf finished now st)"

section \<open>Composer and stream\<close>

definition newline :: char where
  "newline = CHR 0x0A"

definition appendUploadNote :: "string list \<Rightarrow> chat_state \<Rightarrow> chat_state" where
  "appendUploadNote filenames st =
     (if filenames = [] then st
      else let note = ''Uploaded: '' @ join_with '', '' filenames @ [newline]; prev = chat_input st in
        st\<lparr>chat_input :=
             (if js_trim prev \<noteq> []
              then strip_trailing (\<lambda>c. c = newline) prev @ [newline, newline] @ note
              else note),
           focusComposerNonce := focusComposerNonce st + 1\<rparr>)"

definition buildSubmitConfig ::
  "build_env \<Rightarrow> json \<Rightarrow> assistant option \<Rightarrow> (string \<times> json) list \<Rightarrow> json" where
  "buildSubmitConfig e userConfig active extra =
     (let ac = (case active of Some a \<Rightarrow> or_nullish (as_config a) (JObj []) | None \<Rightarrow> JObj []);
          acf = or_nullish (js_prop ac ''configurable'') (JObj []);
          main = js_prop userConfig ''mainAgentModel'';
          sub = js_prop userConfig ''subagentModel'';
          overrides =
            (if isModelOverrideEnabled e
             then (if truthy main then [(''main_agent_model'', main)] else [])
                @ (if truthy sub then [(''subagent_model'', sub)] else [])
             else []) in
      spread_with ac (extra @ [(''configurable'', spread_with acf overrides)]))"

datatype chat_effect =
    Submit string json
  | Respond json json "string option" "string list option"
  | StopStream
  | RevalidateHistory
  | ToastError string
  | MutateUsage
  | Unhandled json

definition sendMessage ::
  "build_env \<Rightarrow> (string \<Rightarrow> json option) \<Rightarrow> json \<Rightarrow> assistant option \<Rightarrow> json option \<Rightarrow> string \<Rightarrow>
   chat_effect list" where
  "sendMessage e parse userConfig active failure text =
     [Submit text (buildSubmitConfig e userConfig active [(''recursion_limit'', JNum 100)]),
      RevalidateHistory]
     @ (case failure of
          None \<Rightarrow> []
        | Some error \<Rightarrow>
            (case quotaRefusalMessage parse error of
               Some m \<Rightarrow> if m = [] then [Unhandled error] else [ToastError m, MutateUsage]
             | None \<Rightarrow> [Unhandled error]))"

definition resumeInterrupt ::
  "build_env \<Rightarrow> json \<Rightarrow> assistant option \<Rightarrow> json \<Rightarrow> string option \<Rightarrow> string list option \<Rightarrow>
   chat_effect list" where
  "resumeInterrupt e userConfig active v interruptId ns =
     [Respond v (buildSubmitConfig e userConfig active [])
        (if truthy_id interruptId then interruptId else None) ns,
      RevalidateHistory]"

definition stream_options :: "assistant option \<Rightarrow> string option \<Rightarrow> string \<times> string option" where
  "stream_options active threadId =
     (case active of
        Some a \<Rightarrow> (assistant_id a, threadId)
      | None \<Rightarrow> ([], None))"

section \<open>Lemmas: stamps and the file list\<close>

definition new_stamp ::
  "int \<Rightarrow> nat \<Rightarrow> json \<Rightarrow> (string \<times> int) option \<Rightarrow> string \<times> int" where
  "new_stamp now i v old =
     (case old of
        Some (sig, at) \<Rightarrow> if sig = stateFileSignature v then (sig, at)
                         else (stateFileSignature v, now + int i)
      | None \<Rightarrow> (stateFileSignature v, now + int i))"

lemma stamp_one_get:
  "map_of (stamp_one now (i, p, v) m) q =
     (if q = p then Some (new_stamp now i v (map_of m p)) else map_of m q)"
  by (auto simp: stamp_one_def new_stamp_def Let_def split: option.splits prod.splits)

lemma stamp_fold_other:
  "p \<notin> (\<lambda>(i, q, v). q) ` set es \<Longrightarrow> map_of (fold (stamp_one now) es m) p = map_of m p"
proof (induction es arbitrary: m)
  case (Cons e es)
  then show ?case by (cases e) (auto simp: stamp_one_get image_iff)
qed simp

lemma stamp_fold_get:
  "distinct (map (\<lambda>(i, q, v). q) es) \<Longrightarrow> (i, p, v) \<in> set es \<Longrightarrow>
   map_of (fold (stamp_one now) es m) p = Some (new_stamp now i v (map_of m p))"
proof (induction es arbitrary: m)
  case (Cons e es)
  obtain j q u where e: "e = (j, q, u)" by (cases e)
  show ?case
  proof (cases "(i, p, v) = e")
    case True
    with Cons.prems e have "p \<notin> (\<lambda>(i, q, v). q) ` set es" by auto
    with True e show ?thesis by (simp add: stamp_fold_other stamp_one_get)
  next
    case False
    with Cons.prems e have "p \<noteq> q" by (force simp: image_iff)
    with False Cons e show ?thesis by (simp add: stamp_one_get)
  qed
qed simp

lemma zip_entries: "map (\<lambda>(i, q, v). q) (zip [0..<length sf] sf) = map fst sf"
proof -
  have "map (\<lambda>(i, q, v). q) (zip [0..<length sf] sf) = map fst (map snd (zip [0..<length sf] sf))"
    by (simp only: map_map comp_def case_prod_unfold)
  also have "map snd (zip [0..<length sf] sf) = sf"
    by (rule map_snd_zip) simp
  finally show ?thesis .
qed

text \<open>After a refresh exactly the present state files carry a stamp; a file whose signature is
  unchanged keeps its stamp, and a new or changed one gets a stamp from now on, so it sorts
  above every file stamped earlier.\<close>

theorem stamps_track_content:
  assumes "jok sf"
  shows "let m = stamps (refresh_start now sf st) in
     (\<forall>p. map_of m p = None \<longleftrightarrow> map_of sf p = None) \<and>
     (\<forall>p v. map_of sf p = Some v \<longrightarrow>
        (\<exists>at. map_of m p = Some (stateFileSignature v, at) \<and>
           (if \<exists>at0. map_of (stamps st) p = Some (stateFileSignature v, at0)
            then map_of (stamps st) p = Some (stateFileSignature v, at)
            else now \<le> at \<and> at < now + int (length sf))))"
proof -
  let ?m = "stamps (refresh_start now sf st)"
  have get: "\<exists>i < length sf. map_of ?m p = Some (new_stamp now i v (map_of (stamps st) p))"
    if "map_of sf p = Some v" for p v
  proof -
    have "(p, v) \<in> set sf" using that by (rule map_of_SomeD)
    then obtain i where i: "i < length sf" "sf ! i = (p, v)" by (auto simp: in_set_conv_nth)
    then have "(i, p, v) \<in> set (zip [0..<length sf] sf)"
      by (force simp: set_zip)
    then have "map_of (stamp_all now sf (stamps st)) p
        = Some (new_stamp now i v (map_of (stamps st) p))"
      unfolding stamp_all_def
      by (intro stamp_fold_get) (use assms in \<open>simp_all add: zip_entries jok_def\<close>)
    with i \<open>(p, v) \<in> set sf\<close> show ?thesis
      by (force simp: refresh_start_def map_of_filter_key)
  qed
  have none: "map_of ?m p = None" if "map_of sf p = None" for p
    using that by (auto simp: refresh_start_def map_of_filter_key map_of_eq_None_iff)
  show ?thesis
    unfolding Let_def
  proof (intro conjI allI impI)
    show "map_of ?m p = None \<longleftrightarrow> map_of sf p = None" for p
      using get none by (cases "map_of sf p") force+
    fix p v assume "map_of sf p = Some v"
    from get [OF this] obtain i where "i < length sf"
      "map_of ?m p = Some (new_stamp now i v (map_of (stamps st) p))" by blast
    then show "\<exists>at. map_of ?m p = Some (stateFileSignature v, at) \<and>
        (if \<exists>at0. map_of (stamps st) p = Some (stateFileSignature v, at0)
         then map_of (stamps st) p = Some (stateFileSignature v, at)
         else now \<le> at \<and> at < now + int (length sf))"
      by (cases "map_of (stamps st) p") (auto simp: new_stamp_def split: if_splits)
  qed
qed

lemma stamps_track_content_witness:
  "\<exists>at. map_of (stamps (refresh_start 100 [(''/a'', JStr ''x'')] chat_init)) ''/a''
     = Some (stateFileSignature (JStr ''x''), at) \<and> 100 \<le> at"
proof -
  have "jok [(''/a'', JStr ''x'')]" by (simp add: jok_def)
  from stamps_track_content [OF this, of 100 chat_init, unfolded Let_def, THEN conjunct2,
      rule_format, of "''/a''" "JStr ''x''"]
  show ?thesis by (auto simp: chat_init_def)
qed

lemma signature_misses_tail:
  "length s = length t \<Longrightarrow> take 64 s = take 64 t \<Longrightarrow>
   stateFileSignature (JStr s) = stateFileSignature (JStr t)"
  by (simp add: stateFileSignature_def)

lemma overlay_path [simp]: "f_path (overlay_stamp m f) = f_path f"
  by (simp add: overlay_stamp_def split: option.split)

lemma filesMap_keys: "distinct (map f_path (extendedFiles st)) \<Longrightarrow>
  jkeys (filesMap st) = map f_path (extendedFiles st)"
proof -
  have "jkeys (fold (\<lambda>f. jset (f_path f) (f_content f)) fs m) = jkeys m @ map f_path fs"
    if "distinct (map f_path fs)" "set (jkeys m) \<inter> f_path ` set fs = {}" for fs m
    using that by (induction fs arbitrary: m) (auto simp: jkeys_jset)
  from this [of "extendedFiles st" "[]"] show "distinct (map f_path (extendedFiles st)) \<Longrightarrow> ?thesis"
    by (simp add: filesMap_def jkeys_def)
qed

text \<open>The file map the panels read lists every file once, in the order newest first including
  the client-side stamps of state files, and holds each file's content.\<close>

theorem refresh_files_map:
  assumes "comparator (fw_localeCompare w)"
  shows "let st' = refreshFiles w gid sf finished now st in
     distinct (map f_path (extendedFiles st')) \<and>
     sorted_wrt (\<lambda>a b. file_cmp (fw_localeCompare w) a b \<le> 0) (extendedFiles st') \<and>
     jkeys (filesMap st') = map f_path (extendedFiles st') \<and>
     (\<forall>f \<in> set (extendedFiles st'). map_of (filesMap st') (f_path f) = Some (f_content f)) \<and>
     (\<forall>p v. (p, v) \<in> set sf \<longrightarrow> p \<in> set (jkeys (filesMap st'))) \<and>
     (truthy_id gid \<longrightarrow> filesReady st')"
proof -
  let ?st = "refreshFiles w gid sf finished now st"
  let ?files = "fetchAgentFiles w gid sf finished"
  let ?over = "map (overlay_stamp (stamps (refresh_start now sf st))) ?files"
  have ext: "extendedFiles ?st = js_sort (file_cmp (fw_localeCompare w)) ?over"
    by (simp add: refreshFiles_def refresh_finish_def Let_def)
  have merged: "distinct (map f_path ?files)"
    "f_path ` set ?files = f_path ` set (fetch_extra w (getAgentFileSources gid) finished
        @ stateFilesToAgentFiles sf)"
    using fetchAgentFiles_facts [OF assms] by blast+
  have d: "distinct (map f_path (extendedFiles ?st))"
    unfolding ext distinct_map_js_sort by (simp add: comp_def merged)
  moreover have "sorted_wrt (\<lambda>a b. file_cmp (fw_localeCompare w) a b \<le> 0) (extendedFiles ?st)"
    unfolding ext by (rule comparator.sorted_js_sort [OF file_cmp_comparator [OF assms]])
  moreover have "map_of (filesMap ?st) (f_path f) = Some (f_content f)"
    if "f \<in> set (extendedFiles ?st)" for f
    unfolding filesMap_def by (rule am.get_fold_distinct [OF d that])
  moreover have "p \<in> set (jkeys (filesMap ?st))" if "(p, v) \<in> set sf" for p v
  proof -
    have "p \<in> f_path ` set (stateFilesToAgentFiles sf)"
      using that by (force simp: stateFilesToAgentFiles_def)
    then have "p \<in> f_path ` set ?files" using merged(2) by auto
    then show ?thesis unfolding filesMap_keys [OF d] ext by (force simp: image_iff)
  qed
  moreover have "truthy_id gid \<longrightarrow> filesReady ?st"
    by (simp add: refreshFiles_def refresh_finish_def Let_def truthy_id_def)
  ultimately show ?thesis
    by (simp only: Let_def filesMap_keys [OF d] simp_thms) blast
qed

lemma refresh_files_map_witness:
  "distinct (map f_path (extendedFiles
     (refreshFiles sample_files_world (Some ''career_agent'') [(''/a'', JStr ''x'')] [] 5 chat_init)))"
  using refresh_files_map [of sample_files_world "Some ''career_agent''" "[(''/a'', JStr ''x'')]"
      "[]" 5 chat_init] code_order.comparator_axioms
  by (simp add: sample_files_world_def Let_def)

section \<open>Lemmas: saving\<close>

definition changed_entry :: "(string, agent_file) jmap \<Rightarrow> string \<times> string \<Rightarrow> bool" where
  "changed_entry cur e =
     (case map_of cur (fst e) of Some f \<Rightarrow> f_content f \<noteq> snd e | None \<Rightarrow> True)"

definition carries :: "agent_file list \<Rightarrow> string \<times> string \<Rightarrow> bool" where
  "carries fs e = list_ex (\<lambda>f. f_path f = fst e \<and> f_content f = snd e) fs"

lemma synthesize_Some:
  "synthesize cfg p c = Some f \<Longrightarrow> f_path f = p \<and> f_content f = c \<and> f_source f \<noteq> StateSource"
  by (auto simp: synthesize_def new_file_def Let_def split: option.splits if_splits)

lemma plan_one_grows:
  "set (plan_writes plan) \<subseteq> set (plan_writes (plan_one cfg cur e plan))"
  "plan_changed plan \<Longrightarrow> plan_changed (plan_one cfg cur e plan)"
  "p \<noteq> fst e \<Longrightarrow> map_of (plan_state (plan_one cfg cur e plan)) p = map_of (plan_state plan) p"
  by (auto simp: plan_one_def split: prod.splits option.splits)

lemma plan_fold_grows:
  "set (plan_writes plan) \<subseteq> set (plan_writes (fold (plan_one cfg cur) es plan))"
  "plan_changed plan \<Longrightarrow> plan_changed (fold (plan_one cfg cur) es plan)"
  "p \<notin> fst ` set es \<Longrightarrow>
     map_of (plan_state (fold (plan_one cfg cur) es plan)) p = map_of (plan_state plan) p"
  using plan_one_grows
  by (induction es arbitrary: plan) (simp_all, blast)

definition paths_ok :: "(string, agent_file) jmap \<Rightarrow> bool" where
  "paths_ok cur = (\<forall>p f. map_of cur p = Some f \<longrightarrow> f_path f = p)"

lemma plan_one_covers:
  assumes "paths_ok cur" and "changed_entry cur e"
  shows "let plan' = plan_one cfg cur e plan in
     carries (plan_writes plan') e \<or> map_of (plan_state plan') (fst e) = Some (snd e) \<and> plan_changed plan'"
  using assms synthesize_Some
  by (fastforce simp: plan_one_def carries_def changed_entry_def paths_ok_def Let_def
      split: prod.splits option.splits)

lemma carries_mono: "carries fs e \<Longrightarrow> set fs \<subseteq> set gs \<Longrightarrow> carries gs e"
  by (auto simp: carries_def list_ex_iff)

lemma plan_covers:
  assumes "paths_ok cur"
  shows "distinct (map fst es) \<Longrightarrow> e \<in> set es \<Longrightarrow> changed_entry cur e \<Longrightarrow>
     let plan' = fold (plan_one cfg cur) es plan in
     carries (plan_writes plan') e \<or> map_of (plan_state plan') (fst e) = Some (snd e) \<and> plan_changed plan'"
proof (induction es arbitrary: plan)
  case (Cons a es)
  show ?case
  proof (cases "e = a")
    case True
    let ?p1 = "plan_one cfg cur e plan"
    have "fst e \<notin> fst ` set es" using True Cons.prems(1) by simp
    then show ?thesis
      using plan_one_covers [OF assms Cons.prems(3), of cfg plan] True
        plan_fold_grows(1) [where plan = ?p1 and es = es and cfg = cfg and cur = cur]
        plan_fold_grows(2) [where plan = ?p1 and es = es and cfg = cfg and cur = cur]
        plan_fold_grows(3) [where plan = ?p1 and es = es and cfg = cfg and cur = cur and p = "fst e"]
        carries_mono [where fs = "plan_writes ?p1" and e = e] by (auto simp: Let_def)
  next
    case False
    with Cons show ?thesis by simp
  qed
qed simp

lemma plan_writes_sound:
  assumes "paths_ok cur"
  shows "f \<in> set (plan_writes (fold (plan_one cfg cur) es plan)) \<Longrightarrow>
     f \<in> set (plan_writes plan) \<or>
     ((f_path f, f_content f) \<in> set es \<and> changed_entry cur (f_path f, f_content f)
        \<and> f_source f \<noteq> StateSource)"
proof (induction es arbitrary: plan)
  case (Cons e es)
  have "f \<in> set (plan_writes (plan_one cfg cur e plan)) \<Longrightarrow>
      f \<in> set (plan_writes plan) \<or> ((f_path f, f_content f) = e \<and> changed_entry cur e
        \<and> f_source f \<noteq> StateSource)"
    using assms synthesize_Some
    by (fastforce simp: plan_one_def changed_entry_def paths_ok_def split: prod.splits option.splits if_splits)
  with Cons show ?case by auto
qed simp

lemma current_paths_ok: "paths_ok (fold (\<lambda>f. jset (f_path f) f) fs [])"
  unfolding paths_ok_def am.get_fold
  by (auto simp: find_Some_iff first_some_def option.map_ident split: option.splits)



lemma plan_unchanged:
  "\<forall>e \<in> set es. \<not> changed_entry cur e \<Longrightarrow>
   plan_writes (fold (plan_one cfg cur) es plan) = plan_writes plan \<and>
   plan_changed (fold (plan_one cfg cur) es plan) = plan_changed plan"
proof (induction es arbitrary: plan)
  case (Cons e es)
  then have "plan_writes (plan_one cfg cur e plan) = plan_writes plan \<and>
      plan_changed (plan_one cfg cur e plan) = plan_changed plan"
    by (auto simp: plan_one_def changed_entry_def split: prod.splits option.splits)
  with Cons show ?case by simp
qed simp

text \<open>Saving the listed files unchanged sends nothing at all, for an agent with external
  sources.\<close>

theorem save_unchanged_silent:
  assumes "getAgentFileSources gid \<noteq> None" and "distinct (map f_path (extendedFiles st))"
  shows "fst (setFiles w send threadId gid closed_over finished (filesMap st) st) = []"
proof -
  let ?cur = "fold (\<lambda>f. jset (f_path f) f) (extendedFiles st) []"
  have "\<not> changed_entry ?cur e" if e: "e \<in> set (filesMap st)" for e
  proof -
    have "fst e \<in> set (jkeys (filesMap st))" using e by (force simp: jkeys_def)
    then obtain f where f: "f \<in> set (extendedFiles st)" "f_path f = fst e"
      by (auto simp: filesMap_keys [OF assms(2)])
    have "map_of (filesMap st) (fst e) = Some (snd e)"
    proof (rule map_of_is_SomeI)
      show "distinct (map fst (filesMap st))"
        using filesMap_keys [OF assms(2)] assms(2) by (simp add: jkeys_def)
    qed (use e in simp)
    moreover have "map_of (filesMap st) (fst e) = Some (f_content f)"
      unfolding filesMap_def f(2) [symmetric] by (rule am.get_fold_distinct [OF assms(2) f(1)])
    moreover have "map_of ?cur (fst e) = Some f"
      unfolding f(2) [symmetric] using am.get_fold_distinct [OF assms(2) f(1), of "\<lambda>f. f" "[]"] .
    ultimately show ?thesis by (simp add: changed_entry_def)
  qed
  then have "plan_writes (save_plan_of cfg ?cur (filesMap st)) = [] \<and>
      \<not> plan_changed (save_plan_of cfg ?cur (filesMap st))" for cfg
    unfolding save_plan_of_def using plan_unchanged by simp
  then show ?thesis
    using assms(1) by (simp add: setFiles_def Let_def List.map_filter_simps)
qed

lemma save_unchanged_silent_witness:
  "fst (setFiles sample_files_world (\<lambda>_. WriteDone) (Some ''t'') (Some ''career_agent'') [] []
     (filesMap (chat_init\<lparr>extendedFiles := [new_file StateSource ''/a'' ''x'']\<rparr>))
     (chat_init\<lparr>extendedFiles := [new_file StateSource ''/a'' ''x'']\<rparr>)) = []"
  by (rule save_unchanged_silent) (simp_all add: career_sources)

section \<open>Lemmas: deleting, composing, submitting\<close>

lemma collect_removals_filter:
  "collect_removals rs =
     (map fst (filter (\<lambda>(vp, r). \<not> isl r) rs),
      map (\<lambda>(vp, r). (vp, projl r)) (filter (\<lambda>(vp, r). isl r) rs))"
proof -
  have "foldl (\<lambda>(deleted, errors) (vp, r).
              case r of Inr _ \<Rightarrow> (deleted @ [vp], errors)
              | Inl reason \<Rightarrow> (deleted, errors @ [(vp, reason)])) (d, e) rs =
     (d @ map fst (filter (\<lambda>(vp, r). \<not> isl r) rs),
      e @ map (\<lambda>(vp, r). (vp, projl r)) (filter (\<lambda>(vp, r). isl r) rs))" for d e
    by (induction rs arbitrary: d e) (auto split: sum.splits)
  from this [of "[]" "[]"] show ?thesis by (simp add: collect_removals_def)
qed



text \<open>The configuration of every run is the assistant's with the caller's extra keys on top,
  except \<^verbatim>\<open>configurable\<close>, which is always the assistant's with the user's model choices on
  top, and those only where the deployment lets users choose models.\<close>

theorem submit_config_layers:
  "js_prop (buildSubmitConfig e cfg (Some a) extra) k =
     (let ac = or_nullish (as_config a) (JObj []) in
      if k = ''configurable''
      then spread_with (or_nullish (js_prop ac ''configurable'') (JObj []))
             (if isModelOverrideEnabled e
              then [(j, js_prop cfg i).
                     (j, i) \<leftarrow> [(''main_agent_model'', ''mainAgentModel''), (''subagent_model'', ''subagentModel'')],
                     truthy (js_prop cfg i)]
              else [])
      else case find (\<lambda>x. fst x = k) (rev extra) of
             Some x \<Rightarrow> snd x
           | None \<Rightarrow> or_else (map_of (own_entries ac) k) JUndef)"
  by (simp add: buildSubmitConfig_def Let_def js_prop_spread del: spread_with.simps split: option.split)

lemma model_override_off:
  "\<not> isModelOverrideEnabled e \<Longrightarrow>
   buildSubmitConfig e cfg active extra = buildSubmitConfig e JNull active extra"
  by (simp add: buildSubmitConfig_def)

lemma upload_note:
  assumes "filenames \<noteq> []"
  shows "ends_with (chat_input (appendUploadNote filenames st))
           (''Uploaded: '' @ join_with '', '' filenames @ [newline]) \<and>
         focusComposerNonce (appendUploadNote filenames st) = focusComposerNonce st + 1 \<and>
         (js_trim (chat_input st) \<noteq> [] \<longrightarrow>
            starts_with (chat_input (appendUploadNote filenames st))
              (strip_trailing (\<lambda>c. c = newline) (chat_input st)))"
  using assms by (auto simp: appendUploadNote_def Let_def ends_with_iff)

lemma quota_failure_handled:
  "quotaRefusalMessage parse error = Some m \<Longrightarrow> m \<noteq> [] \<Longrightarrow>
   ToastError m \<in> set (sendMessage e parse cfg active (Some error) text) \<and>
   Unhandled error \<notin> set (sendMessage e parse cfg active (Some error) text)"
  by (simp add: sendMessage_def)

text \<open>
  After a successful save of a state file the list is fetched with the state files the callback
  closed over, so it is the same whatever was written.
\<close>

lemma setFiles_lists_closed_over:
  assumes "getAgentFileSources gid \<noteq> None"
    and "list_all (\<lambda>r. \<not> isl r) (fst (snd (setFiles w send threadId gid closed_over finished files st)))"
  shows "extendedFiles (snd (snd (setFiles w send threadId gid closed_over finished files st)))
           = fetchAgentFiles w gid closed_over finished"
  using assms by (auto simp: setFiles_def Let_def)

end
