(* ===== verification/Messages.thy ===== *)
theory Messages
imports Prelude
begin

text \<open>
  The shared message and tool-call data: \<^verbatim>\<open>app/types/types.ts\<close> and the parts of the
  LangChain messages the source reads. \<^verbatim>\<open>bm_text\<close> is the message's \<^verbatim>\<open>text\<close>, an accessor
  of the library.
\<close>

record call_ref =
  rc_id :: "string option"
  rc_name :: string
  rc_args :: json

record call_chunk =
  ck_id :: "string option"
  ck_name :: "string option"
  ck_args :: "string option"

datatype message_kind = AIMessage | ToolMessage | HumanMessage | OtherMessage string

record base_message =
  bm_kind :: message_kind
  bm_id :: "string option"
  bm_text :: string
  bm_calls :: "call_ref list"
  bm_chunks :: "call_chunk list"
  bm_call_id :: "string option"

datatype call_status = CallPending | CallCompleted | CallError | CallInterrupted

record tool_call =
  tc_id :: string
  tc_name :: string
  tc_args :: json
  tc_result :: "string option"
  tc_status :: call_status

datatype sub_status = SubPending | SubActive | SubCompleted | SubError

record sub_agent =
  sa_id :: string
  sa_name :: string
  sa_subAgentName :: string
  sa_input :: json
  sa_output :: json
  sa_status :: sub_status

datatype todo_status = TodoPending | TodoInProgress | TodoCompleted

record todo_item =
  todo_id :: string
  todo_content :: string
  todo_status :: todo_status

record action_request =
  ar_name :: string
  ar_args :: json
  ar_description :: json

text \<open>A reviewer's decision, in the shape the middleware resumes with.\<close>

datatype decision =
    Approve
  | Edit string json
  | Reject string

record pending_approval =
  pa_key :: string
  pa_interruptId :: string
  pa_namespace :: "string list option"
  pa_index :: nat
  pa_total :: nat
  pa_request :: action_request
  pa_reviewConfig :: json

record source_ref =
  so_id :: string
  so_title :: string
  so_url :: string
  so_toolCallId :: string

definition present_id :: "string option \<Rightarrow> string option" where
  "present_id i = (case i of Some s \<Rightarrow> if s = [] then None else Some s | None \<Rightarrow> None)"

lemma present_id_Some: "present_id i = Some s \<longleftrightarrow> i = Some s \<and> s \<noteq> []"
  by (auto simp: present_id_def split: option.splits)

end
