(* ===== verification/JsRegex.thy ===== *)
theory JsRegex
imports Prelude
begin

text \<open>
  A backtracking matcher with the ECMAScript semantics of the constructs the source's regular
  expressions use: character classes, sequence, ordered choice, greedy and lazy repetition (an
  iteration that consumes nothing fails), captures, the anchors and the word boundary. A match
  state is the text consumed so far in reverse, the text left, and the captures; \<^verbatim>\<open>re_matches\<close> lists
  the results in the order the engine would try them, so the match is the first.
\<close>

datatype re =
    Cls "char \<Rightarrow> bool"
  | Eps
  | Cat re re
  | Alt re re
  | Rep re
  | LazyRep re
  | Cap nat re
  | LineStart
  | TextStart
  | TextEnd
  | WordB

type_synonym mstate = "string \<times> string \<times> (nat \<times> string) list"

definition word_char :: "char \<Rightarrow> bool" where
  "word_char c = (let n = (of_char c :: nat) in
     (48 \<le> n \<and> n \<le> 57) \<or> (65 \<le> n \<and> n \<le> 90) \<or> (97 \<le> n \<and> n \<le> 122) \<or> n = 95)"

definition at_word :: "string \<Rightarrow> bool" where
  "at_word s = (case s of c # _ \<Rightarrow> word_char c | [] \<Rightarrow> False)"

definition is_newline :: "char \<Rightarrow> bool" where
  "is_newline c = (c = CHR 0x0A \<or> c = CHR 0x0D)"

fun rep_greedy :: "(mstate \<Rightarrow> mstate list) \<Rightarrow> nat \<Rightarrow> mstate \<Rightarrow> mstate list" where
  "rep_greedy f 0 st = [st]"
| "rep_greedy f (Suc n) st =
     concat (map (\<lambda>t. if length (fst (snd t)) < length (fst (snd st)) then rep_greedy f n t else [])
               (f st)) @ [st]"

fun rep_lazy :: "(mstate \<Rightarrow> mstate list) \<Rightarrow> nat \<Rightarrow> mstate \<Rightarrow> mstate list" where
  "rep_lazy f 0 st = [st]"
| "rep_lazy f (Suc n) st =
     st # concat (map (\<lambda>t. if length (fst (snd t)) < length (fst (snd st)) then rep_lazy f n t else [])
               (f st))"

primrec re_matches :: "re \<Rightarrow> mstate \<Rightarrow> mstate list" where
  "re_matches (Cls P) st =
     (case st of (pre, post, caps) \<Rightarrow>
        (case post of c # cs \<Rightarrow> if P c then [(c # pre, cs, caps)] else [] | [] \<Rightarrow> []))"
| "re_matches Eps st = [st]"
| "re_matches (Cat r s) st = concat (map (re_matches s) (re_matches r st))"
| "re_matches (Alt r s) st = re_matches r st @ re_matches s st"
| "re_matches (Rep r) st = rep_greedy (re_matches r) (length (fst (snd st))) st"
| "re_matches (LazyRep r) st = rep_lazy (re_matches r) (length (fst (snd st))) st"
| "re_matches (Cap i r) st =
     map (\<lambda>(pre, post, caps).
            (pre, post, (i, take (length (fst (snd st)) - length post) (fst (snd st))) # caps))
       (re_matches r st)"
| "re_matches LineStart st =
     (case fst st of [] \<Rightarrow> [st] | c # _ \<Rightarrow> if is_newline c then [st] else [])"
| "re_matches TextStart st = (if fst st = [] then [st] else [])"
| "re_matches TextEnd st = (if fst (snd st) = [] then [st] else [])"
| "re_matches WordB st = (if at_word (fst st) \<noteq> at_word (fst (snd st)) then [st] else [])"

definition lit :: "string \<Rightarrow> re" where
  "lit s = foldr (\<lambda>c r. Cat (Cls (\<lambda>d. d = c)) r) s Eps"

definition lit_ci :: "string \<Rightarrow> re" where
  "lit_ci s = foldr (\<lambda>c r. Cat (Cls (\<lambda>d. lower_char d = c)) r) s Eps"

definition one_or_more :: "re \<Rightarrow> re" where
  "one_or_more r = Cat r (Rep r)"

definition lazy_one_or_more :: "re \<Rightarrow> re" where
  "lazy_one_or_more r = Cat r (LazyRep r)"

definition optional :: "re \<Rightarrow> re" where
  "optional r = Alt r Eps"

fun cats :: "re list \<Rightarrow> re" where
  "cats [] = Eps"
| "cats [r] = r"
| "cats (r # rs) = Cat r (cats rs)"

text \<open>The leftmost match from a position on: where it starts (the reversed prefix) and its end.\<close>

fun search_re :: "re \<Rightarrow> string \<Rightarrow> string \<Rightarrow> (string \<times> mstate) option" where
  "search_re r pre [] = (case re_matches r (pre, [], []) of t # _ \<Rightarrow> Some (pre, t) | [] \<Rightarrow> None)"
| "search_re r pre (c # cs) =
     (case re_matches r (pre, c # cs, []) of
        t # _ \<Rightarrow> Some (pre, t)
      | [] \<Rightarrow> search_re r (c # pre) cs)"

definition test_re :: "re \<Rightarrow> string \<Rightarrow> bool" where
  "test_re r s = (search_re r [] s \<noteq> None)"

definition capture :: "nat \<Rightarrow> mstate \<Rightarrow> string option" where
  "capture i t = map_of (snd (snd t)) i"

definition match_capture :: "re \<Rightarrow> nat \<Rightarrow> string \<Rightarrow> string option" where
  "match_capture r i s =
     (case search_re r [] s of Some (_, t) \<Rightarrow> capture i t | None \<Rightarrow> None)"

text \<open>
  The global loop \<^verbatim>\<open>while ((m = re.exec(s)) !== null)\<close>, for expressions that never match the
  empty text (an empty match, on which the loop would not advance, ends it here).
\<close>

fun all_matches :: "nat \<Rightarrow> re \<Rightarrow> string \<Rightarrow> string \<Rightarrow> mstate list" where
  "all_matches 0 r pre post = []"
| "all_matches (Suc n) r pre post =
     (case search_re r pre post of
        None \<Rightarrow> []
      | Some (start, t) \<Rightarrow>
          if length (fst t) \<le> length start then []
          else t # all_matches n r (fst t) (fst (snd t)))"

definition match_all :: "re \<Rightarrow> string \<Rightarrow> mstate list" where
  "match_all r s = all_matches (length s + 1) r [] s"

text \<open>\<^verbatim>\<open>s.replace(re, w)\<close> with the global flag and a constant replacement.\<close>

fun replace_from :: "nat \<Rightarrow> re \<Rightarrow> string \<Rightarrow> string \<Rightarrow> string \<Rightarrow> string" where
  "replace_from 0 r w pre post = post"
| "replace_from (Suc n) r w pre post =
     (case search_re r pre post of
        None \<Rightarrow> post
      | Some (start, t) \<Rightarrow>
          if length (fst t) \<le> length start then post
          else take (length start - length pre) post @ w @ replace_from n r w (fst t) (fst (snd t)))"

definition replace_all_re :: "re \<Rightarrow> string \<Rightarrow> string \<Rightarrow> string" where
  "replace_all_re r w s = replace_from (length s + 1) r w [] s"

section \<open>Lemmas: a result consumes a prefix of what was left\<close>

definition consumes :: "mstate \<Rightarrow> mstate \<Rightarrow> bool" where
  "consumes st t = (\<exists>w. fst (snd st) = w @ fst (snd t) \<and> fst t = rev w @ fst st)"

lemma consumes_refl [intro]: "consumes st st"
  by (simp add: consumes_def)

lemma consumes_trans: "consumes s t \<Longrightarrow> consumes t u \<Longrightarrow> consumes s u"
  by (auto simp: consumes_def)

lemma rep_greedy_consumes:
  assumes "\<And>st t. t \<in> set (f st) \<Longrightarrow> consumes st t"
  shows "t \<in> set (rep_greedy f n st) \<Longrightarrow> consumes st t"
proof (induction n arbitrary: st t)
  case (Suc n)
  then have "t = st \<or> (\<exists>u \<in> set (f st). t \<in> set (rep_greedy f n u))"
    by (auto split: if_splits)
  then show ?case using Suc.IH assms consumes_trans by blast
qed auto

lemma rep_lazy_consumes:
  assumes "\<And>st t. t \<in> set (f st) \<Longrightarrow> consumes st t"
  shows "t \<in> set (rep_lazy f n st) \<Longrightarrow> consumes st t"
proof (induction n arbitrary: st t)
  case (Suc n)
  then have "t = st \<or> (\<exists>u \<in> set (f st). t \<in> set (rep_lazy f n u))"
    by (auto split: if_splits)
  then show ?case using Suc.IH assms consumes_trans by blast
qed auto

lemma re_matches_consumes: "t \<in> set (re_matches r st) \<Longrightarrow> consumes st t"
proof (induction r arbitrary: st t)
  case (Cls P)
  then show ?case by (auto simp: consumes_def split: prod.splits list.splits if_splits)
next
  case (Cat r s)
  then obtain u where "u \<in> set (re_matches r st)" "t \<in> set (re_matches s u)" by auto
  with Cat.IH show ?case using consumes_trans by blast
next
  case (Rep r)
  then show ?case using rep_greedy_consumes [of "re_matches r"] by auto
next
  case (LazyRep r)
  then show ?case using rep_lazy_consumes [of "re_matches r"] by auto
next
  case (Cap i r)
  then obtain u where u: "u \<in> set (re_matches r st)" "fst t = fst u" "fst (snd t) = fst (snd u)"
    by auto
  from Cap.IH [OF u(1)] u(2,3) show ?case by (simp add: consumes_def)
qed (auto split: if_splits list.splits)

lemma search_re_split:
  "search_re r pre post = Some (start, t) \<Longrightarrow>
   \<exists>w v. post = w @ v @ fst (snd t) \<and> start = rev w @ pre \<and> fst t = rev v @ start"
proof (induction r pre post rule: search_re.induct)
  case (1 r pre)
  then have "t \<in> set (re_matches r (pre, [], []))" "start = pre"
    by (auto split: list.splits)
  then show ?case using re_matches_consumes [of t r "(pre, [], [])"] by (auto simp: consumes_def)
next
  case (2 r pre c cs)
  show ?case
  proof (cases "re_matches r (pre, c # cs, [])")
    case Nil
    with 2 obtain w v where "cs = w @ v @ fst (snd t)" "start = rev w @ c # pre" "fst t = rev v @ start"
      by auto
    then show ?thesis by (intro exI [of _ "c # w"] exI [of _ v]) simp
  next
    case (Cons u us)
    with 2(2) have "t = u" "start = pre" by auto
    with Cons show ?thesis
      using re_matches_consumes [of u r "(pre, c # cs, [])"] by (force simp: consumes_def intro: exI [of _ "[]"])
  qed
qed

section \<open>Loops over all matches end\<close>

text \<open>
  \<open>min_len\<close> is a lower bound on the length of a match. An expression with a positive bound moves
  every round of a loop over its matches forward.
\<close>

primrec min_len :: "re \<Rightarrow> nat" where
  "min_len (Cls P) = 1"
| "min_len Eps = 0"
| "min_len (Cat r s) = min_len r + min_len s"
| "min_len (Alt r s) = min (min_len r) (min_len s)"
| "min_len (Rep r) = 0"
| "min_len (LazyRep r) = 0"
| "min_len (Cap i r) = min_len r"
| "min_len LineStart = 0"
| "min_len TextStart = 0"
| "min_len TextEnd = 0"
| "min_len WordB = 0"

abbreviation left :: "mstate \<Rightarrow> nat" where
  "left st \<equiv> length (fst (snd st))"

lemma consumes_left: "consumes st t \<Longrightarrow> left t \<le> left st"
  by (auto simp: consumes_def)

lemma re_matches_min_len: "t \<in> set (re_matches r st) \<Longrightarrow> left t + min_len r \<le> left st"
proof (induction r arbitrary: st t)
  case (Cls P)
  then show ?case by (auto split: prod.splits list.splits if_splits)
next
  case (Cat r s)
  then obtain u where "u \<in> set (re_matches r st)" "t \<in> set (re_matches s u)" by auto
  with Cat.IH(1) [of u st] Cat.IH(2) [of t u] show ?case by simp
next
  case (Alt r s)
  then have "t \<in> set (re_matches r st) \<or> t \<in> set (re_matches s st)" by simp
  with Alt.IH [of t st] show ?case by (auto simp: min_def)
next
  case (Rep r)
  from consumes_left [OF re_matches_consumes [OF Rep.prems]] show ?case by simp
next
  case (LazyRep r)
  from consumes_left [OF re_matches_consumes [OF LazyRep.prems]] show ?case by simp
next
  case (Cap i r)
  then obtain u where "u \<in> set (re_matches r st)" "left t = left u" by auto
  with Cap.IH show ?case by simp
qed (auto split: if_splits list.splits)

lemma search_re_match:
  "search_re r pre post = Some (start, t) \<Longrightarrow>
   \<exists>v. t \<in> set (re_matches r (start, v, [])) \<and> length start + length v = length pre + length post"
proof (induction r pre post rule: search_re.induct)
  case (1 r pre)
  then show ?case by (auto split: list.splits intro: exI [of _ "[]"])
next
  case (2 r pre c cs)
  show ?case
  proof (cases "re_matches r (pre, c # cs, [])")
    case Nil
    with 2(2) have "search_re r (c # pre) cs = Some (start, t)" by simp
    from 2(1) [OF Nil this] show ?thesis by simp
  next
    case (Cons u us)
    with 2(2) have "t = u" "start = pre" by auto
    with Cons show ?thesis by (intro exI [of _ "c # cs"]) simp
  qed
qed

lemma search_re_advances:
  assumes "search_re r pre post = Some (start, t)"
  shows "length start + min_len r \<le> length (fst t)" and "left t + min_len r \<le> length post"
    and "length (fst t) + left t = length pre + length post"
proof -
  from search_re_match [OF assms] obtain v
    where v: "t \<in> set (re_matches r (start, v, []))" "length start + length v = length pre + length post"
    by blast
  from re_matches_consumes [OF v(1)] have sum: "length (fst t) + left t = length start + length v"
    by (auto simp: consumes_def)
  from re_matches_min_len [OF v(1)] have len: "left t + min_len r \<le> length v" by simp
  from sum len show "length start + min_len r \<le> length (fst t)" by linarith
  from search_re_split [OF assms] have "length pre \<le> length start" by auto
  with v(2) len show "left t + min_len r \<le> length post" by linarith
  from sum v(2) show "length (fst t) + left t = length pre + length post" by simp
qed

text \<open>
  The loop as the source writes it, without a bound: an empty match leaves \<^verbatim>\<open>lastIndex\<close> where it
  is and the loop goes on with it for ever, which is \<open>None\<close>.
\<close>

partial_function (option) exec_loop :: "re \<Rightarrow> string \<Rightarrow> string \<Rightarrow> mstate list option" where
  "exec_loop r pre post =
     (case search_re r pre post of
        None \<Rightarrow> Some []
      | Some m \<Rightarrow>
          Option.bind (exec_loop r (fst (snd m)) (fst (snd (snd m)))) (\<lambda>ts. Some (snd m # ts)))"

declare exec_loop.simps [code]

lemma exec_loop_ends:
  "0 < min_len r \<Longrightarrow> length post < n \<Longrightarrow> exec_loop r pre post = Some (all_matches n r pre post)"
proof (induction n arbitrary: pre post)
  case (Suc n)
  show ?case
  proof (cases "search_re r pre post")
    case None
    then show ?thesis by (simp add: exec_loop.simps [of r pre post])
  next
    case (Some m)
    then obtain start t where m: "search_re r pre post = Some (start, t)" by (cases m) auto
    from search_re_advances [OF m] Suc.prems
    have "length start < length (fst t)" "left t < n" by linarith+
    moreover from Suc.IH [OF Suc.prems(1) this(2)]
    have "exec_loop r (fst t) (fst (snd t)) = Some (all_matches n r (fst t) (fst (snd t)))" .
    ultimately show ?thesis using m by (simp add: exec_loop.simps [of r pre post])
  qed
qed simp

lemma match_all_ends: "0 < min_len r \<Longrightarrow> exec_loop r [] s = Some (match_all r s)"
  unfolding match_all_def by (rule exec_loop_ends) simp_all

lemma all_matches_count: "0 < min_len r \<Longrightarrow> min_len r * length (all_matches n r pre post) \<le> length post"
proof (induction n arbitrary: pre post)
  case (Suc n)
  show ?case
  proof (cases "search_re r pre post")
    case (Some m)
    then obtain start t where m: "search_re r pre post = Some (start, t)" by (cases m) auto
    from search_re_advances(2) [OF m] Suc.IH [OF Suc.prems, of "fst t" "fst (snd t)"] m show ?thesis
      by simp
  qed simp
qed simp

lemma exec_loop_empty_match: "exec_loop Eps pre post = None"
proof -
  have search: "search_re Eps pre post = Some (pre, pre, post, [])" by (cases post) auto
  have "exec_loop Eps pre post = Some ts \<Longrightarrow> False" for ts
  proof (induction ts rule: length_induct)
    case (1 ts)
    have step: "exec_loop Eps pre post = Option.bind (exec_loop Eps pre post) (\<lambda>ts. Some ((pre, post, []) # ts))"
      by (subst (1) exec_loop.simps) (simp add: search)
    from 1(2) have "Option.bind (exec_loop Eps pre post) (\<lambda>ts. Some ((pre, post, []) # ts)) = Some ts"
      by (subst step [symmetric])
    then obtain us where "exec_loop Eps pre post = Some us" "ts = (pre, post, []) # us"
      by (auto simp only: bind_eq_Some_conv option.inject)
    with 1(1) show False by (metis impossible_Cons linorder_not_le)
  qed
  then show ?thesis by (cases "exec_loop Eps pre post") auto
qed

lemma cats_min_len [simp]: "min_len (cats rs) = sum_list (map min_len rs)"
  by (induction rs rule: cats.induct) auto

lemma lit_min_len [simp]: "min_len (lit s) = length s"
  by (induction s) (auto simp: lit_def)

lemma repeat_min_len [simp]:
  "min_len (one_or_more r) = min_len r" "min_len (lazy_one_or_more r) = min_len r"
  by (simp_all add: one_or_more_def lazy_one_or_more_def)

text \<open>The replacing loop: rounds beyond the bound change nothing.\<close>

lemma replace_from_ends:
  "0 < min_len r \<Longrightarrow> length post < n \<Longrightarrow> length post < k \<Longrightarrow> replace_from n r w pre post = replace_from k r w pre post"
proof (induction n arbitrary: k pre post)
  case (Suc n)
  then obtain j where k: "k = Suc j" by (cases k) auto
  show ?case
  proof (cases "search_re r pre post")
    case (Some m)
    then obtain start t where m: "search_re r pre post = Some (start, t)" by (cases m) auto
    from search_re_advances(2) [OF m] Suc.prems k have "left t < n" "left t < j" by linarith+
    from Suc.IH [OF Suc.prems(1) this] m k show ?thesis by simp
  qed (simp add: k)
qed simp

end
