(* ===== verification/ToolData.thy ===== *)
theory ToolData
imports Messages JsRegex
begin

text \<open>
  Values of tool calls as text: the helpers of \<^verbatim>\<open>app/utils/utils.ts\<close> and the detection of
  failed results of \<^verbatim>\<open>app/utils/toolErrors.ts\<close>, with its regular expressions written in the
  matcher's constructors. \<^verbatim>\<open>JSON.parse\<close> and the library's \<^verbatim>\<open>parsePartialJson\<close> are arguments.
\<close>

section \<open>Payloads\<close>

definition non_empty_str :: "json \<Rightarrow> string option" where
  "non_empty_str v = (case v of JStr s \<Rightarrow> if s = [] then None else Some s | _ \<Rightarrow> None)"

text \<open>\<^verbatim>\<open>extractStringFromMessageContent\<close> is the message's own accessor.\<close>

definition bm_text_of :: "base_message \<Rightarrow> string" where
  "bm_text_of m = bm_text m"

definition extractSubAgentContent :: "json \<Rightarrow> string option" where
  "extractSubAgentContent data =
     (case data of
        JStr s \<Rightarrow> Some s
      | _ \<Rightarrow>
          if truthy data \<and> is_object data
          then (case non_empty_str (js_prop data ''description'') of
                  Some d \<Rightarrow> Some d
                | None \<Rightarrow>
                    (case non_empty_str (js_prop data ''prompt'') of
                       Some p \<Rightarrow> Some p
                     | None \<Rightarrow>
                         (case non_empty_str (js_prop data ''result'') of
                            Some r \<Rightarrow> Some r
                          | None \<Rightarrow> json_stringify2 data)))
          else json_stringify2 data)"

definition block_text :: "json \<Rightarrow> string" where
  "block_text block =
     (case block of
        JStr s \<Rightarrow> s
      | _ \<Rightarrow> if truthy block \<and> is_object block \<and> has_prop block ''text''
            then js_string (or_nullish (js_prop block ''text'') (JStr [])) else [])"

definition unwrapToolPayload :: "json \<Rightarrow> json" where
  "unwrapToolPayload v =
     (if truthy v \<and> is_object v \<and> \<not> is_array v \<and>
         js_prop v ''type'' = JStr ''tool'' \<and> has_prop v ''content''
      then (case js_prop v ''content'' of
              JArr blocks \<Rightarrow> JStr (concat (map block_text blocks))
            | content \<Rightarrow> content)
      else v)"

definition toResultString :: "json \<Rightarrow> string option" where
  "toResultString v =
     (if nullish v then None
      else case v of JStr s \<Rightarrow> Some s | _ \<Rightarrow> json_stringify2 v)"

text \<open>\<^verbatim>\<open>parsePartialJson\<close> of the library is \<^verbatim>\<open>partial\<close>.\<close>

definition parsePartialArgs :: "(string \<Rightarrow> json) \<Rightarrow> string option \<Rightarrow> json" where
  "parsePartialArgs partial raw =
     (case present_id raw of
        None \<Rightarrow> JObj []
      | Some s \<Rightarrow> (case partial s of JObj kvs \<Rightarrow> JObj kvs | _ \<Rightarrow> JObj []))"

text \<open>\<^verbatim>\<open>Math.round(ms / 1000)\<close> rounds halves up.\<close>

definition formatDuration :: "int \<Rightarrow> int \<Rightarrow> string" where
  "formatDuration startedAt completedAt =
     (let totalSeconds = (completedAt - startedAt + 500) div 1000 in
      if totalSeconds < 1 then ''<1s''
      else let minutes = totalSeconds div 60; seconds = totalSeconds mod 60 in
        if minutes = 0 then show_int seconds @ ''s''
        else show_int minutes @ ''m '' @
             (if seconds < 10 then ''0'' else []) @ show_int seconds @ ''s'')"

section \<open>Errors and previews\<close>

abbreviation spaces :: re where
  "spaces \<equiv> Rep (Cls is_space)"

definition digit_cls :: re where
  "digit_cls = Cls (\<lambda>c. let n = (of_char c :: nat) in 48 \<le> n \<and> n \<le> 57)"

definition quote_cls :: re where
  "quote_cls = Cls (\<lambda>c. c = CHR 0x27 \<or> c = CHR 0x22)"

definition upper_cls :: re where
  "upper_cls = Cls (\<lambda>c. let n = (of_char c :: nat) in (65 \<le> n \<and> n \<le> 90) \<or> n = 95)"

definition letter_cls :: re where
  "letter_cls = Cls (\<lambda>c. let n = (of_char c :: nat) in
     (65 \<le> n \<and> n \<le> 90) \<or> (97 \<le> n \<and> n \<le> 122) \<or> n = 95)"

definition ERROR_START :: re where
  "ERROR_START =
     cats [TextStart, Alt (lit_ci ''error'') (Alt (lit_ci ''exception'') (lit_ci ''failed'')),
           WordB, spaces, optional (lit '':''), spaces]"

definition CODE_RE :: re where
  "CODE_RE =
     cats [WordB, lit_ci ''code'', optional quote_cls, spaces, lit '':'', spaces,
           Cap 1 (cats [digit_cls, digit_cls, digit_cls, Rep digit_cls])]"

definition HTTP_CODE_RE :: re where
  "HTTP_CODE_RE =
     cats [WordB, Cap 1 (cats [digit_cls, digit_cls, digit_cls]), one_or_more (Cls is_space),
           one_or_more upper_cls, WordB]"

definition STATUS_RE :: re where
  "STATUS_RE =
     cats [WordB, lit_ci ''status'', optional quote_cls, spaces, lit '':'', spaces,
           optional quote_cls, Cap 1 (one_or_more letter_cls)]"

record tool_error =
  te_code :: json
  te_message :: string

definition opt_str :: "string option \<Rightarrow> json" where
  "opt_str s = (case s of Some t \<Rightarrow> JStr t | None \<Rightarrow> JUndef)"

definition raw_result :: "json \<Rightarrow> string" where
  "raw_result result = (case result of JStr s \<Rightarrow> s | _ \<Rightarrow> or_else (json_stringify result) [])"

definition object_error :: "(string \<Rightarrow> json option) \<Rightarrow> string \<Rightarrow> tool_error option" where
  "object_error parse trimmed =
     (case index_of_sub ''{'' trimmed of
        None \<Rightarrow> None
      | Some i \<Rightarrow>
          (case parse (map (\<lambda>c. if c = CHR 0x27 then CHR 0x22 else c) (drop i trimmed)) of
             None \<Rightarrow> None
           | Some parsed \<Rightarrow>
               let error = or_nullish (js_prop parsed ''error'') parsed;
                   code = js_prop error ''code''; message = js_prop error ''message'' in
               if truthy code \<or> truthy (js_prop error ''status'') \<or> truthy message
               then Some \<lparr>te_code = (if truthy code then JStr (js_string code)
                                   else js_prop error ''status''),
                          te_message = (if truthy message then js_string message else trimmed)\<rparr>
               else None))"

definition parseToolError :: "(string \<Rightarrow> json option) \<Rightarrow> json \<Rightarrow> tool_error option" where
  "parseToolError parse result =
     (if nullish result then None
      else let raw = raw_result result in
        if raw = [] then None
        else let trimmed = js_trim (take 256 raw) in
          if \<not> test_re ERROR_START trimmed then None
          else case object_error parse trimmed of
            Some e \<Rightarrow> Some e
          | None \<Rightarrow>
              Some \<lparr>te_code = opt_str
                      (first_some (first_some (match_capture CODE_RE 1 trimmed)
                                              (match_capture HTTP_CODE_RE 1 trimmed))
                                  (match_capture STATUS_RE 1 trimmed)),
                    te_message = trimmed\<rparr>)"

definition clip96 :: "string \<Rightarrow> string" where
  "clip96 s = (if length s > 96 then take 96 s @ ''...'' else s)"

definition previewValue :: "json \<Rightarrow> string option" where
  "previewValue v =
     (if nullish v then None
      else case v of
        JStr s \<Rightarrow> Some (clip96 s)
      | _ \<Rightarrow> (case json_stringify v of
                Some t \<Rightarrow> if t = [] then None else Some (clip96 t)
              | None \<Rightarrow> None))"

section \<open>Lemmas\<close>

lemma previewValue_bound: "previewValue v = Some s \<Longrightarrow> length s \<le> 99"
  by (auto simp: previewValue_def clip96_def split: if_splits json.splits option.splits)

lemma toResultString_None: "toResultString v = None \<longleftrightarrow> nullish v"
  by (cases v) (simp_all add: toResultString_def json_stringify2_def)

lemma unwrap_idempotent_str: "unwrapToolPayload (JStr s) = JStr s"
  by (simp add: unwrapToolPayload_def)

lemma js_trim_head: "s \<noteq> [] \<Longrightarrow> \<not> is_space (hd s) \<Longrightarrow> js_trim s \<noteq> [] \<and> hd (js_trim s) = hd s"
proof -
  assume a: "s \<noteq> []" "\<not> is_space (hd s)"
  then have l: "strip_leading is_space s = s" by (cases s) (auto simp: strip_leading_def)
  obtain t where t: "s = strip_trailing is_space s @ t" "\<forall>c \<in> set t. is_space c"
    using strip_trailing_append_strip by blast
  then have "strip_trailing is_space s \<noteq> []" using a by (metis append_Nil hd_in_set)
  then show ?thesis using t(1) l unfolding js_trim_def by (metis hd_append2)
qed

lemma marker_matched:
  assumes "re_matches ERROR_START (pre, post, caps) \<noteq> []"
  shows "\<exists>w \<in> {''error'', ''exception'', ''failed''}. \<exists>u. u \<in> set (re_matches (lit_ci w) (pre, post, caps))"
proof (rule ccontr)
  assume none: "\<not> ?thesis"
  then have "re_matches (lit_ci ''error'') (pre, post, caps) = []"
    "re_matches (lit_ci ''exception'') (pre, post, caps) = []"
    "re_matches (lit_ci ''failed'') (pre, post, caps) = []"
    by (metis insertI1 insertI2 last_in_set)+
  then have "re_matches (Cat TextStart (Cat (Alt (lit_ci ''error'') (Alt (lit_ci ''exception'') (lit_ci ''failed''))) r))
    (pre, post, caps) = []" for r by (cases "pre = []") simp_all
  with assms show False unfolding ERROR_START_def cats.simps by (simp only: not_True_eq_False)
qed

text \<open>A result without an error marker at its start is never shown as failed: unless the first
  visible characters are \<^verbatim>\<open>error\<close>, \<^verbatim>\<open>exception\<close> or \<^verbatim>\<open>failed\<close> in any case, no error is
  reported, whatever the rest of the result says; and what is reported never repeats more than
  the first 256 characters unless the error object itself carries a message.\<close>

theorem tool_error_only_marked:
  assumes "parseToolError parse v = Some e"
  shows "(\<exists>w \<in> {''error'', ''exception'', ''failed''}.
            starts_with (to_lower (js_trim (take 256 (raw_result v)))) w) \<and>
         (object_error parse (js_trim (take 256 (raw_result v))) = None \<longrightarrow> length (te_message e) \<le> 256)"
proof -
  let ?t = "js_trim (take 256 (raw_result v))"
  have test: "test_re ERROR_START ?t"
    using assms by (auto simp: parseToolError_def Let_def split: if_splits)
  have ci: "t \<in> set (re_matches (lit_ci w) st) \<Longrightarrow>
      starts_with (map lower_char (fst (snd st))) w" for w t st
  proof (induction w arbitrary: st)
    case (Cons c w)
    then show ?case
      by (auto simp: lit_ci_def split: prod.splits list.splits if_splits)
  qed simp
  have later: "search_re ERROR_START pre post = None" if "pre \<noteq> []" for pre post
    using that
  proof (induction post arbitrary: pre)
    case (Cons c post)
    then show ?case by (simp add: ERROR_START_def)
  qed (simp add: ERROR_START_def)
  have first: "re_matches ERROR_START ([], ?t, []) \<noteq> []"
    using test later [of "[hd ?t]" "tl ?t"]
    by (cases ?t) (auto simp: test_re_def split: list.splits)
  then obtain w u where "w \<in> {''error'', ''exception'', ''failed''}" "u \<in> set (re_matches (lit_ci w) ([], ?t, []))"
    using marker_matched [of "[]" ?t "[]"] by blast
  then have "\<exists>w \<in> {''error'', ''exception'', ''failed''}. starts_with (to_lower ?t) w"
    using ci unfolding to_lower_def by fastforce
  moreover have "length ?t \<le> 256"
  proof -
    have "length (strip_trailing P s) \<le> length s" for P s
      unfolding strip_trailing_def by (metis length_dropWhile_le length_rev)
    then have "length ?t \<le> length (take 256 (raw_result v))"
      unfolding js_trim_def strip_leading_def by (meson length_dropWhile_le order_trans)
    then show ?thesis by simp
  qed
  ultimately show ?thesis
    using assms by (auto simp: parseToolError_def Let_def split: if_splits option.splits)
qed

lemma tool_error_only_marked_witness:
  "parseToolError (\<lambda>_. None) (JStr ''Error: 404 NOT_FOUND'') =
     Some \<lparr>te_code = JStr ''404'', te_message = ''Error: 404 NOT_FOUND''\<rparr> \<and>
   length ''Error: 404 NOT_FOUND'' \<le> 256"
proof -
  have p: "parseToolError (\<lambda>_. None) (JStr ''Error: 404 NOT_FOUND'') =
     Some \<lparr>te_code = JStr ''404'', te_message = ''Error: 404 NOT_FOUND''\<rparr>"
    by code_simp
  have o: "object_error (\<lambda>_. None) s = None" for s
    by (simp add: object_error_def split: option.split)
  show ?thesis using tool_error_only_marked [OF p] p by (simp add: o)
qed

end
