(* ===== verification/Approvals.thy ===== *)
theory Approvals
imports Messages
begin

text \<open>
  Human review of tool calls (\<^verbatim>\<open>app/hooks/useInterruptApprovals.ts\<close>): which interrupts are
  pending, which tool call each approval belongs to, and the queue of decisions that resumes an
  interrupt once, with one decision per action in order. The card of one approval is
  \<^verbatim>\<open>app/components/ToolApprovalInterrupt.tsx\<close>.

  The hook's refs and states are a record; its callbacks and its effect are reactions to events.
  The resumes sent are logged.
\<close>

section \<open>Pending approvals\<close>

definition approval_key :: "string \<Rightarrow> nat \<Rightarrow> string" where
  "approval_key i n = i @ '':'' @ show_nat n"

definition is_action_request :: "json \<Rightarrow> bool" where
  "is_action_request v =
     (truthy v \<and> is_object v \<and> is_str (js_prop v ''name'') \<and>
      truthy (js_prop v ''args'') \<and> is_object (js_prop v ''args''))"

definition str_of :: "json \<Rightarrow> string" where
  "str_of v = (case v of JStr s \<Rightarrow> s | _ \<Rightarrow> [])"

definition to_action_request :: "json \<Rightarrow> action_request" where
  "to_action_request v =
     \<lparr>ar_name = str_of (js_prop v ''name''), ar_args = js_prop v ''args'',
      ar_description = js_prop v ''description''\<rparr>"

definition elements_of :: "json \<Rightarrow> json list" where
  "elements_of v = (case v of JArr vs \<Rightarrow> vs | _ \<Rightarrow> [])"

record candidate =
  cand_id :: string
  cand_value :: json
  cand_namespace :: "string list option"

definition nth_or :: "json list \<Rightarrow> nat \<Rightarrow> json" where
  "nth_or vs i = (if i < length vs then vs ! i else JUndef)"

definition parseApprovals :: "candidate \<Rightarrow> pending_approval list" where
  "parseApprovals c =
     (let requests = elements_of (js_prop (cand_value c) ''action_requests'');
          configs = elements_of (js_prop (cand_value c) ''review_configs'');
          ars = filter is_action_request requests in
      if ars = [] \<or> length ars \<noteq> length requests then []
      else map (\<lambda>(i, r). \<lparr>pa_key = approval_key (cand_id c) i, pa_interruptId = cand_id c,
                   pa_namespace = cand_namespace c, pa_index = i, pa_total = length ars,
                   pa_request = to_action_request r, pa_reviewConfig = nth_or configs i\<rparr>)
             (zip [0..<length ars] ars))"

definition answered_ids :: "base_message list \<Rightarrow> string list" where
  "answered_ids ms =
     List.map_filter (\<lambda>m. if bm_kind m = ToolMessage then present_id (bm_call_id m) else None) ms"

definition last_ai :: "base_message list \<Rightarrow> base_message option" where
  "last_ai ms = find (\<lambda>m. bm_kind m = AIMessage) (rev ms)"

definition openCalls :: "base_message list \<Rightarrow> call_ref list" where
  "openCalls ms =
     (let answered = answered_ids ms in
      filter (\<lambda>c. case present_id (rc_id c) of Some i \<Rightarrow> i \<notin> set answered | None \<Rightarrow> False)
        (case last_ai ms of Some m \<Rightarrow> bm_calls m | None \<Rightarrow> []))"

text \<open>The two interrupt sources: the root store (id and value) and the thread record.\<close>

record thread_interrupt =
  ti_interruptId :: string
  ti_payload :: json
  ti_namespace :: "string list option"

definition root_candidates :: "(string option \<times> json) list \<Rightarrow> candidate list" where
  "root_candidates interrupts =
     List.map_filter (\<lambda>(i, v). case present_id i of
          Some s \<Rightarrow> if v \<noteq> JUndef then Some \<lparr>cand_id = s, cand_value = v, cand_namespace = None\<rparr> else None
        | None \<Rightarrow> None) interrupts"

definition add_thread_candidate :: "candidate list \<Rightarrow> thread_interrupt \<Rightarrow> candidate list" where
  "add_thread_candidate cs e =
     (if ti_interruptId e = [] then cs
      else if list_ex (\<lambda>c. cand_id c = ti_interruptId e) cs then cs
      else cs @ [\<lparr>cand_id = ti_interruptId e, cand_value = ti_payload e,
                 cand_namespace = ti_namespace e\<rparr>])"

definition candidates ::
  "(string option \<times> json) list \<Rightarrow> thread_interrupt list \<Rightarrow> bool \<Rightarrow> base_message list \<Rightarrow> candidate list" where
  "candidates interrupts thread isLoading ms =
     (let root = root_candidates interrupts in
      if \<not> isLoading \<and> openCalls ms \<noteq> [] then foldl add_thread_candidate root thread else root)"

definition pendingApprovals :: "string list \<Rightarrow> candidate list \<Rightarrow> pending_approval list" where
  "pendingApprovals responded cs =
     concat (map parseApprovals (filter (\<lambda>c. cand_id c \<notin> set responded) cs))"

section \<open>Assignment to tool calls\<close>

definition args_text :: "json \<Rightarrow> string option" where
  "args_text a = json_stringify (or_nullish a (JObj []))"

record assignment =
  as_claimed :: "string list"
  as_byCall :: "(string, pending_approval) jmap"
  as_unassigned :: "pending_approval list"

definition call_matches :: "string list \<Rightarrow> string \<Rightarrow> call_ref \<Rightarrow> bool" where
  "call_matches claimed name c = (the (rc_id c) \<notin> set claimed \<and> rc_name c = name)"

definition match_call :: "call_ref list \<Rightarrow> string list \<Rightarrow> pending_approval \<Rightarrow> call_ref option" where
  "match_call calls claimed a =
     (let req = pa_request a; wanted = args_text (ar_args req) in
      first_some
        (find (\<lambda>c. call_matches claimed (ar_name req) c \<and> args_text (rc_args c) = wanted) calls)
        (find (call_matches claimed (ar_name req)) calls))"

definition assign_one :: "call_ref list \<Rightarrow> assignment \<Rightarrow> pending_approval \<Rightarrow> assignment" where
  "assign_one calls s a =
     (case Option.bind (match_call calls (as_claimed s) a) (\<lambda>c. present_id (rc_id c)) of
        Some i \<Rightarrow> s\<lparr>as_claimed := as_claimed s @ [i], as_byCall := jset i a (as_byCall s)\<rparr>
      | None \<Rightarrow> s\<lparr>as_unassigned := as_unassigned s @ [a]\<rparr>)"

definition assign_approvals :: "call_ref list \<Rightarrow> pending_approval list \<Rightarrow> assignment" where
  "assign_approvals calls pending =
     foldl (assign_one calls) \<lparr>as_claimed = [], as_byCall = [], as_unassigned = []\<rparr> pending"

definition interruptedToolCallIds :: "assignment \<Rightarrow> string list" where
  "interruptedToolCallIds s = jkeys (as_byCall s)"

section \<open>The decision queue\<close>

record resume =
  rs_decisions :: "decision list"
  rs_interruptId :: string
  rs_namespace :: "string list option"

record approvals_state =
  queuedDecisions :: "(string, decision) jmap"
  respondedIds :: "string list"
  claimsBySubagent :: "(string, string list) jmap"
  resumes :: "resume list"

definition approvals_init :: approvals_state where
  "approvals_init = \<lparr>queuedDecisions = [], respondedIds = [], claimsBySubagent = [], resumes = []\<rparr>"

definition sibling_keys :: "pending_approval \<Rightarrow> string list" where
  "sibling_keys a = map (approval_key (pa_interruptId a)) [0..<pa_total a]"

definition decide :: "pending_approval \<Rightarrow> decision \<Rightarrow> approvals_state \<Rightarrow> approvals_state" where
  "decide a d st =
     (if pa_interruptId a \<in> set (respondedIds st) then st
      else let nxt = jset (pa_key a) d (queuedDecisions st);
               st1 = st\<lparr>queuedDecisions := nxt\<rparr>;
               keys = sibling_keys a in
        if \<not> list_all (jhas nxt) keys then st1
        else st1\<lparr>respondedIds := respondedIds st @ [pa_interruptId a],
                 resumes := resumes st @
                   [\<lparr>rs_decisions = map (\<lambda>k. the (map_of nxt k)) keys,
                     rs_interruptId = pa_interruptId a, rs_namespace = pa_namespace a\<rparr>]\<rparr>)"

definition key_interrupt :: "string \<Rightarrow> string" where
  "key_interrupt key =
     (case last_index_of (CHR '':'') key of Some i \<Rightarrow> take i key | None \<Rightarrow> butlast key)"

text \<open>The ids alive, as the effect reads them back from the comma-joined dependency key (sorted
  in the source, which does not change the set).\<close>

definition pending_ids :: "pending_approval list \<Rightarrow> string list" where
  "pending_ids pending =
     (let key = join_with '','' (remdups (map pa_interruptId pending)) in
      if key = [] then [] else split_on (CHR '','') key)"

text \<open>The effect: it runs when the set of pending interrupts changes.\<close>

definition prune :: "pending_approval list \<Rightarrow> approvals_state \<Rightarrow> approvals_state" where
  "prune pending st =
     st\<lparr>queuedDecisions :=
          filter (\<lambda>(k, _). key_interrupt k \<in> set (pending_ids pending)) (queuedDecisions st)\<rparr>"

definition registerSubagentClaims :: "string \<Rightarrow> string list \<Rightarrow> approvals_state \<Rightarrow> approvals_state" where
  "registerSubagentClaims sid keys st =
     (let prev = claimsBySubagent st in
      if or_else (map_of prev sid) [] = keys then st
      else st\<lparr>claimsBySubagent := (if keys \<noteq> [] then jset sid keys prev else jdel sid prev)\<rparr>)"

definition claimedKeySet :: "approvals_state \<Rightarrow> string list" where
  "claimedKeySet st = concat (map snd (claimsBySubagent st))"

definition approvalQueueNote :: "pending_approval \<Rightarrow> (string, decision) jmap \<Rightarrow> string option" where
  "approvalQueueNote a queued =
     (if pa_total a \<le> 1 then None
      else let decided = length (filter (jhas queued) (sibling_keys a));
               remaining = pa_total a - decided in
        if remaining = 0 then None
        else Some (''Waiting on '' @ show_nat remaining @ '' more '' @
                   (if remaining = 1 then ''decision'' else ''decisions'')))"

datatype approval_event =
    Decide pending_approval decision
  | Prune "pending_approval list"
  | RegisterClaims string "string list"

fun approvals_react :: "approvals_state \<Rightarrow> approval_event \<Rightarrow> approvals_state" where
  "approvals_react st (Decide a d) = decide a d st"
| "approvals_react st (Prune ps) = prune ps st"
| "approvals_react st (RegisterClaims s ks) = registerSubagentClaims s ks st"

section \<open>Lemmas: keys and parsing\<close>

lemma append_sep_inj:
  "c \<notin> set s \<Longrightarrow> c \<notin> set t \<Longrightarrow> u @ c # s = v @ c # t \<longleftrightarrow> u = v \<and> s = t"
  by (auto simp: append_eq_append_conv2 append_eq_Cons_conv Cons_eq_append_conv)

lemma approval_key_inj [simp]: "approval_key i m = approval_key j n \<longleftrightarrow> i = j \<and> m = n"
  by (simp add: approval_key_def append_sep_inj)

lemma key_interrupt_key [simp]: "key_interrupt (approval_key i n) = i"
  by (simp add: key_interrupt_def approval_key_def last_index_of_append)

definition approval_ok :: "pending_approval \<Rightarrow> bool" where
  "approval_ok a = (pa_key a = approval_key (pa_interruptId a) (pa_index a) \<and> pa_index a < pa_total a)"

lemma parseApprovals_fields:
  "i < length (parseApprovals c) \<Longrightarrow>
     pa_key (parseApprovals c ! i) = approval_key (cand_id c) i \<and>
     pa_interruptId (parseApprovals c ! i) = cand_id c \<and>
     pa_namespace (parseApprovals c ! i) = cand_namespace c \<and>
     pa_index (parseApprovals c ! i) = i \<and>
     pa_total (parseApprovals c ! i) = length (parseApprovals c)"
  by (auto simp: parseApprovals_def Let_def split: if_splits)

lemma parseApprovals_keys:
  "map pa_key (parseApprovals c) = map (approval_key (cand_id c)) [0..<length (parseApprovals c)]"
  by (rule nth_equalityI) (simp_all add: parseApprovals_fields)

lemma parseApprovals_distinct: "distinct (map pa_key (parseApprovals c))"
  unfolding parseApprovals_keys by (simp add: distinct_map inj_on_def)

lemma parseApprovals_ok: "a \<in> set (parseApprovals c) \<Longrightarrow>
  approval_ok a \<and> sibling_keys a = map pa_key (parseApprovals c) \<and> pa_interruptId a = cand_id c \<and>
  pa_namespace a = cand_namespace c"
  unfolding parseApprovals_keys
  by (auto simp: in_set_conv_nth parseApprovals_fields approval_ok_def sibling_keys_def)

lemma pending_not_responded:
  "a \<in> set (pendingApprovals responded cs) \<Longrightarrow> pa_interruptId a \<notin> set responded"
  by (auto simp: pendingApprovals_def dest: parseApprovals_ok)

section \<open>Lemmas: one resume per interrupt\<close>

definition approvals_good :: "approvals_state \<Rightarrow> bool" where
  "approvals_good st =
     (map rs_interruptId (resumes st) = respondedIds st \<and> distinct (respondedIds st) \<and>
      jok (queuedDecisions st) \<and> jok (claimsBySubagent st))"

lemma jok_filter: "jok m \<Longrightarrow> jok (filter P m)"
  by (simp add: jok_def distinct_map_filter)

lemma approvals_good_react: "approvals_good st \<Longrightarrow> approvals_good (approvals_react st e)"
  by (cases e) (auto simp: approvals_good_def decide_def prune_def registerSubagentClaims_def Let_def
      jok_filter)

interpretation appr: reducer approvals_init approvals_react approvals_good
  by unfold_locales (simp_all add: approvals_good_react, simp add: approvals_good_def approvals_init_def)

lemma responded_grows: "set (respondedIds st) \<subseteq> set (respondedIds (approvals_react st e))"
  by (cases e) (auto simp: decide_def prune_def registerSubagentClaims_def Let_def)

lemma responded_run: "set (respondedIds st) \<subseteq> set (respondedIds (foldl approvals_react st es))"
  by (induction es arbitrary: st) (simp, metis foldl_Cons responded_grows order_trans)


definition two_actions :: candidate where
  "two_actions = \<lparr>cand_id = ''i1'',
     cand_value = JObj [(''action_requests'', JArr
       [JObj [(''name'', JStr ''execute''), (''args'', JObj [(''cmd'', JStr ''ls'')])],
        JObj [(''name'', JStr ''execute''), (''args'', JObj [(''cmd'', JStr ''rm'')])]])],
     cand_namespace = None\<rparr>"

definition review_run :: "approval_event list" where
  "review_run =
     (let ps = parseApprovals two_actions in
      [Decide (ps ! 1) (Reject ''no''), Prune ps, Decide (ps ! 0) Approve, Decide (ps ! 0) (Reject ''late'')])"


section \<open>Lemmas: the resume is complete and ordered\<close>

definition queue_all :: "(pending_approval \<Rightarrow> decision) \<Rightarrow> pending_approval list \<Rightarrow> approvals_state
  \<Rightarrow> approvals_state" where
  "queue_all f es st =
     st\<lparr>queuedDecisions := fold (\<lambda>a. jset (pa_key a) (f a)) es (queuedDecisions st)\<rparr>"

lemma queue_all_keys:
  "jhas (queuedDecisions (queue_all f es st)) k \<longleftrightarrow> k \<in> pa_key ` set es \<or> jhas (queuedDecisions st) k"
  using am.keys_fold_set [where f = pa_key and g = f and xs = es and m = "queuedDecisions st"]
  by (auto simp: queue_all_def jhas_iff)

lemma decide_partial:
  assumes "set es \<subseteq> set (parseApprovals c)" and "\<not> set (parseApprovals c) \<subseteq> set es"
    and "cand_id c \<notin> set (respondedIds st)"
    and "\<forall>k \<in> pa_key ` set (parseApprovals c). \<not> jhas (queuedDecisions st) k"
  shows "foldl (\<lambda>s a. decide a (f a) s) st es = queue_all f es st"
  using assms(1,2)
proof (induction es rule: rev_induct)
  case (snoc a es)
  let ?s = "queue_all f es st"
  have a: "a \<in> set (parseApprovals c)" using snoc.prems by simp
  obtain p where p: "p \<in> set (parseApprovals c)" "p \<notin> set (es @ [a])"
    using snoc.prems by blast
  have inj: "inj_on pa_key (set (parseApprovals c))"
    using parseApprovals_distinct by (simp add: distinct_map)
  have "\<not> jhas (queuedDecisions (queue_all f (es @ [a]) st)) (pa_key p)"
    unfolding queue_all_keys using p snoc.prems(1) assms(4) inj by (auto simp: inj_on_def)
  moreover have "pa_key p \<in> set (sibling_keys a)"
    using parseApprovals_ok [OF a] p(1) by auto
  ultimately have "decide a (f a) ?s = queue_all f (es @ [a]) st"
    using parseApprovals_ok [OF a] assms(3)
    by (auto simp: decide_def Let_def queue_all_def list_all_iff)
  moreover have "foldl (\<lambda>s a. decide a (f a) s) st es = ?s"
    by (rule snoc.IH) (use snoc.prems in auto)
  ultimately show ?case by simp
qed (simp add: queue_all_def)

text \<open>C7: Deciding every action of an interrupt, in any order, sends exactly one resume, addressed
  to that interrupt and carrying one decision per action in the order of the actions, whatever
  the order of the clicks; until the last one nothing is sent.\<close>

theorem decisions_resume_in_order:
  assumes "mset es = mset (parseApprovals c)" and "es \<noteq> []"
    and "cand_id c \<notin> set (respondedIds st)"
    and "\<forall>k \<in> pa_key ` set (parseApprovals c). \<not> jhas (queuedDecisions st) k"
  shows "resumes (foldl (\<lambda>s a. decide a (f a) s) st es) =
           resumes st @ [\<lparr>rs_decisions = map f (parseApprovals c), rs_interruptId = cand_id c,
                          rs_namespace = cand_namespace c\<rparr>] \<and>
         cand_id c \<in> set (respondedIds (foldl (\<lambda>s a. decide a (f a) s) st es)) \<and>
         (\<forall>n < length es. resumes (foldl (\<lambda>s a. decide a (f a) s) st (take n es)) = resumes st)"
proof -
  let ?ps = "parseApprovals c"
  have dps: "distinct ?ps" using parseApprovals_distinct by (simp add: distinct_map)
  then have des: "distinct es" using assms(1) by (metis mset_eq_imp_distinct_iff)
  have sets: "set es = set ?ps" using assms(1) by (metis set_mset_mset)
  have partial: "foldl (\<lambda>s a. decide a (f a) s) st (take n es) = queue_all f (take n es) st"
    if "n < length es" for n
  proof (rule decide_partial)
    show "set (take n es) \<subseteq> set ?ps" using sets set_take_subset by fastforce
    show "\<not> set ?ps \<subseteq> set (take n es)"
    proof
      assume "set ?ps \<subseteq> set (take n es)"
      then have "es ! n \<in> set (take n es)" using sets that by auto
      with des that show False by (auto simp: in_set_conv_nth nth_eq_iff_index_eq)
    qed
  qed (use assms in auto)
  obtain a es' where es: "es = es' @ [a]" using assms(2) by (cases es rule: rev_cases) auto
  let ?s = "queue_all f es' st"
  let ?nxt = "queuedDecisions (queue_all f es st)"
  have before: "foldl (\<lambda>s a. decide a (f a) s) st es' = ?s"
    using partial [of "length es'"] es by simp
  have a: "a \<in> set ?ps" using es sets by auto
  have get: "map_of ?nxt (pa_key p) = Some (f p)" if "p \<in> set ?ps" for p
  proof -
    have "distinct (map pa_key es)"
      using parseApprovals_distinct des sets by (simp add: distinct_map)
    then show ?thesis
      unfolding queue_all_def using am.get_fold_distinct [of pa_key es p] that sets by simp
  qed
  have all: "list_all (jhas ?nxt) (sibling_keys a)"
    using parseApprovals_ok [OF a] get by (auto simp: list_all_iff jhas_def)
  have decs: "map (\<lambda>k. the (map_of ?nxt k)) (sibling_keys a) = map f ?ps"
    using parseApprovals_ok [OF a] get by simp
  have nxt: "jset (pa_key a) (f a) (queuedDecisions ?s) = ?nxt"
    by (simp add: queue_all_def es)
  have "foldl (\<lambda>s a. decide a (f a) s) st es = decide a (f a) ?s"
    using before es by simp
  also have "\<dots> = ?s\<lparr>queuedDecisions := ?nxt, respondedIds := respondedIds st @ [cand_id c],
      resumes := resumes st @ [\<lparr>rs_decisions = map f ?ps, rs_interruptId = cand_id c,
                                rs_namespace = cand_namespace c\<rparr>]\<rparr>"
    using parseApprovals_ok [OF a] assms(3) all decs
    by (simp add: decide_def Let_def nxt) (simp add: queue_all_def)
  finally show ?thesis
    using partial by (auto simp: queue_all_def)
qed

lemma decisions_resume_in_order_witness:
  "map rs_decisions (resumes (foldl (\<lambda>s a. decide a (if pa_index a = 0 then Approve else Reject ''no'') s)
     approvals_init (rev (parseApprovals two_actions)))) = [[Approve, Reject ''no'']]"
proof -
  have ps: "parseApprovals two_actions \<noteq> []" by code_simp
  have m: "map (\<lambda>a. if pa_index a = 0 then Approve else Reject ''no'') (parseApprovals two_actions)
      = [Approve, Reject ''no'']" by code_simp
  show ?thesis
    using decisions_resume_in_order [of "rev (parseApprovals two_actions)" two_actions approvals_init
        "\<lambda>a. if pa_index a = 0 then Approve else Reject ''no''"] ps m
    by (simp add: approvals_init_def jhas_def)
qed

section \<open>Lemmas: assignment\<close>

definition assigned_ok :: "call_ref list \<Rightarrow> pending_approval list \<Rightarrow> assignment \<Rightarrow> bool" where
  "assigned_ok calls seen s =
     (jkeys (as_byCall s) = as_claimed s \<and> distinct (as_claimed s) \<and>
      mset (map snd (as_byCall s)) + mset (as_unassigned s) = mset seen \<and>
      (\<forall>(i, a) \<in> set (as_byCall s). \<exists>c \<in> set calls. rc_id c = Some i \<and> i \<noteq> [] \<and>
         rc_name c = ar_name (pa_request a)))"

lemma match_call_Some:
  "match_call calls claimed a = Some c \<Longrightarrow>
     c \<in> set calls \<and> call_matches claimed (ar_name (pa_request a)) c"
  by (auto simp: match_call_def Let_def first_some_def find_Some_iff split: option.splits)

lemma jset_new: "k \<notin> set (jkeys m) \<Longrightarrow> jset k v m = m @ [(k, v)]"
  by (induction m) (auto simp: jkeys_def)

lemma assign_one_ok: "assigned_ok calls seen s \<Longrightarrow> assigned_ok calls (seen @ [a]) (assign_one calls s a)"
proof -
  assume ok: "assigned_ok calls seen s"
  show ?thesis
  proof (cases "Option.bind (match_call calls (as_claimed s) a) (\<lambda>c. present_id (rc_id c))")
    case None
    with ok show ?thesis by (simp add: assigned_ok_def assign_one_def)
  next
    case (Some i)
    then obtain c where c: "match_call calls (as_claimed s) a = Some c" "rc_id c = Some i" "i \<noteq> []"
      by (auto simp: bind_eq_Some_conv present_id_Some)
    then have new: "i \<notin> set (as_claimed s)" and "c \<in> set calls" "rc_name c = ar_name (pa_request a)"
      using match_call_Some [OF c(1)] by (auto simp: call_matches_def)
    then show ?thesis
      using ok Some c(2,3) new
      by (auto simp: assigned_ok_def assign_one_def jset_new jkeys_def)
  qed
qed

lemma assign_fold_ok:
  "assigned_ok calls seen s \<Longrightarrow> assigned_ok calls (seen @ ps) (foldl (assign_one calls) s ps)"
proof (induction ps arbitrary: seen s)
  case (Cons a ps)
  from Cons.IH [OF assign_one_ok [OF Cons.prems, of a]] show ?case by simp
qed simp

lemma assign_approvals_ok: "assigned_ok calls pending (assign_approvals calls pending)"
proof -
  have "assigned_ok calls [] \<lparr>as_claimed = [], as_byCall = [], as_unassigned = []\<rparr>"
    by (simp add: assigned_ok_def jkeys_def)
  from assign_fold_ok [OF this, of pending] show ?thesis
    by (simp add: assign_approvals_def)
qed

text \<open>Every pending approval is shown exactly once: it is assigned to one tool call or left
  for the subagent cards and the fallback list, no tool call gets two approvals, and a call only
  gets an approval that reviews a call of its name.\<close>

theorem assignment_partition:
  "let s = assign_approvals calls pending in
   mset (map snd (as_byCall s)) + mset (as_unassigned s) = mset pending \<and>
   distinct (interruptedToolCallIds s) \<and>
   list_all (\<lambda>(i, a). list_ex (\<lambda>c. rc_id c = Some i \<and> rc_name c = ar_name (pa_request a)) calls)
     (as_byCall s)"
proof -
  note ok = assign_approvals_ok [of calls pending]
  have "list_all (\<lambda>(i, a). list_ex (\<lambda>c. rc_id c = Some i \<and> rc_name c = ar_name (pa_request a)) calls)
     (as_byCall (assign_approvals calls pending))"
    unfolding list_all_iff list_ex_iff using ok unfolding assigned_ok_def by blast
  moreover have "mset (map snd (as_byCall (assign_approvals calls pending)))
      + mset (as_unassigned (assign_approvals calls pending)) = mset pending"
    using ok unfolding assigned_ok_def by blast
  moreover have "distinct (interruptedToolCallIds (assign_approvals calls pending))"
    using ok by (simp add: assigned_ok_def interruptedToolCallIds_def)
  ultimately show ?thesis unfolding Let_def by blast
qed

definition reviews :: "pending_approval \<Rightarrow> call_ref \<Rightarrow> bool" where
  "reviews a c = (rc_name c = ar_name (pa_request a) \<and>
     args_text (rc_args c) = args_text (ar_args (pa_request a)))"

text \<open>C8: When the actions under review are the open calls in order, which is how the middleware
  builds them, every call gets exactly its own approval, also when parallel calls share a name
  or even their arguments.\<close>

theorem assignment_exact:
  assumes "list_all2 reviews pending calls"
    and "map rc_id calls = map Some ids" and "distinct ids" and "[] \<notin> set ids"
  shows "as_byCall (assign_approvals calls pending) = zip ids pending \<and>
         as_unassigned (assign_approvals calls pending) = []"
proof -
  have len: "length pending = length calls" "length ids = length calls"
    using list_all2_lengthD [OF assms(1)] map_eq_imp_length_eq [OF assms(2)] by simp_all
  have id: "rc_id (calls ! j) = Some (ids ! j)" if "j < length calls" for j
    using arg_cong [OF assms(2), of "\<lambda>xs. xs ! j"] that len by simp
  have "foldl (assign_one calls) \<lparr>as_claimed = [], as_byCall = [], as_unassigned = []\<rparr> (take n pending)
      = \<lparr>as_claimed = take n ids, as_byCall = zip (take n ids) (take n pending), as_unassigned = []\<rparr>"
    if "n \<le> length pending" for n
    using that
  proof (induction n)
    case (Suc n)
    let ?a = "pending ! n" and ?c = "calls ! n" and ?cl = "take n ids"
    have n: "n < length calls" "n < length pending" "n < length ids" using Suc.prems len by auto
    have rev: "reviews ?a ?c" using assms(1) n by (simp add: list_all2_conv_all_nth)
    have taken: "ids ! j \<in> set ?cl \<longleftrightarrow> j < n" if "j < length ids" for j
      using that n assms(3) by (auto simp: in_set_conv_nth nth_eq_iff_index_eq)
    have "find (\<lambda>c. call_matches ?cl (ar_name (pa_request ?a)) c \<and>
        args_text (rc_args c) = args_text (ar_args (pa_request ?a))) calls = Some ?c"
      unfolding find_Some_iff
      by (rule exI [of _ n]) (use rev n id taken len in \<open>auto simp: call_matches_def reviews_def\<close>)
    then have "match_call calls ?cl ?a = Some ?c"
      by (simp add: match_call_def Let_def)
    moreover have "present_id (rc_id ?c) = Some (ids ! n)"
      using id [OF n(1)] n(3) assms(4) by (auto simp: present_id_Some dest: nth_mem)
    moreover have "ids ! n \<notin> set (jkeys (zip ?cl (take n pending)))"
      using taken [OF n(3)] n by (simp add: jkeys_def)
    ultimately have "assign_one calls \<lparr>as_claimed = ?cl, as_byCall = zip ?cl (take n pending), as_unassigned = []\<rparr> ?a
        = \<lparr>as_claimed = ?cl @ [ids ! n], as_byCall = zip ?cl (take n pending) @ [(ids ! n, ?a)],
           as_unassigned = []\<rparr>"
      by (simp add: assign_one_def jset_new)
    then show ?case
      using Suc n by (simp add: take_Suc_conv_app_nth)
  qed simp
  from this [of "length pending"] show ?thesis
    using len by (simp add: assign_approvals_def)
qed

lemma assignment_exact_witness:
  "map fst (as_byCall (assign_approvals
     [\<lparr>rc_id = Some ''a'', rc_name = ''execute'', rc_args = JObj [(''cmd'', JStr ''ls'')]\<rparr>,
      \<lparr>rc_id = Some ''b'', rc_name = ''execute'', rc_args = JObj [(''cmd'', JStr ''rm'')]\<rparr>]
     (parseApprovals two_actions))) = [''a'', ''b'']"
proof -
  let ?calls = "[\<lparr>rc_id = Some ''a'', rc_name = ''execute'', rc_args = JObj [(''cmd'', JStr ''ls'')]\<rparr>,
      \<lparr>rc_id = Some ''b'', rc_name = ''execute'', rc_args = JObj [(''cmd'', JStr ''rm'')]\<rparr>]"
  have r: "list_all2 reviews (parseApprovals two_actions) ?calls" by code_simp
  have l: "length (parseApprovals two_actions) = 2" by code_simp
  show ?thesis
    using assignment_exact [OF r, of "[''a'', ''b'']"] l by simp
qed

text \<open>
  Pruning keeps the queued siblings of an interrupt that is still pending, for ids that are not
  empty and contain no comma.
\<close>

lemma prune_keeps_pending:
  assumes "a \<in> set pending"
    and "\<forall>b \<in> set pending. CHR '','' \<notin> set (pa_interruptId b) \<and> pa_interruptId b \<noteq> []"
  shows "map_of (queuedDecisions (prune pending st)) (approval_key (pa_interruptId a) i)
           = map_of (queuedDecisions st) (approval_key (pa_interruptId a) i)"
proof -
  let ?ids = "remdups (map pa_interruptId pending)"
  have "?ids \<noteq> []" using assms(1) by auto
  then have split: "split_on (CHR '','') (join_with '','' ?ids) = ?ids"
    using assms(2) by (intro split_join) auto
  then have "join_with '','' ?ids \<noteq> []"
    using assms by (metis image_eqI list.set_map set_ConsD set_remdups split_on.simps(1)
        empty_iff list.set(1))
  then have "pa_interruptId a \<in> set (pending_ids pending)"
    using split assms(1) by (simp add: pending_ids_def Let_def)
  then show ?thesis
    by (simp add: prune_def map_of_filter_key)
qed

end
