(* ===== verification/Transcript.thy ===== *)
theory Transcript
imports ToolData Approvals
begin

text \<open>
  The transcript of \<^verbatim>\<open>app/components/ChatInterface.tsx\<close>: the tool calls of each message with
  their results (\<^verbatim>\<open>processedMessages\<close>) and the runs of consecutive tool calls that are shown as one
  unit (\<^verbatim>\<open>toolBatchesByHead\<close>).

  The cache of completed calls is state that survives from render to render, so it is an argument
  and a result. The caches of arrays only keep references stable and do not appear. \<^verbatim>\<open>fresh\<close> stands
  for the random ids of calls without one; \<^verbatim>\<open>partial\<close> is the library's \<^verbatim>\<open>parsePartialJson\<close>.
\<close>

section \<open>Tool calls of the messages\<close>

definition CHART_TOOL_NAME :: string where
  "CHART_TOOL_NAME = ''create_chart''"

definition CARD_TOOL_NAMES :: "string list" where
  "CARD_TOOL_NAMES = [''task'', CHART_TOOL_NAME]"

definition status_for :: "string list \<Rightarrow> string option \<Rightarrow> call_status" where
  "status_for interrupted i =
     (case present_id i of
        Some s \<Rightarrow> if s \<in> set interrupted then CallInterrupted else CallPending
      | None \<Rightarrow> CallPending)"

definition done_calls :: "base_message \<Rightarrow> call_ref list" where
  "done_calls m = filter (\<lambda>c. rc_name c \<noteq> []) (bm_calls m)"

definition streaming_chunks :: "base_message \<Rightarrow> (string \<times> string \<times> string option) list" where
  "streaming_chunks m =
     List.map_filter (\<lambda>c. case (present_id (ck_id c), present_id (ck_name c)) of
          (Some i, Some n) \<Rightarrow>
            if Some i \<in> rc_id ` set (done_calls m) then None else Some (i, n, ck_args c)
        | _ \<Rightarrow> None) (bm_chunks m)"

definition base_calls ::
  "(string \<Rightarrow> json) \<Rightarrow> (nat \<Rightarrow> nat \<Rightarrow> string) \<Rightarrow> string list \<Rightarrow> nat \<Rightarrow> base_message \<Rightarrow> tool_call list" where
  "base_calls partial fresh interrupted n m =
     map (\<lambda>(k, c). \<lparr>tc_id = or_else (rc_id c) (fresh n k), tc_name = rc_name c,
            tc_args = or_nullish (rc_args c) (JObj []), tc_result = None,
            tc_status = status_for interrupted (rc_id c)\<rparr>)
       (zip [0..<length (done_calls m)] (done_calls m)) @
     map (\<lambda>(i, name, args). \<lparr>tc_id = i, tc_name = name, tc_args = parsePartialArgs partial args,
            tc_result = None, tc_status = status_for interrupted (Some i)\<rparr>)
       (streaming_chunks m)"

type_synonym message_map = "(string option, base_message \<times> tool_call list) jmap"
type_synonym call_cache = "(string, tool_call) jmap"

text \<open>A tool message completes the first call with its id, looking through the map in order.\<close>

definition complete_call :: "call_cache \<Rightarrow> string \<Rightarrow> tool_call \<Rightarrow> tool_call" where
  "complete_call cache result c =
     (case map_of cache (tc_id c) of
        Some cached \<Rightarrow>
          if tc_status cached = CallCompleted \<and> tc_result cached = Some result then cached
          else c\<lparr>tc_status := CallCompleted, tc_result := Some result\<rparr>
      | None \<Rightarrow> c\<lparr>tc_status := CallCompleted, tc_result := Some result\<rparr>)"

fun complete_first :: "(tool_call \<Rightarrow> tool_call) \<Rightarrow> string \<Rightarrow> tool_call list \<Rightarrow> tool_call list" where
  "complete_first f i [] = []"
| "complete_first f i (c # cs) = (if tc_id c = i then f c # cs else c # complete_first f i cs)"

fun complete_in_map :: "(tool_call \<Rightarrow> tool_call) \<Rightarrow> string \<Rightarrow> message_map \<Rightarrow> message_map" where
  "complete_in_map f i [] = []"
| "complete_in_map f i ((k, m, cs) # rest) =
     (if i \<in> tc_id ` set cs then (k, m, complete_first f i cs) # rest
      else (k, m, cs) # complete_in_map f i rest)"

fun find_in_map :: "string \<Rightarrow> message_map \<Rightarrow> tool_call option" where
  "find_in_map i [] = None"
| "find_in_map i ((k, m, cs) # rest) =
     first_some (find (\<lambda>c. tc_id c = i) cs) (find_in_map i rest)"

definition cache_call :: "call_cache \<Rightarrow> string \<Rightarrow> string \<Rightarrow> message_map \<Rightarrow> call_cache" where
  "cache_call cache i result mm =
     (case find_in_map i mm of
        Some c \<Rightarrow> (let c' = complete_call cache result c in
                   if map_of cache i = Some c' then cache else jset i c' cache)
      | None \<Rightarrow> cache)"

definition process_message ::
  "(string \<Rightarrow> json) \<Rightarrow> (nat \<Rightarrow> nat \<Rightarrow> string) \<Rightarrow> string list \<Rightarrow>
   message_map \<times> call_cache \<Rightarrow> nat \<times> base_message \<Rightarrow> message_map \<times> call_cache" where
  "process_message partial fresh interrupted st nm =
     (case (st, nm) of ((mm, cache), (n, m)) \<Rightarrow>
        (case bm_kind m of
           AIMessage \<Rightarrow> (jset (bm_id m) (m, base_calls partial fresh interrupted n m) mm, cache)
         | ToolMessage \<Rightarrow>
             (case present_id (bm_call_id m) of
                None \<Rightarrow> (mm, cache)
              | Some i \<Rightarrow> (complete_in_map (complete_call cache (bm_text_of m)) i mm,
                           cache_call cache i (bm_text_of m) mm))
         | HumanMessage \<Rightarrow> (jset (bm_id m) (m, []) mm, cache)
         | OtherMessage _ \<Rightarrow> (mm, cache)))"

definition process_all ::
  "(string \<Rightarrow> json) \<Rightarrow> (nat \<Rightarrow> nat \<Rightarrow> string) \<Rightarrow> string list \<Rightarrow> call_cache \<Rightarrow> base_message list \<Rightarrow>
   message_map \<times> call_cache" where
  "process_all partial fresh interrupted cache ms =
     foldl (process_message partial fresh interrupted) ([], cache) (zip [0..<length ms] ms)"

record shown_message =
  sm_message :: base_message
  sm_toolCalls :: "tool_call list"
  sm_showAvatar :: bool

fun with_avatars :: "message_kind option \<Rightarrow> (base_message \<times> tool_call list) list \<Rightarrow> shown_message list" where
  "with_avatars prev [] = []"
| "with_avatars prev ((m, cs) # rest) =
     \<lparr>sm_message = m, sm_toolCalls = cs, sm_showAvatar = (Some (bm_kind m) \<noteq> prev)\<rparr> #
     with_avatars (Some (bm_kind m)) rest"

definition processedMessages ::
  "(string \<Rightarrow> json) \<Rightarrow> (nat \<Rightarrow> nat \<Rightarrow> string) \<Rightarrow> string list \<Rightarrow> call_cache \<Rightarrow> base_message list \<Rightarrow>
   shown_message list \<times> call_cache" where
  "processedMessages partial fresh interrupted cache ms =
     (let r = process_all partial fresh interrupted cache ms in
      (with_avatars None (map snd (fst r)), snd r))"

section \<open>Runs of tool calls\<close>

record batch_state =
  bs_byHead :: "(string, tool_call list list) jmap"
  bs_current :: "(string \<times> tool_call list list) option"

definition regular_calls :: "tool_call list \<Rightarrow> tool_call list" where
  "regular_calls cs = filter (\<lambda>c. tc_name c \<notin> set CARD_TOOL_NAMES) cs"

definition spawns_subagent :: "tool_call \<Rightarrow> bool" where
  "spawns_subagent c = (tc_name c = ''task'' \<and> truthy (js_prop (tc_args c) ''subagent_type''))"

definition has_prose :: "base_message \<Rightarrow> bool" where
  "has_prose m = (js_trim (bm_text_of m) \<noteq> [])"

definition batch_step :: "batch_state \<Rightarrow> shown_message \<Rightarrow> batch_state" where
  "batch_step st p =
     (case present_id (bm_id (sm_message p)) of
        None \<Rightarrow> st\<lparr>bs_current := None\<rparr>
      | Some i \<Rightarrow>
          if bm_kind (sm_message p) = HumanMessage then st\<lparr>bs_current := None\<rparr>
          else
            let regular = regular_calls (sm_toolCalls p);
                cur = (if has_prose (sm_message p) then None else bs_current st);
                st1 = (if regular = [] then st\<lparr>bs_current := cur\<rparr>
                       else let (h, bs) = or_else cur (i, []); bs' = bs @ [regular] in
                         \<lparr>bs_byHead = jset h bs' (bs_byHead st), bs_current = Some (h, bs')\<rparr>) in
            if list_ex spawns_subagent (sm_toolCalls p) then st1\<lparr>bs_current := None\<rparr> else st1)"

definition batches_init :: batch_state where
  "batches_init = \<lparr>bs_byHead = [], bs_current = None\<rparr>"

definition run_batches :: "shown_message list \<Rightarrow> batch_state" where
  "run_batches ps = foldl batch_step batches_init ps"

definition toolBatchesByHead :: "shown_message list \<Rightarrow> (string, tool_call list list) jmap" where
  "toolBatchesByHead ps = bs_byHead (run_batches ps)"

definition openEndedHeadId :: "shown_message list \<Rightarrow> string option" where
  "openEndedHeadId ps = map_option fst (bs_current (run_batches ps))"

definition fallbackApprovals :: "assignment \<Rightarrow> string list \<Rightarrow> pending_approval list" where
  "fallbackApprovals s claimed = filter (\<lambda>a. pa_key a \<notin> set claimed) (as_unassigned s)"

section \<open>Lemmas: results reach their calls\<close>

definition shown_kind :: "base_message \<Rightarrow> bool" where
  "shown_kind m = (bm_kind m = AIMessage \<or> bm_kind m = HumanMessage)"

definition calls_of ::
  "(string \<Rightarrow> json) \<Rightarrow> (nat \<Rightarrow> nat \<Rightarrow> string) \<Rightarrow> string list \<Rightarrow> nat \<times> base_message \<Rightarrow> tool_call list" where
  "calls_of partial fresh interrupted nm =
     (if bm_kind (snd nm) = AIMessage then base_calls partial fresh interrupted (fst nm) (snd nm) else [])"

definition answer_to :: "string \<Rightarrow> base_message \<Rightarrow> bool" where
  "answer_to i m = (bm_kind m = ToolMessage \<and> present_id (bm_call_id m) = Some i)"

definition settle :: "base_message list \<Rightarrow> tool_call \<Rightarrow> tool_call" where
  "settle ms c =
     (case find (answer_to (tc_id c)) (rev ms) of
        Some m \<Rightarrow> c\<lparr>tc_status := CallCompleted, tc_result := Some (bm_text_of m)\<rparr>
      | None \<Rightarrow> c)"

text \<open>A thread as the backend produces it: ids of messages and calls are distinct, and a call is
  not answered before it is made.\<close>

fun answers_follow :: "string list list \<Rightarrow> base_message list \<Rightarrow> bool" where
  "answers_follow [] [] = True"
| "answers_follow (is # iss) (m # ms) =
     (list_all (\<lambda>i. \<not> answer_to i m) (concat (is # iss)) \<and> answers_follow iss ms)"
| "answers_follow _ _ = False"

definition numbered :: "base_message list \<Rightarrow> (nat \<times> base_message) list" where
  "numbered ms = zip [0..<length ms] ms"

definition well_formed_thread ::
  "(string \<Rightarrow> json) \<Rightarrow> (nat \<Rightarrow> nat \<Rightarrow> string) \<Rightarrow> string list \<Rightarrow> base_message list \<Rightarrow> bool" where
  "well_formed_thread partial fresh interrupted ms =
     (let ids = map (\<lambda>q. map tc_id (calls_of partial fresh interrupted q)) (numbered ms) in
      distinct (map bm_id (filter shown_kind ms)) \<and> distinct (concat ids) \<and> answers_follow ids ms)"

text \<open>The cache agrees with the calls of the thread except for status and result.\<close>

definition cache_agrees :: "tool_call list \<Rightarrow> call_cache \<Rightarrow> bool" where
  "cache_agrees calls cache =
     list_all (\<lambda>c. case map_of cache (tc_id c) of
        Some c' \<Rightarrow> tc_status c' = CallCompleted \<longrightarrow>
                   c' = c\<lparr>tc_status := CallCompleted, tc_result := tc_result c'\<rparr>
      | None \<Rightarrow> True) calls"

lemma settle_id [simp]: "tc_id (settle ms c) = tc_id c"
  by (simp add: settle_def split: option.splits)

lemma settle_snoc:
  "settle (ms @ [m]) c =
     (if answer_to (tc_id c) m then c\<lparr>tc_status := CallCompleted, tc_result := Some (bm_text_of m)\<rparr>
      else settle ms c)"
  by (simp add: settle_def)

lemma settle_unanswered: "\<forall>m \<in> set ms. \<not> answer_to (tc_id c) m \<Longrightarrow> settle ms c = c"
  by (simp add: settle_def find_None_iff2 [THEN iffD2] split: option.splits)
    (metis find_Some_iff nth_mem set_rev)

lemma complete_first_map:
  "distinct (map tc_id cs) \<Longrightarrow> complete_first f i cs = map (\<lambda>c. if tc_id c = i then f c else c) cs"
proof (induction cs)
  case (Cons c cs)
  have "map (\<lambda>c. if tc_id c = i then f c else c) cs = cs" if "i \<notin> tc_id ` set cs"
    using that by (intro map_idI) auto
  then show ?case using Cons by auto
qed simp

lemma complete_in_map_map:
  "distinct (concat (map (\<lambda>e. map tc_id (snd (snd e))) mm)) \<Longrightarrow>
   complete_in_map f i mm = map (\<lambda>(k, m, cs). (k, m, map (\<lambda>c. if tc_id c = i then f c else c) cs)) mm"
proof (induction mm)
  case (Cons e rest)
  obtain k m cs where e: "e = (k, m, cs)" by (cases e) auto
  have d: "distinct (map tc_id cs)"
    "distinct (concat (map (\<lambda>e. map tc_id (snd (snd e))) rest))"
    "tc_id ` set cs \<inter> (\<Union>e \<in> set rest. tc_id ` set (snd (snd e))) = {}"
    using Cons.prems by (auto simp: e)
  have same: "map (\<lambda>c. if tc_id c = i then f c else c) ds = ds" if "i \<notin> tc_id ` set ds" for ds
    using that by (intro map_idI) auto
  show ?case
  proof (cases "i \<in> tc_id ` set cs")
    case True
    then have "i \<notin> tc_id ` set (snd (snd e'))" if "e' \<in> set rest" for e'
      using d(3) that by blast
    then have "map (\<lambda>(k, m, cs). (k, m, map (\<lambda>c. if tc_id c = i then f c else c) cs)) rest = rest"
      by (intro map_idI) (force simp: same)
    then show ?thesis using True by (simp add: e complete_first_map d(1))
  next
    case False
    then show ?thesis using Cons.IH [OF d(2)] by (simp add: e same)
  qed
qed simp

lemma find_in_map_Some:
  "find_in_map i mm = Some c \<Longrightarrow> \<exists>e \<in> set mm. c \<in> set (snd (snd e)) \<and> tc_id c = i"
proof (induction mm)
  case (Cons e rest)
  obtain k m cs where e: "e = (k, m, cs)" by (cases e) auto
  show ?case
  proof (cases "find (\<lambda>c. tc_id c = i) cs")
    case None
    then show ?thesis using Cons by (simp add: e)
  next
    case (Some c')
    then have "c' = c" using Cons.prems by (simp add: e)
    then show ?thesis using Some by (auto simp: e find_Some_iff)
  qed
qed simp

lemma complete_call_agrees:
  assumes "cache_agrees calls cache" and "c \<in> set calls" and "tc_id d = tc_id c"
    and "d = c \<or> (\<exists>r. d = c\<lparr>tc_status := CallCompleted, tc_result := r\<rparr>)"
  shows "complete_call cache r d = c\<lparr>tc_status := CallCompleted, tc_result := Some r\<rparr>"
  using assms
  by (auto simp: cache_agrees_def list_all_iff complete_call_def split: option.splits)

lemma settle_shape: "settle ms c = c \<or> (\<exists>r. settle ms c = c\<lparr>tc_status := CallCompleted, tc_result := r\<rparr>)"
  by (auto simp: settle_def split: option.splits)


lemma concat_sub_distinct:
  "distinct (concat (map f (xs @ ys))) \<Longrightarrow> distinct (concat (map f (filter P xs)))"
proof (induction xs)
  case (Cons x xs)
  then show ?case by auto
qed simp

lemma unique_call:
  assumes "distinct (map tc_id cs)" and "c \<in> set cs" and "d \<in> set cs" and "tc_id c = tc_id d"
  shows "c = d"
  using assms by (auto simp: distinct_map inj_on_def)

text \<open>The map after a prefix of the thread, and the step that keeps it so.\<close>

definition settled_map ::
  "(nat \<times> base_message \<Rightarrow> tool_call list) \<Rightarrow> (nat \<times> base_message) list \<Rightarrow> message_map" where
  "settled_map calls ps =
     map (\<lambda>q. (bm_id (snd q), snd q, map (settle (map snd ps)) (calls q))) (filter (shown_kind \<circ> snd) ps)"

lemma settled_calls: "(k, m, cs) \<in> set (settled_map calls ps) \<longleftrightarrow>
  (\<exists>q \<in> set ps. shown_kind (snd q) \<and> k = bm_id (snd q) \<and> m = snd q \<and> cs = map (settle (map snd ps)) (calls q))"
  by (auto simp: settled_map_def)

lemma settled_keys: "map fst (settled_map calls ps) = map bm_id (filter shown_kind (map snd ps))"
  by (simp add: settled_map_def filter_map comp_def)

lemma settled_ids:
  "map (\<lambda>e. map tc_id (snd (snd e))) (settled_map calls ps)
     = map (map tc_id \<circ> calls) (filter (shown_kind \<circ> snd) ps)"
  by (simp add: settled_map_def comp_def)

lemma settled_shown:
  assumes "shown_kind (snd q)" and "bm_id (snd q) \<notin> set (map bm_id (filter shown_kind (map snd ps)))"
    and "\<forall>c \<in> set (calls q). \<forall>m \<in> set (map snd ps). \<not> answer_to (tc_id c) m"
  shows "jset (bm_id (snd q)) (snd q, calls q) (settled_map calls ps) = settled_map calls (ps @ [q])"
proof -
  have none: "\<not> answer_to i (snd q)" for i
    using assms(1) by (auto simp: answer_to_def shown_kind_def)
  have new: "map (settle (map snd (ps @ [q]))) cs = map (settle (map snd ps)) cs" for cs
    using none by (simp add: settle_snoc)
  have "map (settle (map snd ps)) (calls q) = calls q"
    using assms(3) by (intro map_idI settle_unanswered) blast
  then have "settled_map calls (ps @ [q])
      = settled_map calls ps @ [(bm_id (snd q), snd q, calls q)]"
    using assms(1) unfolding settled_map_def new by simp
  moreover have "bm_id (snd q) \<notin> set (jkeys (settled_map calls ps))"
    using assms(2) unfolding jkeys_def settled_keys .
  ultimately show ?thesis by (simp add: jset_new)
qed

lemma settled_tool:
  assumes "bm_kind (snd q) = ToolMessage" and "present_id (bm_call_id (snd q)) = Some i"
    and "distinct (concat (map (map tc_id \<circ> calls) (filter (shown_kind \<circ> snd) ps)))"
    and agrees: "cache_agrees (concat (map calls ps)) cache"
  shows "complete_in_map (complete_call cache (bm_text_of (snd q))) i (settled_map calls ps)
    = settled_map calls (ps @ [q])"
proof -
  have ans: "answer_to j (snd q) \<longleftrightarrow> j = i" for j
    using assms(1,2) by (auto simp: answer_to_def)
  have step: "(if tc_id (settle (map snd ps) c) = i
        then complete_call cache (bm_text_of (snd q)) (settle (map snd ps) c) else settle (map snd ps) c)
      = settle (map snd (ps @ [q])) c" if "c \<in> set (concat (map calls ps))" for c
    using complete_call_agrees [OF agrees that settle_id settle_shape]
    by (simp add: settle_snoc ans)
  have "\<not> shown_kind (snd q)" using assms(1) by (simp add: shown_kind_def)
  moreover have "complete_in_map (complete_call cache (bm_text_of (snd q))) i (settled_map calls ps)
    = map (\<lambda>(k, m, cs). (k, m, map (\<lambda>c. if tc_id c = i
        then complete_call cache (bm_text_of (snd q)) c else c) cs)) (settled_map calls ps)"
    by (rule complete_in_map_map) (simp add: settled_ids assms(3))
  moreover have "map (\<lambda>c. if tc_id c = i then complete_call cache (bm_text_of (snd q)) c else c)
      (map (settle (map snd ps)) (calls p)) = map (settle (map snd (ps @ [q]))) (calls p)"
    if "p \<in> set ps" for p
  proof -
    have "(if tc_id (settle (map snd ps) c) = i
        then complete_call cache (bm_text_of (snd q)) (settle (map snd ps) c) else settle (map snd ps) c)
      = settle (map snd (ps @ [q])) c" if "c \<in> set (calls p)" for c
      by (rule step) (use that \<open>p \<in> set ps\<close> in auto)
    then show ?thesis unfolding map_map comp_def map_eq_conv by blast
  qed
  ultimately show ?thesis
    unfolding settled_map_def by (simp add: comp_def split del: if_split) blast
qed

lemma cache_call_agrees:
  assumes agrees: "cache_agrees all cache" and "distinct (map tc_id all)"
    and sub: "set (concat (map calls ps)) \<subseteq> set all"
  shows "cache_agrees all (cache_call cache i r (settled_map calls ps))"
proof (cases "find_in_map i (settled_map calls ps)")
  case None
  then show ?thesis using agrees by (simp add: cache_call_def)
next
  case (Some d)
  then obtain e where e: "e \<in> set (settled_map calls ps)" "d \<in> set (snd (snd e))" "tc_id d = i"
    using find_in_map_Some by blast
  then obtain q c where c: "q \<in> set ps" "c \<in> set (calls q)" "d = settle (map snd ps) c"
    by (auto simp: settled_map_def)
  then have call: "c \<in> set all" using sub by auto
  have i: "tc_id c = i" using c(3) e(3) by simp
  have "complete_call cache r d = c\<lparr>tc_status := CallCompleted, tc_result := Some r\<rparr>"
    unfolding c(3) by (rule complete_call_agrees [OF agrees call settle_id settle_shape])
  then have "cache_call cache i r (settled_map calls ps) = cache \<or>
    cache_call cache i r (settled_map calls ps)
      = jset i (c\<lparr>tc_status := CallCompleted, tc_result := Some r\<rparr>) cache"
    by (simp add: cache_call_def Some Let_def)
  moreover have same: "c' = c" if "c' \<in> set all" "tc_id c' = i" for c'
    using unique_call [OF assms(2) that(1) call] that(2) i by simp
  ultimately show ?thesis
  proof (elim disjE)
    assume put: "cache_call cache i r (settled_map calls ps)
        = jset i (c\<lparr>tc_status := CallCompleted, tc_result := Some r\<rparr>) cache"
    have "case map_of (jset i (c\<lparr>tc_status := CallCompleted, tc_result := Some r\<rparr>) cache) (tc_id c') of
        Some d \<Rightarrow> tc_status d = CallCompleted \<longrightarrow>
                 d = c'\<lparr>tc_status := CallCompleted, tc_result := tc_result d\<rparr>
      | None \<Rightarrow> True" if "c' \<in> set all" for c'
    proof (cases "tc_id c' = i")
      case True
      then show ?thesis using same [OF that True] by simp
    next
      case False
      then show ?thesis using agrees that by (simp add: cache_agrees_def list_all_iff)
    qed
    then show ?thesis unfolding put cache_agrees_def list_all_iff by blast
  qed (use agrees in simp)
qed


lemma answers_follow_at:
  "answers_follow (map (map tc_id) css) ms \<Longrightarrow> j \<le> k \<Longrightarrow> k < length ms \<Longrightarrow> c \<in> set (css ! k) \<Longrightarrow>
   \<not> answer_to (tc_id c) (ms ! j)"
proof (induction css arbitrary: ms j k)
  case Nil
  then show ?case by (cases ms) auto
next
  case (Cons cs css)
  then obtain m ms' where ms: "ms = m # ms'" by (cases ms) auto
  have len: "length css = length ms'"
  proof -
    have "answers_follow iss ns \<Longrightarrow> length iss = length ns" for iss ns
      by (induction iss ns rule: answers_follow.induct) auto
    then show ?thesis using Cons.prems(1) by (fastforce simp: ms)
  qed
  show ?case
  proof (cases j)
    case 0
    have "tc_id c \<in> set (concat (map (map tc_id) (cs # css)))"
      using Cons.prems(3,4) len nth_mem [of k "cs # css"] by (auto simp: ms)
    then show ?thesis using Cons.prems(1) by (simp add: ms 0 list_all_iff)
  next
    case (Suc j')
    then obtain k' where "k = Suc k'" using Cons.prems(2) by (cases k) auto
    then show ?thesis using Cons.IH [of ms' j' k'] Cons.prems Suc by (simp add: ms)
  qed
qed

lemma numbered_nth: "k < length ms \<Longrightarrow> numbered ms ! k = (k, ms ! k)"
  by (simp add: numbered_def)

lemma length_numbered [simp]: "length (numbered ms) = length ms"
  by (simp add: numbered_def)

lemma snd_numbered [simp]: "map snd (numbered ms) = ms"
  by (simp add: numbered_def)

lemma process_prefix:
  fixes partial fresh interrupted
  defines "calls \<equiv> calls_of partial fresh interrupted"
  assumes wf: "well_formed_thread partial fresh interrupted ms"
    and agrees: "cache_agrees (concat (map calls (numbered ms))) cache" and "n \<le> length ms"
  shows "\<exists>cache'. foldl (process_message partial fresh interrupted) ([], cache) (take n (numbered ms))
       = (settled_map calls (take n (numbered ms)), cache') \<and>
     cache_agrees (concat (map calls (numbered ms))) cache'"
  using \<open>n \<le> length ms\<close>
proof (induction n)
  case 0
  then show ?case using agrees by (simp add: settled_map_def)
next
  case (Suc n)
  let ?ps = "take n (numbered ms)" and ?q = "(n, ms ! n)" and ?all = "concat (map calls (numbered ms))"
  from Suc obtain c1 where c1:
    "foldl (process_message partial fresh interrupted) ([], cache) ?ps = (settled_map calls ?ps, c1)"
    "cache_agrees ?all c1" by auto
  have n: "n < length ms" using Suc by simp
  have take: "take (Suc n) (numbered ms) = ?ps @ [?q]"
    using n by (simp add: take_Suc_conv_app_nth numbered_nth)
  have prefix: "map snd ?ps = take n ms" by (simp add: take_map [symmetric])
  have parts: "distinct (map bm_id (filter shown_kind ms))"
    "distinct (concat (map (map tc_id \<circ> calls) (numbered ms)))"
    "answers_follow (map (map tc_id) (map calls (numbered ms))) ms"
    using wf by (simp_all add: well_formed_thread_def Let_def calls_def comp_def)
  have split: "ms = take n ms @ ms ! n # drop (Suc n) ms" using n by (simp add: id_take_nth_drop)
  have new: "bm_id (ms ! n) \<notin> set (map bm_id (filter shown_kind (take n ms)))" if "shown_kind (ms ! n)"
  proof -
    have "distinct (map bm_id (filter shown_kind (take n ms @ ms ! n # drop (Suc n) ms)))"
      using parts(1) split by simp
    then show ?thesis using that by auto
  qed
  have unanswered: "\<not> answer_to (tc_id c) m" if "c \<in> set (calls ?q)" "m \<in> set (take n ms)" for c m
  proof -
    from that(2) obtain j where "j < n" "m = ms ! j" using n by (auto simp: in_set_conv_nth)
    then show ?thesis
      using answers_follow_at [OF parts(3), of j n c] that(1) n by (simp add: numbered_nth)
  qed
  have ids: "distinct (concat (map (map tc_id \<circ> calls) (filter (shown_kind \<circ> snd) ?ps)))"
    by (rule concat_sub_distinct [where ys = "drop n (numbered ms)"]) (simp add: parts(2))
  have sub: "set (concat (map calls ?ps)) \<subseteq> set ?all"
    using set_take_subset by fastforce
  have all_ids: "distinct (map tc_id ?all)"
    using parts(2) by (simp add: map_concat comp_def)
  have ps_agrees: "cache_agrees (concat (map calls ?ps)) c1"
    using c1(2) sub by (auto simp: cache_agrees_def list_all_iff)
  note step = process_message_def
  show ?case
  proof (cases "bm_kind (ms ! n)")
    case AIMessage
    then have shown: "shown_kind (snd ?q)" by (simp add: shown_kind_def)
    have "process_message partial fresh interrupted (settled_map calls ?ps, c1) ?q
        = (jset (bm_id (snd ?q)) (snd ?q, calls ?q) (settled_map calls ?ps), c1)"
      by (simp add: step AIMessage calls_def calls_of_def)
    then show ?thesis
      using settled_shown [OF shown, of ?ps calls] new shown unanswered c1 by (simp add: take prefix)
  next
    case HumanMessage
    then have shown: "shown_kind (snd ?q)" by (simp add: shown_kind_def)
    have "process_message partial fresh interrupted (settled_map calls ?ps, c1) ?q
        = (jset (bm_id (snd ?q)) (snd ?q, calls ?q) (settled_map calls ?ps), c1)"
      by (simp add: step HumanMessage calls_def calls_of_def)
    then show ?thesis
      using settled_shown [OF shown, of ?ps calls] new shown unanswered c1 by (simp add: take prefix)
  next
    case ToolMessage
    show ?thesis
    proof (cases "present_id (bm_call_id (ms ! n))")
      case None
      then have "\<not> answer_to i (ms ! n)" "\<not> shown_kind (ms ! n)" for i
        using ToolMessage by (simp_all add: answer_to_def shown_kind_def)
      then have "settled_map calls (?ps @ [?q]) = settled_map calls ?ps"
        by (simp add: settled_map_def settle_snoc)
      moreover have "process_message partial fresh interrupted (settled_map calls ?ps, c1) ?q
        = (settled_map calls ?ps, c1)" by (simp add: step ToolMessage None)
      ultimately show ?thesis using c1 by (simp add: take)
    next
      case (Some i)
      have "process_message partial fresh interrupted (settled_map calls ?ps, c1) ?q
        = (settled_map calls (?ps @ [?q]), cache_call c1 i (bm_text_of (ms ! n)) (settled_map calls ?ps))"
        using settled_tool [of ?q i calls ?ps c1] ToolMessage Some ids ps_agrees by (simp add: step)
      then show ?thesis
        using cache_call_agrees [OF c1(2) all_ids sub] c1(1) by (simp add: take)
    qed
  next
    case (OtherMessage o)
    then have "\<not> answer_to i (ms ! n)" "\<not> shown_kind (ms ! n)" for i
      by (simp_all add: answer_to_def shown_kind_def)
    then have "settled_map calls (?ps @ [?q]) = settled_map calls ?ps"
      by (simp add: settled_map_def settle_snoc)
    moreover have "process_message partial fresh interrupted (settled_map calls ?ps, c1) ?q
        = (settled_map calls ?ps, c1)" by (simp add: step OtherMessage)
    ultimately show ?thesis using c1 by (simp add: take)
  qed
qed

lemma with_avatars_pairs:
  "map (\<lambda>p. (sm_message p, sm_toolCalls p)) (with_avatars prev es) = es"
  by (induction prev es rule: with_avatars.induct) auto


end
