(* ===== verification/ToolRuns.thy ===== *)
theory ToolRuns
imports Transcript
begin

text \<open>
  What the runs of \<^verbatim>\<open>toolBatchesByHead\<close> promise: they cover the tool calls of the transcript in
  order and break exactly at prose, at a spawned subagent and at messages of the user.
\<close>

section \<open>The state of the loop\<close>

definition shown_ids :: "shown_message list \<Rightarrow> string list" where
  "shown_ids ps = List.map_filter (\<lambda>p. present_id (bm_id (sm_message p))) ps"

definition ids_distinct :: "shown_message list \<Rightarrow> bool" where
  "ids_distinct ps = distinct (shown_ids ps)"

definition tool_bearing :: "shown_message \<Rightarrow> bool" where
  "tool_bearing p =
     (present_id (bm_id (sm_message p)) \<noteq> None \<and> bm_kind (sm_message p) \<noteq> HumanMessage \<and>
      regular_calls (sm_toolCalls p) \<noteq> [])"

text \<open>A message ends the current run before its own calls or after them.\<close>

definition breaks_before :: "shown_message \<Rightarrow> bool" where
  "breaks_before p =
     (present_id (bm_id (sm_message p)) = None \<or> bm_kind (sm_message p) = HumanMessage \<or>
      has_prose (sm_message p))"

definition breaks_after :: "shown_message \<Rightarrow> bool" where
  "breaks_after p =
     (present_id (bm_id (sm_message p)) = None \<or> bm_kind (sm_message p) = HumanMessage \<or>
      list_ex spawns_subagent (sm_toolCalls p))"

definition batch_good :: "shown_message list \<Rightarrow> batch_state \<Rightarrow> bool" where
  "batch_good ps st =
     (distinct (jkeys (bs_byHead st)) \<and>
      set (jkeys (bs_byHead st)) \<subseteq> set (shown_ids ps) \<and>
      concat (map snd (bs_byHead st))
        = map (\<lambda>p. regular_calls (sm_toolCalls p)) (filter tool_bearing ps) \<and>
      (\<forall>(h, bs) \<in> set (bs_byHead st). bs \<noteq> [] \<and>
         (\<exists>p \<in> set ps. present_id (bm_id (sm_message p)) = Some h \<and> hd bs = regular_calls (sm_toolCalls p))) \<and>
      (\<forall>h bs. bs_current st = Some (h, bs) \<longrightarrow> (\<exists>pre. bs_byHead st = pre @ [(h, bs)])))"

lemma jset_append: "k \<notin> set (jkeys m) \<Longrightarrow> jset k v (m @ m') = m @ jset k v m'"
  by (induction m) (auto simp: jkeys_def)

lemma shown_ids_append [simp]: "shown_ids (xs @ ys) = shown_ids xs @ shown_ids ys"
  by (simp add: shown_ids_def List.map_filter_def)

lemma shown_ids_one [simp]:
  "shown_ids [] = []"
  "shown_ids [p] = (case present_id (bm_id (sm_message p)) of Some i \<Rightarrow> [i] | None \<Rightarrow> [])"
  by (simp_all add: shown_ids_def List.map_filter_def split: option.splits)

lemma ids_distinct_snoc:
  "ids_distinct (ps @ [p]) \<longleftrightarrow> ids_distinct ps \<and>
     (\<forall>i. present_id (bm_id (sm_message p)) = Some i \<longrightarrow>
        i \<notin> set (shown_ids ps))"
  by (auto simp: ids_distinct_def split: option.splits)

lemma run_batches_snoc: "run_batches (ps @ [p]) = batch_step (run_batches ps) p"
  by (simp add: run_batches_def)

text \<open>One step, case by case.\<close>

lemma batch_step_cases:
  obtains (reset) "present_id (bm_id (sm_message p)) = None \<or> bm_kind (sm_message p) = HumanMessage"
      "batch_step st p = st\<lparr>bs_current := None\<rparr>" "\<not> tool_bearing p" "breaks_before p" "breaks_after p"
  | (quiet) i where "present_id (bm_id (sm_message p)) = Some i" "bm_kind (sm_message p) \<noteq> HumanMessage"
      "\<not> tool_bearing p"
      "batch_step st p = st\<lparr>bs_current := (if breaks_before p \<or> breaks_after p then None else bs_current st)\<rparr>"
  | (extend) h bs where "tool_bearing p" "\<not> breaks_before p" "bs_current st = Some (h, bs)"
      "batch_step st p =
         \<lparr>bs_byHead = jset h (bs @ [regular_calls (sm_toolCalls p)]) (bs_byHead st),
          bs_current = (if breaks_after p then None else Some (h, bs @ [regular_calls (sm_toolCalls p)]))\<rparr>"
  | (start) i where "tool_bearing p" "present_id (bm_id (sm_message p)) = Some i"
      "breaks_before p \<or> bs_current st = None"
      "batch_step st p =
         \<lparr>bs_byHead = jset i [regular_calls (sm_toolCalls p)] (bs_byHead st),
          bs_current = (if breaks_after p then None else Some (i, [regular_calls (sm_toolCalls p)]))\<rparr>"
proof (cases "present_id (bm_id (sm_message p))")
  case None
  then show ?thesis
    by (intro reset) (simp_all add: batch_step_def tool_bearing_def breaks_before_def breaks_after_def)
next
  case (Some i)
  note i = Some
  show ?thesis
  proof (cases "bm_kind (sm_message p) = HumanMessage")
    case True
    then show ?thesis
      by (intro reset) (simp_all add: batch_step_def i tool_bearing_def breaks_before_def breaks_after_def)
  next
    case ai: False
    show ?thesis
    proof (cases "regular_calls (sm_toolCalls p) = []")
      case True
      then show ?thesis
        by (intro quiet [OF i ai])
          (simp_all add: batch_step_def Let_def i ai tool_bearing_def breaks_before_def breaks_after_def)
    next
      case False
      then have t: "tool_bearing p" by (simp add: tool_bearing_def i ai)
      show ?thesis
      proof (cases "has_prose (sm_message p) \<or> bs_current st = None")
        case True
        then show ?thesis
          by (intro start [OF t i])
            (auto simp: batch_step_def Let_def i ai False breaks_before_def breaks_after_def)
      next
        case c: False
        then obtain h bs where "bs_current st = Some (h, bs)" by auto
        then show ?thesis
          using c by (intro extend [OF t, of h bs])
            (simp_all add: batch_step_def Let_def i ai False breaks_before_def breaks_after_def)
      qed
    qed
  qed
qed

lemma batch_good_step:
  assumes good: "batch_good ps st" and "ids_distinct (ps @ [p])"
  shows "batch_good (ps @ [p]) (batch_step st p)"
proof (cases rule: batch_step_cases [of p st])
  case reset
  then show ?thesis using good by (auto simp: batch_good_def split: option.splits)
next
  case (quiet i)
  then show ?thesis using good by (auto simp: batch_good_def split: option.splits)
next
  case (extend h bs)
  then obtain pre where pre: "bs_byHead st = pre @ [(h, bs)]" using good by (auto simp: batch_good_def)
  then have "h \<notin> set (jkeys pre)" using good by (auto simp: batch_good_def jkeys_def)
  then have put: "jset h b (bs_byHead st) = pre @ [(h, b)]" for b
    by (simp add: pre jset_append)
  show ?thesis
    using good extend(1) unfolding extend(4) put batch_good_def
    by (auto simp: pre jkeys_def split: option.splits)
next
  case (start i)
  have "i \<notin> set (jkeys (bs_byHead st))"
    using assms start(2) by (auto simp: ids_distinct_snoc batch_good_def)
  then have put: "jset i b (bs_byHead st) = bs_byHead st @ [(i, b)]" for b
    by (rule jset_new)
  show ?thesis
    using good start(1,2) \<open>i \<notin> _\<close> unfolding start(4) put batch_good_def
    by (auto simp: jkeys_def split: option.splits)
qed

lemma run_batches_good: "ids_distinct ps \<Longrightarrow> batch_good ps (run_batches ps)"
proof (induction ps rule: rev_induct)
  case Nil
  then show ?case by (simp add: batch_good_def run_batches_def batches_init_def jkeys_def)
next
  case (snoc p ps)
  then show ?case unfolding run_batches_snoc by (intro batch_good_step) (simp_all add: ids_distinct_snoc)
qed

text \<open>C10: The runs cover the transcript: read in order they are exactly the batches of tool calls of
  its messages, one batch per message, each shown once; every run is non-empty and hangs at the
  message that issued its first batch.\<close>

theorem runs_cover:
  assumes "ids_distinct ps"
  shows "concat (map snd (toolBatchesByHead ps))
           = map (\<lambda>p. regular_calls (sm_toolCalls p)) (filter tool_bearing ps) \<and>
         distinct (jkeys (toolBatchesByHead ps)) \<and>
         (\<forall>(h, bs) \<in> set (toolBatchesByHead ps). bs \<noteq> [] \<and>
            (\<exists>p \<in> set ps. present_id (bm_id (sm_message p)) = Some h \<and>
               hd bs = regular_calls (sm_toolCalls p)))"
  using run_batches_good [OF assms] by (simp add: batch_good_def toolBatchesByHead_def)


section \<open>Where runs break\<close>

text \<open>From a closed run on, the loop does what it does from the start.\<close>

lemma run_from_closed:
  assumes "ids_distinct (xs @ ys)" and "batch_good xs S" and "bs_current S = None"
  shows "foldl batch_step S ys = \<lparr>bs_byHead = bs_byHead S @ bs_byHead (run_batches ys),
           bs_current = bs_current (run_batches ys)\<rparr>"
  using assms(1)
proof (induction ys rule: rev_induct)
  case Nil
  then show ?case using assms(3) by (simp add: run_batches_def batches_init_def)
next
  case (snoc y ys)
  have all: "ids_distinct (xs @ ys @ [y])" and sub: "ids_distinct (xs @ ys)" "ids_distinct xs" "ids_distinct (ys @ [y])"
    "ids_distinct ys"
    using snoc.prems by (auto simp: ids_distinct_def)
  have disj: "set (shown_ids xs) \<inter> set (shown_ids (ys @ [y])) = {}"
    using snoc.prems by (auto simp: ids_distinct_def)
  let ?T = "run_batches ys"
  have IH: "foldl batch_step S ys = \<lparr>bs_byHead = bs_byHead S @ bs_byHead ?T, bs_current = bs_current ?T\<rparr>"
    by (rule snoc.IH [OF sub(1)])
  have keysS: "set (jkeys (bs_byHead S)) \<subseteq> set (shown_ids xs)" and goodT: "batch_good ys ?T"
    using assms(2) run_batches_good [OF sub(4)] by (simp_all add: batch_good_def)
  have fresh: "h \<notin> set (jkeys (bs_byHead S))" if "h \<in> set (shown_ids (ys @ [y]))" for h
    using that disj keysS by blast
  have cur: "h \<in> set (shown_ids ys)" if "bs_current ?T = Some (h, bs)" for h bs
    using goodT that by (auto simp: batch_good_def jkeys_def)
  let ?U = "\<lparr>bs_byHead = bs_byHead S @ bs_byHead ?T, bs_current = bs_current ?T\<rparr>"
  have "batch_step ?U y
      = \<lparr>bs_byHead = bs_byHead S @ bs_byHead (batch_step ?T y), bs_current = bs_current (batch_step ?T y)\<rparr>"
  proof (cases rule: batch_step_cases [of y ?T])
    case reset
    then show ?thesis
      by (cases rule: batch_step_cases [of y ?U])
        auto
  next
    case (quiet i)
    then show ?thesis
      by (cases rule: batch_step_cases [of y ?U])
        auto
  next
    case (extend h bs)
    have "jset h b (bs_byHead S @ bs_byHead ?T) = bs_byHead S @ jset h b (bs_byHead ?T)" for b
      using fresh [of h] cur [OF extend(3)] by (intro jset_append) simp
    with extend show ?thesis
      by (cases rule: batch_step_cases [of y ?U])
        auto
  next
    case (start i)
    have "jset i b (bs_byHead S @ bs_byHead ?T) = bs_byHead S @ jset i b (bs_byHead ?T)" for b
      using fresh [of i] start(2) by (intro jset_append) simp
    with start show ?thesis
      by (cases rule: batch_step_cases [of y ?U])
        auto
  qed
  then show ?case
    by (simp add: run_batches_snoc IH)
qed

lemma current_after_break: "breaks_after p \<Longrightarrow> bs_current (batch_step st p) = None"
  by (cases rule: batch_step_cases [of p st]) auto

text \<open>A message that breaks before itself closes the run for those that follow it.\<close>

lemma step_breaks_before:
  "breaks_before p \<Longrightarrow> batch_step st p = batch_step (st\<lparr>bs_current := None\<rparr>) p"
  by (auto simp: batch_step_def breaks_before_def Let_def split: option.splits)

lemma none_noop: "bs_current st = None \<Longrightarrow> st\<lparr>bs_current := None\<rparr> = st"
  by simp

lemma quiet_step:
  assumes "\<not> tool_bearing p"
  shows "batch_step st p = st\<lparr>bs_current := (if breaks_before p \<or> breaks_after p then None else bs_current st)\<rparr>"
  using assms by (cases rule: batch_step_cases [of p st]) auto

lemma quiet_steps:
  "list_all (\<lambda>p. \<not> tool_bearing p) mid \<Longrightarrow>
   foldl batch_step st mid =
     st\<lparr>bs_current := (if list_ex (\<lambda>p. breaks_before p \<or> breaks_after p) mid then None else bs_current st)\<rparr>"
  by (induction mid arbitrary: st) (auto simp: quiet_step)

lemma run_grows:
  assumes "ids_distinct (ps @ zs)" and "bs_byHead (run_batches ps) = pre @ [(h, bs)]"
  shows "\<exists>more rest. bs_byHead (run_batches (ps @ zs)) = pre @ (h, bs @ more) # rest"
  using assms(1)
proof (induction zs rule: rev_induct)
  case Nil
  then show ?case using assms(2) by auto
next
  case (snoc z zs)
  have sub: "ids_distinct (ps @ zs)" using snoc.prems by (auto simp: ids_distinct_def)
  from snoc.IH [OF sub] obtain more rest where
    IH: "bs_byHead (run_batches (ps @ zs)) = pre @ (h, bs @ more) # rest" by blast
  have good: "batch_good (ps @ zs) (run_batches (ps @ zs))" by (rule run_batches_good [OF sub])
  have dist: "h \<notin> set (jkeys pre)" "distinct (jkeys ((h, bs @ more) # rest))"
    "set (jkeys pre) \<inter> set (jkeys rest) = {}"
    using good by (auto simp: batch_good_def IH jkeys_def)
  have run: "run_batches (ps @ zs @ [z]) = batch_step (run_batches (ps @ zs)) z"
    using run_batches_snoc [of "ps @ zs" z] by simp
  show ?case
  proof (cases rule: batch_step_cases [of z "run_batches (ps @ zs)"])
    case reset
    then show ?thesis by (simp add: run IH)
  next
    case (quiet i)
    then show ?thesis by (simp add: run IH)
  next
    case (extend h' bs')
    then obtain pre' where last: "pre @ (h, bs @ more) # rest = pre' @ [(h', bs')]"
      using good by (auto simp: batch_good_def IH)
    show ?thesis
    proof (cases rest rule: rev_cases)
      case Nil
      then have "h' = h" "bs' = bs @ more" using last by auto
      then show ?thesis using extend dist(1) by (simp add: run IH Nil jset_append)
    next
      case (snoc rest' e)
      then have "e = (h', bs')" using last by (metis append_Cons append_assoc last_snoc)
      then have "h' \<notin> set (jkeys (pre @ (h, bs @ more) # rest'))"
        using dist snoc by (auto simp: jkeys_def)
      then have "jset h' b (pre @ (h, bs @ more) # rest) = (pre @ (h, bs @ more) # rest') @ jset h' b [e]" for b
        using jset_append [of h' "pre @ (h, bs @ more) # rest'" b "[e]"] snoc by simp
      then show ?thesis using extend by (simp add: run IH)
    qed
  next
    case (start i)
    have "i \<notin> set (jkeys (pre @ (h, bs @ more) # rest))"
      using good snoc.prems start(2) by (auto simp: batch_good_def IH ids_distinct_def)
    then show ?thesis using start by (simp add: run IH jset_new)
  qed
qed

definition separated :: "shown_message \<Rightarrow> shown_message list \<Rightarrow> shown_message \<Rightarrow> bool" where
  "separated a mid b =
     (breaks_after a \<or> list_ex (\<lambda>m. breaks_before m \<or> breaks_after m) mid \<or> breaks_before b)"

text \<open>C4: Runs break exactly where they should: between two neighbouring tool-calling messages there
  is a break when prose precedes the second, the first spawns a subagent, or a message of the user
  (or one of these) stands between them; then the transcript is shown as its two halves are. With
  none of these the second message's calls continue the run of the first.\<close>

theorem runs_break_exactly:
  assumes "ids_distinct (xs @ a # mid @ b # zs)"
    and "tool_bearing a" and "tool_bearing b" and "list_all (\<lambda>m. \<not> tool_bearing m) mid"
  shows "(separated a mid b \<longrightarrow>
            toolBatchesByHead (xs @ a # mid @ b # zs)
              = toolBatchesByHead (xs @ [a]) @ toolBatchesByHead (b # zs)) \<and>
         (\<not> separated a mid b \<longrightarrow>
            (\<exists>pre h bs more rest.
               toolBatchesByHead (xs @ [a]) = pre @ [(h, bs @ [regular_calls (sm_toolCalls a)])] \<and>
               toolBatchesByHead (xs @ a # mid @ b # zs)
                 = pre @ (h, bs @ [regular_calls (sm_toolCalls a), regular_calls (sm_toolCalls b)] @ more) # rest))"
proof -
  let ?A = "run_batches (xs @ [a])" and ?M = "run_batches (xs @ a # mid)"
  have ids: "ids_distinct ((xs @ a # mid) @ b # zs)" "ids_distinct (xs @ a # mid)" "ids_distinct (xs @ [a])"
    "ids_distinct (((xs @ a # mid) @ [b]) @ zs)"
    using assms(1) shown_ids_append [of xs "a # mid @ b # zs"] shown_ids_append [of "[a]" "mid @ b # zs"]
      shown_ids_append [of xs "a # mid"] shown_ids_append [of "[a]" mid] shown_ids_append [of "[b]" zs]
    by (auto simp: ids_distinct_def)
  have M: "?M = ?A\<lparr>bs_current := (if list_ex (\<lambda>m. breaks_before m \<or> breaks_after m) mid then None
                                 else bs_current ?A)\<rparr>"
    using quiet_steps [OF assms(4), of ?A] by (simp add: run_batches_def)
  have run: "run_batches (xs @ a # mid @ b # zs) = foldl batch_step ?M (b # zs)"
    by (simp add: run_batches_def)
  have goodM: "batch_good (xs @ a # mid) ?M" by (rule run_batches_good [OF ids(2)])
  show ?thesis
  proof (intro conjI impI)
    assume "separated a mid b"
    then have "bs_current ?M = None \<or> breaks_before b"
      using current_after_break [of a "run_batches xs"] by (auto simp: separated_def M run_batches_snoc)
    then have "foldl batch_step ?M (b # zs) = foldl batch_step (?M\<lparr>bs_current := None\<rparr>) (b # zs)"
      by (elim disjE) (simp only: none_noop, simp only: foldl_Cons step_breaks_before [of b ?M, symmetric])
    moreover have "batch_good (xs @ a # mid) (?M\<lparr>bs_current := None\<rparr>)"
      using goodM by (simp add: batch_good_def)
    ultimately show "toolBatchesByHead (xs @ a # mid @ b # zs)
        = toolBatchesByHead (xs @ [a]) @ toolBatchesByHead (b # zs)"
      using run_from_closed [OF ids(1), of "?M\<lparr>bs_current := None\<rparr>"]
      by (simp add: toolBatchesByHead_def run) (simp add: M)
  next
    assume joined: "\<not> separated a mid b"
    obtain h bs where cur: "bs_current ?A = Some (h, bs @ [regular_calls (sm_toolCalls a)])"
      unfolding run_batches_snoc
      using assms(2) joined
      by (cases rule: batch_step_cases [of a "run_batches xs"]) (force simp: separated_def)+
    have "batch_good (xs @ [a]) ?A" by (rule run_batches_good [OF ids(3)])
    then obtain pre where pre: "bs_byHead ?A = pre @ [(h, bs @ [regular_calls (sm_toolCalls a)])]"
      and h: "h \<notin> set (jkeys pre)"
      using cur by (force simp: batch_good_def jkeys_def)
    have MA: "?M = ?A" using joined by (simp add: M separated_def)
    have "bs_byHead (batch_step ?M b)
      = pre @ [(h, bs @ [regular_calls (sm_toolCalls a), regular_calls (sm_toolCalls b)])]"
      using assms(3) joined cur pre h MA
      by (cases rule: batch_step_cases [of b ?M]) (auto simp: separated_def jset_append)
    then have "bs_byHead (run_batches ((xs @ a # mid) @ [b]))
      = pre @ [(h, bs @ [regular_calls (sm_toolCalls a), regular_calls (sm_toolCalls b)])]"
      by (simp only: run_batches_snoc)
    from run_grows [OF ids(4) this] pre
    show "\<exists>pre h bs more rest.
       toolBatchesByHead (xs @ [a]) = pre @ [(h, bs @ [regular_calls (sm_toolCalls a)])] \<and>
       toolBatchesByHead (xs @ a # mid @ b # zs)
         = pre @ (h, bs @ [regular_calls (sm_toolCalls a), regular_calls (sm_toolCalls b)] @ more) # rest"
      by (auto simp: toolBatchesByHead_def)
  qed
qed

end
