(* ===== verification/ReviewVisible.thy ===== *)
theory ReviewVisible
imports ToolRuns
begin

text \<open>
  Reviews on the screen: where the transcript of \<^verbatim>\<open>ChatInterface.tsx\<close> shows a pending approval,
  across the approval hook, the assignment to tool calls, the processed messages and their runs.
\<close>

definition shown_transcript ::
  "(string \<Rightarrow> json) \<Rightarrow> (nat \<Rightarrow> nat \<Rightarrow> string) \<Rightarrow> assignment \<Rightarrow> call_cache \<Rightarrow> base_message list \<Rightarrow> shown_message list" where
  "shown_transcript partial fresh s cache ms =
     fst (processedMessages partial fresh (interruptedToolCallIds s) cache ms)"

text \<open>The rows a call id has in the runs of the transcript.\<close>

definition rows_of :: "string \<Rightarrow> shown_message list \<Rightarrow> tool_call list" where
  "rows_of i ps = filter (\<lambda>c. tc_id c = i) (concat (concat (map snd (toolBatchesByHead ps))))"

lemma last_ai_Some: "last_ai ms = Some m \<Longrightarrow> m \<in> set ms \<and> bm_kind m = AIMessage"
  by (auto simp: last_ai_def find_Some_iff) (metis nth_mem set_rev length_rev)

lemma openCalls_mem:
  assumes "c \<in> set (openCalls ms)"
  obtains m i where "m \<in> set ms" "last_ai ms = Some m" "bm_kind m = AIMessage" "c \<in> set (bm_calls m)"
    "rc_id c = Some i" "i \<noteq> []" "\<forall>n \<in> set ms. \<not> answer_to i n"
proof -
  obtain m where m: "last_ai ms = Some m" and c: "c \<in> set (bm_calls m)"
    using assms by (cases "last_ai ms") (auto simp: openCalls_def Let_def)
  from assms obtain i where i: "present_id (rc_id c) = Some i" "i \<notin> set (answered_ids ms)"
    by (auto simp: openCalls_def Let_def split: option.splits)
  have "\<not> answer_to i n" if "n \<in> set ms" for n
    using i(2) that by (force simp: answered_ids_def answer_to_def in_map_filter)
  then show ?thesis
    using that [of m i] last_ai_Some [OF m] m c i(1) by (auto simp: present_id_Some)
qed

lemma base_calls_mem:
  assumes "c \<in> set (bm_calls m)" and "rc_name c \<noteq> []" and "rc_id c = Some i" and "i \<noteq> []"
  shows "\<exists>d \<in> set (base_calls partial fresh interrupted n m).
           tc_id d = i \<and> tc_name d = rc_name c \<and> tc_status d = status_for interrupted (Some i)"
proof -
  have "c \<in> set (done_calls m)" using assms by (simp add: done_calls_def)
  then obtain k where "(k, c) \<in> set (zip [0..<length (done_calls m)] (done_calls m))"
    by (metis in_set_impl_in_set_zip2 length_upt minus_nat.diff_0)
  then show ?thesis using assms by (force simp: base_calls_def)
qed

lemma shown_ids_with_avatars:
  "shown_ids (with_avatars prev es) = List.map_filter (\<lambda>e. present_id (bm_id (fst e))) es"
  by (induction prev es rule: with_avatars.induct)
    (simp_all add: shown_ids_def List.map_filter_def)

lemma distinct_present: "distinct is \<Longrightarrow> distinct (List.map_filter present_id is)"
proof (induction "is")
  case (Cons i "is")
  have "s \<notin> set (List.map_filter present_id is)" if "present_id i = Some s" for s
    using that Cons.prems by (auto simp: in_map_filter present_id_Some)
  then show ?case using Cons by (auto simp: List.map_filter_def)
qed (simp add: List.map_filter_def)

lemma shown_transcript_eq:
  assumes "well_formed_thread partial fresh (interruptedToolCallIds s) ms"
    and "cache_agrees (concat (map (calls_of partial fresh (interruptedToolCallIds s)) (numbered ms))) cache"
  shows "shown_transcript partial fresh s cache ms
    = with_avatars None (map (\<lambda>q. (snd q, map (settle ms) (calls_of partial fresh (interruptedToolCallIds s) q)))
        (filter (shown_kind \<circ> snd) (numbered ms)))"
  using process_prefix [OF assms, of "length ms"]
  by (auto simp: shown_transcript_def processedMessages_def process_all_def Let_def
      numbered_def [symmetric] settled_map_def comp_def)

lemma shown_transcript_distinct:
  assumes "well_formed_thread partial fresh (interruptedToolCallIds s) ms"
    and "cache_agrees (concat (map (calls_of partial fresh (interruptedToolCallIds s)) (numbered ms))) cache"
  shows "ids_distinct (shown_transcript partial fresh s cache ms)"
proof -
  have "map snd (filter (shown_kind \<circ> snd) (numbered ms)) = filter shown_kind (map snd (numbered ms))"
    by (simp only: filter_map)
  then have kinds: "map snd (filter (shown_kind \<circ> snd) (numbered ms)) = filter shown_kind ms"
    by simp
  have "shown_ids (shown_transcript partial fresh s cache ms)
      = List.map_filter present_id (map bm_id (map snd (filter (shown_kind \<circ> snd) (numbered ms))))"
    unfolding shown_transcript_eq [OF assms] shown_ids_with_avatars map_filter_map by simp
  then have "shown_ids (shown_transcript partial fresh s cache ms)
      = List.map_filter present_id (map bm_id (filter shown_kind ms))"
    unfolding kinds .
  then show ?thesis
    using assms(1) distinct_present by (simp add: ids_distinct_def well_formed_thread_def Let_def)
qed

lemma filter_unique: "distinct (map f xs) \<Longrightarrow> x \<in> set xs \<Longrightarrow> filter (\<lambda>y. f y = f x) xs = [x]"
proof (induction xs)
  case (Cons a xs)
  have "filter (\<lambda>y. f y = f x) xs = []" if "f a = f x"
    using Cons.prems(1) that by (auto simp: filter_empty_conv) (metis image_eqI)
  then show ?case using Cons by auto
qed simp

lemma regular_distinct:
  "distinct (concat (map (\<lambda>p. map tc_id (sm_toolCalls p)) ps)) \<Longrightarrow>
   distinct (map tc_id (concat (map (\<lambda>p. regular_calls (sm_toolCalls p)) (filter P ps))))"
proof (induction ps)
  case (Cons p ps)
  have "distinct (map tc_id (regular_calls (sm_toolCalls p)))"
    using Cons.prems by (simp add: regular_calls_def distinct_map_filter)
  then show ?case using Cons by (auto simp: regular_calls_def)
qed simp

lemma with_avatars_calls:
  "map sm_toolCalls (with_avatars prev es) = map snd es" "map sm_message (with_avatars prev es) = map fst es"
  by (induction prev es rule: with_avatars.induct) auto

lemma shown_calls_distinct:
  assumes "well_formed_thread partial fresh (interruptedToolCallIds s) ms"
    and "cache_agrees (concat (map (calls_of partial fresh (interruptedToolCallIds s)) (numbered ms))) cache"
  shows "distinct (concat (map (\<lambda>p. map tc_id (sm_toolCalls p)) (shown_transcript partial fresh s cache ms)))"
proof -
  let ?calls = "calls_of partial fresh (interruptedToolCallIds s)"
  let ?L = "filter (shown_kind \<circ> snd) (numbered ms)"
  have "map (\<lambda>p. map tc_id (sm_toolCalls p)) (shown_transcript partial fresh s cache ms)
      = map (map tc_id) (map sm_toolCalls (shown_transcript partial fresh s cache ms))"
    by simp
  also have "\<dots> = map (map tc_id \<circ> ?calls) ?L"
    unfolding shown_transcript_eq [OF assms] with_avatars_calls by (simp add: comp_def)
  finally show ?thesis
    using concat_sub_distinct [of "map tc_id \<circ> ?calls" "numbered ms" "[]" "shown_kind \<circ> snd"] assms(1)
    by (simp add: well_formed_thread_def Let_def comp_def)
qed

text \<open>An open call of the thread is a row of the transcript's runs.\<close>

lemma open_call_row:
  assumes wf: "well_formed_thread partial fresh (interruptedToolCallIds s) ms"
    and cache: "cache_agrees (concat (map (calls_of partial fresh (interruptedToolCallIds s)) (numbered ms))) cache"
    and c: "c \<in> set (openCalls ms)" and i: "rc_id c = Some i" "i \<in> set (interruptedToolCallIds s)"
    and name: "rc_name c \<noteq> []" "rc_name c \<notin> set CARD_TOOL_NAMES"
    and id: "\<And>m. last_ai ms = Some m \<Longrightarrow> present_id (bm_id m) \<noteq> None"
  shows "\<exists>d. rows_of i (shown_transcript partial fresh s cache ms) = [d] \<and>
           tc_name d = rc_name c \<and> tc_status d = CallInterrupted"
proof -
  let ?ps = "shown_transcript partial fresh s cache ms"
  let ?calls = "calls_of partial fresh (interruptedToolCallIds s)"
  obtain m where m: "m \<in> set ms" "last_ai ms = Some m" "bm_kind m = AIMessage" "c \<in> set (bm_calls m)"
    "i \<noteq> []" "\<forall>n \<in> set ms. \<not> answer_to i n"
    using openCalls_mem [OF c] i(1) by (metis option.inject)
  obtain n where n: "(n, m) \<in> set (numbered ms)"
    using m(1) snd_numbered [of ms] by (metis (no_types, lifting) image_iff list.set_map prod.collapse)
  obtain d where d: "d \<in> set (?calls (n, m))" "tc_id d = i" "tc_name d = rc_name c" "tc_status d = CallInterrupted"
    using base_calls_mem [OF m(4) name(1) i(1) m(5), of partial fresh "interruptedToolCallIds s" n] i m(3,5)
    by (auto simp: calls_of_def status_for_def present_id_def)
  have "settle ms d = d" using m(6) d(2) by (intro settle_unanswered) simp
  then have dmem: "d \<in> set (map (settle ms) (?calls (n, m)))" using d(1) by force
  have "(m, map (settle ms) (?calls (n, m))) \<in> (\<lambda>p. (sm_message p, sm_toolCalls p)) ` set ?ps"
    unfolding shown_transcript_eq [OF assms(1,2)]
    using n m(3) with_avatars_pairs [THEN arg_cong [where f = set]]
    by (force simp: shown_kind_def)
  then obtain p where p: "p \<in> set ?ps" "sm_message p = m" "sm_toolCalls p = map (settle ms) (?calls (n, m))"
    by auto
  have reg: "d \<in> set (regular_calls (sm_toolCalls p))"
    using dmem p(3) name(2) d(3) by (simp add: regular_calls_def)
  then have "tool_bearing p"
    using id [OF m(2)] p(2) m(3) by (auto simp: tool_bearing_def)
  with p(1) reg have mem: "d \<in> set (concat (map (\<lambda>p. regular_calls (sm_toolCalls p)) (filter tool_bearing ?ps)))"
    by auto
  have "concat (map snd (toolBatchesByHead ?ps)) = map (\<lambda>p. regular_calls (sm_toolCalls p)) (filter tool_bearing ?ps)"
    using run_batches_good [OF shown_transcript_distinct [OF wf cache]]
    by (simp add: batch_good_def toolBatchesByHead_def)
  then have "rows_of i ?ps = [d]"
    using filter_unique [OF regular_distinct [OF shown_calls_distinct [OF wf cache]] mem] d(2)
    by (simp add: rows_of_def)
  then show ?thesis using d by blast
qed



section \<open>A paused thread\<close>

definition call_named :: "string \<Rightarrow> string \<Rightarrow> string \<Rightarrow> call_ref" where
  "call_named i n cmd = \<lparr>rc_id = Some i, rc_name = n, rc_args = JObj [(''cmd'', JStr cmd)]\<rparr>"

definition message_of :: "message_kind \<Rightarrow> string \<Rightarrow> string \<Rightarrow> call_ref list \<Rightarrow> string option \<Rightarrow> base_message" where
  "message_of k i t cs answered =
     \<lparr>bm_kind = k, bm_id = Some i, bm_text = t, bm_calls = cs, bm_chunks = [], bm_call_id = answered\<rparr>"

definition paused_thread :: "base_message list" where
  "paused_thread =
     [message_of HumanMessage ''h1'' ''run it'' [] None,
      message_of AIMessage ''m1'' [] [call_named ''r'' ''read_file'' ''x''] None,
      message_of ToolMessage ''t1'' ''text'' [] (Some ''r''),
      message_of AIMessage ''m2'' [] [call_named ''a'' ''execute'' ''ls'', call_named ''b'' ''execute'' ''rm''] None]"

abbreviation no_partial :: "string \<Rightarrow> json" where
  "no_partial \<equiv> \<lambda>_. JNull"

abbreviation no_fresh :: "nat \<Rightarrow> nat \<Rightarrow> string" where
  "no_fresh \<equiv> \<lambda>_ _. []"



definition paused_shown :: "shown_message list" where
  "paused_shown = fst (processedMessages no_partial no_fresh [] [] paused_thread)"

lemma runs_cover_witness:
  "concat (map snd (toolBatchesByHead paused_shown))
     = map (\<lambda>p. regular_calls (sm_toolCalls p)) (filter tool_bearing paused_shown)"
proof -
  have "ids_distinct paused_shown" by code_simp
  from runs_cover [OF this] show ?thesis by blast
qed

lemma runs_break_exactly_witness:
  "\<exists>pre h bs more rest.
     toolBatchesByHead [hd paused_shown, paused_shown ! 1]
       = pre @ [(h, bs @ [regular_calls (sm_toolCalls (paused_shown ! 1))])] \<and>
     toolBatchesByHead [hd paused_shown, paused_shown ! 1, paused_shown ! 2]
       = pre @ (h, bs @ [regular_calls (sm_toolCalls (paused_shown ! 1)),
                         regular_calls (sm_toolCalls (paused_shown ! 2))] @ more) # rest"
proof -
  let ?h = "hd paused_shown" and ?a = "paused_shown ! 1" and ?b = "paused_shown ! 2"
  have i: "ids_distinct ([?h] @ ?a # [] @ ?b # [])" by code_simp
  have t: "tool_bearing ?a" "tool_bearing ?b" by code_simp+
  have s: "\<not> separated ?a [] ?b" by code_simp
  show ?thesis using runs_break_exactly [OF i t] s by simp
qed

text \<open>
  A cached result hides a later change of the call's arguments, as when a reviewer edited them
  and the result arrived with the message still showing the old ones.
\<close>

lemma cache_keeps_old_args:
  "let old = \<lparr>tc_id = ''r'', tc_name = ''read_file'', tc_args = JObj [], tc_result = Some ''text'',
              tc_status = CallCompleted\<rparr> in
   map tc_args (concat (map sm_toolCalls
     (fst (processedMessages no_partial no_fresh [] [(''r'', old)] (take 3 paused_thread))))) = [JObj []]"
  by code_simp

text \<open>
  A gated call of a tool with a card of its own has neither a row nor a place in the fallback
  list: its approval is assigned to it and nothing shows it.
\<close>

lemma gated_chart_hidden:
  "let ms = [message_of AIMessage ''m1'' [] [call_named ''c'' CHART_TOOL_NAME ''x''] None];
       a = \<lparr>pa_key = ''i:0'', pa_interruptId = ''i'', pa_namespace = None, pa_index = 0, pa_total = 1,
            pa_request = \<lparr>ar_name = CHART_TOOL_NAME, ar_args = JObj [], ar_description = JUndef\<rparr>,
            pa_reviewConfig = JUndef\<rparr>;
       s = assign_approvals (openCalls ms) [a] in
   map_of (as_byCall s) ''c'' = Some a \<and> fallbackApprovals s [] = [] \<and>
   toolBatchesByHead (shown_transcript no_partial no_fresh s [] ms) = []"
  by code_simp

end
