(* ===== verification/UiState.thy ===== *)
theory UiState
imports AgentFiles
begin

text \<open>
  The small state machines of the interface: \<^verbatim>\<open>useAutoCollapse\<close>, \<^verbatim>\<open>usePointerToggle\<close>,
  \<^verbatim>\<open>useThreadsPanel\<close>, \<^verbatim>\<open>useUploadCue\<close> and \<^verbatim>\<open>useFileUpload\<close> under \<^verbatim>\<open>app/hooks\<close>. Each is a record
  and one function per callback; renders that change state are events too.
\<close>

section \<open>Auto-collapse\<close>

record auto_collapse =
  ac_expanded :: bool
  ac_userOverride :: bool
  ac_prevRunning :: bool

definition collapse_init :: "bool \<Rightarrow> auto_collapse" where
  "collapse_init isRunning = \<lparr>ac_expanded = isRunning, ac_userOverride = False, ac_prevRunning = isRunning\<rparr>"

definition collapse_render :: "bool \<Rightarrow> auto_collapse \<Rightarrow> auto_collapse" where
  "collapse_render isRunning st =
     (if ac_prevRunning st \<noteq> isRunning
      then (let st1 = st\<lparr>ac_prevRunning := isRunning\<rparr> in
            if \<not> ac_userOverride st then st1\<lparr>ac_expanded := isRunning\<rparr> else st1)
      else st)"

definition collapse_toggle :: "bool \<Rightarrow> auto_collapse \<Rightarrow> auto_collapse" where
  "collapse_toggle forceExpanded st =
     (if forceExpanded then st
      else st\<lparr>ac_userOverride := True, ac_expanded := \<not> ac_expanded st\<rparr>)"

definition isExpanded :: "bool \<Rightarrow> auto_collapse \<Rightarrow> bool" where
  "isExpanded forceExpanded st = (forceExpanded \<or> ac_expanded st)"

datatype collapse_event = Render bool | Toggle bool

fun collapse_react :: "auto_collapse \<Rightarrow> collapse_event \<Rightarrow> auto_collapse" where
  "collapse_react st (Render r) = collapse_render r st"
| "collapse_react st (Toggle f) = collapse_toggle f st"

text \<open>What the unit should show: it follows the run until the first toggle that counts, from then
  on only the toggles.\<close>

fun followed :: "bool \<Rightarrow> collapse_event list \<Rightarrow> bool" where
  "followed running [] = running"
| "followed running (Render r # es) = followed r es"
| "followed running (Toggle True # es) = followed running es"
| "followed running (Toggle False # es) = (running = odd (length (filter (\<lambda>e. e = Toggle False) es)))"

lemma overridden:
  "ac_userOverride st \<Longrightarrow>
   ac_expanded (foldl collapse_react st es)
     = (ac_expanded st \<noteq> odd (length (filter (\<lambda>e. e = Toggle False) es)))"
proof (induction es arbitrary: st)
  case (Cons e es)
  show ?case
  proof (cases e)
    case (Render r)
    have "ac_userOverride (collapse_react st e)" "ac_expanded (collapse_react st e) = ac_expanded st"
      using Cons.prems by (simp_all add: Render collapse_render_def Let_def)
    then show ?thesis using Cons.IH [of "collapse_react st e"] by (simp add: Render)
  next
    case (Toggle f)
    have "ac_userOverride (collapse_react st e)"
      "ac_expanded (collapse_react st e) = (if f then ac_expanded st else \<not> ac_expanded st)"
      using Cons.prems by (simp_all add: Toggle collapse_toggle_def)
    then show ?thesis using Cons.IH [of "collapse_react st e"] by (auto simp: Toggle)
  qed
qed simp

lemma following:
  "\<not> ac_userOverride st \<Longrightarrow> ac_expanded st = ac_prevRunning st \<Longrightarrow>
   ac_expanded (foldl collapse_react st es) = followed (ac_prevRunning st) es"
proof (induction es arbitrary: st)
  case (Cons e es)
  show ?case
  proof (cases e)
    case (Render r)
    then show ?thesis
      using Cons.IH [of "collapse_react st e"] Cons.prems by (simp add: collapse_render_def Let_def)
  next
    case (Toggle f)
    then show ?thesis
      using Cons overridden [of "collapse_react st e" es] by (cases f) (auto simp: collapse_toggle_def)
  qed
qed simp

text \<open>A unit of agent activity is open exactly while its run is active until the user first
  toggles it, and from then on exactly as the user last left it; a pending review keeps it open and
  makes toggling do nothing.\<close>

theorem auto_collapse_follows:
  "ac_expanded (foldl collapse_react (collapse_init running) es) = followed running es \<and>
   isExpanded True (foldl collapse_react (collapse_init running) es) \<and>
   collapse_react st (Toggle True) = st"
  using following [of "collapse_init running" es]
  by (simp add: collapse_init_def isExpanded_def collapse_toggle_def)

section \<open>Pointer toggle\<close>

text \<open>The clock is \<^verbatim>\<open>performance.now()\<close> in milliseconds since the page was opened.\<close>

record pointer_toggle =
  pt_last :: nat
  pt_toggles :: nat

definition onPointerDown :: "nat \<Rightarrow> pointer_toggle \<Rightarrow> pointer_toggle" where
  "onPointerDown now st = \<lparr>pt_last = now, pt_toggles = pt_toggles st + 1\<rparr>"

definition onClick :: "nat \<Rightarrow> pointer_toggle \<Rightarrow> pointer_toggle" where
  "onClick now st =
     (if int now - int (pt_last st) < 300 then st else st\<lparr>pt_toggles := pt_toggles st + 1\<rparr>)"

lemma tap_toggles_once:
  "t' < t + 300 \<Longrightarrow> pt_toggles (onClick t' (onPointerDown t st)) = pt_toggles st + 1"
  by (simp add: onClick_def onPointerDown_def)

lemma keyboard_toggles_once: "t \<ge> pt_last st + 300 \<Longrightarrow> pt_toggles (onClick t st) = pt_toggles st + 1"
  by (simp add: onClick_def)

text \<open>A press that is held for 300 milliseconds toggles twice and so changes nothing.\<close>

lemma long_press_undone:
  "t' \<ge> t + 300 \<Longrightarrow> pt_toggles (onClick t' (onPointerDown t st)) = pt_toggles st + 2"
  by (simp add: onClick_def onPointerDown_def)

section \<open>Threads panel\<close>

text \<open>\<^verbatim>\<open>tp_store\<close> is the stored preference; \<^verbatim>\<open>tp_works\<close> says whether the browser's storage
  works, all reads and writes failing if not.\<close>

record threads_panel =
  tp_pinned :: bool
  tp_open :: bool
  tp_store :: "string option"
  tp_works :: bool

definition readPinned :: "bool \<Rightarrow> string option \<Rightarrow> bool" where
  "readPinned works store = (works \<and> store = Some ''1'')"

definition panel_init :: "bool \<Rightarrow> string option \<Rightarrow> threads_panel" where
  "panel_init works store =
     \<lparr>tp_pinned = readPinned works store, tp_open = readPinned works store, tp_store = store, tp_works = works\<rparr>"

definition setPinned :: "bool \<Rightarrow> threads_panel \<Rightarrow> threads_panel" where
  "setPinned v st =
     st\<lparr>tp_pinned := v,
        tp_store := (if tp_works st then Some (if v then ''1'' else ''0'') else tp_store st)\<rparr>"

definition panel_close :: "threads_panel \<Rightarrow> threads_panel" where
  "panel_close st = setPinned False (st\<lparr>tp_open := False\<rparr>)"

definition panel_toggle :: "threads_panel \<Rightarrow> threads_panel" where
  "panel_toggle st = (if tp_open st then panel_close st else st\<lparr>tp_open := True\<rparr>)"

definition togglePin :: "threads_panel \<Rightarrow> threads_panel" where
  "togglePin st = setPinned (\<not> tp_pinned st) st"

definition onThreadSelected :: "threads_panel \<Rightarrow> threads_panel" where
  "onThreadSelected st = (if \<not> tp_pinned st then st\<lparr>tp_open := False\<rparr> else st)"

datatype panel_event = PToggle | PClose | PPin | PSelect | PReload

text \<open>The pin button is in the panel, so it is only pressed on an open one.\<close>

inductive panel_step :: "threads_panel \<Rightarrow> panel_event \<Rightarrow> threads_panel \<Rightarrow> bool" where
  toggle_panel: "panel_step st PToggle (panel_toggle st)"
| close_panel: "tp_open st \<Longrightarrow> panel_step st PClose (panel_close st)"
| pin_panel: "tp_open st \<Longrightarrow> panel_step st PPin (togglePin st)"
| select_thread: "panel_step st PSelect (onThreadSelected st)"
| reload_page: "panel_step st PReload (panel_init (tp_works st) (tp_store st))"

inductive_simps panel_step_simps [simp]:
  "panel_step st PToggle st'" "panel_step st PClose st'" "panel_step st PPin st'"
  "panel_step st PSelect st'" "panel_step st PReload st'"

definition panel_good :: "threads_panel \<Rightarrow> bool" where
  "panel_good st =
     ((tp_pinned st \<longrightarrow> tp_open st) \<and>
      (tp_works st \<longrightarrow> (tp_store st = Some ''1'') = tp_pinned st))"

interpretation panel: transition_system "\<lambda>s. \<exists>store. s = panel_init works store" panel_step panel_good
proof unfold_locales
  fix s :: threads_panel and e t
  assume "panel_good s" "panel_step s e t"
  then show "panel_good t"
    by (cases e) (auto simp: panel_good_def panel_toggle_def panel_close_def togglePin_def setPinned_def
        onThreadSelected_def panel_init_def readPinned_def split: if_splits)
qed (auto simp: panel_good_def panel_init_def readPinned_def)

text \<open>A closed threads panel is never pinned, and where storage works a reload shows the panel
  open exactly when it was pinned.\<close>

theorem threads_panel_pinned:
  assumes "reachable (\<lambda>s. \<exists>store. s = panel_init works store) panel_step st"
  shows "(tp_pinned st \<longrightarrow> tp_open st) \<and>
         (tp_works st \<longrightarrow> tp_open (panel_init (tp_works st) (tp_store st)) = tp_pinned st)"
  using panel.reach_inv [OF assms] by (auto simp: panel_good_def panel_init_def readPinned_def)

lemma threads_panel_pinned_witness:
  "tp_open (panel_init True (Some ''1''))"
proof -
  let ?s = "panel_init True None"
  have "reachable (\<lambda>s. \<exists>store. s = panel_init True store) panel_step (togglePin (panel_toggle ?s))"
    by (rule reach_step [where e = PPin], rule reach_step [where e = PToggle], rule reach_init)
      (auto simp: panel_toggle_def panel_init_def readPinned_def)
  from threads_panel_pinned [OF this] show ?thesis
    by (auto simp: panel_toggle_def panel_init_def readPinned_def togglePin_def setPinned_def)
qed

section \<open>Upload cue\<close>

definition hasUploads :: "string list \<Rightarrow> bool" where
  "hasUploads paths = list_ex (\<lambda>p. starts_with p (CAREER_AGENT_UPLOAD_DIR @ ''/'')) paths"

definition readDismissed :: "bool \<Rightarrow> string option \<Rightarrow> bool" where
  "readDismissed works store = (works \<and> store = Some ''1'')"

record upload_cue =
  uc_dismissed :: bool
  uc_store :: "string option"

definition dismissCue :: "bool \<Rightarrow> upload_cue \<Rightarrow> upload_cue" where
  "dismissCue works st =
     \<lparr>uc_dismissed = True, uc_store = (if works then Some ''1'' else uc_store st)\<rparr>"

definition showUploadCta :: "bool \<Rightarrow> string list \<Rightarrow> bool" where
  "showUploadCta filesReady paths = (filesReady \<and> \<not> hasUploads paths)"

definition showPulseCue :: "bool \<Rightarrow> upload_cue \<Rightarrow> bool" where
  "showPulseCue filesReady st = (filesReady \<and> \<not> uc_dismissed st)"

lemma cue_stays_dismissed:
  "\<not> showPulseCue ready (dismissCue works st) \<and>
   (works \<longrightarrow> readDismissed works (uc_store (dismissCue works st)))"
  by (simp add: showPulseCue_def dismissCue_def readDismissed_def)

section \<open>Uploading\<close>

datatype toast = ToastOk string | ToastError string | ToastWarning string

record upload_ui =
  uu_uploading :: bool
  uu_toasts :: "toast list"
  uu_notes :: "string list list"
  uu_refreshes :: nat

definition say :: "toast \<Rightarrow> upload_ui \<Rightarrow> upload_ui" where
  "say t st = st\<lparr>uu_toasts := uu_toasts st @ [t]\<rparr>"

text \<open>\<^verbatim>\<open>uploadFiles\<close> up to the request, and after the reply.\<close>

definition upload_begin ::
  "json \<Rightarrow> upload_file list \<Rightarrow> upload_ui \<Rightarrow> upload_request option \<times> upload_ui" where
  "upload_begin config picked st =
     (if picked = [] \<or> uu_uploading st then (None, st)
      else (Some (upload_request_of config picked CAREER_AGENT_UPLOAD_DIR), st\<lparr>uu_uploading := True\<rparr>))"

definition base_name :: "json \<Rightarrow> string" where
  "base_name u = (case js_prop u ''path'' of JStr p \<Rightarrow> last (split_on (CHR ''/'') p) | _ \<Rightarrow> [])"

definition upload_errors :: "json list \<Rightarrow> toast list" where
  "upload_errors es =
     map (\<lambda>e. ToastError (js_string (js_prop e ''name'') @ '': '' @ js_string (js_prop e ''reason''))) es"

definition uploaded_part :: "json list \<Rightarrow> upload_ui \<Rightarrow> upload_ui" where
  "uploaded_part us st =
     (if us = [] then st
      else let st1 = say (ToastOk (''Uploaded '' @ show_nat (length us) @ '' file'' @
                                   (if length us > 1 then ''s'' else []))) st in
           st1\<lparr>uu_notes := uu_notes st1 @ [filter (\<lambda>n. n \<noteq> []) (map base_name us)]\<rparr>)"

definition upload_body :: "json \<Rightarrow> unit result \<Rightarrow> upload_ui \<Rightarrow> upload_ui" where
  "upload_body res refresh st =
     (case js_prop res ''uploaded'' of
        JArr us \<Rightarrow>
          (let st1 = uploaded_part us st in
           case js_prop res ''errors'' of
             JArr es \<Rightarrow>
               (let st2 = st1\<lparr>uu_toasts := uu_toasts st1 @ upload_errors es,
                              uu_refreshes := uu_refreshes st1 + 1\<rparr> in
                case refresh of Inl err \<Rightarrow> say (ToastError err) st2 | Inr _ \<Rightarrow> st2)
           | _ \<Rightarrow> say (ToastError ''TypeError'') st1)
      | _ \<Rightarrow> say (ToastError ''TypeError'') st)"

definition upload_end :: "json result \<Rightarrow> unit result \<Rightarrow> upload_ui \<Rightarrow> upload_ui" where
  "upload_end answer refresh st =
     (case answer of
        Inl err \<Rightarrow> say (ToastError err) st
      | Inr res \<Rightarrow> upload_body res refresh st)\<lparr>uu_uploading := False\<rparr>"

definition onInputChange ::
  "json \<Rightarrow> upload_file list option \<Rightarrow> upload_ui \<Rightarrow> upload_request option \<times> upload_ui" where
  "onInputChange config list st =
     (case list of
        None \<Rightarrow> (None, st)
      | Some picked \<Rightarrow> if picked = [] then (None, st) else upload_begin config picked st)"

text \<open>Dropping files: the drag state goes, unsupported files are reported, the rest is uploaded.\<close>

definition onDragLeave :: "bool \<Rightarrow> bool \<Rightarrow> bool" where
  "onDragLeave to_own_child dragActive = (if to_own_child then dragActive else False)"

definition onDrop ::
  "json \<Rightarrow> upload_file list \<Rightarrow> upload_ui \<Rightarrow> upload_request option \<times> upload_ui" where
  "onDrop config dropped st =
     (if uu_uploading st then (None, st)
      else let accepted = filter (\<lambda>f. isAcceptedUploadName (uf_name f)) dropped;
               skipped = length dropped - length accepted;
               st1 = (if skipped > 0
                      then say (ToastError (''Skipped '' @ show_nat skipped @ '' unsupported file'' @
                             (if skipped > 1 then ''s'' else []) @ '' - PDF, DOC, DOCX, TXT, MD only'')) st
                      else st) in
           if accepted \<noteq> [] then upload_begin config accepted st1 else (None, st1))"

text \<open>One upload at a time: a request is sent only when none is under way, it is under way until
  it settles, and dropping sends exactly the accepted files and reports the others once.\<close>

theorem upload_single_flight:
  "(uu_uploading st \<longrightarrow> upload_begin config picked st = (None, st) \<and> onDrop config picked st = (None, st)) \<and>
   (\<forall>r st'. onDrop config picked st = (Some r, st') \<longrightarrow>
      uu_uploading st' \<and> up_path r = CAREER_AGENT_UPLOAD_DIR \<and>
      up_files r = map (\<lambda>f. (uf_name f, f)) (filter (\<lambda>f. isAcceptedUploadName (uf_name f)) picked) \<and>
      length (uu_toasts st') = length (uu_toasts st) +
        (if list_all (\<lambda>f. isAcceptedUploadName (uf_name f)) picked then 0 else 1)) \<and>
   \<not> uu_uploading (upload_end answer refresh st)"
proof -
  have skip: "0 < length picked - length (filter P picked) \<longleftrightarrow> \<not> list_all P picked" for P
  proof (cases "list_all P picked")
    case True
    then have "filter P picked = picked" by (simp add: list_all_iff)
    then show ?thesis using True by simp
  next
    case False
    then obtain x where "x \<in> set picked" "\<not> P x" by (auto simp: list_all_iff)
    then show ?thesis using length_filter_less [of x picked P] False by simp
  qed
  show ?thesis
    unfolding onDrop_def Let_def skip
    by (auto simp: upload_begin_def upload_request_of_def upload_end_def say_def split: if_splits)
qed

lemma upload_single_flight_witness:
  "uu_uploading (snd (onDrop JNull [\<lparr>uf_name = ''cv.pdf'', uf_bytes = []\<rparr>]
     \<lparr>uu_uploading = False, uu_toasts = [], uu_notes = [], uu_refreshes = 0\<rparr>))"
proof -
  let ?st = "\<lparr>uu_uploading = False, uu_toasts = [], uu_notes = [], uu_refreshes = 0\<rparr>"
  let ?fs = "[\<lparr>uf_name = ''cv.pdf'', uf_bytes = []\<rparr>]"
  have "fst (onDrop JNull ?fs ?st) \<noteq> None" by code_simp
  then obtain r st' where r: "onDrop JNull ?fs ?st = (Some r, st')"
    by (cases "onDrop JNull ?fs ?st") auto
  then have "uu_uploading st'" using upload_single_flight [of ?st JNull ?fs] by blast
  then show ?thesis by (simp only: r snd_conv)
qed

end
