(* ===== verification/ChatView.thy ===== *)
theory ChatView
imports ReviewVisible Usage UiState Config
begin

text \<open>
  What the chat column shows and accepts: the composer and the empty state of
  \<^verbatim>\<open>ChatInterface.tsx\<close>, one message (\<^verbatim>\<open>ChatMessage.tsx\<close>), one run of tool calls
  (\<^verbatim>\<open>ToolCallGroup.tsx\<close>, \<^verbatim>\<open>ToolCallBatchList.tsx\<close>) and one call (\<^verbatim>\<open>ToolCallBox.tsx\<close>).
  Views are records of what is rendered; class names, icons' drawings and layout are left out.
  Typographic dashes and ellipses of labels are written in ASCII.
\<close>

section \<open>The composer\<close>

record composer_props =
  cm_isLoading :: bool
  cm_hasAssistant :: bool
  cm_pending :: nat
  cm_interrupts :: nat
  cm_usage :: "usage_status option"

record composer =
  cm_input :: string
  cm_sent :: "string list"
  cm_stops :: nat

definition reviewPending :: "composer_props \<Rightarrow> bool" where
  "reviewPending p = (cm_pending p > 0 \<or> cm_interrupts p > 0)"

definition quotaBlocked :: "composer_props \<Rightarrow> bool" where
  "quotaBlocked p = (case cm_usage p of Some u \<Rightarrow> blocked u = Some True | None \<Rightarrow> False)"

definition submitDisabled :: "composer_props \<Rightarrow> bool" where
  "submitDisabled p = (cm_isLoading p \<or> \<not> cm_hasAssistant p \<or> reviewPending p \<or> quotaBlocked p)"

definition handleSubmit :: "composer_props \<Rightarrow> composer \<Rightarrow> composer" where
  "handleSubmit p st =
     (let messageText = js_trim (cm_input st) in
      if messageText = [] \<or> cm_isLoading p \<or> submitDisabled p then st
      else st\<lparr>cm_sent := cm_sent st @ [messageText], cm_input := []\<rparr>)"

text \<open>A key: whether the default action is prevented, and the state after it.\<close>

definition handleKeyDown :: "composer_props \<Rightarrow> string \<Rightarrow> bool \<Rightarrow> composer \<Rightarrow> bool \<times> composer" where
  "handleKeyDown p key shiftKey st =
     (if submitDisabled p then (False, st)
      else if key = ''Enter'' \<and> \<not> shiftKey then (True, handleSubmit p st)
      else (False, st))"

definition fillSuggestion :: "string \<Rightarrow> composer \<Rightarrow> composer" where
  "fillSuggestion prompt st = st\<lparr>cm_input := prompt\<rparr>"

definition canSend :: "composer_props \<Rightarrow> composer \<Rightarrow> bool" where
  "canSend p st = (\<not> submitDisabled p \<and> js_trim (cm_input st) \<noteq> [])"

record send_button =
  sb_label :: string
  sb_submit :: bool
  sb_disabled :: bool

definition send_button_of :: "composer_props \<Rightarrow> composer \<Rightarrow> send_button" where
  "send_button_of p st =
     \<lparr>sb_label = (if cm_isLoading p then ''Stop'' else ''Send''),
      sb_submit = (\<not> cm_isLoading p), sb_disabled = (\<not> cm_isLoading p \<and> \<not> canSend p st)\<rparr>"

definition press_send :: "composer_props \<Rightarrow> composer \<Rightarrow> composer" where
  "press_send p st =
     (if sb_disabled (send_button_of p st) then st
      else if cm_isLoading p then st\<lparr>cm_stops := cm_stops st + 1\<rparr>
      else handleSubmit p st)"

datatype composer_event = TypeText string | KeyDown string bool | PressSend | Suggest string

fun composer_react :: "composer_props \<Rightarrow> composer \<Rightarrow> composer_event \<Rightarrow> composer" where
  "composer_react p st (TypeText s) = st\<lparr>cm_input := s\<rparr>"
| "composer_react p st (KeyDown k shift) = snd (handleKeyDown p k shift st)"
| "composer_react p st PressSend = press_send p st"
| "composer_react p st (Suggest s) = fillSuggestion s st"

datatype status_line = Working | QuotaReached string | AwaitingReview

definition status_lines ::
  "(string \<Rightarrow> bool) \<Rightarrow> (bool \<Rightarrow> string \<Rightarrow> string) \<Rightarrow> composer_props \<Rightarrow> status_line list" where
  "status_lines same_day locale_time p =
     (if cm_isLoading p then [Working] else []) @
     (case cm_usage p of
        Some u \<Rightarrow> if \<not> cm_isLoading p \<and> \<not> reviewPending p \<and> quotaBlocked p
                  then [QuotaReached (blockedMessage same_day locale_time u)] else []
      | None \<Rightarrow> []) @
     (if \<not> cm_isLoading p \<and> reviewPending p then [AwaitingReview] else [])"

definition runs_left_hint :: "composer_props \<Rightarrow> string option" where
  "runs_left_hint p =
     (case cm_usage p of
        None \<Rightarrow> None
      | Some u \<Rightarrow> (case runs_left_today u of
                    None \<Rightarrow> None
                  | Some n \<Rightarrow> if quotaBlocked p then None
                             else Some (if n = 1 then ''1 run left today''
                                        else show_int n @ '' runs left today'')))"

text \<open>C12: The composer sends a message exactly when the reviewer presses Enter without Shift, or the
  send button, with visible text while no run is active, an agent is there, no review is pending and
  the quota is not used up; it sends the trimmed text once and clears the input. In particular
  nothing is ever sent into an interrupted thread.\<close>

theorem composer_sends:
  "let st' = composer_react p st e in
   (cm_sent st' \<noteq> cm_sent st \<longleftrightarrow>
      (e = PressSend \<or> e = KeyDown ''Enter'' False) \<and> \<not> cm_isLoading p \<and> cm_hasAssistant p \<and>
      \<not> reviewPending p \<and> \<not> quotaBlocked p \<and> js_trim (cm_input st) \<noteq> []) \<and>
   (cm_sent st' = cm_sent st \<or> cm_sent st' = cm_sent st @ [js_trim (cm_input st)] \<and> cm_input st' = [])"
  by (cases e)
    (auto simp: Let_def handleKeyDown_def handleSubmit_def press_send_def send_button_of_def canSend_def
      submitDisabled_def fillSuggestion_def)

lemma one_status_line: "length (status_lines same_day locale_time p) \<le> 1"
  by (auto simp: status_lines_def quotaBlocked_def split: option.splits)

lemma locked_composer_says_why:
  "submitDisabled p \<Longrightarrow> cm_hasAssistant p \<Longrightarrow> status_lines same_day locale_time p \<noteq> []"
  by (auto simp: submitDisabled_def status_lines_def quotaBlocked_def split: option.splits if_splits)

section \<open>The empty state\<close>

record suggestion =
  sg_label :: string
  sg_prompt :: string

record empty_state =
  es_blurb :: string
  es_suggestions :: "suggestion list"
  es_showUpload :: bool
  es_placeholder :: string

definition CAREER_SUGGESTIONS :: "suggestion list" where
  "CAREER_SUGGESTIONS =
     [\<lparr>sg_label = ''Research a company'',
       sg_prompt = ''Research a company and role I'm interviewing for, and summarize what they look for.''\<rparr>,
      \<lparr>sg_label = ''Tailor my resume'',
       sg_prompt = ''Tailor my resume to a specific job description.''\<rparr>,
      \<lparr>sg_label = ''Prepare for an interview'',
       sg_prompt = ''Prepare me for the interview - build round-by-round prep with STAR stories.''\<rparr>,
      \<lparr>sg_label = ''Build a battlecard'',
       sg_prompt = ''Build a one-page interview battlecard for my upcoming round.''\<rparr>]"

definition ANALYTICS_SUGGESTIONS :: "suggestion list" where
  "ANALYTICS_SUGGESTIONS =
     [\<lparr>sg_label = ''Run reliability'',
       sg_prompt = ''How many runs failed this week versus last, by day? Chart it.''\<rparr>,
      \<lparr>sg_label = ''LLM cost'',
       sg_prompt = ''What did the LLM cost per model over the last 30 days? Chart it and note '' @
                   ''how much of the spend the usage data actually covers.''\<rparr>,
      \<lparr>sg_label = ''Active users'',
       sg_prompt = ''Chart active users per day over the last 30 days, excluding single-user history.''\<rparr>,
      \<lparr>sg_label = ''Tool usage'',
       sg_prompt = ''Which tools does the agent call most, and which of them fail? Chart it.''\<rparr>]"

definition career_empty :: empty_state where
  "career_empty =
     \<lparr>es_blurb = ''Drop in your resume and a job post. NextRole tailors your application, researches '' @
                 ''the company, and preps you for every round - all in one workspace.'',
      es_suggestions = CAREER_SUGGESTIONS, es_showUpload = True,
      es_placeholder = ''Message NextRole - paste a job link, or describe the role...''\<rparr>"

definition EMPTY_STATES :: "(string, empty_state) jmap" where
  "EMPTY_STATES =
     [(ANALYTICS_AGENT_ID,
       \<lparr>es_blurb = ''Activity, reliability, LLM cost and agent behaviour, straight from the warehouse. '' @
                   ''Ask in plain language and get the number, the caveat, and a chart when it helps.'',
        es_suggestions = ANALYTICS_SUGGESTIONS, es_showUpload = False,
        es_placeholder = ''Message NextRole - ask about usage, reliability, or cost...''\<rparr>),
      (CAREER_AGENT_ID, career_empty)]"

text \<open>\<^verbatim>\<open>EMPTY_STATES[graph_id] ?? ...\<close>; an inherited member is not an empty state (\<^verbatim>\<open>None\<close>).\<close>

definition emptyState :: "string option \<Rightarrow> empty_state option" where
  "emptyState graph_id =
     (case js_member EMPTY_STATES (or_else graph_id []) of
        Own e \<Rightarrow> Some e
      | Absent \<Rightarrow> Some career_empty
      | Inherited \<Rightarrow> None)"

definition is_empty_chat :: "bool \<Rightarrow> shown_message list \<Rightarrow> bool" where
  "is_empty_chat isThreadLoading ps = (\<not> isThreadLoading \<and> ps = [])"

definition show_hero_upload :: "bool \<Rightarrow> empty_state \<Rightarrow> bool" where
  "show_hero_upload showCta e = (showCta \<and> es_showUpload e)"

lemma emptyState_known:
  "emptyState (Some CAREER_AGENT_ID) = Some career_empty" "emptyState None = Some career_empty"
  "map_option es_showUpload (emptyState (Some ANALYTICS_AGENT_ID)) = Some False"
  by code_simp+

section \<open>One message\<close>

datatype task_card = QueuedCard string | LiveCard string

record message_view =
  mv_isUser :: bool
  mv_avatar :: "bool option"
  mv_thinking :: bool
  mv_text :: "string option"
  mv_batches :: "tool_call list list"
  mv_charts :: "tool_call list"
  mv_tasks :: "(string \<times> task_card) list"

definition taskToolCalls :: "tool_call list \<Rightarrow> tool_call list" where
  "taskToolCalls cs = filter spawns_subagent cs"

definition chartToolCalls :: "tool_call list \<Rightarrow> tool_call list" where
  "chartToolCalls cs = filter (\<lambda>c. tc_name c = CHART_TOOL_NAME) cs"

text \<open>\<^verbatim>\<open>subagents\<close> are the call ids the stream has discovered.\<close>

definition message_view_of ::
  "string list \<Rightarrow> bool \<Rightarrow> tool_call list list option \<Rightarrow> shown_message \<Rightarrow> message_view" where
  "message_view_of subagents isLoading toolBatches p =
     (let m = sm_message p; isUser = (bm_kind m = HumanMessage); text = bm_text_of m;
          hasContent = (js_trim text \<noteq> []); tasks = taskToolCalls (sm_toolCalls p) in
      \<lparr>mv_isUser = isUser,
       mv_avatar = (if isUser then None else Some (sm_showAvatar p)),
       mv_thinking = (\<not> isUser \<and> \<not> hasContent \<and> sm_toolCalls p = [] \<and> tasks = [] \<and> isLoading),
       mv_text = (if hasContent then Some text else None),
       mv_batches = or_else toolBatches [],
       mv_charts = (if isUser then [] else chartToolCalls (sm_toolCalls p)),
       mv_tasks = (if isUser then []
                   else map (\<lambda>c. (tc_id c,
                          if tc_id c \<in> set subagents then LiveCard (tc_id c)
                          else QueuedCard (js_string (js_prop (tc_args c) ''subagent_type'')))) tasks)\<rparr>)"

text \<open>The column: every message with the run it heads.\<close>

definition transcript_view :: "string list \<Rightarrow> bool \<Rightarrow> shown_message list \<Rightarrow> (message_view \<times> bool) list" where
  "transcript_view subagents isLoading ps =
     map (\<lambda>p. let i = present_id (bm_id (sm_message p)) in
            (message_view_of subagents isLoading (Option.bind i (map_of (toolBatchesByHead ps))) p,
             bm_id (sm_message p) \<noteq> None \<and> bm_id (sm_message p) = openEndedHeadId ps)) ps"

text \<open>Every tool call of an AI message is on screen in exactly one form: as a row of its batch, as a
  chart, or as a subagent card; only a \<^verbatim>\<open>task\<close> call that does not name its subagent yet has none.\<close>

theorem call_forms_partition:
  "c \<in> set (sm_toolCalls p) \<Longrightarrow> bm_kind (sm_message p) \<noteq> HumanMessage \<Longrightarrow>
   length (filter (\<lambda>b. b)
     [c \<in> set (regular_calls (sm_toolCalls p)),
      c \<in> set (mv_charts (message_view_of subs loading bs p)),
      tc_id c \<in> fst ` set (mv_tasks (message_view_of subs loading bs p)) \<and> spawns_subagent c])
   = (if tc_name c = ''task'' \<and> \<not> spawns_subagent c then 0 else 1)"
  by (auto simp: message_view_of_def Let_def regular_calls_def CARD_TOOL_NAMES_def CHART_TOOL_NAME_def
      chartToolCalls_def taskToolCalls_def spawns_subagent_def image_def)

section \<open>One run of tool calls\<close>

datatype run_node = NodeReview | NodeRunning | NodeFailed | NodeDone | NodeHollow

definition is_failed :: "(string \<Rightarrow> json option) \<Rightarrow> tool_call \<Rightarrow> bool" where
  "is_failed parse c =
     (tc_status c = CallError \<or>
      (tc_status c \<noteq> CallPending \<and> parseToolError parse (opt_str (tc_result c)) \<noteq> None))"

definition group_running :: "bool \<Rightarrow> bool \<Rightarrow> tool_call list \<Rightarrow> bool" where
  "group_running isLoading isOpenEnded cs =
     (isLoading \<and> (isOpenEnded \<or> list_ex (\<lambda>c. tc_status c = CallPending) cs))"

definition hasPendingInterrupt :: "tool_call list \<Rightarrow> bool" where
  "hasPendingInterrupt cs = list_ex (\<lambda>c. tc_status c = CallInterrupted) cs"

definition failedCount :: "(string \<Rightarrow> json option) \<Rightarrow> tool_call list \<Rightarrow> nat" where
  "failedCount parse cs = length (filter (is_failed parse) cs)"

definition MAX_SUMMARY_NAMES :: nat where
  "MAX_SUMMARY_NAMES = 3"

fun add_name :: "string list \<Rightarrow> tool_call \<Rightarrow> string list" where
  "add_name names c = (if tc_name c \<noteq> [] \<and> tc_name c \<notin> set names then names @ [tc_name c] else names)"

definition nameSummary :: "tool_call list \<Rightarrow> string \<times> nat" where
  "nameSummary cs =
     (let names = foldl add_name [] cs in
      (join_with [CHR 0x20, CHR 0xB7, CHR 0x20] (take MAX_SUMMARY_NAMES names),
       length names - MAX_SUMMARY_NAMES))"

definition group_node :: "(string \<Rightarrow> json option) \<Rightarrow> bool \<Rightarrow> tool_call list \<Rightarrow> run_node" where
  "group_node parse running cs =
     (if hasPendingInterrupt cs then NodeReview
      else if running then NodeRunning
      else if failedCount parse cs > 0 then NodeFailed
      else if list_all (\<lambda>c. tc_status c = CallCompleted) cs then NodeDone
      else NodeHollow)"

text \<open>The rows of the expanded body: per batch the label of parallel calls, the calls, the break.\<close>

definition batch_rows :: "tool_call list list \<Rightarrow> (string option \<times> tool_call list \<times> bool) list" where
  "batch_rows batches =
     map (\<lambda>(k, b). (if length b > 1 then Some (show_nat (length b) @ '' in parallel'') else None, b,
                    length b > 1 \<and> k + 1 < length batches))
       (zip [0..<length batches] batches)"

datatype group_view =
    SingleCall tool_call
  | CallGroup run_node nat nat "string \<times> nat" "(string option \<times> tool_call list \<times> bool) list option"

definition group_view_of ::
  "(string \<Rightarrow> json option) \<Rightarrow> bool \<Rightarrow> bool \<Rightarrow> auto_collapse \<Rightarrow> tool_call list list \<Rightarrow> group_view" where
  "group_view_of parse isLoading isOpenEnded st batches =
     (case concat batches of
        [c] \<Rightarrow> SingleCall c
      | cs \<Rightarrow>
          CallGroup (group_node parse (group_running isLoading isOpenEnded cs) cs)
            (length cs) (failedCount parse cs) (nameSummary cs)
            (if isExpanded (hasPendingInterrupt cs) st then Some (batch_rows batches) else None))"

end
