(* ===== verification/ApprovalCard.thy ===== *)
theory ApprovalCard
imports Approvals
begin

text \<open>
  The card that reviews one action (\<^verbatim>\<open>app/components/ToolApprovalInterrupt.tsx\<close>): its local
  state, the handlers, and what it shows. A click is possible only on a button that is shown and
  not disabled; that is the step relation. \<^verbatim>\<open>JSON.parse\<close> is the argument \<^verbatim>\<open>parse\<close>.
\<close>

section \<open>State and handlers\<close>

record card_state =
  rejectionMessage :: string
  isEditing :: bool
  editedArgs :: "(string, json) jmap"
  showRejectionInput :: bool
  emitted :: "decision list"

record card_props =
  cp_request :: action_request
  cp_reviewConfig :: json
  cp_queued :: "decision option"
  cp_queueNote :: "string option"
  cp_isLoading :: bool

definition card_init :: card_state where
  "card_init = \<lparr>rejectionMessage = [], isEditing = False, editedArgs = [],
     showRejectionInput = False, emitted = []\<rparr>"

fun QUEUED_LABEL :: "decision \<Rightarrow> string" where
  "QUEUED_LABEL Approve = ''Approved''"
| "QUEUED_LABEL (Edit _ _) = ''Edited''"
| "QUEUED_LABEL (Reject _) = ''Rejected''"

fun decision_type :: "decision \<Rightarrow> string" where
  "decision_type Approve = ''approve''"
| "decision_type (Edit _ _) = ''edit''"
| "decision_type (Reject _) = ''reject''"

definition allowedDecisions :: "json \<Rightarrow> json list" where
  "allowedDecisions reviewConfig =
     (let v = js_prop reviewConfig ''allowed_decisions'' in
      if nullish v then [JStr ''approve'', JStr ''reject'', JStr ''edit''] else elements_of v)"

definition allows :: "card_props \<Rightarrow> string \<Rightarrow> bool" where
  "allows p d = (JStr d \<in> set (allowedDecisions (cp_reviewConfig p)))"

definition card_disabled :: "card_props \<Rightarrow> bool" where
  "card_disabled p = (cp_isLoading p \<or> cp_queued p \<noteq> None)"

text \<open>\<^verbatim>\<open>JSON.parse(JSON.stringify(v))\<close>: undefined properties go, undefined elements are null.\<close>

fun json_clone :: "json \<Rightarrow> json"
  and clone_items :: "json list \<Rightarrow> json list"
  and clone_members :: "(string \<times> json) list \<Rightarrow> (string \<times> json) list" where
  "json_clone JUndef = JNull"
| "json_clone JNull = JNull"
| "json_clone (JBool b) = JBool b"
| "json_clone (JNum i) = JNum i"
| "json_clone (JStr s) = JStr s"
| "json_clone (JArr vs) = JArr (clone_items vs)"
| "json_clone (JObj kvs) = JObj (clone_members kvs)"
| "clone_items [] = []"
| "clone_items (v # vs) = json_clone v # clone_items vs"
| "clone_members [] = []"
| "clone_members ((k, v) # kvs) =
     (if v = JUndef then clone_members kvs else (k, json_clone v) # clone_members kvs)"

definition emit :: "decision \<Rightarrow> card_state \<Rightarrow> card_state" where
  "emit d st = st\<lparr>emitted := emitted st @ [d]\<rparr>"

definition handleApprove :: "card_state \<Rightarrow> card_state" where
  "handleApprove st = emit Approve st"

definition handleRejectConfirm :: "card_state \<Rightarrow> card_state" where
  "handleRejectConfirm st = emit (Reject (js_trim (rejectionMessage st))) st"

definition handleReject :: "card_state \<Rightarrow> card_state" where
  "handleReject st =
     (if showRejectionInput st then handleRejectConfirm st else st\<lparr>showRejectionInput := True\<rparr>)"

definition handleEdit :: "action_request \<Rightarrow> card_state \<Rightarrow> card_state" where
  "handleEdit req st =
     (if isEditing st
      then (emit (Edit (ar_name req) (JObj (editedArgs st))) st)\<lparr>isEditing := False, editedArgs := []\<rparr>
      else st)"

definition startEditing :: "action_request \<Rightarrow> card_state \<Rightarrow> card_state" where
  "startEditing req st =
     st\<lparr>isEditing := True, editedArgs := own_entries (json_clone (ar_args req)),
        showRejectionInput := False\<rparr>"

definition cancelEditing :: "card_state \<Rightarrow> card_state" where
  "cancelEditing st = st\<lparr>isEditing := False, editedArgs := []\<rparr>"

definition cancelReject :: "card_state \<Rightarrow> card_state" where
  "cancelReject st = st\<lparr>showRejectionInput := False, rejectionMessage := []\<rparr>"

definition updateEditedArg ::
  "(string \<Rightarrow> json option) \<Rightarrow> string \<Rightarrow> string \<Rightarrow> card_state \<Rightarrow> card_state" where
  "updateEditedArg parse k v st =
     (let t = js_trim v;
          parsed = (if starts_with t ''{'' \<or> starts_with t ''['' then or_else (parse v) (JStr v)
                    else JStr v) in
      st\<lparr>editedArgs := jset k parsed (editedArgs st)\<rparr>)"

section \<open>What the card shows\<close>

datatype card_button = BApprove | BReject | BEdit | BCancelEdit | BSaveApprove | BCancelReject
  | BConfirmReject

definition card_buttons :: "card_props \<Rightarrow> card_state \<Rightarrow> card_button list" where
  "card_buttons p st =
     (if cp_queued p \<noteq> None then []
      else if isEditing st then [BCancelEdit, BSaveApprove]
      else if showRejectionInput st then [BCancelReject, BConfirmReject]
      else (if allows p ''reject'' then [BReject] else [])
         @ (if allows p ''edit'' then [BEdit] else [])
         @ (if allows p ''approve'' then [BApprove] else []))"

fun button_label :: "bool \<Rightarrow> card_button \<Rightarrow> string" where
  "button_label loading BApprove = (if loading then ''Approving...'' else ''Approve'')"
| "button_label loading BReject = ''Reject''"
| "button_label loading BEdit = ''Edit''"
| "button_label loading BCancelEdit = ''Cancel''"
| "button_label loading BSaveApprove = (if loading then ''Saving...'' else ''Save & Approve'')"
| "button_label loading BCancelReject = ''Cancel''"
| "button_label loading BConfirmReject = (if loading then ''Rejecting...'' else ''Confirm Reject'')"

fun press :: "action_request \<Rightarrow> card_button \<Rightarrow> card_state \<Rightarrow> card_state" where
  "press req BApprove st = handleApprove st"
| "press req BReject st = handleReject st"
| "press req BEdit st = startEditing req st"
| "press req BCancelEdit st = cancelEditing st"
| "press req BSaveApprove st = handleEdit req st"
| "press req BCancelReject st = cancelReject st"
| "press req BConfirmReject st = handleRejectConfirm st"

record arg_field =
  af_key :: string
  af_text :: string
  af_rows :: nat

definition value_text :: "json \<Rightarrow> string" where
  "value_text v = (case v of JStr s \<Rightarrow> s | _ \<Rightarrow> or_else (json_stringify2 v) [])"

definition edit_fields :: "action_request \<Rightarrow> card_state \<Rightarrow> arg_field list" where
  "edit_fields req st =
     map (\<lambda>(k, v). \<lparr>af_key = k,
            af_text = value_text (case map_of (editedArgs st) k of
                                    Some e \<Rightarrow> if e = JUndef then v else e
                                  | None \<Rightarrow> v),
            af_rows = (case v of JStr s \<Rightarrow> if length s < 100 then 2 else 4 | _ \<Rightarrow> 4)\<rparr>)
       (own_entries (ar_args req))"

record card_view =
  cv_description :: "string option"
  cv_tool :: string
  cv_fields :: "arg_field list option"
  cv_arguments :: "string option"
  cv_reject_input :: "string option"
  cv_queued_chip :: "(string \<times> string option) option"
  cv_buttons :: "(string \<times> bool) list"

definition card_view_of :: "card_props \<Rightarrow> card_state \<Rightarrow> card_view" where
  "card_view_of p st =
     \<lparr>cv_description = (case ar_description (cp_request p) of
                          JStr d \<Rightarrow> if d = [] then None else Some d | _ \<Rightarrow> None),
      cv_tool = ar_name (cp_request p),
      cv_fields = (if isEditing st then Some (edit_fields (cp_request p) st) else None),
      cv_arguments = (if isEditing st then None else json_stringify2 (ar_args (cp_request p))),
      cv_reject_input = (if showRejectionInput st \<and> \<not> isEditing st \<and> cp_queued p = None
                         then Some (rejectionMessage st) else None),
      cv_queued_chip = map_option (\<lambda>d. (QUEUED_LABEL d @ '' - queued'', cp_queueNote p)) (cp_queued p),
      cv_buttons = map (\<lambda>b. (button_label (cp_isLoading p) b, card_disabled p)) (card_buttons p st)\<rparr>"

section \<open>Steps\<close>

datatype card_event = Press card_button | TypeArg string string | TypeMessage string

text \<open>
  What the reviewer can do. The props may differ from step to step (loading, a queued decision)
  but the request and its review configuration are those of the card.
\<close>

inductive card_step ::
  "(string \<Rightarrow> json option) \<Rightarrow> action_request \<Rightarrow> json \<Rightarrow> card_state \<Rightarrow> card_event \<Rightarrow> card_state \<Rightarrow> bool"
  for parse req cfg where
  press_button: "cp_request p = req \<Longrightarrow> cp_reviewConfig p = cfg \<Longrightarrow> \<not> card_disabled p \<Longrightarrow>
    b \<in> set (card_buttons p st) \<Longrightarrow> card_step parse req cfg st (Press b) (press req b st)"
| type_arg: "isEditing st \<Longrightarrow> k \<in> fst ` set (own_entries (ar_args req)) \<Longrightarrow>
    card_step parse req cfg st (TypeArg k v) (updateEditedArg parse k v st)"
| type_message: "showRejectionInput st \<Longrightarrow> \<not> isEditing st \<Longrightarrow>
    card_step parse req cfg st (TypeMessage m) (st\<lparr>rejectionMessage := m\<rparr>)"

inductive_cases press_stepE: "card_step parse req cfg st (Press b) st'"

definition cfg_allows :: "json \<Rightarrow> string \<Rightarrow> bool" where
  "cfg_allows cfg d = (JStr d \<in> set (allowedDecisions cfg))"

fun decision_ok :: "action_request \<Rightarrow> json \<Rightarrow> decision \<Rightarrow> bool" where
  "decision_ok req cfg (Edit n a) = (cfg_allows cfg ''edit'' \<and> n = ar_name req)"
| "decision_ok req cfg d = cfg_allows cfg (decision_type d)"

definition card_good :: "action_request \<Rightarrow> json \<Rightarrow> card_state \<Rightarrow> bool" where
  "card_good req cfg st =
     ((isEditing st \<longrightarrow> cfg_allows cfg ''edit'') \<and>
      (showRejectionInput st \<longrightarrow> cfg_allows cfg ''reject'') \<and>
      (\<forall>d \<in> set (emitted st). decision_ok req cfg d))"

lemma card_good_step: "card_step parse req cfg st e st' \<Longrightarrow> card_good req cfg st \<Longrightarrow> card_good req cfg st'"
proof (induction rule: card_step.induct)
  case (press_button p b st)
  have cfg: "allows p d = cfg_allows cfg d" for d
    using press_button(2) by (simp add: allows_def cfg_allows_def)
  show ?case
    using press_button(3-5)
    by (cases b) (auto simp: card_buttons_def card_disabled_def cfg card_good_def emit_def
        handleApprove_def handleReject_def handleRejectConfirm_def handleEdit_def startEditing_def
        cancelEditing_def cancelReject_def split: if_splits)
qed (auto simp: card_good_def updateEditedArg_def Let_def)

interpretation card: transition_system "\<lambda>s. s = card_init" "card_step parse req cfg" "card_good req cfg"
  by unfold_locales (simp add: card_good_def card_init_def, rule card_good_step)

text \<open>C9: Whatever the reviewer does with the card, it only emits decisions its review configuration
  allows, and an edited action always names the tool under review: the arguments can change, the
  tool cannot.\<close>

theorem card_emits_allowed:
  assumes "reachable (\<lambda>s. s = card_init) (card_step parse req cfg) st" and "d \<in> set (emitted st)"
  shows "JStr (decision_type d) \<in> set (allowedDecisions cfg) \<and>
         (\<forall>n a. d = Edit n a \<longrightarrow> n = ar_name req)"
  using card.reach_inv [OF assms(1)] assms(2)
  by (cases d) (auto simp: card_good_def cfg_allows_def)

definition exec_request :: action_request where
  "exec_request = \<lparr>ar_name = ''execute'', ar_args = JObj [(''cmd'', JStr ''ls'')], ar_description = JUndef\<rparr>"

lemma card_emits_allowed_witness:
  "JStr ''approve'' \<in> set (allowedDecisions JUndef)"
proof -
  let ?p = "\<lparr>cp_request = exec_request, cp_reviewConfig = JUndef, cp_queued = None,
    cp_queueNote = None, cp_isLoading = False\<rparr>"
  have step: "card_step (\<lambda>_. None) exec_request JUndef card_init (Press BApprove) (press exec_request BApprove card_init)"
    by (rule press_button [where p = ?p])
      (simp_all add: card_disabled_def card_buttons_def card_init_def allows_def allowedDecisions_def)
  have "reachable (\<lambda>s. s = card_init) (card_step (\<lambda>_. None) exec_request JUndef)
      (press exec_request BApprove card_init)"
    by (rule reach_step [where s = card_init and e = "Press BApprove"])
      (simp add: reach_init, rule step)
  from card_emits_allowed [OF this, of Approve] show ?thesis
    by (simp add: handleApprove_def emit_def)
qed

text \<open>A disabled card, such as one whose decision is queued, takes no press.\<close>

lemma queued_card_inert: "cp_queued p \<noteq> None \<Longrightarrow> card_buttons p st = []"
  by (simp add: card_buttons_def)

lemma edit_keeps_keys:
  "map af_key (edit_fields req st) = map fst (own_entries (ar_args req))"
  by (auto simp: edit_fields_def)

end
