(* ===== verification/ToolBox.thy ===== *)
theory ToolBox
imports ChatView ApprovalCard
begin

text \<open>
  One tool call as a row (\<^verbatim>\<open>app/components/ToolCallBox.tsx\<close>): its icon, badge, preview and body,
  and the state of its disclosure.
\<close>

section \<open>Icon and badge\<close>

datatype tool_icon = IconBookOpen | IconFilePen | IconFolderTree | IconSquareTerminal | IconSearch
  | IconImage | IconBot | IconGlobe | IconNetwork | IconTerminal

fun alts :: "re list \<Rightarrow> re" where
  "alts [] = Eps"
| "alts [r] = r"
| "alts (r # rs) = Alt r (alts rs)"

definition any_of_ci :: "string list \<Rightarrow> re" where
  "any_of_ci ws = alts (map lit_ci ws)"

definition whole_ci :: "string list \<Rightarrow> re" where
  "whole_ci ws = cats [TextStart, any_of_ci ws, TextEnd]"

definition TOOL_ICON_MAP :: "(re \<times> tool_icon) list" where
  "TOOL_ICON_MAP =
     [(whole_ci [''read_file'', ''read'', ''open_file'', ''cat''], IconBookOpen),
      (whole_ci [''write_file'', ''edit_file'', ''create_file'', ''patch'', ''write_todos''], IconFilePen),
      (whole_ci [''ls'', ''list'', ''list_files''], IconFolderTree),
      (whole_ci [''execute'', ''run'', ''bash'', ''shell'', ''exec''], IconSquareTerminal),
      (any_of_ci [''search'', ''grep'', ''rg'', ''web''], IconSearch),
      (any_of_ci [''image'', ''generate_social''], IconImage),
      (whole_ci [''task'', ''subagent''], IconBot),
      (any_of_ci [''fetch'', ''http'', ''url'', ''source''], IconGlobe),
      (any_of_ci [''mcp'', ''network'', ''api''], IconNetwork)]"

definition getToolIcon :: "string \<Rightarrow> tool_icon" where
  "getToolIcon name =
     (case find (\<lambda>(r, _). test_re r name) TOOL_ICON_MAP of Some (_, i) \<Rightarrow> i | None \<Rightarrow> IconTerminal)"

datatype badge_tone = ToneDestructive | TonePlain | ToneWarning

record status_meta =
  sm_label :: string
  sm_tone :: badge_tone
  sm_showLabel :: bool

definition getStatusMeta :: "call_status \<Rightarrow> tool_error option \<Rightarrow> status_meta" where
  "getStatusMeta st parsedError =
     (case parsedError of
        Some e \<Rightarrow> \<lparr>sm_label = (if truthy (te_code e) then ''Error '' @ js_string (te_code e) else ''Error''),
                   sm_tone = ToneDestructive, sm_showLabel = True\<rparr>
      | None \<Rightarrow>
          (case st of
             CallCompleted \<Rightarrow> \<lparr>sm_label = ''Completed'', sm_tone = TonePlain, sm_showLabel = False\<rparr>
           | CallError \<Rightarrow> \<lparr>sm_label = ''Failed'', sm_tone = ToneDestructive, sm_showLabel = True\<rparr>
           | CallPending \<Rightarrow> \<lparr>sm_label = ''Running'', sm_tone = TonePlain, sm_showLabel = False\<rparr>
           | CallInterrupted \<Rightarrow>
               \<lparr>sm_label = ''Needs review'', sm_tone = ToneWarning, sm_showLabel = True\<rparr>))"

section \<open>Disclosure\<close>

record box_state =
  bx_isExpanded :: bool
  bx_expandedArgs :: "(string, bool) jmap"
  bx_hadApproval :: bool
  bx_lastPointer :: nat

definition box_init :: "bool \<Rightarrow> box_state" where
  "box_init approval =
     \<lparr>bx_isExpanded = approval, bx_expandedArgs = [], bx_hadApproval = approval, bx_lastPointer = 0\<rparr>"

text \<open>The effect on a change of the approval.\<close>

definition box_approval :: "bool \<Rightarrow> box_state \<Rightarrow> box_state" where
  "box_approval approval st =
     st\<lparr>bx_isExpanded := ((approval \<and> \<not> bx_hadApproval st) \<or> bx_isExpanded st),
        bx_hadApproval := approval\<rparr>"

definition handlePointerToggle :: "nat \<Rightarrow> box_state \<Rightarrow> box_state" where
  "handlePointerToggle now st = st\<lparr>bx_lastPointer := now, bx_isExpanded := \<not> bx_isExpanded st\<rparr>"

definition handleClickToggle :: "nat \<Rightarrow> box_state \<Rightarrow> box_state" where
  "handleClickToggle now st =
     (if int now - int (bx_lastPointer st) < 300 then st else st\<lparr>bx_isExpanded := \<not> bx_isExpanded st\<rparr>)"

definition toggleArgExpanded :: "string \<Rightarrow> box_state \<Rightarrow> box_state" where
  "toggleArgExpanded k st =
     st\<lparr>bx_expandedArgs :=
          jset k (case js_member (bx_expandedArgs st) k of Own b \<Rightarrow> \<not> b | Inherited \<Rightarrow> False | Absent \<Rightarrow> True)
            (bx_expandedArgs st)\<rparr>"

definition arg_expanded :: "box_state \<Rightarrow> string \<Rightarrow> bool" where
  "arg_expanded st k =
     (case js_member (bx_expandedArgs st) k of Own b \<Rightarrow> b | Inherited \<Rightarrow> True | Absent \<Rightarrow> False)"

section \<open>The row\<close>

datatype box_body =
    ReviewCard pending_approval
  | ArgsAndResult "(string \<times> string option) list" "string option"

record box_view =
  bv_node :: run_node
  bv_name :: string
  bv_icon :: tool_icon
  bv_badge :: "string option"
  bv_preview :: "string option"
  bv_disabled :: bool
  bv_body :: "box_body option"

definition box_error :: "(string \<Rightarrow> json option) \<Rightarrow> tool_call \<Rightarrow> tool_error option" where
  "box_error parse c =
     (if tc_status c = CallPending then None else parseToolError parse (opt_str (tc_result c)))"

definition visualStatus :: "(string \<Rightarrow> json option) \<Rightarrow> tool_call \<Rightarrow> call_status" where
  "visualStatus parse c = (if box_error parse c \<noteq> None then CallError else tc_status c)"

fun box_node :: "call_status \<Rightarrow> run_node" where
  "box_node CallCompleted = NodeDone"
| "box_node CallError = NodeFailed"
| "box_node CallInterrupted = NodeReview"
| "box_node CallPending = NodeRunning"

definition box_args :: "tool_call \<Rightarrow> json" where
  "box_args c = (if truthy (tc_args c) then tc_args c else JObj [])"

definition box_preview :: "tool_call \<Rightarrow> string option" where
  "box_preview c =
     (if tc_status c = CallPending then None
      else first_some (previewValue (opt_str (tc_result c))) (previewValue (box_args c)))"

definition box_hasContent :: "bool \<Rightarrow> tool_call \<Rightarrow> bool" where
  "box_hasContent approval c =
     (approval \<or> present_id (tc_result c) \<noteq> None \<or> own_entries (box_args c) \<noteq> [])"

definition box_body_of :: "pending_approval option \<Rightarrow> bool \<Rightarrow> tool_call \<Rightarrow> box_state \<Rightarrow> box_body" where
  "box_body_of approval canDecide c st =
     (case approval of
        Some a \<Rightarrow> if canDecide then ReviewCard a
                  else ArgsAndResult
                    (map (\<lambda>(k, v). (k, if arg_expanded st k then Some (value_text v) else None))
                      (own_entries (box_args c))) (present_id (tc_result c))
      | None \<Rightarrow> ArgsAndResult
                    (map (\<lambda>(k, v). (k, if arg_expanded st k then Some (value_text v) else None))
                      (own_entries (box_args c))) (present_id (tc_result c)))"

definition box_view_of ::
  "(string \<Rightarrow> json option) \<Rightarrow> pending_approval option \<Rightarrow> bool \<Rightarrow> tool_call \<Rightarrow> box_state \<Rightarrow> box_view" where
  "box_view_of parse approval canDecide c st =
     (let meta = getStatusMeta (tc_status c) (box_error parse c);
          name = (if tc_name c = [] then ''Unknown Tool'' else tc_name c);
          content = box_hasContent (approval \<noteq> None) c;
          preview = box_preview c in
      \<lparr>bv_node = box_node (visualStatus parse c), bv_name = name, bv_icon = getToolIcon name,
       bv_badge = (if sm_showLabel meta then Some (sm_label meta) else None),
       bv_preview = (if bx_isExpanded st then None else Option.bind preview (\<lambda>t. present_id (Some t))),
       bv_disabled = (\<not> content),
       bv_body = (if bx_isExpanded st \<and> content then Some (box_body_of approval canDecide c st) else None)\<rparr>)"

section \<open>Properties\<close>

text \<open>The count of failed calls on a run's summary is the number of its rows that show the failed
  node, so the collapsed run and its expanded rows never disagree.\<close>

theorem failed_count_is_failed_rows:
  "failedCount parse cs
     = length (filter (\<lambda>c. bv_node (box_view_of parse (approval c) canDecide c (st c)) = NodeFailed) cs)"
proof -
  have "is_failed parse c \<longleftrightarrow> bv_node (box_view_of parse (approval c) canDecide c (st c)) = NodeFailed" for c
    by (cases "tc_status c") (auto simp: is_failed_def box_view_of_def Let_def visualStatus_def box_error_def)
  then have "is_failed parse
      = (\<lambda>c. bv_node (box_view_of parse (approval c) canDecide c (st c)) = NodeFailed)"
    by (intro ext)
  then show ?thesis by (simp only: failedCount_def)
qed

datatype box_event = BoxRender bool | BoxPointer nat | BoxClick nat | BoxArg string

fun box_react :: "box_state \<Rightarrow> box_event \<Rightarrow> box_state" where
  "box_react st (BoxRender a) = box_approval a st"
| "box_react st (BoxPointer t) = handlePointerToggle t st"
| "box_react st (BoxClick t) = handleClickToggle t st"
| "box_react st (BoxArg k) = toggleArgExpanded k st"

text \<open>When an approval arrives at a row, whatever happened to the row before, the row shows its
  review card, and it goes on showing it through every later render of the same approval.\<close>

theorem approval_opens_row:
  assumes "\<not> bx_hadApproval (foldl box_react (box_init False) es)"
    and "list_all (\<lambda>e. e = BoxRender True) es'"
  shows "bv_body (box_view_of parse (Some a) True c
           (foldl box_react (box_init False) (es @ BoxRender True # es'))) = Some (ReviewCard a)"
proof -
  have "bx_isExpanded st \<Longrightarrow> bx_isExpanded (foldl box_react st es')" for st
    using assms(2) by (induction es' arbitrary: st) (auto simp: box_approval_def)
  then have "bx_isExpanded (foldl box_react (box_init False) (es @ BoxRender True # es'))"
    using assms(1) by (simp add: box_approval_def)
  then show ?thesis
    by (simp add: box_view_of_def Let_def box_hasContent_def box_body_of_def)
qed

lemma approval_opens_row_witness:
  "bv_body (box_view_of (\<lambda>_. None) (Some (hd (parseApprovals two_actions))) True
     \<lparr>tc_id = ''a'', tc_name = ''execute'', tc_args = JObj [], tc_result = None, tc_status = CallInterrupted\<rparr>
     (foldl box_react (box_init False) ([BoxRender False] @ BoxRender True # [BoxRender True])))
   = Some (ReviewCard (hd (parseApprovals two_actions)))"
  by (rule approval_opens_row) (simp_all add: box_init_def box_approval_def)

end
