(* ===== verification/Sources.thy ===== *)
theory Sources
imports ToolData
begin

text \<open>
  The web sources a conversation used (\<^verbatim>\<open>app/utils/sources.ts\<close>): reading the entries of a
  search result in any of the shapes it comes in, and collecting them over messages or over
  scoped tool calls without repeating a URL. \<^verbatim>\<open>JSON.parse\<close> is the argument \<^verbatim>\<open>parse\<close>.
\<close>

definition SEARCH_TOOL_NAMES :: "string list" where
  "SEARCH_TOOL_NAMES = [''tavily_search'', ''web_search'']"

abbreviation space :: re where
  "space \<equiv> Cls is_space"

abbreviation non_space :: re where
  "non_space \<equiv> Cls (\<lambda>c. \<not> is_space c)"

abbreviation any_char :: re where
  "any_char \<equiv> Cls (\<lambda>c. \<not> is_newline c)"

definition MARKDOWN_BLOCK :: re where
  "MARKDOWN_BLOCK =
     cats [LineStart, lit ''##'', one_or_more space, Cap 1 (lazy_one_or_more any_char), Rep space,
           lit [CHR 0x0A], lit ''**URL:**'', one_or_more space, Cap 2 (one_or_more non_space)]"

definition URL_ONLY :: re where
  "URL_ONLY = cats [lit ''**URL:**'', one_or_more space, Cap 1 (one_or_more non_space)]"

type_synonym entry = "string \<times> string"

definition word_re :: "string \<Rightarrow> re" where
  "word_re w = cats [WordB, lit w, WordB]"

definition python_to_json :: "string \<Rightarrow> string" where
  "python_to_json raw =
     replace_all_re (word_re ''None'') ''null''
       (replace_all_re (word_re ''False'') ''false''
         (replace_all_re (word_re ''True'') ''true''
           (map (\<lambda>c. if c = CHR 0x27 then CHR 0x22 else c) raw)))"

definition tryParsePythonish :: "(string \<Rightarrow> json option) \<Rightarrow> string \<Rightarrow> json" where
  "tryParsePythonish parse raw =
     (case parse raw of
        Some v \<Rightarrow> v
      | None \<Rightarrow> or_else (parse (python_to_json raw)) JNull)"

definition json_entry :: "json \<Rightarrow> entry option" where
  "json_entry item =
     (if \<not> truthy item \<or> \<not> is_object item then None
      else let url = (case js_prop item ''url'' of JStr s \<Rightarrow> s | _ \<Rightarrow> []);
               title = (case js_prop item ''title'' of JStr s \<Rightarrow> s | _ \<Rightarrow> url) in
        if url = [] then None else Some (if title = [] then url else title, url))"

definition extractFromJsonShape :: "json \<Rightarrow> entry list" where
  "extractFromJsonShape data =
     (if \<not> truthy data \<or> \<not> is_object data then []
      else case js_prop data ''results'' of
        JArr results \<Rightarrow> List.map_filter json_entry results
      | _ \<Rightarrow> [])"

definition cap_trim :: "nat \<Rightarrow> mstate \<Rightarrow> string" where
  "cap_trim i t = js_trim (or_else (capture i t) [])"

definition parseFromString :: "(string \<Rightarrow> json option) \<Rightarrow> string \<Rightarrow> entry list" where
  "parseFromString parse raw =
     (let trimmed = js_trim raw in
      if trimmed = [] then []
      else
        let from_json =
          (if starts_with trimmed ''{'' \<or> starts_with trimmed ''[''
           then (let parsed = tryParsePythonish parse trimmed in
                 if truthy parsed then extractFromJsonShape parsed else [])
           else []);
          blocks = map (\<lambda>t. (cap_trim 1 t, cap_trim 2 t)) (match_all MARKDOWN_BLOCK raw) in
        if from_json \<noteq> [] then from_json
        else if blocks \<noteq> [] then blocks
        else map (\<lambda>t. (cap_trim 1 t, cap_trim 1 t)) (match_all URL_ONLY raw))"

text \<open>The loop that appends the entries of one call, skipping URLs seen before.\<close>

record collect =
  co_seen :: "string list"
  co_sources :: "source_ref list"

definition collect_entry :: "string \<Rightarrow> collect \<Rightarrow> nat \<times> entry \<Rightarrow> collect" where
  "collect_entry callId st e =
     (case e of (idx, title, url) \<Rightarrow>
        if url \<in> set (co_seen st) then st
        else \<lparr>co_seen = co_seen st @ [url],
              co_sources = co_sources st @
                [\<lparr>so_id = callId @ '':'' @ show_nat idx, so_title = title, so_url = url,
                  so_toolCallId = callId\<rparr>]\<rparr>)"

definition collect_call :: "collect \<Rightarrow> string \<times> entry list \<Rightarrow> collect" where
  "collect_call st c =
     foldl (collect_entry (fst c)) st (zip [0..<length (snd c)] (snd c))"

definition collect_init :: collect where
  "collect_init = \<lparr>co_seen = [], co_sources = []\<rparr>"

definition search_call_ids :: "base_message list \<Rightarrow> string list" where
  "search_call_ids ms =
     concat (map (\<lambda>m. if bm_kind m = AIMessage
        then List.map_filter (\<lambda>c. case present_id (rc_id c) of
               Some i \<Rightarrow> if rc_name c \<noteq> [] \<and> rc_name c \<in> set SEARCH_TOOL_NAMES then Some i else None
             | None \<Rightarrow> None) (bm_calls m)
        else []) ms)"

definition answered_searches ::
  "(string \<Rightarrow> json option) \<Rightarrow> base_message list \<Rightarrow> (string \<times> entry list) list" where
  "answered_searches parse ms =
     List.map_filter (\<lambda>m.
        if bm_kind m = ToolMessage
        then (case present_id (bm_call_id m) of
                Some i \<Rightarrow> if i \<in> set (search_call_ids ms) then Some (i, parseFromString parse (bm_text_of m))
                         else None
              | None \<Rightarrow> None)
        else None) ms"

definition extractSources :: "(string \<Rightarrow> json option) \<Rightarrow> base_message list \<Rightarrow> source_ref list" where
  "extractSources parse ms =
     co_sources (foldl collect_call collect_init (answered_searches parse ms))"

text \<open>A scoped tool call of the SDK: outputs arrive already parsed.\<close>

record assembled_call =
  ac_id :: string
  ac_name :: string
  ac_finished :: bool
  ac_output :: json

definition scoped_entries :: "(string \<Rightarrow> json option) \<Rightarrow> assembled_call \<Rightarrow> (string \<times> entry list) option" where
  "scoped_entries parse c =
     (if ac_name c \<notin> set SEARCH_TOOL_NAMES \<or> \<not> ac_finished c then None
      else Some (ac_id c, case ac_output c of JStr s \<Rightarrow> parseFromString parse s
                          | out \<Rightarrow> extractFromJsonShape out))"

definition extractSourcesFromToolCalls ::
  "(string \<Rightarrow> json option) \<Rightarrow> assembled_call list \<Rightarrow> source_ref list" where
  "extractSourcesFromToolCalls parse calls =
     co_sources (foldl collect_call collect_init (List.map_filter (scoped_entries parse) calls))"

section \<open>Lemmas\<close>

definition collect_ok :: "(string \<times> string) list \<Rightarrow> collect \<Rightarrow> bool" where
  "collect_ok pairs st =
     (map so_url (co_sources st) = co_seen st \<and> distinct (co_seen st) \<and>
      set (co_seen st) = snd ` set pairs \<and>
      (\<forall>s \<in> set (co_sources st). (so_toolCallId s, so_url s) \<in> set pairs))"

lemma collect_entry_ok:
  "collect_ok pairs st \<Longrightarrow> collect_ok (pairs @ [(c, snd (snd e))]) (collect_entry c st e)"
  by (auto simp: collect_ok_def collect_entry_def split: prod.splits)

lemma collect_entries_ok:
  "collect_ok pairs st \<Longrightarrow>
   collect_ok (pairs @ map (\<lambda>e. (c, snd (snd e))) es) (foldl (collect_entry c) st es)"
proof (induction es arbitrary: pairs st)
  case (Cons e es)
  from Cons.IH [OF collect_entry_ok [OF Cons.prems, of c e]] show ?case by simp
qed simp

definition call_pairs :: "string \<times> entry list \<Rightarrow> (string \<times> string) list" where
  "call_pairs c = map (\<lambda>e. (fst c, snd e)) (snd c)"

lemma collect_call_ok: "collect_ok pairs st \<Longrightarrow> collect_ok (pairs @ call_pairs c) (collect_call st c)"
proof -
  assume ok: "collect_ok pairs st"
  have "map (\<lambda>e. (fst c, snd (snd e))) (zip [0..<length (snd c)] (snd c))
      = map (\<lambda>e. (fst c, snd e)) (map snd (zip [0..<length (snd c)] (snd c)))"
    by (simp only: map_map comp_def)
  also have "map snd (zip [0..<length (snd c)] (snd c)) = snd c"
    by (rule map_snd_zip) simp
  finally show ?thesis
    using collect_entries_ok [OF ok, of "fst c" "zip [0..<length (snd c)] (snd c)"]
    by (simp add: collect_call_def call_pairs_def)
qed

lemma collect_calls_ok:
  "collect_ok pairs st \<Longrightarrow>
   collect_ok (pairs @ concat (map call_pairs cs)) (foldl collect_call st cs)"
proof (induction cs arbitrary: pairs st)
  case (Cons c cs)
  from Cons.IH [OF collect_call_ok [OF Cons.prems, of c]] show ?case by simp
qed simp

text \<open>The sources of a conversation list every URL any answered search returned exactly once,
  nothing else, and attribute each to a search call that returned it.\<close>

theorem sources_complete_and_distinct:
  "let found = [(i, u). (i, es) \<leftarrow> answered_searches parse ms, (t, u) \<leftarrow> es] in
   distinct (map so_url (extractSources parse ms)) \<and>
   set (map so_url (extractSources parse ms)) = set (map snd found) \<and>
   list_all (\<lambda>s. (so_toolCallId s, so_url s) \<in> set found) (extractSources parse ms)"
proof -
  let ?cs = "answered_searches parse ms"
  have found: "[(i, u). (i, es) \<leftarrow> ?cs, (t, u) \<leftarrow> es] = concat (map call_pairs ?cs)"
  proof -
    have "concat (map (\<lambda>(t, u). [(i, u)]) es) = map (\<lambda>e. (i, snd e)) es" for i :: string and es :: "entry list"
      by (induction es) auto
    then show ?thesis by (simp add: call_pairs_def [abs_def] case_prod_unfold)
  qed
  have "collect_ok [] collect_init" by (simp add: collect_ok_def collect_init_def)
  from collect_calls_ok [OF this, of ?cs] show ?thesis
    unfolding found Let_def extractSources_def
    by (auto simp: collect_ok_def list_all_iff simp del: set_concat)
qed

section \<open>The loops of the parser end\<close>

text \<open>
  \<^verbatim>\<open>parseFromString\<close> with its two loops as written, which may not return.
\<close>

definition parse_loops :: "(string \<Rightarrow> json option) \<Rightarrow> string \<Rightarrow> entry list option" where
  "parse_loops parse raw =
     (let trimmed = js_trim raw in
      if trimmed = [] then Some []
      else
        let from_json =
          (if starts_with trimmed ''{'' \<or> starts_with trimmed ''[''
           then (let parsed = tryParsePythonish parse trimmed in
                 if truthy parsed then extractFromJsonShape parsed else [])
           else []) in
        if from_json \<noteq> [] then Some from_json
        else case exec_loop MARKDOWN_BLOCK [] raw of
          None \<Rightarrow> None
        | Some ms \<Rightarrow>
            let blocks = map (\<lambda>t. (cap_trim 1 t, cap_trim 2 t)) ms in
            if blocks \<noteq> [] then Some blocks
            else map_option (map (\<lambda>t. (cap_trim 1 t, cap_trim 1 t))) (exec_loop URL_ONLY [] raw))"

lemma pattern_lengths: "min_len MARKDOWN_BLOCK = 15" "min_len URL_ONLY = 10"
  by (simp_all add: MARKDOWN_BLOCK_def URL_ONLY_def)

text \<open>Reading a search result ends on every text: no pattern of the two loops can match the empty
  text, so every round moves forward, the loops return what the parser is modelled to return, and a
  text of n characters holds at most n / 10 URL lines.\<close>

theorem parser_ends:
  "parse_loops parse raw = Some (parseFromString parse raw) \<and>
   15 * length (match_all MARKDOWN_BLOCK raw) \<le> length raw \<and>
   10 * length (match_all URL_ONLY raw) \<le> length raw"
proof (intro conjI)
  have "exec_loop MARKDOWN_BLOCK [] raw = Some (match_all MARKDOWN_BLOCK raw)"
    "exec_loop URL_ONLY [] raw = Some (match_all URL_ONLY raw)"
    by (simp_all add: match_all_ends pattern_lengths)
  then show "parse_loops parse raw = Some (parseFromString parse raw)"
    by (simp add: parse_loops_def parseFromString_def Let_def)
  show "15 * length (match_all MARKDOWN_BLOCK raw) \<le> length raw"
    "10 * length (match_all URL_ONLY raw) \<le> length raw"
    using all_matches_count [of MARKDOWN_BLOCK "length raw + 1" "[]" raw]
      all_matches_count [of URL_ONLY "length raw + 1" "[]" raw]
    unfolding match_all_def pattern_lengths by simp_all
qed

end
