(* ===== verification/Subagents.thy ===== *)
theory Subagents
imports ToolBox Sources
begin

text \<open>
  Subagents: the card of one subagent (\<^verbatim>\<open>app/components/SubagentCard.tsx\<close>) with its nested tool
  calls and the reviews routed into it, and the workspace panel (\<^verbatim>\<open>app/components/Workspace.tsx\<close>),
  which merges the sources of the conversation with those of the subagents.
\<close>

section \<open>Nested tool calls\<close>

datatype snapshot_status = SnapRunning | SnapComplete | SnapError

fun mapSnapshotStatus :: "snapshot_status \<Rightarrow> sub_status" where
  "mapSnapshotStatus SnapRunning = SubActive"
| "mapSnapshotStatus SnapError = SubError"
| "mapSnapshotStatus SnapComplete = SubCompleted"

datatype scoped_status = ScopedRunning | ScopedFinished | ScopedError

record scoped_call =
  sc_id :: string
  sc_name :: string
  sc_args :: json
  sc_output :: json
  sc_status :: scoped_status

fun scoped_call_status :: "scoped_status \<Rightarrow> call_status" where
  "scoped_call_status ScopedError = CallError"
| "scoped_call_status ScopedFinished = CallCompleted"
| "scoped_call_status ScopedRunning = CallPending"

definition scoped_tool_call :: "scoped_call \<Rightarrow> tool_call" where
  "scoped_tool_call tc =
     \<lparr>tc_id = sc_id tc, tc_name = sc_name tc, tc_args = or_nullish (sc_args tc) (JObj []),
      tc_result = toResultString (unwrapToolPayload (sc_output tc)),
      tc_status = scoped_call_status (sc_status tc)\<rparr>"

definition from_tools :: "scoped_call list \<Rightarrow> (string, tool_call) jmap" where
  "from_tools assembled =
     fold (\<lambda>tc. jset (sc_id tc) (scoped_tool_call tc)) (filter (\<lambda>tc. sc_name tc \<noteq> ''task'') assembled) []"

type_synonym nest_state = "string list \<times> tool_call list"

definition nest_call :: "(string, tool_call) jmap \<Rightarrow> nest_state \<Rightarrow> call_ref \<Rightarrow> nest_state" where
  "nest_call tools st c =
     (case st of (seen, batch) \<Rightarrow>
        (case present_id (rc_id c) of
           None \<Rightarrow> (seen, batch)
         | Some i \<Rightarrow>
             if rc_name c = [] \<or> rc_name c = ''task'' \<or> i \<in> set seen then (seen, batch)
             else (seen @ [i], batch @
               [case map_of tools i of
                  Some t \<Rightarrow> t
                | None \<Rightarrow> \<lparr>tc_id = i, tc_name = rc_name c, tc_args = or_nullish (rc_args c) (JObj []),
                           tc_result = None, tc_status = CallPending\<rparr>])))"

definition nest_chunk :: "(string \<Rightarrow> json) \<Rightarrow> nest_state \<Rightarrow> call_chunk \<Rightarrow> nest_state" where
  "nest_chunk partial st ck =
     (case st of (seen, batch) \<Rightarrow>
        (case (present_id (ck_id ck), present_id (ck_name ck)) of
           (Some i, Some n) \<Rightarrow>
             if n = ''task'' \<or> i \<in> set seen then (seen, batch)
             else (seen @ [i], batch @
               [\<lparr>tc_id = i, tc_name = n, tc_args = parsePartialArgs partial (ck_args ck),
                 tc_result = None, tc_status = CallPending\<rparr>])
         | _ \<Rightarrow> (seen, batch)))"

definition nest_message ::
  "(string \<Rightarrow> json) \<Rightarrow> (string, tool_call) jmap \<Rightarrow> string list \<times> tool_call list list \<Rightarrow> base_message \<Rightarrow>
   string list \<times> tool_call list list" where
  "nest_message partial tools st m =
     (case st of (seen, batches) \<Rightarrow>
        if bm_kind m \<noteq> AIMessage then (seen, batches)
        else
          (case foldl (nest_chunk partial) (foldl (nest_call tools) (seen, []) (bm_calls m)) (bm_chunks m) of
             (seen', batch) \<Rightarrow> (seen', if batch = [] then batches else batches @ [batch])))"

definition nestedBatches ::
  "(string \<Rightarrow> json) \<Rightarrow> scoped_call list \<Rightarrow> base_message list \<Rightarrow> tool_call list list" where
  "nestedBatches partial assembled ms =
     (let tools = from_tools assembled;
          (seen, batches) = foldl (nest_message partial tools) ([], []) ms in
      batches @ map (\<lambda>(i, t). [t]) (filter (\<lambda>(i, t). i \<notin> set seen) tools))"

section \<open>Reviews inside a subagent\<close>

text \<open>The matching of \<^verbatim>\<open>useInterruptApprovals\<close> once more, on the nested pending calls.\<close>

definition nested_ref :: "tool_call \<Rightarrow> call_ref" where
  "nested_ref c = \<lparr>rc_id = Some (tc_id c), rc_name = tc_name c, rc_args = tc_args c\<rparr>"

definition match_nested :: "tool_call list \<Rightarrow> string list \<Rightarrow> pending_approval \<Rightarrow> tool_call option" where
  "match_nested calls claimed a =
     (let req = pa_request a; wanted = args_text (ar_args req) in
      first_some
        (find (\<lambda>c. tc_id c \<notin> set claimed \<and> tc_name c = ar_name req \<and> args_text (tc_args c) = wanted) calls)
        (find (\<lambda>c. tc_id c \<notin> set claimed \<and> tc_name c = ar_name req) calls))"

definition nest_assign ::
  "tool_call list \<Rightarrow> string list \<times> (string, pending_approval) jmap \<Rightarrow> pending_approval \<Rightarrow>
   string list \<times> (string, pending_approval) jmap" where
  "nest_assign calls st a =
     (case match_nested calls (fst st) a of
        Some c \<Rightarrow> (fst st @ [tc_id c], jset (tc_id c) a (snd st))
      | None \<Rightarrow> st)"

definition approvalByNestedId :: "pending_approval list \<Rightarrow> tool_call list list \<Rightarrow> (string, pending_approval) jmap" where
  "approvalByNestedId unassigned batches =
     snd (foldl (nest_assign (filter (\<lambda>c. tc_status c = CallPending) (concat batches))) ([], []) unassigned)"

text \<open>The keys the card reports: sorted and joined by commas, then split again. \<^verbatim>\<open>cmp\<close> is the
  default comparison of \<^verbatim>\<open>sort\<close> on strings.\<close>

definition claimed_keys :: "(string \<Rightarrow> string \<Rightarrow> int) \<Rightarrow> (string, pending_approval) jmap \<Rightarrow> string list" where
  "claimed_keys cmp m =
     (let joined = join_with '','' (js_sort cmp (map (\<lambda>(_, a). pa_key a) m)) in
      if joined = [] then [] else split_on (CHR '','') joined)"

definition snapshot_terminal :: "snapshot_status \<Rightarrow> bool" where
  "snapshot_terminal s = (s = SnapComplete \<or> s = SnapError)"

text \<open>A nested row: the call as shown and the approval on it.\<close>

definition renderNestedToolCall ::
  "snapshot_status \<Rightarrow> bool \<Rightarrow> (string, pending_approval) jmap \<Rightarrow> tool_call \<Rightarrow> tool_call \<times> pending_approval option" where
  "renderNestedToolCall snap canDecide byId c =
     (case map_of byId (tc_id c) of
        Some a \<Rightarrow>
          if canDecide then (c\<lparr>tc_status := CallInterrupted\<rparr>, Some a)
          else (if snapshot_terminal snap \<and> tc_status c = CallPending
                then c\<lparr>tc_status := CallCompleted\<rparr> else c, None)
      | None \<Rightarrow> (if snapshot_terminal snap \<and> tc_status c = CallPending
                then c\<lparr>tc_status := CallCompleted\<rparr> else c, None))"

section \<open>The card\<close>

record snapshot =
  sn_id :: string
  sn_name :: string
  sn_status :: snapshot_status
  sn_output :: json
  sn_startedAt :: int
  sn_completedAt :: "int option"

datatype agent_icon = IconRadar | IconScissors | IconMessages | IconRobot

definition SUBAGENT_ICON_MAP :: "(string, agent_icon) jmap" where
  "SUBAGENT_ICON_MAP =
     [(''hiring-recon'', IconRadar), (''resume-tailor'', IconScissors), (''interview-coach'', IconMessages)]"

text \<open>An inherited member of the map is no icon (\<^verbatim>\<open>None\<close>).\<close>

definition subagent_icon :: "string \<Rightarrow> agent_icon option" where
  "subagent_icon name =
     (case js_member SUBAGENT_ICON_MAP name of Own i \<Rightarrow> Some i | Inherited \<Rightarrow> None | Absent \<Rightarrow> Some IconRobot)"

fun getSubAgentStatusMeta :: "sub_status \<Rightarrow> string" where
  "getSubAgentStatusMeta SubActive = ''Running''"
| "getSubAgentStatusMeta SubCompleted = ''Complete''"
| "getSubAgentStatusMeta SubError = ''Failed''"
| "getSubAgentStatusMeta SubPending = ''Queued''"

record sub_header =
  sh_icon :: "agent_icon option"
  sh_name :: string
  sh_badge :: string
  sh_tools :: "string option"
  sh_duration :: "string option"
  sh_expandable :: bool
  sh_sweep :: bool

definition SubagentHeader ::
  "string \<Rightarrow> sub_status \<Rightarrow> bool \<Rightarrow> nat \<Rightarrow> string option \<Rightarrow> bool \<Rightarrow> sub_header" where
  "SubagentHeader name st needsReview toolCount durationLabel togglable =
     \<lparr>sh_icon = subagent_icon name, sh_name = name,
      sh_badge = (if needsReview then ''Needs review'' else getSubAgentStatusMeta st),
      sh_tools = (if toolCount > 0
                  then Some (show_nat toolCount @ (if toolCount = 1 then '' tool'' else '' tools'')) else None),
      sh_duration = present_id durationLabel, sh_expandable = togglable, sh_sweep = (st = SubActive)\<rparr>"

definition QueuedSubagentCard :: "string \<Rightarrow> sub_header" where
  "QueuedSubagentCard name = SubagentHeader name SubPending False 0 None False"

definition sub_agent_of :: "snapshot \<Rightarrow> tool_call \<Rightarrow> sub_agent" where
  "sub_agent_of snap task =
     \<lparr>sa_id = sn_id snap, sa_name = tc_name task, sa_subAgentName = sn_name snap, sa_input = tc_args task,
      sa_output =
        (if \<not> nullish (sn_output snap)
         then JObj [(''result'', JStr (or_else (toResultString (unwrapToolPayload (sn_output snap))) []))]
         else case present_id (tc_result task) of Some r \<Rightarrow> JObj [(''result'', JStr r)] | None \<Rightarrow> JUndef),
      sa_status = mapSnapshotStatus (sn_status snap)\<rparr>"

definition durationLabel_of :: "snapshot \<Rightarrow> string option" where
  "durationLabel_of snap =
     (case sn_completedAt snap of
        Some c \<Rightarrow> if c - sn_startedAt snap \<ge> 1000 then Some (formatDuration (sn_startedAt snap) c) else None
      | None \<Rightarrow> None)"

record sub_card =
  sk_header :: sub_header
  sk_input :: "string option"
  sk_rows :: "(string option \<times> (tool_call \<times> pending_approval option) list \<times> bool) list"
  sk_output :: "string option"

definition subagent_running :: "snapshot \<Rightarrow> bool \<Rightarrow> bool" where
  "subagent_running snap isLoading = (sn_status snap = SnapRunning \<and> isLoading)"

text \<open>The header is always shown, the body when the card is expanded (\<^verbatim>\<open>isExpanded\<close> of the hook,
  pinned by nested reviews).\<close>

definition subagent_card_of ::
  "bool \<Rightarrow> pending_approval list \<Rightarrow> snapshot \<Rightarrow> tool_call \<Rightarrow> tool_call list list \<Rightarrow> auto_collapse \<Rightarrow>
   sub_header \<times> sub_card option" where
  "subagent_card_of canDecide unassigned snap task batches st =
     (let sub = sub_agent_of snap task; byId = approvalByNestedId unassigned batches;
          review = (byId \<noteq> []);
          header = SubagentHeader (sa_subAgentName sub) (sa_status sub) review
                     (sum_list (map length batches)) (durationLabel_of snap) True in
      (header,
       if isExpanded review st
       then Some \<lparr>sk_header = header, sk_input = extractSubAgentContent (sa_input sub),
                  sk_rows = map (\<lambda>(l, cs, b). (l, map (renderNestedToolCall (sn_status snap) canDecide byId) cs, b))
                              (batch_rows batches),
                  sk_output = (if sa_output sub = JUndef then None else extractSubAgentContent (sa_output sub))\<rparr>
       else None))"

section \<open>The workspace\<close>

type_synonym subagent_sources = "(string, source_ref list) jmap"

definition handleSubagentSources :: "string \<Rightarrow> source_ref list \<Rightarrow> subagent_sources \<Rightarrow> subagent_sources" where
  "handleSubagentSources i sources prev =
     (case map_of prev i of
        Some existing \<Rightarrow> if map so_url existing = map so_url sources then prev else jset i sources prev
      | None \<Rightarrow> if sources = [] then prev else jset i sources prev)"

definition prune_subagents :: "string list \<Rightarrow> subagent_sources \<Rightarrow> subagent_sources" where
  "prune_subagents subagents prev = filter (\<lambda>(i, _). i \<in> set subagents) prev"

definition merge_source :: "string list \<times> source_ref list \<Rightarrow> source_ref \<Rightarrow> string list \<times> source_ref list" where
  "merge_source st s =
     (if so_url s \<in> set (fst st) then st else (fst st @ [so_url s], snd st @ [s]))"

definition workspace_sources :: "source_ref list \<Rightarrow> subagent_sources \<Rightarrow> source_ref list" where
  "workspace_sources root subs =
     snd (foldl merge_source (map so_url root, root) (concat (map snd subs)))"

record workspace =
  ws_planOpen :: bool
  ws_filesOpen :: bool
  ws_sourcesOpen :: bool
  ws_prevTodos :: nat
  ws_prevFiles :: nat
  ws_prevSources :: nat

definition workspace_init :: "nat \<Rightarrow> nat \<Rightarrow> nat \<Rightarrow> workspace" where
  "workspace_init todos files sources =
     \<lparr>ws_planOpen = False, ws_filesOpen = True, ws_sourcesOpen = False,
      ws_prevTodos = todos, ws_prevFiles = files, ws_prevSources = sources\<rparr>"

text \<open>The three effects after a render with the given counts.\<close>

definition workspace_counts :: "nat \<Rightarrow> nat \<Rightarrow> nat \<Rightarrow> workspace \<Rightarrow> workspace" where
  "workspace_counts todos files sources st =
     \<lparr>ws_planOpen = (ws_planOpen st \<or> ws_prevTodos st = 0 \<and> todos > 0),
      ws_filesOpen = (ws_filesOpen st \<or> ws_prevFiles st = 0 \<and> files > 0),
      ws_sourcesOpen = (ws_sourcesOpen st \<or> ws_prevSources st = 0 \<and> sources > 0),
      ws_prevTodos = todos, ws_prevFiles = files, ws_prevSources = sources\<rparr>"

definition editDisabled :: "bool \<Rightarrow> bool \<Rightarrow> bool" where
  "editDisabled isLoading interrupted = (isLoading \<or> interrupted)"

definition workspace_sections :: "nat \<Rightarrow> nat \<Rightarrow> string list" where
  "workspace_sections todos sources =
     (if todos > 0 then [''plan''] else []) @ [''files''] @ (if sources > 0 then [''sources''] else [])"

section \<open>Lemmas: nested calls\<close>

definition nest_ok :: "string list \<Rightarrow> nest_state \<Rightarrow> bool" where
  "nest_ok start st = (distinct (fst st) \<and> fst st = start @ map tc_id (snd st))"

lemma from_tools_keys: "map fst (from_tools assembled) = jkeys (from_tools assembled)"
  by (simp add: jkeys_def)

lemma from_tools_ok: "jok (from_tools assembled)"
  unfolding from_tools_def by (rule am.ok_fold) simp

lemma from_tools_id: "map_of (from_tools assembled) i = Some t \<Longrightarrow> tc_id t = i"
  unfolding from_tools_def am.get_fold
  by (auto simp: first_some_def scoped_tool_call_def find_Some_iff split: option.splits)

lemma nest_call_ok: "nest_ok s st \<Longrightarrow> nest_ok s (nest_call (from_tools assembled) st c)"
  by (auto simp: nest_ok_def nest_call_def from_tools_id split: prod.splits option.splits)

lemma nest_chunk_ok: "nest_ok s st \<Longrightarrow> nest_ok s (nest_chunk partial st k)"
  by (auto simp: nest_ok_def nest_chunk_def split: prod.splits option.splits)

lemma foldl_keeps: "(\<And>st x. P st \<Longrightarrow> P (f st x)) \<Longrightarrow> P st \<Longrightarrow> P (foldl f st xs)"
  by (induction xs arbitrary: st) auto

lemma nest_message_ok:
  assumes "distinct (fst st)" and "fst st = map tc_id (concat (snd st))"
  shows "distinct (fst (nest_message partial (from_tools assembled) st m)) \<and>
         fst (nest_message partial (from_tools assembled) st m)
           = map tc_id (concat (snd (nest_message partial (from_tools assembled) st m)))"
proof -
  obtain seen batches where st: "st = (seen, batches)" by (cases st)
  let ?r = "foldl (nest_chunk partial) (foldl (nest_call (from_tools assembled)) (seen, []) (bm_calls m)) (bm_chunks m)"
  have "nest_ok seen (seen, [])" using assms(1) by (simp add: nest_ok_def st)
  then have "nest_ok seen ?r"
    by (intro foldl_keeps [where P = "nest_ok seen"] nest_chunk_ok nest_call_ok)
  then show ?thesis
    using assms by (auto simp: nest_message_def st nest_ok_def split: prod.splits)
qed

text \<open>The ids a subagent's messages bring in.\<close>

definition ref_ids :: "call_ref \<Rightarrow> string set" where
  "ref_ids c = {i. rc_id c = Some i \<and> i \<noteq> [] \<and> rc_name c \<noteq> [] \<and> rc_name c \<noteq> ''task''}"

definition chunk_ids :: "call_chunk \<Rightarrow> string set" where
  "chunk_ids k = {i. ck_id k = Some i \<and> i \<noteq> [] \<and>
     (\<exists>n. ck_name k = Some n \<and> n \<noteq> [] \<and> n \<noteq> ''task'')}"

definition nested_ids :: "base_message \<Rightarrow> string set" where
  "nested_ids m =
     (if bm_kind m = AIMessage
      then (\<Union>c \<in> set (bm_calls m). ref_ids c) \<union> (\<Union>k \<in> set (bm_chunks m). chunk_ids k) else {})"

lemma nest_call_seen: "set (fst (nest_call tools st c)) = set (fst st) \<union> ref_ids c"
  by (auto simp: nest_call_def ref_ids_def present_id_Some split: prod.splits option.splits)
    (auto simp: present_id_def split: option.splits if_splits)

lemma nest_chunk_seen: "set (fst (nest_chunk partial st k)) = set (fst st) \<union> chunk_ids k"
  by (auto simp: nest_chunk_def chunk_ids_def present_id_Some split: prod.splits option.splits)
    (auto simp: present_id_def split: option.splits if_splits)

lemma foldl_collects:
  assumes "\<And>st x. set (fst (f st x)) = set (fst st) \<union> g x"
  shows "set (fst (foldl f st xs)) = set (fst st) \<union> (\<Union>x \<in> set xs. g x)"
  by (induction xs arbitrary: st) (auto simp: assms)

lemma nest_message_seen: "set (fst (nest_message partial tools st m)) = set (fst st) \<union> nested_ids m"
proof -
  have "set (fst (foldl (nest_chunk partial) (foldl (nest_call tools) (fst st, []) (bm_calls m)) (bm_chunks m)))
      = set (fst st) \<union> (\<Union>c \<in> set (bm_calls m). ref_ids c) \<union> (\<Union>k \<in> set (bm_chunks m). chunk_ids k)"
    by (simp add: foldl_collects [where f = "nest_chunk partial", OF nest_chunk_seen]
        foldl_collects [where f = "nest_call tools", OF nest_call_seen])
  then show ?thesis
    by (auto simp: nest_message_def nested_ids_def split: prod.splits)
qed

lemma singles_ids:
  "(\<And>i t. (i, t) \<in> set m \<Longrightarrow> tc_id t = i) \<Longrightarrow> map tc_id (concat (map (\<lambda>(i, t). [t]) m)) = map fst m"
proof (induction m)
  case (Cons e m)
  have "map tc_id (concat (map (\<lambda>(i, t). [t]) m)) = map fst m"
    by (rule Cons.IH) (rule Cons.prems, simp)
  moreover have "tc_id (snd e) = fst e" by (rule Cons.prems) simp
  ultimately show ?case by (simp add: case_prod_unfold)
qed simp

text \<open>C16: Every call a subagent makes is shown exactly once, whether it comes from its messages, from
  chunks still streaming or from the tools channel, and nothing else is shown: nested \<^verbatim>\<open>task\<close> calls
  and calls without an id or a name are left out.\<close>

theorem nested_calls_once:
  "let ids = map tc_id (concat (nestedBatches partial assembled ms)) in
   distinct ids \<and>
   set ids = (\<Union>m \<in> set ms. nested_ids m) \<union> {sc_id tc | tc. tc \<in> set assembled \<and> sc_name tc \<noteq> ''task''}"
proof -
  let ?T = "from_tools assembled"
  obtain seen batches where r: "foldl (nest_message partial ?T) ([], []) ms = (seen, batches)"
    by (cases "foldl (nest_message partial ?T) ([], []) ms")
  let ?F = "foldl (nest_message partial ?T) ([], []) ms"
  have F: "distinct (fst ?F) \<and> fst ?F = map tc_id (concat (snd ?F))"
    by (rule foldl_keeps [where P = "\<lambda>st. distinct (fst st) \<and> fst st = map tc_id (concat (snd st))"])
      (use nest_message_ok in blast, simp)
  have ok: "distinct seen" "seen = map tc_id (concat batches)"
    using F [THEN conjunct1] F [THEN conjunct2] unfolding r fst_conv snd_conv .
  have seen: "set seen = (\<Union>m \<in> set ms. nested_ids m)"
    using foldl_collects [where f = "nest_message partial ?T" and st = "([], [])" and xs = ms, OF nest_message_seen]
    by (simp add: r)
  let ?rest = "filter (\<lambda>(i, t). i \<notin> set seen) ?T"
  have id: "tc_id t = i" if "(i, t) \<in> set ?T" for i t
    using that from_tools_ok [of assembled] from_tools_id by (metis jok_def map_of_eq_Some_iff)
  then have rest: "map tc_id (concat (map (\<lambda>(i, t). [t]) ?rest)) = map fst ?rest"
    by (intro singles_ids) auto
  have "map fst (filter (\<lambda>(i, t). i \<notin> set seen) m) = filter (\<lambda>i. i \<notin> set seen) (map fst m)" for m :: "(string, tool_call) jmap"
    by (induction m) auto
  then have rest_ids: "map fst ?rest = filter (\<lambda>i. i \<notin> set seen) (jkeys ?T)"
    by (simp add: jkeys_def)
  have keys: "set (jkeys ?T) = {sc_id tc | tc. tc \<in> set assembled \<and> sc_name tc \<noteq> ''task''}"
    unfolding from_tools_def am.keys_fold_set by (auto simp: jkeys_def)
  have "map tc_id (concat (nestedBatches partial assembled ms)) = seen @ filter (\<lambda>i. i \<notin> set seen) (jkeys ?T)"
    by (simp only: nestedBatches_def Let_def r prod.case concat_append map_append ok(2) [symmetric] rest rest_ids)
  then show ?thesis
    using ok(1) from_tools_ok [of assembled] seen keys by (auto simp: Let_def jok_def jkeys_def)
qed

section \<open>Lemmas: nested reviews\<close>

lemma find_mem: "find P xs = Some x \<Longrightarrow> x \<in> set xs"
  by (induction xs) (auto split: if_splits)

lemma match_nested_is_match:
  "match_call (map nested_ref calls) claimed a = map_option nested_ref (match_nested calls claimed a)"
proof -
  have f: "find P (map nested_ref calls) = map_option nested_ref (find (\<lambda>c. P (nested_ref c)) calls)" for P
    by (induction calls) auto
  show ?thesis
    by (simp add: match_call_def match_nested_def Let_def f call_matches_def nested_ref_def first_some_def
        split: option.split)
qed

text \<open>C17: The routing of reviews inside a subagent card is the routing of the chat column, applied to the
  card's pending calls: the same calls get the same approvals.\<close>

theorem nested_routing_is_root_routing:
  assumes "\<forall>c \<in> set (concat batches). tc_id c \<noteq> []"
  shows "approvalByNestedId unassigned batches
           = as_byCall (assign_approvals
               (map nested_ref (filter (\<lambda>c. tc_status c = CallPending) (concat batches))) unassigned)"
proof -
  let ?calls = "filter (\<lambda>c. tc_status c = CallPending) (concat batches)"
  have id: "present_id (rc_id (nested_ref c)) = Some (tc_id c)" if "c \<in> set ?calls" for c
    using assms that by (auto simp: nested_ref_def present_id_Some)
  have mem: "c \<in> set ?calls" if "match_nested ?calls claimed a = Some c" for claimed a c
    using that unfolding match_nested_def Let_def first_some_def
    by (auto split: option.splits dest: find_mem)
  have "(as_claimed s, as_byCall s) = st \<Longrightarrow>
     (as_claimed (foldl (assign_one (map nested_ref ?calls)) s as),
      as_byCall (foldl (assign_one (map nested_ref ?calls)) s as)) = foldl (nest_assign ?calls) st as" for s st as
  proof (induction as arbitrary: s st)
    case (Cons a as)
    have "(as_claimed (assign_one (map nested_ref ?calls) s a), as_byCall (assign_one (map nested_ref ?calls) s a))
        = nest_assign ?calls st a"
    proof (cases "match_nested ?calls (fst st) a")
      case None
      then show ?thesis
        using Cons.prems by (auto simp: assign_one_def nest_assign_def match_nested_is_match simp del: set_filter)
    next
      case (Some c)
      then show ?thesis
        using Cons.prems id [OF mem [OF Some]]
        by (auto simp: assign_one_def nest_assign_def match_nested_is_match simp del: set_filter)
    qed
    from Cons.IH [OF this] show ?case by simp
  qed simp
  from this [of "\<lparr>as_claimed = [], as_byCall = [], as_unassigned = []\<rparr>" "([], [])" unassigned]
  show ?thesis by (simp add: approvalByNestedId_def assign_approvals_def prod_eq_iff)
qed

lemma nested_routing_is_root_routing_witness:
  "approvalByNestedId (parseApprovals two_actions)
     [[\<lparr>tc_id = ''a'', tc_name = ''execute'', tc_args = JObj [], tc_result = None, tc_status = CallPending\<rparr>]]
   = as_byCall (assign_approvals
       (map nested_ref (filter (\<lambda>c. tc_status c = CallPending) (concat
         [[\<lparr>tc_id = ''a'', tc_name = ''execute'', tc_args = JObj [], tc_result = None, tc_status = CallPending\<rparr>]])))
       (parseApprovals two_actions))"
  by (rule nested_routing_is_root_routing) simp

lemma jset_mem: "(i, b) \<in> set (jset k a m) \<Longrightarrow> (i, b) = (k, a) \<or> (i, b) \<in> set m"
  by (induction m) (auto split: if_splits)

lemma nested_byId_mem:
  assumes "(i, a) \<in> set (approvalByNestedId unassigned batches)"
  shows "a \<in> set unassigned \<and> (\<exists>c \<in> set (concat batches). tc_id c = i \<and> tc_status c = CallPending)"
proof -
  let ?calls = "filter (\<lambda>c. tc_status c = CallPending) (concat batches)"
  have step: "(i, a) \<in> set (snd st) \<or> a = b \<and> i \<in> tc_id ` set ?calls"
    if "(i, a) \<in> set (snd (nest_assign ?calls st b))" for st b
  proof (cases "match_nested ?calls (fst st) b")
    case None
    then show ?thesis using that by (simp add: nest_assign_def)
  next
    case (Some c)
    have "c \<in> set ?calls"
      using Some unfolding match_nested_def Let_def first_some_def by (auto split: option.splits dest: find_mem)
    then show ?thesis using Some that jset_mem [of i a "tc_id c" b "snd st"] by (auto simp: nest_assign_def)
  qed
  have "(i, a) \<in> set (snd (foldl (nest_assign ?calls) st bs)) \<Longrightarrow>
      (i, a) \<in> set (snd st) \<or> a \<in> set bs \<and> i \<in> tc_id ` set ?calls" for st bs
  proof (induction bs arbitrary: st)
    case (Cons b bs)
    from Cons.IH [of "nest_assign ?calls st b"] Cons.prems step [of st b] show ?case by auto
  qed simp
  from this [of "([], [])" unassigned] show ?thesis
    using assms by (auto simp: approvalByNestedId_def)
qed

lemma nested_byId_ok: "jok (approvalByNestedId unassigned batches)"
proof -
  have "jok (snd st) \<Longrightarrow> jok (snd (foldl (nest_assign calls) st as))" for st calls as
    by (rule foldl_keeps [where P = "\<lambda>st. jok (snd st)"]) (auto simp: nest_assign_def split: option.split)
  then show ?thesis by (simp add: approvalByNestedId_def)
qed

lemma nested_row_approval: "snd (renderNestedToolCall snap True m c) = map_of m (tc_id c)"
  by (simp add: renderNestedToolCall_def split: option.split)

text \<open>The approvals on the rows of a card.\<close>

definition row_approvals :: "snapshot_status \<Rightarrow> pending_approval list \<Rightarrow> tool_call list list \<Rightarrow> pending_approval list" where
  "row_approvals snap unassigned batches =
     List.map_filter (\<lambda>c. snd (renderNestedToolCall snap True (approvalByNestedId unassigned batches) c))
       (concat batches)"

lemma claimed_keys_set:
  assumes "\<forall>(i, a) \<in> set m. pa_key a \<noteq> [] \<and> CHR '','' \<notin> set (pa_key a)"
  shows "set (claimed_keys cmp m) = pa_key ` snd ` set m"
proof (cases "m = []")
  case False
  let ?ks = "js_sort cmp (map (\<lambda>(_, a). pa_key a) m)"
  have set: "set ?ks = pa_key ` snd ` set m" by (force simp: case_prod_unfold)
  then have ne: "?ks \<noteq> []" using False by (metis image_is_empty list.set(1) set_empty)
  have "split_on (CHR '','') (join_with '','' ?ks) = ?ks"
    using assms ne set by (intro split_join) auto
  moreover have "join_with '','' ?ks \<noteq> []"
  proof
    assume e: "join_with '','' ?ks = []"
    then have "?ks = [[]]" using calculation by simp
    then have "[] \<in> set ?ks" by simp
    then show False unfolding set using assms by auto
  qed
  ultimately show ?thesis using set by (simp add: claimed_keys_def Let_def)
qed (simp add: claimed_keys_def)

text \<open>C11: What a subagent card claims is what it shows: the approval keys it reports, which hide the
  fallback cards of the same approvals, are exactly those on its rows, for every state of the
  subagent.\<close>

theorem claims_are_rows:
  assumes "\<forall>a \<in> set unassigned. pa_key a \<noteq> [] \<and> CHR '','' \<notin> set (pa_key a)"
  shows "set (claimed_keys cmp (approvalByNestedId unassigned batches))
           = pa_key ` set (row_approvals snap unassigned batches)"
proof -
  let ?m = "approvalByNestedId unassigned batches"
  have keys: "set (claimed_keys cmp ?m) = pa_key ` snd ` set ?m"
    by (rule claimed_keys_set) (use assms nested_byId_mem in fast)
  have "set (row_approvals snap unassigned batches) = {a. \<exists>c \<in> set (concat batches). map_of ?m (tc_id c) = Some a}"
    by (rule set_eqI) (simp add: row_approvals_def in_map_filter nested_row_approval del: set_concat)
  also have "\<dots> = snd ` set ?m"
  proof -
    have "map_of ?m i = Some a \<longleftrightarrow> (i, a) \<in> set ?m" for i a
      using nested_byId_ok [of unassigned batches] by (simp add: jok_def map_of_eq_Some_iff)
    then show ?thesis using nested_byId_mem by (force simp: image_iff)
  qed
  finally show ?thesis using keys by simp
qed

lemma claims_are_rows_witness:
  "set (claimed_keys (\<lambda>_ _. 0) (approvalByNestedId (parseApprovals two_actions) []))
     = pa_key ` set (row_approvals SnapRunning (parseApprovals two_actions) [])"
proof -
  have "list_all (\<lambda>a. pa_key a \<noteq> [] \<and> CHR '','' \<notin> set (pa_key a)) (parseApprovals two_actions)"
    by code_simp
  then show ?thesis using claims_are_rows [of "parseApprovals two_actions"] by (simp only: list_all_iff)
qed

text \<open>Once a subagent has ended, no row of its card keeps a spinner.\<close>

lemma no_spinner_after_end:
  "snapshot_terminal snap \<Longrightarrow> tc_status (fst (renderNestedToolCall snap canDecide m c)) \<noteq> CallPending"
  by (auto simp: renderNestedToolCall_def split: option.split)

section \<open>Lemmas: sources of the workspace\<close>

definition merge_ok :: "source_ref list \<Rightarrow> string list \<times> source_ref list \<Rightarrow> bool" where
  "merge_ok seen st =
     (fst st = map so_url (snd st) \<and> distinct (fst st) \<and> set (fst st) = so_url ` set seen \<and>
      set (snd st) \<subseteq> set seen)"

lemma merge_source_ok: "merge_ok seen st \<Longrightarrow> merge_ok (seen @ [s]) (merge_source st s)"
  by (auto simp: merge_ok_def merge_source_def)

lemma merge_sources_ok: "merge_ok seen st \<Longrightarrow> merge_ok (seen @ ss) (foldl merge_source st ss)"
proof (induction ss arbitrary: seen st)
  case (Cons s ss)
  from Cons.IH [OF merge_source_ok [OF Cons.prems, of s]] show ?case by simp
qed simp

lemma foldl_merge_prefix: "prefix (snd st) (snd (foldl merge_source st ss))"
proof (induction ss arbitrary: st)
  case (Cons s ss)
  have "prefix (snd st) (snd (merge_source st s))" by (simp add: merge_source_def)
  with Cons.IH [of "merge_source st s"] show ?case using prefix_order.trans by force
qed simp

text \<open>The sources panel shows every URL found by the conversation or by any subagent exactly once,
  those of the conversation first and unchanged.\<close>

theorem workspace_sources_merged:
  "let root = extractSources parse ms; all = workspace_sources root subs in
   distinct (map so_url all) \<and> set (map so_url all) = so_url ` (set root \<union> set (concat (map snd subs))) \<and>
   set all \<subseteq> set root \<union> set (concat (map snd subs)) \<and> prefix root all"
proof -
  let ?root = "extractSources parse ms"
  have "collect_ok [] collect_init" by (simp add: collect_ok_def collect_init_def)
  from collect_calls_ok [OF this, of "answered_searches parse ms"]
  have "distinct (map so_url ?root)" by (simp add: extractSources_def collect_ok_def)
  then have "merge_ok ?root (map so_url ?root, ?root)" by (simp add: merge_ok_def)
  from merge_sources_ok [OF this, of "concat (map snd subs)"]
  show ?thesis
    using foldl_merge_prefix [of "(map so_url ?root, ?root)" "concat (map snd subs)"]
    unfolding Let_def workspace_sources_def merge_ok_def set_append by (metis set_map snd_conv)
qed

text \<open>A section opens by itself when its first entry arrives and is then left to the user.\<close>

lemma section_opens_once:
  "ws_prevTodos st = 0 \<Longrightarrow> n > 0 \<Longrightarrow> ws_planOpen (workspace_counts n f s st)"
  "ws_prevTodos st > 0 \<Longrightarrow> ws_planOpen (workspace_counts n f s st) = ws_planOpen st"
  by (simp_all add: workspace_counts_def)

end
