(* ===== verification/Plan.thy ===== *)
theory Plan
imports Complex_Main UiState Messages
begin

text \<open>
  Plan: the to-do list of the agent as the workspace shows it
  (\<^verbatim>\<open>app/components/workspace/PlanSection.tsx\<close>, the task list of
  \<^verbatim>\<open>app/components/TasksFilesSidebar.tsx\<close>): its groups, and the progress percentage with the
  rounding of double-precision division and multiplication written out.
\<close>

section \<open>Groups\<close>

fun STATUS_LABEL :: "todo_status \<Rightarrow> string" where
  "STATUS_LABEL TodoInProgress = ''In Progress''"
| "STATUS_LABEL TodoPending = ''Pending''"
| "STATUS_LABEL TodoCompleted = ''Completed''"

definition STATUS_ORDER :: "todo_status list" where
  "STATUS_ORDER = [TodoInProgress, TodoPending, TodoCompleted]"

record todo_groups =
  tg_in_progress :: "todo_item list"
  tg_pending :: "todo_item list"
  tg_completed :: "todo_item list"

fun push_todo :: "todo_item \<Rightarrow> todo_groups \<Rightarrow> todo_groups" where
  "push_todo t out =
     (case todo_status t of
        TodoInProgress \<Rightarrow> out\<lparr>tg_in_progress := tg_in_progress out @ [t]\<rparr>
      | TodoPending \<Rightarrow> out\<lparr>tg_pending := tg_pending out @ [t]\<rparr>
      | TodoCompleted \<Rightarrow> out\<lparr>tg_completed := tg_completed out @ [t]\<rparr>)"

definition todo_groups_of :: "todo_item list \<Rightarrow> todo_groups" where
  "todo_groups_of todos = fold push_todo todos \<lparr>tg_in_progress = [], tg_pending = [], tg_completed = []\<rparr>"

fun todos_of :: "todo_groups \<Rightarrow> todo_status \<Rightarrow> todo_item list" where
  "todos_of out TodoInProgress = tg_in_progress out"
| "todos_of out TodoPending = tg_pending out"
| "todos_of out TodoCompleted = tg_completed out"

text \<open>The groups of the task list of the sidebar, in the order of \<^verbatim>\<open>Object.entries\<close>; empty ones are kept.\<close>

definition groupedTodos :: "todo_item list \<Rightarrow> (todo_status \<times> todo_item list) list" where
  "groupedTodos todos =
     [(TodoPending, filter (\<lambda>t. todo_status t = TodoPending) todos),
      (TodoInProgress, filter (\<lambda>t. todo_status t = TodoInProgress) todos),
      (TodoCompleted, filter (\<lambda>t. todo_status t = TodoCompleted) todos)]"

datatype status_icon = IconCheck | IconClock | IconCircle

fun StatusIcon :: "todo_status \<Rightarrow> status_icon" where
  "StatusIcon TodoCompleted = IconCheck"
| "StatusIcon TodoInProgress = IconClock"
| "StatusIcon TodoPending = IconCircle"

section \<open>Progress\<close>

text \<open>
  \<^verbatim>\<open>Math.round((completed / total) * 100)\<close> in double precision. \<^verbatim>\<open>round_even a b\<close> is \<open>a / b\<close> rounded to
  the nearest integer, ties to even, the rounding of IEEE 754 on scaled integers: the quotient
  is a mantissa of 53 bits over \<open>2 ^ (52 + j)\<close>, its product with 100 is rounded again to 53
  bits. \<^verbatim>\<open>Math.round\<close> is the floor of the value plus one half.
\<close>

definition round_even :: "nat \<Rightarrow> nat \<Rightarrow> nat" where
  "round_even a b =
     (let q = a div b; r = a mod b in
      if 2 * r < b then q else if 2 * r > b then q + 1 else if even q then q else q + 1)"

function norm_shift :: "nat \<Rightarrow> nat \<Rightarrow> nat" where
  "norm_shift c t = (if c = 0 \<or> t \<le> c then 0 else Suc (norm_shift (2 * c) t))"
  by auto
termination by (relation "measure (\<lambda>(c, t). t - c)") auto

declare norm_shift.simps [simp del]

definition ratio_double :: "nat \<Rightarrow> nat \<Rightarrow> nat \<times> nat" where
  "ratio_double c t = (let e = 52 + norm_shift c t in (round_even (c * 2 ^ e) t, e))"

definition times_100 :: "nat \<times> nat \<Rightarrow> nat \<times> nat" where
  "times_100 v =
     (let n = fst v * 100; k = (if n < 2 ^ 59 then 6 else 7) in (round_even n (2 ^ k) * 2 ^ k, snd v))"

definition math_round :: "nat \<times> nat \<Rightarrow> nat" where
  "math_round v = (2 * fst v + 2 ^ snd v) div (2 * 2 ^ snd v)"

definition percent_of :: "nat \<Rightarrow> nat \<Rightarrow> nat" where
  "percent_of c t = (if c = 0 then 0 else math_round (times_100 (ratio_double c t)))"

definition progress :: "todo_item list \<Rightarrow> nat" where
  "progress todos =
     (if length todos > 0 then percent_of (length (tg_completed (todo_groups_of todos))) (length todos) else 0)"

definition activeCount :: "todo_item list \<Rightarrow> nat" where
  "activeCount todos = length (tg_in_progress (todo_groups_of todos))"

definition bar_width :: "todo_item list \<Rightarrow> nat" where
  "bar_width todos = max (progress todos) (if activeCount todos > 0 then 5 else 0)"

section \<open>What the section shows\<close>

datatype plan_body =
    NoTasks
  | PlanShown nat bool nat "(string \<times> (status_icon \<times> string) list) list"

definition count_badge :: "nat \<Rightarrow> nat option" where
  "count_badge n = (if n > 0 then Some n else None)"

definition plan_section :: "todo_item list \<Rightarrow> plan_body" where
  "plan_section todos =
     (if todos = [] then NoTasks
      else PlanShown (progress todos) (activeCount todos > 0) (bar_width todos)
        (map (\<lambda>s. (STATUS_LABEL s,
                   map (\<lambda>t. (StatusIcon (todo_status t), todo_content t)) (todos_of (todo_groups_of todos) s)))
             (filter (\<lambda>s. todos_of (todo_groups_of todos) s \<noteq> []) STATUS_ORDER)))"

section \<open>Lemmas: groups\<close>

lemma todo_groups_filter:
  "todos_of (todo_groups_of todos) s = filter (\<lambda>t. todo_status t = s) todos"
proof -
  have "todos_of (fold push_todo todos out) s =
      todos_of out s @ filter (\<lambda>t. todo_status t = s) todos" for out
    by (induction todos arbitrary: out) (cases s; auto split: todo_status.split)+
  then show ?thesis by (cases s) (simp_all add: todo_groups_of_def)
qed

lemma todo_groups_completed:
  "tg_completed (todo_groups_of todos) = filter (\<lambda>t. todo_status t = TodoCompleted) todos"
  using todo_groups_filter [of todos TodoCompleted] by simp

lemma todo_groups_active:
  "tg_in_progress (todo_groups_of todos) = filter (\<lambda>t. todo_status t = TodoInProgress) todos"
  using todo_groups_filter [of todos TodoInProgress] by simp

section \<open>Lemmas: rounding\<close>

lemma round_even_error:
  assumes "0 < b"
  shows "\<bar>2 * (of_nat (round_even a b) * of_nat b) - 2 * of_nat a :: int\<bar> \<le> of_nat b"
proof -
  have "a = a div b * b + a mod b" "a mod b < b" using assms by simp_all
  then obtain q r where q: "q = a div b" "r = a mod b" "a = q * b + r" "r < b" by blast
  have "round_even a b = q \<and> 2 * r \<le> b \<or> round_even a b = q + 1 \<and> b \<le> 2 * r"
    by (auto simp: round_even_def Let_def q(1,2) [symmetric])
  then show ?thesis
    using q(3,4) by (auto simp: algebra_simps abs_le_iff)
qed

lemma round_even_close:
  assumes "0 < b"
  shows "\<bar>real (round_even a b) - real a / real b\<bar> \<le> 1 / 2"
proof -
  have "2 * (int (round_even a b) * int b) - 2 * int a \<le> int b"
    and "2 * int a - 2 * (int (round_even a b) * int b) \<le> int b"
    using round_even_error [OF assms, of a] by (auto simp: abs_le_iff)
  then have "2 * (round_even a b * b) \<le> 2 * a + b" and "2 * a \<le> 2 * (round_even a b * b) + b"
    by (auto simp: of_nat_mult [symmetric] simp del: of_nat_mult)
  then have "2 * (real (round_even a b) * real b) \<le> 2 * real a + real b"
    and "2 * real a \<le> 2 * (real (round_even a b) * real b) + real b"
    by (metis (mono_tags, lifting) of_nat_add of_nat_le_iff of_nat_mult of_nat_numeral)+
  then have "real a / real b - 1 / 2 \<le> real (round_even a b)" "real (round_even a b) \<le> real a / real b + 1 / 2"
    using assms by (simp_all add: field_simps)
  then show ?thesis by linarith
qed

lemma ratio_double_close:
  assumes "0 < t"
  shows "\<bar>real (fst (ratio_double c t)) / 2 ^ snd (ratio_double c t) - real c / real t\<bar>
         \<le> (1 / 2) / 2 ^ snd (ratio_double c t)"
proof -
  obtain e where e: "e = 52 + norm_shift c t" by simp
  have "\<bar>(real (round_even (c * 2 ^ e) t) - real (c * 2 ^ e) / real t) / 2 ^ e\<bar> \<le> (1 / 2) / 2 ^ e"
    using divide_right_mono [OF round_even_close [OF assms, of "c * 2 ^ e"], of "2 ^ e"]
    by (simp add: abs_divide del: of_nat_mult)
  moreover have "(real (round_even (c * 2 ^ e) t) - real (c * 2 ^ e) / real t) / 2 ^ e =
      real (round_even (c * 2 ^ e) t) / 2 ^ e - real c / real t"
    by (simp add: diff_divide_distrib)
  ultimately show ?thesis
    by (simp only: ratio_double_def Let_def fst_conv snd_conv e [symmetric])
qed

lemma times_100_close:
  "\<bar>real (fst (times_100 v)) - 100 * real (fst v)\<bar> \<le> 64"
proof -
  define n where "n = fst v * 100"
  define k :: nat where "k = (if n < 2 ^ 59 then 6 else 7)"
  have "(2 :: real) ^ k \<le> 128" by (simp add: k_def)
  have "\<bar>real (round_even n (2 ^ k)) - real n / real (2 ^ k)\<bar> \<le> 1 / 2"
    by (rule round_even_close) simp
  then have "\<bar>real (round_even n (2 ^ k)) - real n / 2 ^ k\<bar> * 2 ^ k \<le> 1 / 2 * 2 ^ k"
    by (intro mult_right_mono) simp_all
  also have "\<bar>real (round_even n (2 ^ k)) - real n / 2 ^ k\<bar> * 2 ^ k
      = \<bar>(real (round_even n (2 ^ k)) - real n / 2 ^ k) * 2 ^ k\<bar>"
    by (simp add: abs_mult)
  also have "\<dots> = \<bar>real (round_even n (2 ^ k) * 2 ^ k) - real n\<bar>"
    by (simp add: left_diff_distrib)
  finally show ?thesis
    using \<open>2 ^ k \<le> 128\<close> by (simp add: times_100_def Let_def n_def k_def mult.commute split: if_splits)
qed

lemma math_round_close:
  "\<bar>real (math_round v) - real (fst v) / 2 ^ snd v\<bar> \<le> 1 / 2"
proof -
  let ?d = "2 * 2 ^ snd v :: nat" and ?a = "2 * fst v + 2 ^ snd v"
  have "?a = ?a div ?d * ?d + ?a mod ?d" "?a mod ?d < ?d"
    by (rule div_mult_mod_eq [symmetric]) (rule mod_less_divisor, simp)
  then have "?a div ?d * ?d \<le> ?a" "?a \<le> ?a div ?d * ?d + ?d" by linarith+
  then have "real (?a div ?d) * real ?d \<le> real ?a" "real ?a \<le> real (?a div ?d) * real ?d + real ?d"
    by (metis (mono_tags, lifting) of_nat_add of_nat_le_iff of_nat_mult)+
  moreover have "real ?a = real (fst v) / 2 ^ snd v * real ?d + real ?d / 2" "0 < real ?d" by simp_all
  ultimately have "real (?a div ?d) * real ?d \<le> (real (fst v) / 2 ^ snd v + 1 / 2) * real ?d"
    "(real (fst v) / 2 ^ snd v + 1 / 2) * real ?d \<le> (real (?a div ?d) + 1) * real ?d"
    by (simp_all only: distrib_right)
  with \<open>0 < real ?d\<close> show ?thesis
    by (simp only: mult_le_cancel_right_pos math_round_def abs_le_iff) linarith
qed

text \<open>The percentage differs from the exact one by one half and less than \<open>2 ^ -45\<close>.\<close>

lemma percent_of_close:
  assumes "0 < t"
  shows "\<bar>real (percent_of c t) - 100 * real c / real t\<bar> \<le> 1 / 2 + 114 / 2 ^ 52"
proof (cases "c = 0")
  case False
  let ?v = "ratio_double c t"
  let ?e = "(2 :: real) ^ snd ?v"
  have e: "2 ^ 52 \<le> ?e"
    by (simp add: ratio_double_def Let_def power_add)
  have a: "\<bar>real (fst ?v) / ?e - real c / real t\<bar> \<le> (1 / 2) / ?e"
    by (rule ratio_double_close) fact
  have snd: "snd (times_100 ?v) = snd ?v" by (simp add: times_100_def Let_def)
  have b: "\<bar>real (fst (times_100 ?v)) / ?e - 100 * real (fst ?v) / ?e\<bar> \<le> 64 / ?e"
    using divide_right_mono [OF times_100_close [of ?v], of ?e]
    by (simp add: abs_div_pos diff_divide_distrib)
  have c: "\<bar>real (percent_of c t) - real (fst (times_100 ?v)) / ?e\<bar> \<le> 1 / 2"
    using math_round_close [of "times_100 ?v"] False by (simp add: percent_of_def snd)
  have "\<bar>100 * real (fst ?v) / ?e - 100 * real c / real t\<bar> \<le> 50 / ?e"
  proof -
    have "100 * real (fst ?v) / ?e - 100 * real c / real t = 100 * (real (fst ?v) / ?e - real c / real t)"
      by (simp add: right_diff_distrib)
    with a show ?thesis by (simp add: abs_mult)
  qed
  with b c have "\<bar>real (percent_of c t) - 100 * real c / real t\<bar> \<le> 1 / 2 + 64 / ?e + 50 / ?e"
    by linarith
  also have "\<dots> = 1 / 2 + 114 / ?e" by (simp add: field_simps)
  also have "\<dots> \<le> 1 / 2 + 114 / 2 ^ 52" proof -
    have "114 / ?e \<le> 114 / 2 ^ 52" using e by (intro divide_left_mono) simp_all
    then show ?thesis by simp
  qed
  finally show ?thesis .
qed (simp add: percent_of_def)

lemma percent_of_nearest:
  assumes "0 < t" and "t < 2 ^ 44"
  shows "2 * t * percent_of c t \<le> 200 * c + t" "200 * c \<le> 2 * t * percent_of c t + t"
proof -
  let ?p = "real (percent_of c t)"
  have t: "0 < real t" "real t < 2 ^ 44"
    using assms by (simp, metis of_nat_less_iff of_nat_numeral of_nat_power)
  have "\<bar>2 * real t * ?p - 200 * real c\<bar> = 2 * real t * \<bar>?p - 100 * real c / real t\<bar>"
  proof -
    have "2 * real t * ?p - 200 * real c = 2 * real t * (?p - 100 * real c / real t)"
      using t by (simp add: right_diff_distrib)
    then show ?thesis using t by (simp add: abs_mult)
  qed
  also have "\<dots> \<le> 2 * real t * (1 / 2 + 114 / 2 ^ 52)"
    using t percent_of_close [OF assms(1), of c] by (intro mult_left_mono) simp_all
  also have "\<dots> < real t + 1" using t by simp
  finally have "\<bar>2 * real t * ?p - 200 * real c\<bar> < real t + 1" .
  then have "2 * real t * ?p < 200 * real c + real t + 1" "200 * real c < 2 * real t * ?p + real t + 1"
    by linarith+
  then have "real (2 * t * percent_of c t) < real (200 * c + t + 1)"
    "real (200 * c) < real (2 * t * percent_of c t + t + 1)"
    by simp_all
  then show "2 * t * percent_of c t \<le> 200 * c + t" "200 * c \<le> 2 * t * percent_of c t + t"
    by (simp_all only: of_nat_less_iff)
qed

section \<open>Properties\<close>

text \<open>The progress shown is a whole number nearest to the exact percentage of completed tasks, in
  spite of the double-precision arithmetic: it is at most 100, it is 100 when every task is
  completed, and only then as long as there are fewer than 200 tasks; the bar is never wider
  than its track.\<close>

theorem progress_nearest:
  assumes "todos \<noteq> []" and "length todos < 2 ^ 44"
    and "completed = length (filter (\<lambda>t. todo_status t = TodoCompleted) todos)"
  shows "2 * length todos * progress todos \<le> 200 * completed + length todos \<and>
         200 * completed \<le> 2 * length todos * progress todos + length todos \<and>
         progress todos \<le> 100 \<and> bar_width todos \<le> 100 \<and>
         (completed = length todos \<longrightarrow> progress todos = 100) \<and>
         (progress todos = 100 \<and> length todos < 200 \<longrightarrow> (\<forall>t \<in> set todos. todo_status t = TodoCompleted))"
proof -
  let ?t = "length todos" and ?p = "progress todos"
  have p: "?p = percent_of completed ?t"
    using assms(1,3) by (simp add: progress_def todo_groups_completed)
  have t: "0 < ?t" and le: "completed \<le> ?t" using assms by simp_all
  note near = percent_of_nearest [OF t assms(2), of completed, folded p]
  have "2 * ?t * ?p < 2 * ?t * 101" using near(1) le t by linarith
  then have bound: "?p \<le> 100" by simp
  have full: "?p = 100" if "completed = ?t"
  proof -
    have "2 * ?t * 99 < 2 * ?t * ?p" using near(2) that t by linarith
    then have "99 < ?p" by simp
    with bound show ?thesis by linarith
  qed
  have only: "\<forall>t \<in> set todos. todo_status t = TodoCompleted" if "?p = 100" "?t < 200"
  proof -
    have "200 * ?t \<le> 200 * completed + ?t" using near(1) that(1) by simp
    with that(2) le have "completed = ?t" by linarith
    then have "\<not> length (filter (\<lambda>t. todo_status t = TodoCompleted) todos) < ?t"
      unfolding assms(3) by simp
    then show ?thesis
      using length_filter_less [of _ todos "\<lambda>t. todo_status t = TodoCompleted"] by blast
  qed
  have "bar_width todos \<le> 100" using bound by (simp add: bar_width_def)
  with near bound full only show ?thesis by blast
qed

lemma progress_nearest_witness:
  "progress [\<lparr>todo_id = ''1'', todo_content = ''a'', todo_status = TodoCompleted\<rparr>] \<le> 100"
  using progress_nearest [of "[\<lparr>todo_id = ''1'', todo_content = ''a'', todo_status = TodoCompleted\<rparr>]" 1]
  by simp

text \<open>The plan shows every task exactly once, under the heading of its status, in the order of the
  list, with the headings In Progress, Pending, Completed in that order and none of them empty;
  the task list of the sidebar holds the same groups.\<close>

theorem plan_groups_exact:
  "(case plan_section todos of
      NoTasks \<Rightarrow> todos = []
    | PlanShown p active width gs \<Rightarrow>
        active = (TodoInProgress \<in> todo_status ` set todos) \<and>
        map fst gs = map STATUS_LABEL (filter (\<lambda>s. s \<in> todo_status ` set todos) STATUS_ORDER) \<and>
        (\<forall>s \<in> todo_status ` set todos.
           map_of gs (STATUS_LABEL s) =
             Some (map (\<lambda>t. (StatusIcon s, todo_content t)) (filter (\<lambda>t. todo_status t = s) todos))) \<and>
        mset (concat (map (map snd \<circ> snd) gs)) = mset (map todo_content todos)) \<and>
   mset (concat (map snd (groupedTodos todos))) = mset todos \<and>
   (\<forall>(s, ts) \<in> set (groupedTodos todos). ts = todos_of (todo_groups_of todos) s)"
  (is "?shown \<and> ?all \<and> ?same")
proof -
  let ?f = "\<lambda>s. filter (\<lambda>t. todo_status t = s) todos"
  have split: "mset (concat (map ?f STATUS_ORDER)) = mset todos"
    by (induction todos) (auto simp: STATUS_ORDER_def split: todo_status.splits, (metis todo_status.exhaust)+)
  have ne: "?f s \<noteq> [] \<longleftrightarrow> s \<in> todo_status ` set todos" for s
    by (auto simp: filter_empty_conv)
  have all: ?all using split by (simp add: STATUS_ORDER_def groupedTodos_def add.commute add.left_commute)
  have same: ?same by (simp add: groupedTodos_def todo_groups_filter todo_groups_completed todo_groups_active
      todo_groups_filter [of _ TodoPending, simplified])
  have shown: ?shown
  proof (cases "todos = []")
    case False
    have act: "activeCount todos > 0 \<longleftrightarrow> TodoInProgress \<in> todo_status ` set todos"
      using ne [of TodoInProgress] by (simp add: activeCount_def todo_groups_active)
    have drop: "concat (map g (filter (\<lambda>s. ?f s \<noteq> []) ss)) = concat (map g ss)"
      if "\<And>s. ?f s = [] \<Longrightarrow> g s = []" for g :: "todo_status \<Rightarrow> string list" and ss
      using that by (induction ss) auto
    let ?row = "\<lambda>s. (STATUS_LABEL s, map (\<lambda>t. (StatusIcon (todo_status t), todo_content t)) (?f s))"
    have body: "plan_section todos = PlanShown (progress todos) (activeCount todos > 0) (bar_width todos)
        (map ?row (filter (\<lambda>s. ?f s \<noteq> []) STATUS_ORDER))"
      using False by (simp add: plan_section_def todo_groups_filter)
    have texts: "concat (map (map snd \<circ> snd) (map ?row (filter (\<lambda>s. ?f s \<noteq> []) STATUS_ORDER)))
        = map todo_content (concat (map ?f STATUS_ORDER))"
    proof -
      have "concat (map (map snd \<circ> snd) (map ?row (filter (\<lambda>s. ?f s \<noteq> []) STATUS_ORDER)))
          = concat (map (\<lambda>s. map todo_content (?f s)) (filter (\<lambda>s. ?f s \<noteq> []) STATUS_ORDER))"
        by (simp add: comp_def)
      also have "\<dots> = concat (map (\<lambda>s. map todo_content (?f s)) STATUS_ORDER)" by (rule drop) simp
      finally show ?thesis by (simp add: map_concat comp_def)
    qed
    have look: "map_of (map ?row (filter (\<lambda>s. ?f s \<noteq> []) STATUS_ORDER)) (STATUS_LABEL s) =
        Some (map (\<lambda>t. (StatusIcon s, todo_content t)) (?f s))" if "s \<in> todo_status ` set todos" for s
    proof -
      have "map (\<lambda>t. (StatusIcon (todo_status t), todo_content t)) (?f s)
          = map (\<lambda>t. (StatusIcon s, todo_content t)) (?f s)" by auto
      moreover have "?f s \<noteq> []" using that ne by blast
      ultimately show ?thesis by (cases s) (simp_all add: STATUS_ORDER_def)
    qed
    have heads: "map fst (map ?row (filter (\<lambda>s. ?f s \<noteq> []) STATUS_ORDER)) =
        map STATUS_LABEL (filter (\<lambda>s. s \<in> todo_status ` set todos) STATUS_ORDER)"
      by (simp only: ne map_map comp_def fst_conv)
    show ?thesis
      unfolding body plan_body.case texts using act heads look arg_cong [OF split, of "image_mset todo_content"]
      by (simp only: mset_map) blast
  qed (simp add: plan_section_def)
  from shown all same show ?thesis by blast
qed

lemma plan_groups_exact_witness:
  "map_of [(''Pending'', [(IconCircle, ''a'')])] (STATUS_LABEL TodoPending) = Some [(IconCircle, ''a'')] \<and>
   (case plan_section [\<lparr>todo_id = ''1'', todo_content = ''a'', todo_status = TodoPending\<rparr>] of
      NoTasks \<Rightarrow> False
    | PlanShown p active width gs \<Rightarrow> map_of gs (STATUS_LABEL TodoPending) = Some [(IconCircle, ''a'')])"
  using plan_groups_exact [of "[\<lparr>todo_id = ''1'', todo_content = ''a'', todo_status = TodoPending\<rparr>]"]
  by (simp split: plan_body.splits)

end
