(* ===== verification/FilesPanel.thy ===== *)
theory FilesPanel
imports Plan ChatFiles
begin

text \<open>
  FilesPanel: the grid of files in the workspace (\<^verbatim>\<open>FilesPopover\<close> and \<^verbatim>\<open>FileCard\<close> of
  \<^verbatim>\<open>app/components/TasksFilesSidebar.tsx\<close>, \<^verbatim>\<open>app/components/workspace/FilesSection.tsx\<close>): opening,
  selecting with shift ranges, and the confirmed deletion of one or several files; the cards of
  the sources (\<^verbatim>\<open>workspace/SourcesSection.tsx\<close>). A JavaScript \<^verbatim>\<open>Set\<close> is the list of its members
  in insertion order.
\<close>

section \<open>State\<close>

record files_panel =
  fp_files :: "(string, json) jmap"
  fp_selectedFile :: "(string \<times> string) option"
  fp_pendingDelete :: "string list option"
  fp_deleting :: bool
  fp_selected :: "string list"
  fp_anchor :: "string option"
  fp_toasts :: "toast list"

definition filePaths :: "files_panel \<Rightarrow> string list" where
  "filePaths st = jkeys (fp_files st)"

definition files_panel_init :: "(string, json) jmap \<Rightarrow> files_panel" where
  "files_panel_init files =
     \<lparr>fp_files = files, fp_selectedFile = None, fp_pendingDelete = None, fp_deleting = False,
      fp_selected = [], fp_anchor = None, fp_toasts = []\<rparr>"

definition set_add :: "'a \<Rightarrow> 'a list \<Rightarrow> 'a list" where
  "set_add x xs = (if x \<in> set xs then xs else xs @ [x])"

definition set_of :: "'a list \<Rightarrow> 'a list" where
  "set_of xs = fold set_add xs []"

section \<open>Selecting\<close>

text \<open>A render with new files, and the effect that drops selected paths no longer there.\<close>

definition files_changed :: "(string, json) jmap \<Rightarrow> files_panel \<Rightarrow> files_panel" where
  "files_changed files st =
     st\<lparr>fp_files := files,
        fp_selected := filter (\<lambda>p. or_else (map_of files p) JUndef \<noteq> JUndef) (fp_selected st)\<rparr>"

definition clearSelection :: "files_panel \<Rightarrow> files_panel" where
  "clearSelection st = st\<lparr>fp_selected := [], fp_anchor := None\<rparr>"

definition selectAll :: "files_panel \<Rightarrow> files_panel" where
  "selectAll st = st\<lparr>fp_selected := set_of (filePaths st)\<rparr>"

fun index_in :: "'a \<Rightarrow> 'a list \<Rightarrow> nat option" where
  "index_in x [] = None"
| "index_in x (y # ys) = (if y = x then Some 0 else map_option Suc (index_in x ys))"

definition toggle_one :: "string \<Rightarrow> string list \<Rightarrow> string list" where
  "toggle_one path prev = (if path \<in> set prev then removeAll path prev else prev @ [path])"

definition toggled :: "string list \<Rightarrow> string option \<Rightarrow> bool \<Rightarrow> string \<Rightarrow> string list \<Rightarrow> string list" where
  "toggled paths anchor isShift path prev =
     (case present_id anchor of
        Some a \<Rightarrow>
          if isShift \<and> a \<noteq> path then
            (case (index_in a paths, index_in path paths) of
               (Some i, Some j) \<Rightarrow>
                 (let (lo, hi) = (if i < j then (i, j) else (j, i)) in
                  fold (\<lambda>k. set_add (paths ! k)) [lo..<hi + 1] prev)
             | _ \<Rightarrow> toggle_one path prev)
          else toggle_one path prev
      | None \<Rightarrow> toggle_one path prev)"

definition onToggleSelect :: "string \<Rightarrow> bool \<Rightarrow> files_panel \<Rightarrow> files_panel" where
  "onToggleSelect path isShift st =
     st\<lparr>fp_selected := toggled (filePaths st) (fp_anchor st) isShift path (fp_selected st),
        fp_anchor := (if \<not> isShift then Some path else fp_anchor st)\<rparr>"

record key_press =
  kp_key :: string
  kp_meta :: bool
  kp_ctrl :: bool

text \<open>The key handler of the grid; the flag says that the default action was prevented.\<close>

definition onWrapperKeyDown :: "key_press \<Rightarrow> files_panel \<Rightarrow> bool \<times> files_panel" where
  "onWrapperKeyDown e st =
     (if kp_key e = ''Escape'' \<and> fp_selected st \<noteq> [] then (True, clearSelection st)
      else if (kp_meta e \<or> kp_ctrl e) \<and> to_lower (kp_key e) = ''a'' then
        (if filePaths st = [] then (False, st) else (True, selectAll st))
      else (False, st))"

section \<open>Opening and saving\<close>

text \<open>The text of an entry of \<^verbatim>\<open>files\<close>: an object with \<^verbatim>\<open>content\<close>, or the value itself.\<close>

definition card_content :: "json \<Rightarrow> string" where
  "card_content rawContent =
     (if is_object rawContent \<and> has_prop rawContent ''content'' then
        (case js_prop rawContent ''content'' of
           JArr vs \<Rightarrow> js_join [newline] vs
         | v \<Rightarrow> if truthy v then js_string v else [])
      else if truthy rawContent then js_string rawContent else [])"

definition openCard :: "string \<Rightarrow> files_panel \<Rightarrow> files_panel" where
  "openCard path st =
     st\<lparr>fp_selectedFile := Some (path, card_content (or_else (map_of (fp_files st) path) JUndef))\<rparr>"

definition closeFile :: "files_panel \<Rightarrow> files_panel" where
  "closeFile st = st\<lparr>fp_selectedFile := None\<rparr>"

definition save_argument :: "string \<Rightarrow> string \<Rightarrow> files_panel \<Rightarrow> (string, json) jmap" where
  "save_argument fileName content st = jset fileName (JStr content) (fp_files st)"

definition handleSaveFile_end :: "string \<Rightarrow> string \<Rightarrow> unit result \<Rightarrow> files_panel \<Rightarrow> unit result \<times> files_panel" where
  "handleSaveFile_end fileName content saved st =
     (case saved of
        Inl e \<Rightarrow> (throws e, st)
      | Inr _ \<Rightarrow> (returns (), st\<lparr>fp_selectedFile := Some (fileName, content)\<rparr>))"

section \<open>Deleting\<close>

definition requestDelete :: "string \<Rightarrow> files_panel \<Rightarrow> files_panel" where
  "requestDelete path st = st\<lparr>fp_pendingDelete := Some [path]\<rparr>"

definition deleteSelected :: "files_panel \<Rightarrow> files_panel" where
  "deleteSelected st = st\<lparr>fp_pendingDelete := Some (fp_selected st)\<rparr>"

definition cancelDelete :: "files_panel \<Rightarrow> files_panel" where
  "cancelDelete st = (if fp_deleting st then st else st\<lparr>fp_pendingDelete := None\<rparr>)"

text \<open>The Delete button of the dialog is disabled while a deletion runs.\<close>

definition confirm_begin :: "files_panel \<Rightarrow> string list option \<times> files_panel" where
  "confirm_begin st =
     (if fp_deleting st then (None, st)
      else case fp_pendingDelete st of
        None \<Rightarrow> (None, st)
      | Some targets \<Rightarrow> if targets = [] then (None, st) else (Some targets, st\<lparr>fp_deleting := True\<rparr>))"

definition tell :: "toast \<Rightarrow> files_panel \<Rightarrow> files_panel" where
  "tell t st = st\<lparr>fp_toasts := fp_toasts st @ [t]\<rparr>"

definition target_name :: "string \<Rightarrow> string" where
  "target_name target = (let n = last (split_on slash target) in if n = [] then target else n)"

text \<open>
  The rest of \<^verbatim>\<open>handleConfirmDelete\<close> once the request has settled. \<open>opened\<close> is the file its
  closure saw open when the button was pressed.
\<close>

definition confirm_one_end ::
  "(string \<times> string) option \<Rightarrow> string \<Rightarrow> unit result \<Rightarrow> files_panel \<Rightarrow> files_panel" where
  "confirm_one_end opened target answer st =
     (case answer of
        Inl e \<Rightarrow> tell (toast.ToastError e) st
      | Inr _ \<Rightarrow>
          (let st1 = tell (ToastOk (''Deleted '' @ target_name target)) st;
               st2 = (if map_option fst opened = Some target then closeFile st1 else st1) in
           st2\<lparr>fp_pendingDelete := None\<rparr>))\<lparr>fp_deleting := False\<rparr>"

definition bulk_toast :: "nat \<Rightarrow> nat \<Rightarrow> nat \<Rightarrow> toast" where
  "bulk_toast deleted failed requested =
     (if failed = 0 then ToastOk (''Deleted '' @ show_nat deleted @ '' files'')
      else if deleted = 0 then
        toast.ToastError (''Failed to delete '' @ show_nat failed @ '' file'' @ (if failed = 1 then [] else ''s''))
      else ToastWarning (''Deleted '' @ show_nat deleted @ '' of '' @ show_nat requested @ '' ('' @
             show_nat failed @ '' failed)''))"

definition confirm_many_end ::
  "(string \<times> string) option \<Rightarrow> string list \<Rightarrow> (string list \<times> (string \<times> string) list) result \<Rightarrow>
   files_panel \<Rightarrow> files_panel" where
  "confirm_many_end opened targets answer st =
     (case answer of
        Inl e \<Rightarrow> tell (toast.ToastError e) st
      | Inr (deleted, errors) \<Rightarrow>
          (let st1 = tell (bulk_toast (length deleted) (length errors) (length targets)) st;
               st2 = (case opened of
                        Some f \<Rightarrow> if fst f \<in> set deleted then closeFile st1 else st1
                      | None \<Rightarrow> st1);
               failedPaths = set_of (map fst errors);
               st3 = st2\<lparr>fp_selected := failedPaths\<rparr>;
               st4 = (if failedPaths = [] then st3\<lparr>fp_anchor := None\<rparr> else st3) in
           st4\<lparr>fp_pendingDelete := None\<rparr>))\<lparr>fp_deleting := False\<rparr>"

section \<open>What the panel shows\<close>

definition upper_char :: "char \<Rightarrow> char" where
  "upper_char c = (let n = (of_char c :: nat) in
     if (97 \<le> n \<and> n \<le> 122) \<or> (224 \<le> n \<and> n \<le> 254 \<and> n \<noteq> 247) then char_of (n - 32) else c)"

record file_card =
  fc_label :: string
  fc_color :: string
  fc_stem :: string
  fc_folder :: string
  fc_selected :: bool
  fc_deletable :: bool

definition FileCard :: "string \<Rightarrow> bool \<Rightarrow> bool \<Rightarrow> file_card" where
  "FileCard filePath disabled selected =
     (case splitFilePath filePath of (folder, basename) \<Rightarrow>
        (case splitBasename basename of (stem, ext) \<Rightarrow>
           (let extKey = to_lower (if starts_with ext ''.'' then drop 1 ext else ext) in
            \<lparr>fc_label = map upper_char (if extKey = [] then ''file'' else extKey),
             fc_color = (case getFileCategory filePath of
                           Some c \<Rightarrow> cat_iconVar c | None \<Rightarrow> ''var(--text-secondary)''),
             fc_stem = stem,
             fc_folder = (if folder = [] then ''/'' else folder),
             fc_selected = selected, fc_deletable = (\<not> disabled)\<rparr>)))"

definition DELETE_PREVIEW_LIMIT :: nat where
  "DELETE_PREVIEW_LIMIT = 5"

datatype delete_text =
    DeleteOne string
  | DeleteMany "string list" "nat option"

record delete_dialog =
  dd_title :: string
  dd_body :: delete_text
  dd_disabled :: bool

definition delete_dialog_of :: "files_panel \<Rightarrow> delete_dialog option" where
  "delete_dialog_of st =
     (case fp_pendingDelete st of
        None \<Rightarrow> None
      | Some ps \<Rightarrow> Some
          \<lparr>dd_title = (if length ps > 1 then ''Delete '' @ show_nat (length ps) @ '' files?''
                       else ''Delete file?''),
           dd_body = (case ps of
                        [p] \<Rightarrow> DeleteOne (snd (splitFilePath p))
                      | _ \<Rightarrow> DeleteMany (take DELETE_PREVIEW_LIMIT ps)
                              (if length ps > DELETE_PREVIEW_LIMIT
                               then Some (length ps - DELETE_PREVIEW_LIMIT) else None)),
           dd_disabled = fp_deleting st\<rparr>)"

record upload_tile =
  ut_label :: string
  ut_disabled :: bool

record selection_bar =
  sb_count :: nat
  sb_selectAll_disabled :: bool
  sb_delete_disabled :: bool

record panel_view =
  pv_bar :: "selection_bar option"
  pv_cards :: "file_card list"
  pv_tile :: "upload_tile option"

text \<open>\<open>None\<close> is the text that no files were created yet.\<close>

definition panel_view_of :: "bool \<Rightarrow> bool \<Rightarrow> bool \<Rightarrow> bool \<Rightarrow> files_panel \<Rightarrow> panel_view option" where
  "panel_view_of disabled can_add uploading dragActive st =
     (if filePaths st = [] then None
      else Some
        \<lparr>pv_bar = (if fp_selected st \<noteq> []
                   then Some \<lparr>sb_count = length (fp_selected st),
                              sb_selectAll_disabled = (length (fp_selected st) = length (filePaths st)),
                              sb_delete_disabled = disabled\<rparr>
                   else None),
         pv_cards = map (\<lambda>p. FileCard p disabled (p \<in> set (fp_selected st))) (filePaths st),
         pv_tile = (if can_add
                    then Some \<lparr>ut_label = (if uploading then ''Uploading...''
                                           else if dragActive then ''Drop to upload'' else ''Upload files''),
                               ut_disabled = (uploading \<or> disabled)\<rparr>
                    else None)\<rparr>)"

text \<open>\<^verbatim>\<open>FilesSection\<close>: the picker, with the cue it dismisses, and the empty state.\<close>

definition openPicker :: "bool \<Rightarrow> upload_cue \<Rightarrow> upload_cue \<times> bool" where
  "openPicker works cue = (dismissCue works cue, True)"

record files_section =
  fs_badge :: "nat option"
  fs_upload_disabled :: bool
  fs_cue :: bool
  fs_empty :: bool

definition files_section_of :: "bool \<Rightarrow> bool \<Rightarrow> bool \<Rightarrow> upload_cue \<Rightarrow> files_panel \<Rightarrow> files_section" where
  "files_section_of disabled uploading ready cue st =
     \<lparr>fs_badge = count_badge (length (filePaths st)), fs_upload_disabled = (uploading \<or> disabled),
      fs_cue = showPulseCue ready cue, fs_empty = (filePaths st = [])\<rparr>"

text \<open>\<^verbatim>\<open>SourcesSection\<close>: \<open>url_host\<close> is the \<^verbatim>\<open>host\<close> of \<^verbatim>\<open>new URL\<close>, \<open>None\<close> where it throws.\<close>

definition hostFromUrl :: "(string \<Rightarrow> string option) \<Rightarrow> string \<Rightarrow> string" where
  "hostFromUrl url_host url =
     (case url_host url of
        Some h \<Rightarrow> if starts_with h ''www.'' then drop 4 h else h
      | None \<Rightarrow> url)"

definition letterFor :: "string \<Rightarrow> string" where
  "letterFor host =
     (if includes_str host ''linkedin'' then ''in''
      else case find alnum host of Some c \<Rightarrow> [upper_char c] | None \<Rightarrow> [CHR 0x95])"

record source_row =
  sr_href :: string
  sr_letter :: string
  sr_title :: string
  sr_host :: string

definition sources_section :: "(string \<Rightarrow> string option) \<Rightarrow> source_ref list \<Rightarrow> source_row list" where
  "sources_section url_host sources =
     map (\<lambda>s. let host = hostFromUrl url_host (so_url s) in
            \<lparr>sr_href = so_url s, sr_letter = letterFor host, sr_title = so_title s, sr_host = host\<rparr>) sources"

section \<open>The panel as a reducer\<close>

text \<open>The settled answer of the request under way, with what its closure captured.\<close>

datatype files_event =
    FilesChanged "(string, json) jmap"
  | Toggle string bool
  | KeyDown key_press
  | PressSelectAll
  | PressClear
  | OpenCard string
  | CloseFile
  | Saved string string "unit result"
  | RequestDelete string
  | DeleteSelected
  | CancelDelete
  | PressConfirm
  | OneDeleted "(string \<times> string) option" string "unit result"
  | ManyDeleted "(string \<times> string) option" "string list" "(string list \<times> (string \<times> string) list) result"

text \<open>The buttons of the selection bar are there only while something is selected.\<close>

fun panel_react :: "files_panel \<Rightarrow> files_event \<Rightarrow> files_panel" where
  "panel_react st (FilesChanged files) = files_changed files st"
| "panel_react st (Toggle path shift) = onToggleSelect path shift st"
| "panel_react st (KeyDown e) = snd (onWrapperKeyDown e st)"
| "panel_react st PressSelectAll = (if fp_selected st \<noteq> [] then selectAll st else st)"
| "panel_react st PressClear = clearSelection st"
| "panel_react st (OpenCard path) = openCard path st"
| "panel_react st CloseFile = closeFile st"
| "panel_react st (Saved name content r) = snd (handleSaveFile_end name content r st)"
| "panel_react st (RequestDelete path) = requestDelete path st"
| "panel_react st DeleteSelected = (if fp_selected st \<noteq> [] then deleteSelected st else st)"
| "panel_react st CancelDelete = cancelDelete st"
| "panel_react st PressConfirm = snd (confirm_begin st)"
| "panel_react st (OneDeleted opened target r) = confirm_one_end opened target r st"
| "panel_react st (ManyDeleted opened targets r) = confirm_many_end opened targets r st"

text \<open>The task list and file list of \<^verbatim>\<open>TasksFilesSidebar\<close> open by themselves when they stop being empty.\<close>

record sidebar =
  sd_tasksOpen :: bool
  sd_filesOpen :: bool
  sd_prevTodos :: nat
  sd_prevFiles :: nat

definition sidebar_init :: "nat \<Rightarrow> nat \<Rightarrow> sidebar" where
  "sidebar_init todos files =
     \<lparr>sd_tasksOpen = False, sd_filesOpen = False, sd_prevTodos = todos, sd_prevFiles = files\<rparr>"

definition sidebar_counts :: "nat \<Rightarrow> nat \<Rightarrow> sidebar \<Rightarrow> sidebar" where
  "sidebar_counts todos files st =
     \<lparr>sd_tasksOpen = (sd_tasksOpen st \<or> sd_prevTodos st = 0 \<and> todos > 0),
      sd_filesOpen = (sd_filesOpen st \<or> sd_prevFiles st = 0 \<and> files > 0),
      sd_prevTodos = todos, sd_prevFiles = files\<rparr>"

section \<open>Lemmas\<close>

lemma set_add_simps [simp]:
  "set (set_add x xs) = insert x (set xs)"
  "distinct (set_add x xs) = distinct xs"
  "set_add x xs \<noteq> []"
  by (auto simp: set_add_def)

lemma fold_set_add:
  "set (fold (\<lambda>k. set_add (f k)) ks xs) = f ` set ks \<union> set xs"
  "distinct (fold (\<lambda>k. set_add (f k)) ks xs) = distinct xs"
  by (induction ks arbitrary: xs) auto

lemma fold_set_add_prefix: "prefix xs (fold (\<lambda>k. set_add (f k)) ks xs)"
proof (induction ks arbitrary: xs)
  case (Cons k ks)
  have "prefix xs (set_add (f k) xs)" by (simp add: set_add_def)
  then show ?case using Cons [of "set_add (f k) xs"] by (auto intro: prefix_order.trans)
qed simp

lemma set_of_simps [simp]: "set (set_of xs) = set xs" "distinct (set_of xs)"
  using fold_set_add [of "\<lambda>x. x" xs "[]"] by (simp_all add: set_of_def)

lemma fold_set_add_distinct:
  "distinct (ys @ xs) \<Longrightarrow> fold set_add xs ys = ys @ xs"
  by (induction xs arbitrary: ys) (auto simp: set_add_def)

lemma set_of_distinct: "distinct xs \<Longrightarrow> set_of xs = xs"
  by (simp add: set_of_def fold_set_add_distinct)

lemma set_of_empty [simp]: "set_of xs = [] \<longleftrightarrow> xs = []"
  by (metis set_empty set_of_simps(1))

lemma index_in_Some: "index_in x xs = Some i \<Longrightarrow> i < length xs \<and> xs ! i = x"
  by (induction xs arbitrary: i) (auto split: if_splits)

lemma index_in_None: "index_in x xs = None \<longleftrightarrow> x \<notin> set xs"
  by (induction xs) auto

lemma index_in_nth: "distinct xs \<Longrightarrow> i < length xs \<Longrightarrow> index_in (xs ! i) xs = Some i"
  by (metis index_in_None index_in_Some nth_eq_iff_index_eq nth_mem option.exhaust)

lemma toggle_one_set: "set (toggle_one p prev) = (if p \<in> set prev then set prev - {p} else insert p (set prev))"
  by (auto simp: toggle_one_def)

lemma toggle_one_distinct: "distinct prev \<Longrightarrow> distinct (toggle_one p prev)"
  by (simp add: toggle_one_def distinct_removeAll)

lemma toggled_range:
  assumes "anchor \<noteq> []" and "anchor \<noteq> path"
    and "index_in anchor paths = Some i" and "index_in path paths = Some j"
  shows "toggled paths (Some anchor) True path prev
       = fold (\<lambda>k. set_add (paths ! k)) [min i j..<max i j + 1] prev"
  using assms by (simp add: toggled_def present_id_def min_def max_def)

lemma toggled_distinct: "distinct prev \<Longrightarrow> distinct (toggled paths anchor isShift path prev)"
  by (auto simp: toggled_def Let_def toggle_one_distinct fold_set_add split: option.split)

section \<open>Properties\<close>

text \<open>Selecting is exact. A shift click adds precisely the paths between the anchor and the clicked
  card, both included, whichever comes first, keeps what was selected and keeps the anchor; any
  other click flips the clicked path alone and makes it the anchor.\<close>

theorem shift_range_exact:
  assumes "jok (fp_files st)" and "i < length (filePaths st)" and "j < length (filePaths st)" and "i \<noteq> j"
    and "fp_anchor st = Some (filePaths st ! i)" and "filePaths st ! i \<noteq> []"
  shows "(let st' = onToggleSelect (filePaths st ! j) True st in
            set (fp_selected st') = set (fp_selected st) \<union> {filePaths st ! k | k. min i j \<le> k \<and> k \<le> max i j} \<and>
            prefix (fp_selected st) (fp_selected st') \<and> fp_anchor st' = fp_anchor st) \<and>
         (let st' = onToggleSelect (filePaths st ! j) False st in
            set (fp_selected st') =
              (if filePaths st ! j \<in> set (fp_selected st) then set (fp_selected st) - {filePaths st ! j}
               else insert (filePaths st ! j) (set (fp_selected st))) \<and>
            fp_anchor st' = Some (filePaths st ! j))"
proof -
  let ?ps = "filePaths st"
  have d: "distinct ?ps" using assms(1) by (simp add: filePaths_def jkeys_def jok_def)
  have "?ps ! i \<noteq> ?ps ! j" using d assms(2-4) by (simp add: nth_eq_iff_index_eq)
  obtain ks where ks: "ks = [min i j..<max i j + 1]" by simp
  have range: "toggled ?ps (Some (?ps ! i)) True (?ps ! j) (fp_selected st)
      = fold (\<lambda>k. set_add (?ps ! k)) ks (fp_selected st)"
    unfolding ks using assms(2,3,6) d \<open>?ps ! i \<noteq> ?ps ! j\<close> by (intro toggled_range index_in_nth) simp_all
  have plain: "toggled ?ps a False p prev = toggle_one p prev" for a p prev
    by (simp add: toggled_def split: option.split)
  have "(\<lambda>k. ?ps ! k) ` set ks = {?ps ! k | k. min i j \<le> k \<and> k \<le> max i j}"
    by (auto simp: ks)
  then show ?thesis
    using assms(5) by (auto simp: Let_def onToggleSelect_def range plain fold_set_add(1) toggle_one_set
        intro: fold_set_add_prefix)
qed

definition three_files :: "(string, json) jmap" where
  "three_files = [(''/a'', JStr ''1''), (''/b'', JStr ''2''), (''/c'', JStr ''3'')]"

lemma shift_range_exact_witness:
  "set (fp_selected (onToggleSelect ''/a'' True (onToggleSelect ''/c'' False (files_panel_init three_files))))
     = {''/a'', ''/b'', ''/c''}"
proof -
  let ?st = "onToggleSelect ''/c'' False (files_panel_init three_files)"
  have paths: "filePaths ?st = [''/a'', ''/b'', ''/c'']"
    by (simp add: filePaths_def onToggleSelect_def files_panel_init_def three_files_def jkeys_def)
  have st: "fp_selected ?st = [''/c'']" "fp_anchor ?st = Some ''/c''" "jok (fp_files ?st)"
    by (simp_all add: onToggleSelect_def files_panel_init_def toggled_def toggle_one_def present_id_def
        jok_def three_files_def)
  have "set (fp_selected (onToggleSelect (filePaths ?st ! 0) True ?st)) =
      set (fp_selected ?st) \<union> {filePaths ?st ! k | k. min 2 0 \<le> k \<and> k \<le> max 2 0}"
    using shift_range_exact [of ?st 2 0] st by (simp add: paths Let_def)
  moreover have "{filePaths ?st ! k | k. min 2 0 \<le> k \<and> k \<le> max (2 :: nat) 0} = {''/a'', ''/b'', ''/c''}"
  proof -
    have "{k :: nat. min 2 0 \<le> k \<and> k \<le> max 2 0} = {0, 1, 2}" by auto
    then have "(\<lambda>k. filePaths ?st ! k) ` {k. min 2 0 \<le> k \<and> k \<le> max (2 :: nat) 0} = {''/a'', ''/b'', ''/c''}"
      by (simp add: paths)
    then show ?thesis by (simp add: image_def Bex_def conj_commute)
  qed
  ultimately show ?thesis by (auto simp: paths st)
qed

definition panel_ok :: "files_panel \<Rightarrow> bool" where
  "panel_ok st =
     (distinct (fp_selected st) \<and>
      (\<forall>ps. fp_pendingDelete st = Some ps \<longrightarrow> ps \<noteq> [] \<and> distinct ps) \<and>
      (fp_deleting st \<longrightarrow> fp_pendingDelete st \<noteq> None))"

lemmas panel_defs = files_changed_def clearSelection_def selectAll_def onToggleSelect_def
  onWrapperKeyDown_def openCard_def closeFile_def handleSaveFile_end_def requestDelete_def
  deleteSelected_def cancelDelete_def confirm_begin_def tell_def confirm_one_end_def confirm_many_end_def

lemma panel_react_ok: "panel_ok st \<Longrightarrow> panel_ok (panel_react st e)"
  by (cases e)
    (auto simp: panel_ok_def panel_defs Let_def toggled_distinct split: sum.split option.split)

interpretation fp: reducer "files_panel_init files" panel_react panel_ok for files
proof
  show "panel_ok (files_panel_init files)" by (simp add: panel_ok_def files_panel_init_def)
qed (rule panel_react_ok)



text \<open>After the deletion of several files, what stays selected is exactly what is still there to
  delete: every requested path the backend did not delete, in the order of the request, and nothing
  else; the viewer closes exactly if the file it showed was deleted; one message reports the
  outcome; and pressing Delete again asks for exactly the paths that failed.\<close>

theorem bulk_delete_outcome:
  assumes "distinct ts" and "removeFiles w send gid sf finished now ts chat = ((deleted, errors), chat')"
    and "st' = confirm_many_end opened ts (Inr (deleted, errors)) st"
  shows "fp_selected st' = filter (\<lambda>p. p \<notin> set deleted) ts \<and>
         set (fp_selected st') \<union> set deleted = set ts \<and>
         fp_selectedFile st' =
           (if \<exists>f. opened = Some f \<and> fst f \<in> set deleted then None else fp_selectedFile st) \<and>
         fp_pendingDelete st' = None \<and> \<not> fp_deleting st' \<and>
         length (fp_toasts st') = length (fp_toasts st) + 1 \<and>
         (last (fp_toasts st') = ToastOk (''Deleted '' @ show_nat (length ts) @ '' files'') \<longleftrightarrow> set deleted = set ts) \<and>
         fp_pendingDelete (deleteSelected st') = Some (map fst errors)"
proof -
  let ?r = "\<lambda>vp. snd (remove_one (fw_config w) send (extendedFiles chat) vp)"
  have parts: "deleted = filter (\<lambda>p. \<not> isl (?r p)) ts" "map fst errors = filter (\<lambda>p. isl (?r p)) ts"
    using assms(2) by (auto simp: removeFiles_def collect_removals_filter filter_map comp_def)
  then have rest: "map fst errors = filter (\<lambda>p. p \<notin> set deleted) ts"
    unfolding parts by (intro filter_cong) auto
  have "distinct (map fst errors)" using assms(1) by (simp only: parts distinct_filter)
  then have sel: "fp_selected st' = map fst errors"
    unfolding assms(3) by (simp add: confirm_many_end_def Let_def closeFile_def tell_def set_of_distinct)
  have all: "set (map fst errors) \<union> set deleted = set ts" by (auto simp: parts)
  have none: "errors = [] \<longleftrightarrow> set deleted = set ts"
  proof -
    have "errors = [] \<longleftrightarrow> map fst errors = []" by simp
    also have "\<dots> \<longleftrightarrow> set deleted = set ts" unfolding rest using all by (auto simp: filter_empty_conv)
    finally show ?thesis .
  qed
  have len: "length deleted = length ts" if "errors = []"
    using that parts(1) parts(2) by (metis (mono_tags, lifting) filter_True filter_empty_conv list.simps(8))
  have toast: "fp_toasts st' = fp_toasts st @ [bulk_toast (length deleted) (length errors) (length ts)]"
    unfolding assms(3) by (simp add: confirm_many_end_def Let_def closeFile_def tell_def split: option.split)
  have ok: "bulk_toast (length deleted) (length errors) (length ts)
      = ToastOk (''Deleted '' @ show_nat (length ts) @ '' files'') \<longleftrightarrow> errors = []"
    using len by (auto simp: bulk_toast_def)
  have viewer: "fp_selectedFile st' =
      (if \<exists>f. opened = Some f \<and> fst f \<in> set deleted then None else fp_selectedFile st)"
    unfolding assms(3) by (auto simp: confirm_many_end_def Let_def closeFile_def tell_def split: option.split)
  have "fp_pendingDelete st' = None" "\<not> fp_deleting st'"
    unfolding assms(3) by (simp_all add: confirm_many_end_def Let_def)
  with sel rest all toast ok none viewer show ?thesis by (simp add: deleteSelected_def)
qed

lemma bulk_delete_outcome_witness:
  "fp_selected (confirm_many_end None [''/a'', ''/b'']
     (Inr (fst (removeFiles sample_files_world (\<lambda>_. Inl ''offline'') None [] [] 0 [''/a'', ''/b''] chat_init)))
     (files_panel_init three_files)) = [''/a'', ''/b'']"
proof -
  let ?q = "removeFiles sample_files_world (\<lambda>_. Inl ''offline'') None [] [] 0 [''/a'', ''/b''] chat_init"
  obtain deleted errors chat' where q: "?q = ((deleted, errors), chat')" by (metis surj_pair)
  have d: "deleted = []"
    using q by (auto simp: removeFiles_def collect_removals_def remove_one_def chat_init_def)
  have "distinct [''/a'', ''/b'']" by simp
  from bulk_delete_outcome [OF this q refl, of None "files_panel_init three_files"] show ?thesis
    by (simp add: q d)
qed

end
