(* ===== verification/FileView.thy ===== *)
theory FileView
imports FilesPanel ApprovalCard
begin

text \<open>
  FileView: the viewer and editor of one file (\<^verbatim>\<open>app/components/FileViewDialog.tsx\<close>), the page that
  prints it (\<^verbatim>\<open>app/print/file/\<close>) and the preview that opens it from paths in the chat
  (\<^verbatim>\<open>providers/FilePreviewProvider.tsx\<close>). The conversion of a document to HTML (base64 and
  \<^verbatim>\<open>mammoth\<close>) is the argument \<open>conv\<close>; \<^verbatim>\<open>JSON.parse\<close> is the argument \<open>parse\<close>.
\<close>

section \<open>Kinds of files\<close>

definition imageMime :: "string \<Rightarrow> string" where
  "imageMime ext =
     (if ext = ''jpg'' then ''image/jpeg''
      else if ext = ''ico'' then ''image/x-icon''
      else ''image/'' @ ext)"

definition LANGUAGE_MAP :: "(string, string) jmap" where
  "LANGUAGE_MAP =
     [(''js'', ''javascript''), (''jsx'', ''javascript''), (''ts'', ''typescript''),
      (''tsx'', ''typescript''), (''py'', ''python''), (''rb'', ''ruby''), (''go'', ''go''),
      (''rs'', ''rust''), (''java'', ''java''), (''cpp'', ''cpp''), (''c'', ''c''),
      (''cs'', ''csharp''), (''php'', ''php''), (''swift'', ''swift''), (''kt'', ''kotlin''),
      (''scala'', ''scala''), (''sh'', ''bash''), (''bash'', ''bash''), (''zsh'', ''bash''),
      (''json'', ''json''), (''xml'', ''xml''), (''html'', ''html''), (''css'', ''css''),
      (''scss'', ''scss''), (''sass'', ''sass''), (''less'', ''less''), (''sql'', ''sql''),
      (''yaml'', ''yaml''), (''yml'', ''yaml''), (''toml'', ''toml''), (''ini'', ''ini''),
      (''dockerfile'', ''dockerfile''), (''makefile'', ''makefile'')]"

definition fileExtension :: "string \<Rightarrow> string" where
  "fileExtension fileName = to_lower (last (split_on dot fileName))"

definition isMarkdown :: "string \<Rightarrow> bool" where
  "isMarkdown fileName = (fileExtension fileName = ''md'' \<or> fileExtension fileName = ''markdown'')"

definition isImage :: "string \<Rightarrow> bool" where
  "isImage fileName = (fileExtension fileName \<in> set IMAGE_EXTS)"

definition isBinary :: "string \<Rightarrow> bool" where
  "isBinary fileName = (fileExtension fileName \<in> set BINARY_EXTS)"

definition isPdf :: "string \<Rightarrow> bool" where
  "isPdf fileName = (fileExtension fileName = ''pdf'')"

definition isDocx :: "string \<Rightarrow> bool" where
  "isDocx fileName = (fileExtension fileName = ''docx'')"

text \<open>The language of the highlighter; \<open>None\<close> is an inherited member of the map, which is not a string.\<close>

definition language :: "string \<Rightarrow> string option" where
  "language fileName =
     (case js_member LANGUAGE_MAP (fileExtension fileName) of
        Own l \<Rightarrow> Some l | Inherited \<Rightarrow> None | Absent \<Rightarrow> Some ''text'')"

definition fileNameIsValid :: "string \<Rightarrow> bool" where
  "fileNameIsValid fileName =
     (js_trim fileName \<noteq> [] \<and> slash \<notin> set fileName \<and> CHR '' '' \<notin> set fileName)"

section \<open>The dialog\<close>

text \<open>
  The document conversions are numbered; \<open>fd_live\<close> is the one whose effect was not cleaned up,
  \<open>fd_runs\<close> holds the text each unfinished one started from.
\<close>

record file_dialog =
  fd_file :: "(string \<times> string) option"
  fd_editing :: bool
  fd_name :: string
  fd_content :: string
  fd_docxHtml :: "string option"
  fd_docxError :: "string option"
  fd_docxLoading :: bool
  fd_next :: nat
  fd_live :: "nat option"
  fd_runs :: "(nat \<times> string) list"
  fd_mutating :: bool
  fd_toasts :: "toast list"

definition docx_effect :: "file_dialog \<Rightarrow> file_dialog" where
  "docx_effect st =
     (if \<not> isDocx (fd_name st) \<or> fd_content st = []
      then st\<lparr>fd_docxHtml := None, fd_docxError := None, fd_live := None\<rparr>
      else st\<lparr>fd_docxLoading := True, fd_docxError := None, fd_live := Some (fd_next st),
              fd_runs := fd_runs st @ [(fd_next st, fd_content st)], fd_next := fd_next st + 1\<rparr>)"

text \<open>After a change the effect runs again if one of its dependencies changed.\<close>

definition after_change :: "file_dialog \<Rightarrow> file_dialog \<Rightarrow> file_dialog" where
  "after_change old new =
     (if (isDocx (fd_name old), fd_content old) \<noteq> (isDocx (fd_name new), fd_content new)
      then docx_effect new else new)"

definition file_path :: "(string \<times> string) option \<Rightarrow> string" where
  "file_path f = or_else (map_option fst f) []"

definition file_text :: "(string \<times> string) option \<Rightarrow> string" where
  "file_text f = or_else (map_option snd f) []"

definition dialog_mount :: "(string \<times> string) option \<Rightarrow> file_dialog" where
  "dialog_mount f =
     docx_effect
       \<lparr>fd_file = f, fd_editing = (f = None), fd_name = file_path f, fd_content = file_text f,
        fd_docxHtml = None, fd_docxError = None, fd_docxLoading = False, fd_next = 0, fd_live = None,
        fd_runs = [], fd_mutating = False, fd_toasts = []\<rparr>"

text \<open>A render with another file object, and the effect on \<^verbatim>\<open>[file]\<close>.\<close>

definition file_changed :: "(string \<times> string) option \<Rightarrow> file_dialog \<Rightarrow> file_dialog" where
  "file_changed f st =
     after_change st (st\<lparr>fd_file := f, fd_name := file_path f, fd_content := file_text f, fd_editing := (f = None)\<rparr>)"

definition docx_done :: "(string \<Rightarrow> string result) \<Rightarrow> nat \<Rightarrow> file_dialog \<Rightarrow> file_dialog" where
  "docx_done conv n st =
     (case map_of (fd_runs st) n of
        None \<Rightarrow> st
      | Some source \<Rightarrow>
          (let rest = st\<lparr>fd_runs := filter (\<lambda>r. fst r \<noteq> n) (fd_runs st)\<rparr> in
           if fd_live st = Some n then
             (case conv source of
                Inr html \<Rightarrow> rest\<lparr>fd_docxHtml := Some html\<rparr>
              | Inl err \<Rightarrow> rest\<lparr>fd_docxError := Some err\<rparr>)\<lparr>fd_docxLoading := False, fd_live := None\<rparr>
           else rest))"

text \<open>The name can be typed only for a new file, the text only while editing.\<close>

definition type_name :: "string \<Rightarrow> file_dialog \<Rightarrow> file_dialog" where
  "type_name v st =
     (if fd_editing st \<and> fd_file st = None then after_change st (st\<lparr>fd_name := v\<rparr>) else st)"

definition type_content :: "string \<Rightarrow> file_dialog \<Rightarrow> file_dialog" where
  "type_content v st = (if fd_editing st then after_change st (st\<lparr>fd_content := v\<rparr>) else st)"

definition pressEdit :: "bool \<Rightarrow> file_dialog \<Rightarrow> file_dialog" where
  "pressEdit disabled st =
     (if fd_editing st \<or> disabled \<or> isBinary (fd_name st) then st else st\<lparr>fd_editing := True\<rparr>)"

text \<open>The flag says that the dialog is closed.\<close>

definition handleCancel :: "file_dialog \<Rightarrow> bool \<times> file_dialog" where
  "handleCancel st =
     (case fd_file st of
        None \<Rightarrow> (True, st)
      | Some f \<Rightarrow> (False, after_change st (st\<lparr>fd_name := fst f, fd_content := snd f, fd_editing := False\<rparr>)))"

section \<open>Saving\<close>

definition save_disabled :: "file_dialog \<Rightarrow> bool" where
  "save_disabled st =
     (fd_mutating st \<or> js_trim (fd_name st) = [] \<or> js_trim (fd_content st) = [] \<or>
      fd_file st = None \<and> \<not> fileNameIsValid (fd_name st))"

text \<open>The fetcher of the mutation: what it hands to \<^verbatim>\<open>onSaveFile\<close>.\<close>

definition update_request :: "string \<Rightarrow> string \<Rightarrow> (string \<times> string) option" where
  "update_request fileName fileContent =
     (if fileName = [] \<or> fileContent = [] then None else Some (fileName, fileContent))"

definition press_save :: "file_dialog \<Rightarrow> (string \<times> string) option \<times> file_dialog" where
  "press_save st =
     (if \<not> fd_editing st \<or> save_disabled st then (None, st)
      else (update_request (fd_name st) (fd_content st), st\<lparr>fd_mutating := True\<rparr>))"

definition save_settled :: "unit result \<Rightarrow> file_dialog \<Rightarrow> file_dialog" where
  "save_settled r st =
     (case r of
        Inr _ \<Rightarrow> st\<lparr>fd_editing := False\<rparr>
      | Inl e \<Rightarrow> st\<lparr>fd_toasts := fd_toasts st @ [toast.ToastError (''Failed to save file: '' @ e)]\<rparr>)
     \<lparr>fd_mutating := False\<rparr>"

section \<open>Copying, downloading, printing\<close>

definition handleCopy :: "file_dialog \<Rightarrow> string option" where
  "handleCopy st = (if fd_content st \<noteq> [] then Some (fd_content st) else None)"

datatype blob = BytesOfBase64 string string | PlainText string

definition handleDownload :: "file_dialog \<Rightarrow> (string \<times> blob) option" where
  "handleDownload st =
     (if fd_content st = [] \<or> fd_name st = [] then None
      else let n = last (split_on slash (fd_name st)) in
        Some (if n = [] then ''file'' else n,
              if isBinary (fd_name st)
              then BytesOfBase64 (if isImage (fd_name st) then imageMime (fileExtension (fd_name st))
                                  else ''application/octet-stream'') (fd_content st)
              else PlainText (fd_content st)))"

datatype print_kind = KMarkdown | KCode | KDocx

record print_payload =
  pp_path :: string
  pp_kind :: print_kind
  pp_content :: string
  pp_language :: "string option"

fun kind_name :: "print_kind \<Rightarrow> string" where
  "kind_name KMarkdown = ''markdown''"
| "kind_name KCode = ''code''"
| "kind_name KDocx = ''docx''"

definition payload_json :: "print_payload \<Rightarrow> json" where
  "payload_json p =
     JObj [(''path'', JStr (pp_path p)), (''kind'', JStr (kind_name (pp_kind p))),
           (''content'', JStr (pp_content p)),
           (''language'', case pp_language p of Some l \<Rightarrow> JStr l | None \<Rightarrow> JUndef)]"

definition cut_extension :: "string \<Rightarrow> string" where
  "cut_extension s =
     (case last_index_of dot s of
        Some d \<Rightarrow> if d < length s - 1 then take d s else s
      | None \<Rightarrow> s)"

definition printTitle :: "string \<Rightarrow> string" where
  "printTitle fileName =
     (let t = map (\<lambda>c. if c = slash then CHR ''-'' else c)
                  (cut_extension (strip_leading (\<lambda>c. c = slash) fileName)) in
      if t = [] then ''file'' else t)"

definition print_enabled :: "file_dialog \<Rightarrow> bool" where
  "print_enabled st =
     (\<not> fd_editing st \<and> \<not> isImage (fd_name st) \<and> \<not> isPdf (fd_name st) \<and>
      (\<not> isBinary (fd_name st) \<or> isDocx (fd_name st)) \<and>
      \<not> (isDocx (fd_name st) \<and>
          (fd_docxLoading st \<or> or_else (fd_docxError st) [] \<noteq> [] \<or> or_else (fd_docxHtml st) [] = [])))"

definition print_kind_of :: "string \<Rightarrow> print_kind" where
  "print_kind_of fileName =
     (if isMarkdown fileName then KMarkdown else if isDocx fileName then KDocx else KCode)"

definition print_payload_of :: "file_dialog \<Rightarrow> print_payload option" where
  "print_payload_of st =
     (if fd_content st = [] \<or> fd_name st = [] then None
      else let kind = print_kind_of (fd_name st) in
        if kind = KDocx \<and> or_else (fd_docxHtml st) [] = [] then None
        else Some
          \<lparr>pp_path = fd_name st, pp_kind = kind,
           pp_content = (if kind = KDocx then or_else (fd_docxHtml st) [] else fd_content st),
           pp_language = (if kind = KCode then language (fd_name st) else None)\<rparr>)"

text \<open>What is stored for the print page, and the title of the window while it prints.\<close>

definition handlePrint :: "file_dialog \<Rightarrow> (string option \<times> string) option" where
  "handlePrint st =
     map_option (\<lambda>p. (json_stringify (payload_json p), printTitle (fd_name st))) (print_payload_of st)"

section \<open>What the dialog shows\<close>

datatype file_body =
    BodyEditor string
  | BodyEmpty
  | BodyImage string string
  | BodyPdf string
  | BodyDocxLoading
  | BodyDocxError string
  | BodyDocx string
  | BodyBlank
  | BodyBinary string
  | BodyChart string
  | BodyMarkdown string
  | BodyCode "string option" string

definition file_body_of :: "file_dialog \<Rightarrow> file_body" where
  "file_body_of st =
     (let name = fd_name st; text = fd_content st in
      if fd_editing st then BodyEditor text
      else if text = [] then BodyEmpty
      else if isImage name then BodyImage (imageMime (fileExtension name)) text
      else if isPdf name then BodyPdf text
      else if isDocx name then
        (if fd_docxLoading st then BodyDocxLoading
         else if or_else (fd_docxError st) [] \<noteq> [] then BodyDocxError (or_else (fd_docxError st) [])
         else if or_else (fd_docxHtml st) [] \<noteq> [] then BodyDocx (or_else (fd_docxHtml st) [])
         else BodyBlank)
      else if isBinary name then BodyBinary (fileExtension name)
      else if isChartPath name then BodyChart name
      else if isMarkdown name then BodyMarkdown text
      else BodyCode (language name) text)"

datatype dialog_button = BtnEdit | BtnCopy | BtnDownload | BtnPrint | BtnDelete | BtnCancel | BtnSave

text \<open>The buttons with whether they are disabled; \<open>deletable\<close> says that \<^verbatim>\<open>onDelete\<close> was given.\<close>

definition dialog_buttons :: "bool \<Rightarrow> bool \<Rightarrow> file_dialog \<Rightarrow> (dialog_button \<times> bool) list" where
  "dialog_buttons disabled deletable st =
     (if fd_editing st then [(BtnCancel, False), (BtnSave, save_disabled st)]
      else [(BtnEdit, disabled \<or> isBinary (fd_name st)), (BtnCopy, False), (BtnDownload, False)] @
        (if \<not> isImage (fd_name st) \<and> \<not> isPdf (fd_name st) \<and> (\<not> isBinary (fd_name st) \<or> isDocx (fd_name st))
         then [(BtnPrint, isDocx (fd_name st) \<and>
                 (fd_docxLoading st \<or> or_else (fd_docxError st) [] \<noteq> [] \<or> or_else (fd_docxHtml st) [] = []))]
         else []) @
        (if deletable \<and> fd_file st \<noteq> None then [(BtnDelete, disabled)] else []))"

section \<open>The print page\<close>

fun kind_of_json :: "json \<Rightarrow> print_kind option" where
  "kind_of_json (JStr k) =
     (if k = ''markdown'' then Some KMarkdown
      else if k = ''code'' then Some KCode
      else if k = ''docx'' then Some KDocx else None)"
| "kind_of_json _ = None"

fun json_text :: "json \<Rightarrow> string option" where
  "json_text (JStr s) = Some s"
| "json_text _ = None"

definition parsePayload :: "(string \<Rightarrow> json option) \<Rightarrow> string option \<Rightarrow> print_payload option" where
  "parsePayload parse raw =
     (case present_id raw of
        None \<Rightarrow> None
      | Some r \<Rightarrow>
          (case parse r of
             None \<Rightarrow> None
           | Some v \<Rightarrow>
               (case (json_text (js_prop v ''path''), json_text (js_prop v ''content''), kind_of_json (js_prop v ''kind'')) of
                  (Some path, Some content, Some kind) \<Rightarrow>
                    Some \<lparr>pp_path = path, pp_kind = kind, pp_content = content,
                          pp_language = json_text (js_prop v ''language'')\<rparr>
                | _ \<Rightarrow> None)))"

definition basenameWithoutExtension :: "string \<Rightarrow> string" where
  "basenameWithoutExtension path =
     (let base = last (split_on slash path) in cut_extension (if base = [] then path else base))"

record print_page =
  pg_payload :: "print_payload option"
  pg_missing :: bool
  pg_title :: "string option"

definition print_page_init :: print_page where
  "print_page_init = \<lparr>pg_payload = None, pg_missing = False, pg_title = None\<rparr>"

text \<open>The mount effect: it takes the entry out of the session storage.\<close>

definition print_mount ::
  "(string \<Rightarrow> json option) \<Rightarrow> string option \<Rightarrow> print_page \<Rightarrow> string option \<times> print_page" where
  "print_mount parse store st =
     (None,
      case parsePayload parse store of
        Some p \<Rightarrow> st\<lparr>pg_payload := Some p, pg_title := Some (basenameWithoutExtension (pp_path p))\<rparr>
      | None \<Rightarrow> st\<lparr>pg_missing := True\<rparr>)"

datatype print_body =
    PrintMarkdown string
  | PrintHtml string
  | PrintCode string string
  | PrintMissing
  | PrintNothing

definition PrintBody :: "print_payload \<Rightarrow> print_body" where
  "PrintBody p =
     (case pp_kind p of
        KMarkdown \<Rightarrow> PrintMarkdown (pp_content p)
      | KDocx \<Rightarrow> PrintHtml (pp_content p)
      | KCode \<Rightarrow> PrintCode (let l = or_else (pp_language p) [] in if l = [] then ''text'' else l) (pp_content p))"

definition print_page_body :: "print_page \<Rightarrow> print_body" where
  "print_page_body st =
     (case pg_payload st of
        Some p \<Rightarrow> PrintBody p
      | None \<Rightarrow> if pg_missing st then PrintMissing else PrintNothing)"

section \<open>The preview\<close>

definition extractContent :: "json \<Rightarrow> string" where
  "extractContent raw =
     (if is_object raw \<and> has_prop raw ''content'' then
        (case js_prop raw ''content'' of
           JArr vs \<Rightarrow> js_join [newline] vs
         | v \<Rightarrow> js_string (or_nullish v (JStr [])))
      else js_string (or_nullish raw (JStr [])))"

definition lookup :: "(string, json) jmap \<Rightarrow> (string, string) jmap" where
  "lookup files = fold (\<lambda>key. jset (normalizeFilePath key) key) (jkeys files) []"

definition resolveFile :: "(string, json) jmap \<Rightarrow> string \<Rightarrow> string option" where
  "resolveFile files candidate = map_of (lookup files) (normalizeFilePath candidate)"

text \<open>The key previewed after the deferred \<^verbatim>\<open>setPreviewKey\<close>.\<close>

definition openFile :: "(string, json) jmap \<Rightarrow> string \<Rightarrow> string option \<Rightarrow> string option" where
  "openFile files keyOrPath previewKey =
     (case present_id (resolveFile files keyOrPath) of Some actual \<Rightarrow> Some actual | None \<Rightarrow> previewKey)"

definition preview_file :: "(string, json) jmap \<Rightarrow> string option \<Rightarrow> (string \<times> string) option" where
  "preview_file files previewKey =
     (case previewKey of
        None \<Rightarrow> None
      | Some k \<Rightarrow>
          (let raw = or_else (map_of files k) JUndef in
           if raw \<noteq> JUndef then Some (k, extractContent raw) else None))"

definition preview_saved :: "string \<Rightarrow> unit result \<Rightarrow> string option \<Rightarrow> string option" where
  "preview_saved name r previewKey = (case r of Inr _ \<Rightarrow> Some name | Inl _ \<Rightarrow> previewKey)"

section \<open>The dialog as a reducer\<close>

datatype dialog_event =
    FileProp "(string \<times> string) option"
  | TypeName string
  | TypeContent string
  | PressEdit bool
  | PressCancel
  | PressSave
  | SaveSettled "unit result"
  | DocxDone nat

fun dialog_react :: "(string \<Rightarrow> string result) \<Rightarrow> file_dialog \<Rightarrow> dialog_event \<Rightarrow> file_dialog" where
  "dialog_react conv st (FileProp f) = file_changed f st"
| "dialog_react conv st (TypeName v) = type_name v st"
| "dialog_react conv st (TypeContent v) = type_content v st"
| "dialog_react conv st (PressEdit disabled) = pressEdit disabled st"
| "dialog_react conv st PressCancel = (if fd_editing st then snd (handleCancel st) else st)"
| "dialog_react conv st PressSave = snd (press_save st)"
| "dialog_react conv st (SaveSettled r) = save_settled r st"
| "dialog_react conv st (DocxDone n) = docx_done conv n st"

section \<open>Invariant of the dialog\<close>

definition docx_ok :: "(string \<Rightarrow> string result) \<Rightarrow> file_dialog \<Rightarrow> bool" where
  "docx_ok conv st =
     (if isDocx (fd_name st) \<and> fd_content st \<noteq> [] then
        (case fd_live st of
           Some n \<Rightarrow> fd_docxLoading st \<and> fd_docxError st = None \<and> map_of (fd_runs st) n = Some (fd_content st)
         | None \<Rightarrow> \<not> fd_docxLoading st \<and>
             (case conv (fd_content st) of
                Inr h \<Rightarrow> fd_docxHtml st = Some h \<and> fd_docxError st = None
              | Inl e \<Rightarrow> fd_docxError st = Some e))
      else fd_live st = None \<and> fd_docxHtml st = None \<and> fd_docxError st = None)"

definition runs_ok :: "file_dialog \<Rightarrow> bool" where
  "runs_ok st = (\<forall>n c. (n, c) \<in> set (fd_runs st) \<longrightarrow> n < fd_next st)"

definition name_ok :: "file_dialog \<Rightarrow> bool" where
  "name_ok st = (\<forall>f. fd_file st = Some f \<longrightarrow> fd_name st = fst f)"

definition dialog_ok :: "(string \<Rightarrow> string result) \<Rightarrow> file_dialog \<Rightarrow> bool" where
  "dialog_ok conv st = (docx_ok conv st \<and> runs_ok st \<and> name_ok st)"

lemma docx_effect_same [simp]:
  "fd_name (docx_effect st) = fd_name st" "fd_content (docx_effect st) = fd_content st"
  "fd_file (docx_effect st) = fd_file st" "fd_editing (docx_effect st) = fd_editing st"
  "fd_mutating (docx_effect st) = fd_mutating st" "fd_toasts (docx_effect st) = fd_toasts st"
  by (simp_all add: docx_effect_def)

lemma after_change_same [simp]:
  "fd_name (after_change old st) = fd_name st" "fd_content (after_change old st) = fd_content st"
  "fd_file (after_change old st) = fd_file st" "fd_editing (after_change old st) = fd_editing st"
  "fd_mutating (after_change old st) = fd_mutating st" "fd_toasts (after_change old st) = fd_toasts st"
  by (simp_all add: after_change_def)

lemma fresh_run: "runs_ok st \<Longrightarrow> map_of (fd_runs st) (fd_next st) = None"
  by (auto simp: runs_ok_def map_of_eq_None_iff)

lemma docx_effect_ok: "runs_ok st \<Longrightarrow> docx_ok conv (docx_effect st) \<and> runs_ok (docx_effect st)"
  using fresh_run [of st] by (fastforce simp: docx_effect_def docx_ok_def runs_ok_def map_add_def)

text \<open>A change of the name or the text keeps the document in step.\<close>

lemma after_change_ok:
  assumes "docx_ok conv old" and "runs_ok old"
    and "fd_docxHtml st = fd_docxHtml old" "fd_docxError st = fd_docxError old"
      "fd_docxLoading st = fd_docxLoading old" "fd_live st = fd_live old" "fd_runs st = fd_runs old"
      "fd_next st = fd_next old"
  shows "docx_ok conv (after_change old st) \<and> runs_ok (after_change old st)"
proof (cases "(isDocx (fd_name old), fd_content old) = (isDocx (fd_name st), fd_content st)")
  case True
  then have "after_change old st = st" by (simp add: after_change_def)
  moreover have same: "isDocx (fd_name st) = isDocx (fd_name old)" "fd_content st = fd_content old"
    using True by simp_all
  have "docx_ok conv st = docx_ok conv old"
    unfolding docx_ok_def assms(3-8) same by (rule refl)
  ultimately show ?thesis using assms(1,2,7,8) by (simp add: runs_ok_def)
next
  case False
  have "runs_ok st" using assms by (simp add: runs_ok_def)
  with False show ?thesis by (simp only: after_change_def if_True docx_effect_ok simp_thms not_False_eq_True)
qed

lemma docx_done_ok: "docx_ok conv st \<Longrightarrow> runs_ok st \<Longrightarrow> docx_ok conv (docx_done conv n st) \<and> runs_ok (docx_done conv n st)"
  using map_of_filter_key [of "\<lambda>k. k \<noteq> n" "fd_runs st"]
  by (auto simp: docx_done_def docx_ok_def runs_ok_def Let_def case_prod_unfold
      split: option.splits sum.splits if_splits)

lemma same_docx:
  assumes "fd_name st' = fd_name st" "fd_content st' = fd_content st" "fd_docxHtml st' = fd_docxHtml st"
    "fd_docxError st' = fd_docxError st" "fd_docxLoading st' = fd_docxLoading st"
    "fd_live st' = fd_live st" "fd_runs st' = fd_runs st" "fd_next st' = fd_next st"
  shows "docx_ok conv st' = docx_ok conv st" "runs_ok st' = runs_ok st"
  unfolding docx_ok_def runs_ok_def assms by simp_all

lemma docx_done_same [simp]:
  "fd_name (docx_done conv n st) = fd_name st" "fd_file (docx_done conv n st) = fd_file st"
  "fd_content (docx_done conv n st) = fd_content st" "fd_editing (docx_done conv n st) = fd_editing st"
  by (auto simp: docx_done_def Let_def split: option.split sum.split)

lemma dialog_react_ok: "dialog_ok conv st \<Longrightarrow> dialog_ok conv (dialog_react conv st e)"
proof (cases e)
  case (FileProp f)
  assume "dialog_ok conv st"
  then show ?thesis
    using after_change_ok [of conv st "st\<lparr>fd_file := f, fd_name := file_path f, fd_content := file_text f,
        fd_editing := (f = None)\<rparr>"]
    by (auto simp: FileProp dialog_ok_def file_changed_def name_ok_def file_path_def)
next
  case (TypeName v)
  assume "dialog_ok conv st"
  then show ?thesis
    using after_change_ok [of conv st "st\<lparr>fd_name := v\<rparr>"]
    by (auto simp: TypeName dialog_ok_def type_name_def name_ok_def)
next
  case (TypeContent v)
  assume "dialog_ok conv st"
  then show ?thesis
    using after_change_ok [of conv st "st\<lparr>fd_content := v\<rparr>"]
    by (auto simp: TypeContent dialog_ok_def type_content_def name_ok_def)
next
  case (PressEdit d)
  assume "dialog_ok conv st"
  then show ?thesis
    using same_docx [of "st\<lparr>fd_editing := True\<rparr>" st]
    by (simp add: PressEdit dialog_ok_def pressEdit_def name_ok_def)
next
  case PressCancel
  assume ok: "dialog_ok conv st"
  show ?thesis
  proof (cases "fd_file st")
    case (Some f)
    with ok show ?thesis
      using after_change_ok [of conv st "st\<lparr>fd_name := fst f, fd_content := snd f, fd_editing := False\<rparr>"]
      by (auto simp: PressCancel dialog_ok_def handleCancel_def name_ok_def)
  qed (use ok in \<open>simp add: PressCancel handleCancel_def\<close>)
next
  case PressSave
  assume "dialog_ok conv st"
  then show ?thesis
    using same_docx [of "st\<lparr>fd_mutating := True\<rparr>" st]
    by (simp add: PressSave dialog_ok_def press_save_def name_ok_def)
next
  case (SaveSettled r)
  assume "dialog_ok conv st"
  moreover have "fd_name (save_settled r st) = fd_name st" "fd_file (save_settled r st) = fd_file st"
    by (simp_all add: save_settled_def split: sum.split)
  moreover have "docx_ok conv (save_settled r st) = docx_ok conv st" "runs_ok (save_settled r st) = runs_ok st"
    by (rule same_docx; simp add: save_settled_def split: sum.split)+
  ultimately show ?thesis by (simp add: SaveSettled dialog_ok_def name_ok_def)
next
  case (DocxDone n)
  assume "dialog_ok conv st"
  then show ?thesis using docx_done_ok [of conv st n] by (simp add: DocxDone dialog_ok_def name_ok_def)
qed

lemma dialog_mount_ok: "dialog_ok conv (dialog_mount f)"
proof -
  let ?st = "\<lparr>fd_file = f, fd_editing = (f = None), fd_name = file_path f, fd_content = file_text f,
        fd_docxHtml = None, fd_docxError = None, fd_docxLoading = False, fd_next = 0, fd_live = None,
        fd_runs = [], fd_mutating = False, fd_toasts = []\<rparr>"
  have "runs_ok ?st" by (simp add: runs_ok_def)
  then show ?thesis
    using docx_effect_ok [of ?st conv] by (auto simp: dialog_ok_def dialog_mount_def name_ok_def file_path_def)
qed

interpretation dlg: reducer "dialog_mount f" "dialog_react conv" "dialog_ok conv" for conv f
  by unfold_locales (rule dialog_mount_ok, rule dialog_react_ok)

section \<open>Properties\<close>

lemma docx_not_image: "isDocx n \<Longrightarrow> \<not> isImage n \<and> \<not> isPdf n \<and> \<not> isMarkdown n"
  by (auto simp: isDocx_def isImage_def isPdf_def isMarkdown_def IMAGE_EXTS_def)

text \<open>C18: The document shown is always the conversion of the text the dialog holds now, however often the
  file, the name or the text changed while conversions were under way and in whatever order they
  finish; while the spinner shows, a conversion of exactly that text is under way, whose end
  replaces the spinner by its result. Errors of the conversion carry a message.\<close>

theorem docx_shown_current:
  assumes "st = foldl (dialog_react conv) (dialog_mount f) es" and "\<And>c. conv c \<noteq> Inl []"
  shows "(file_body_of st = BodyDocx h \<longrightarrow> conv (fd_content st) = Inr h) \<and>
         (file_body_of st = BodyDocxError e \<longrightarrow> conv (fd_content st) = Inl e) \<and>
         (file_body_of st = BodyDocxLoading \<longrightarrow>
            (\<exists>n. map_of (fd_runs st) n = Some (fd_content st) \<and>
                 file_body_of (docx_done conv n st) =
                   (case conv (fd_content st) of
                      Inr html \<Rightarrow> if html = [] then BodyBlank else BodyDocx html
                    | Inl err \<Rightarrow> BodyDocxError err)))"
proof -
  have ok: "docx_ok conv st"
    using dlg.run_start_good [of conv f es] by (simp add: assms(1) dialog_ok_def)
  have idle: "file_body_of st =
      (case conv (fd_content st) of
         Inr html \<Rightarrow> if html = [] then BodyBlank else BodyDocx html | Inl err \<Rightarrow> BodyDocxError err)"
    if "docx_ok conv st" "isDocx (fd_name st)" "fd_content st \<noteq> []" "\<not> fd_editing st" "\<not> fd_docxLoading st" for st
    using that docx_not_image [of "fd_name st"] assms(2) [of "fd_content st"]
    by (auto simp: docx_ok_def file_body_of_def Let_def split: option.splits sum.splits)
  have shown: "isDocx (fd_name st)" "fd_content st \<noteq> []" "\<not> fd_editing st"
    if "file_body_of st \<in> {BodyDocx h, BodyDocxError e, BodyDocxLoading}" for h e
    using that by (auto simp: file_body_of_def Let_def split: if_splits)
  have quiet: "\<not> fd_docxLoading st" if "file_body_of st \<in> {BodyDocx h, BodyDocxError e}" for h e
    using that by (auto simp: file_body_of_def Let_def split: if_splits)
  show ?thesis
  proof (intro conjI impI)
    assume b: "file_body_of st = BodyDocx h"
    with shown quiet idle [OF ok] show "conv (fd_content st) = Inr h"
      by (auto split: sum.splits if_splits)
  next
    assume b: "file_body_of st = BodyDocxError e"
    with shown quiet idle [OF ok] show "conv (fd_content st) = Inl e"
      by (auto split: sum.splits if_splits)
  next
    assume b: "file_body_of st = BodyDocxLoading"
    then have s: "isDocx (fd_name st)" "fd_content st \<noteq> []" "\<not> fd_editing st" using shown by auto
    from b have "fd_docxLoading st" by (auto simp: file_body_of_def Let_def split: if_splits)
    with ok s obtain n where n: "fd_live st = Some n" "map_of (fd_runs st) n = Some (fd_content st)"
      by (auto simp: docx_ok_def split: option.splits)
    let ?st = "docx_done conv n st"
    have "docx_ok conv ?st" using docx_done_ok [OF ok] dlg.run_start_good [of conv f es]
      by (simp add: assms(1) dialog_ok_def)
    moreover have "\<not> fd_docxLoading ?st" using n by (simp add: docx_done_def Let_def split: sum.split)
    ultimately have "file_body_of ?st =
        (case conv (fd_content st) of
           Inr html \<Rightarrow> if html = [] then BodyBlank else BodyDocx html | Inl err \<Rightarrow> BodyDocxError err)"
      using idle [of ?st] s by simp
    with n(2) show "\<exists>n. map_of (fd_runs st) n = Some (fd_content st) \<and>
        file_body_of (docx_done conv n st) =
          (case conv (fd_content st) of
             Inr html \<Rightarrow> if html = [] then BodyBlank else BodyDocx html | Inl err \<Rightarrow> BodyDocxError err)"
      by blast
  qed
qed

lemma docx_shown_current_witness:
  "file_body_of (foldl (dialog_react Inr) (dialog_mount (Some (''/cv.docx'', ''UEs='')))
     [FileProp (Some (''/new.docx'', ''AAA='')), DocxDone 1, DocxDone 0]) = BodyDocx ''AAA=''"
proof -
  let ?st = "foldl (dialog_react Inr) (dialog_mount (Some (''/cv.docx'', ''UEs='')))
     [FileProp (Some (''/new.docx'', ''AAA='')), DocxDone 1, DocxDone 0]"
  have b: "file_body_of ?st = BodyDocx ''AAA=''" by code_simp
  have "Inr (fd_content ?st) = (Inr ''AAA='' :: string result)"
    using docx_shown_current [of ?st Inr "Some (''/cv.docx'', ''UEs='')"
        "[FileProp (Some (''/new.docx'', ''AAA='')), DocxDone 1, DocxDone 0]" "''AAA=''"] b by simp
  with b show ?thesis by blast
qed

text \<open>Saving is safe. The dialog saves an existing file only under its own path and a new one only
  under a name without slashes or spaces, never blank text, and never twice at once; a failed save
  keeps what was typed in the editor and reports the failure.\<close>

theorem saves_own_name:
  assumes "st = foldl (dialog_react conv) (dialog_mount f) es" and "press_save st = (Some (n, c), st')"
  shows "(\<forall>g. fd_file st = Some g \<longrightarrow> n = fst g) \<and>
         (fd_file st = None \<longrightarrow> slash \<notin> set n \<and> CHR '' '' \<notin> set n) \<and>
         js_trim n \<noteq> [] \<and> js_trim c \<noteq> [] \<and> c = fd_content st \<and>
         press_save st' = (None, st') \<and>
         (let failed = save_settled (Inl err) st' in
            fd_editing failed \<and> fd_name failed = n \<and> fd_content failed = c \<and> \<not> fd_mutating failed \<and>
            last (fd_toasts failed) = toast.ToastError (''Failed to save file: '' @ err))"
proof -
  have "name_ok st"
    using dlg.run_start_good [of conv f es] by (simp add: assms(1) dialog_ok_def)
  moreover have "fd_editing st" "\<not> save_disabled st" "n = fd_name st" "c = fd_content st"
    "st' = st\<lparr>fd_mutating := True\<rparr>"
    using assms(2) by (auto simp: press_save_def update_request_def split: if_splits)
  ultimately show ?thesis
    by (auto simp: name_ok_def save_disabled_def fileNameIsValid_def press_save_def save_settled_def Let_def)
qed

lemma saves_own_name_witness:
  "fst (press_save (foldl (dialog_react Inr) (dialog_mount (Some (''/notes.md'', ''a''))) [PressEdit False, TypeContent ''b'']))
     = Some (''/notes.md'', ''b'')"
proof -
  let ?es = "[PressEdit False, TypeContent ''b'']"
  let ?st = "foldl (dialog_react Inr) (dialog_mount (Some (''/notes.md'', ''a''))) ?es"
  have s: "fst (press_save ?st) = Some (''/notes.md'', ''b'')" by code_simp
  then have "press_save ?st = (Some (''/notes.md'', ''b''), snd (press_save ?st))" by (metis prod.collapse)
  from saves_own_name [OF refl this] s show ?thesis by blast
qed

lemma language_not_Nil: "language n \<noteq> Some []"
proof -
  have "map_of LANGUAGE_MAP k \<noteq> Some []" for k
    by (auto simp: LANGUAGE_MAP_def)
  then show ?thesis by (auto simp: language_def js_member_def split: option.splits)
qed

lemma payload_parsed:
  assumes "parse raw = Some (json_clone (payload_json p))" and "raw \<noteq> []"
  shows "parsePayload parse (Some raw) = Some p"
proof (cases p)
  case (fields path kind content lang)
  show ?thesis
    by (cases lang; cases kind) (simp_all add: fields parsePayload_def present_id_def assms payload_json_def)
qed



text \<open>The title cuts at a dot of a folder when the name of the file has none.\<close>

lemma print_title_cuts_folder: "printTitle ''/notes.2024/readme'' = ''notes''"
  by code_simp

lemma lookup_get:
  "resolveFile files candidate =
     find (\<lambda>k. normalizeFilePath k = normalizeFilePath candidate) (rev (jkeys files))"
  using am.get_fold [of normalizeFilePath "\<lambda>k. k" "jkeys files" "[]" "normalizeFilePath candidate"]
  by (simp add: resolveFile_def lookup_def first_some_def option.map_ident split: option.splits)

text \<open>A path in a reply opens the workspace file it names. A candidate resolves exactly when some
  file has the same normal form, to the last such file; opening it then shows that file, under its
  own path and with its own text; opening a path that names no file changes nothing.\<close>

theorem preview_resolves:
  assumes "\<And>k v. map_of files k = Some v \<Longrightarrow> k \<noteq> [] \<and> v \<noteq> JUndef"
  shows "(resolveFile files c = None \<longleftrightarrow> (\<forall>k \<in> set (jkeys files). normalizeFilePath k \<noteq> normalizeFilePath c)) \<and>
         (resolveFile files c = Some k \<longrightarrow>
            k \<in> set (jkeys files) \<and> normalizeFilePath k = normalizeFilePath c \<and>
            preview_file files (openFile files c previewed) =
              Some (k, extractContent (or_else (map_of files k) JUndef))) \<and>
         (resolveFile files c = None \<longrightarrow> openFile files c previewed = previewed) \<and>
         (k \<in> set (jkeys files) \<and> (\<forall>k' \<in> set (jkeys files). normalizeFilePath k' = normalizeFilePath k \<longrightarrow> k' = k) \<longrightarrow>
            resolveFile files k = Some k)"
proof -
  let ?P = "\<lambda>c k. normalizeFilePath k = normalizeFilePath c"
  have none: "resolveFile files c = None \<longleftrightarrow> (\<forall>k \<in> set (jkeys files). \<not> ?P c k)"
    by (auto simp: lookup_get find_None_iff)
  have some: "k \<in> set (jkeys files) \<and> ?P c k" if "resolveFile files c = Some k" for k c
    using that by (auto simp: lookup_get find_Some_iff rev_nth)
  have own: "resolveFile files k = Some k"
    if "k \<in> set (jkeys files)" "\<forall>k' \<in> set (jkeys files). ?P k k' \<longrightarrow> k' = k" for k
  proof (cases "resolveFile files k")
    case None
    with that(1) show ?thesis by (auto simp: lookup_get find_None_iff)
  next
    case (Some k')
    with some [OF Some] that(2) show ?thesis by auto
  qed
  have opened: "preview_file files (openFile files c previewed) =
      Some (k, extractContent (or_else (map_of files k) JUndef))" if "resolveFile files c = Some k"
  proof -
    from some [OF that] obtain v where "map_of files k = Some v"
      by (metis jhas_def jhas_iff not_None_eq)
    with assms [of k v] that show ?thesis
      by (simp add: openFile_def present_id_def preview_file_def)
  qed
  show ?thesis
  proof (intro conjI impI)
    assume "resolveFile files c = None"
    then show "openFile files c previewed = previewed" by (simp add: openFile_def present_id_def)
  next
    assume "resolveFile files c = Some k"
    from some [OF this] opened [OF this]
    show "k \<in> set (jkeys files)" "normalizeFilePath k = normalizeFilePath c"
      "preview_file files (openFile files c previewed) = Some (k, extractContent (or_else (map_of files k) JUndef))"
      by blast+
  qed (use none own in blast)+
qed

lemma preview_resolves_witness:
  "preview_file three_files (openFile three_files ''a'' None) = Some (''/a'', ''1'')"
proof -
  have r: "resolveFile three_files ''a'' = Some ''/a''" by code_simp
  have "\<And>k v. map_of three_files k = Some v \<Longrightarrow> k \<noteq> [] \<and> v \<noteq> JUndef"
    by (auto simp: three_files_def split: if_splits)
  from preview_resolves [of three_files "''a''" "''/a''" None, OF this] r show ?thesis
    by (simp add: three_files_def extractContent_def or_nullish_def)
qed

text \<open>
  The preview builds its file object anew in every render, so the effect on \<^verbatim>\<open>[file]\<close> runs again
  whenever the provider renders, and what was typed is gone.
\<close>

lemma preview_render_loses_edits:
  "fd_file st = Some f \<Longrightarrow>
   fd_content (file_changed (Some f) (type_content v (pressEdit False st))) = snd f \<and>
   \<not> fd_editing (file_changed (Some f) (type_content v (pressEdit False st)))"
  by (simp add: file_changed_def file_text_def)

text \<open>Save stays enabled while the agent runs: only the Edit button looks at \<^verbatim>\<open>editDisabled\<close>.\<close>

lemma save_ignores_run:
  "fd_editing st \<Longrightarrow> \<not> save_disabled st \<Longrightarrow>
   dialog_buttons True deletable st = [(BtnCancel, False), (BtnSave, False)]"
  by (simp add: dialog_buttons_def)

end
