(* ===== verification/Charts.thy ===== *)
theory Charts
imports FileView
begin

text \<open>
  Charts: the charts of the analytics agent (\<^verbatim>\<open>app/lib/charts.ts\<close>, \<^verbatim>\<open>app/components/charts/\<close>): reading
  the result of the chart tool and the stored file, what a card shows in every phase, and the
  viewer's theme laid over a stored layout. The checks of \<^verbatim>\<open>zod\<close> are the arguments
  \<open>check_result\<close> and \<open>check_envelope\<close>, \<^verbatim>\<open>JSON.parse\<close> is \<open>parse\<close>, the numbers of a card are
  rationals read by \<open>to_number\<close> (\<^verbatim>\<open>Number\<close>, \<open>None\<close> where it is not finite).
\<close>

section \<open>Files\<close>

definition CHART_SCHEMA_ID :: string where
  "CHART_SCHEMA_ID = ''nextrole.chart/v1''"

record chart_figure =
  cf_data :: "json list"
  cf_layout :: json

record chart_table =
  ct_columns :: "string list"
  ct_rows :: "string option list list"

record chart_kpi =
  ck_value :: json
  ck_label :: string
  ck_format :: string
  ck_previous :: json

record chart_envelope =
  ce_title :: string
  ce_description :: string
  ce_kind :: string
  ce_sql :: string
  ce_row_count :: "int option"
  ce_columns :: "string list"
  ce_figure :: "chart_figure option"
  ce_table :: "chart_table option"
  ce_kpi :: "chart_kpi option"

record chart_result =
  cr_path :: string
  cr_title :: string
  cr_kind :: string

definition parseChartResult ::
  "(string \<Rightarrow> json option) \<Rightarrow> (json \<Rightarrow> chart_result option) \<Rightarrow> json \<Rightarrow> chart_result option" where
  "parseChartResult parse check_result result =
     check_result (case result of JStr s \<Rightarrow> or_else (parse s) JNull | v \<Rightarrow> v)"

definition chart_url :: "json \<Rightarrow> string \<Rightarrow> string" where
  "chart_url config path = filesApiUrl config (''/files/read?path='' @ encodeURIComponent path)"

text \<open>The request settles with a failure, or with a status and the JSON of its body.\<close>

definition settle_chart ::
  "(string \<Rightarrow> json option) \<Rightarrow> (json \<Rightarrow> chart_envelope option) \<Rightarrow> (nat \<times> json option) result \<Rightarrow>
   chart_envelope result" where
  "settle_chart parse check_envelope answer =
     (case answer of
        Inl e \<Rightarrow> throws e
      | Inr (code, body) \<Rightarrow>
          if \<not> ok_status code then
            throws (if code = 404 then ''This chart's file is no longer in storage.''
                    else ''Could not load the chart ('' @ show_nat code @ '').'')
          else
            (case body of
               None \<Rightarrow> throws ''SyntaxError''
             | Some b \<Rightarrow>
                 (case parse (js_string (js_prop b ''content'')) of
                    None \<Rightarrow> throws ''SyntaxError''
                  | Some v \<Rightarrow>
                      (case check_envelope v of Some e \<Rightarrow> returns e | None \<Rightarrow> throws ''ZodError''))))"

section \<open>Numbers\<close>

text \<open>The formatters by name; a name every object inherits finds a function that is none of them.\<close>

record 'n number_formats =
  nf_currency :: "'n \<Rightarrow> string"
  nf_percent :: "'n \<Rightarrow> string"
  nf_duration :: "'n \<Rightarrow> string"
  nf_number :: "'n \<Rightarrow> string"

definition FORMATTERS :: "'n number_formats \<Rightarrow> (string, 'n \<Rightarrow> string) jmap" where
  "FORMATTERS nf =
     [(''currency'', nf_currency nf), (''percent'', nf_percent nf), (''duration_s'', nf_duration nf),
      (''number'', nf_number nf)]"

definition formatValue ::
  "(json \<Rightarrow> 'n option) \<Rightarrow> 'n number_formats \<Rightarrow> json \<Rightarrow> string \<Rightarrow> string option" where
  "formatValue to_number nf value fmt =
     (if nullish value then Some ''-''
      else case to_number value of
        None \<Rightarrow> Some (js_string value)
      | Some n \<Rightarrow>
          (case js_member (FORMATTERS nf) fmt of
             Own f \<Rightarrow> Some (f n) | Inherited \<Rightarrow> None | Absent \<Rightarrow> Some (nf_number nf n)))"

record kpi_tile =
  kt_value :: "string option"
  kt_label :: string
  kt_change :: "(bool \<times> string \<times> string option) option"

text \<open>\<open>percent_text\<close> is the change against the earlier value in percent, with one decimal.\<close>

definition KpiTile ::
  "(json \<Rightarrow> rat option) \<Rightarrow> rat number_formats \<Rightarrow> (rat \<Rightarrow> rat \<Rightarrow> string) \<Rightarrow> chart_kpi \<Rightarrow> kpi_tile" where
  "KpiTile to_number nf percent_text k =
     \<lparr>kt_value = formatValue to_number nf (ck_value k) (ck_format k),
      kt_label = ck_label k,
      kt_change =
        (case (to_number (ck_value k), to_number (ck_previous k)) of
           (Some current, Some prior) \<Rightarrow>
             if prior \<noteq> 0
             then Some (current \<ge> prior, percent_text current prior,
                        formatValue to_number nf (ck_previous k) (ck_format k))
             else None
         | _ \<Rightarrow> None)\<rparr>"

definition ChartTable :: "chart_table \<Rightarrow> string list \<times> string list list" where
  "ChartTable t = (ct_columns t, map (map (\<lambda>cell. or_else cell ''-'')) (ct_rows t))"

section \<open>Cards\<close>

datatype chart_part =
    PBuilding
  | PLoading
  | PToolError string
  | PLoadError string
  | PFigure chart_figure
  | PTable chart_table
  | PKpi chart_kpi

text \<open>What the data cache knows of a chart: the envelope and the error of the last request.\<close>

type_synonym chart_cache = "string \<Rightarrow> chart_envelope option \<times> string option"

definition opt_part :: "('a \<Rightarrow> chart_part) \<Rightarrow> 'a option \<Rightarrow> chart_part list" where
  "opt_part f x = (case x of Some y \<Rightarrow> [f y] | None \<Rightarrow> [])"

definition drawing :: "chart_envelope \<Rightarrow> chart_part list" where
  "drawing e = opt_part PFigure (ce_figure e) @ opt_part PTable (ce_table e) @ opt_part PKpi (ce_kpi e)"

record chart_card =
  cc_key :: "string option"
  cc_title :: string
  cc_description :: "string option"
  cc_rows :: "int option"
  cc_parts :: "chart_part list"
  cc_sql :: "string option"

definition pendingTitle :: "json \<Rightarrow> string" where
  "pendingTitle args = (case js_prop args ''title'' of JStr t \<Rightarrow> t | _ \<Rightarrow> ''Chart'')"

definition ChartCard ::
  "(string \<Rightarrow> json option) \<Rightarrow> (json \<Rightarrow> chart_result option) \<Rightarrow> chart_cache \<Rightarrow> tool_call \<Rightarrow> chart_card" where
  "ChartCard parse check_result cache tc =
     (let answer = present_id (tc_result tc);
          res = Option.bind answer (\<lambda>r. parseChartResult parse check_result (JStr r));
          (envelope, error) = (case res of Some r \<Rightarrow> cache (cr_path r) | None \<Rightarrow> (None, None));
          toolError = (if res = None then map_option (take 400) answer else None) in
      \<lparr>cc_key = map_option cr_path res,
       cc_title = (case (envelope, res) of
                     (Some e, _) \<Rightarrow> ce_title e
                   | (None, Some r) \<Rightarrow> cr_title r
                   | (None, None) \<Rightarrow> pendingTitle (tc_args tc)),
       cc_description = (case envelope of Some e \<Rightarrow> present_id (Some (ce_description e)) | None \<Rightarrow> None),
       cc_rows = Option.bind envelope ce_row_count,
       cc_parts =
         (if answer = None then [PBuilding]
          else if res \<noteq> None \<and> envelope = None \<and> error = None then [PLoading] else []) @
         opt_part PToolError toolError @ opt_part PLoadError error @
         (case envelope of Some e \<Rightarrow> drawing e | None \<Rightarrow> []),
       cc_sql = (case envelope of Some e \<Rightarrow> present_id (Some (ce_sql e)) | None \<Rightarrow> None)\<rparr>)"

datatype inline_chart = InlineError string | InlinePending | InlineFigure "chart_part list" string

definition InlineChart :: "chart_cache \<Rightarrow> string \<Rightarrow> string option \<Rightarrow> inline_chart" where
  "InlineChart cache path alt =
     (case cache path of
        (_, Some e) \<Rightarrow> InlineError e
      | (None, None) \<Rightarrow> InlinePending
      | (Some e, None) \<Rightarrow> InlineFigure (drawing e) (or_else (present_id alt) (ce_title e)))"

section \<open>Theme\<close>

record theme_colors =
  th_ink :: string
  th_muted :: string
  th_grid :: string

definition FALLBACK :: "bool \<Rightarrow> theme_colors" where
  "FALLBACK isDark =
     (if isDark then \<lparr>th_ink = ''#ede9e0'', th_muted = ''#9c948a'', th_grid = ''#3a3630''\<rparr>
      else \<lparr>th_ink = ''#211f1a'', th_muted = ''#6b6459'', th_grid = ''#e7e1d4''\<rparr>)"

text \<open>\<open>css\<close> gives the computed value of a custom property; \<open>None\<close> is a render without a window.\<close>

definition cssVar :: "(string \<Rightarrow> string) option \<Rightarrow> string \<Rightarrow> string \<Rightarrow> string" where
  "cssVar css name fallback =
     (case css of
        None \<Rightarrow> fallback
      | Some get \<Rightarrow> or_else (present_id (Some (js_trim (get name)))) fallback)"

definition viewer_colors :: "(string \<Rightarrow> string) option \<Rightarrow> bool \<Rightarrow> theme_colors" where
  "viewer_colors css isDark =
     \<lparr>th_ink = cssVar css ''--color-text-primary'' (th_ink (FALLBACK isDark)),
      th_muted = cssVar css ''--color-text-tertiary'' (th_muted (FALLBACK isDark)),
      th_grid = cssVar css ''--color-border'' (th_grid (FALLBACK isDark))\<rparr>"

definition tick_font :: "theme_colors \<Rightarrow> json" where
  "tick_font th = JObj [(''color'', JStr (th_muted th)), (''size'', JNum 11)]"

definition axisTheme :: "theme_colors \<Rightarrow> (string, json) jmap" where
  "axisTheme th =
     [(''gridcolor'', JStr (th_grid th)), (''zerolinecolor'', JStr (th_grid th)),
      (''linecolor'', JStr (th_grid th)), (''tickfont'', tick_font th), (''automargin'', JBool True)]"

definition mergeAxis :: "theme_colors \<Rightarrow> json \<Rightarrow> json" where
  "mergeAxis th existing =
     spread_with (JObj (axisTheme th))
       (own_entries (or_nullish existing (JObj [])) @ [(''tickfont'', tick_font th)])"

definition sans_family :: string where
  "sans_family = ''var(--font-sans), ui-sans-serif, system-ui, sans-serif''"

definition mono_family :: string where
  "mono_family = ''var(--font-mono), ui-monospace, monospace''"

definition theme_entries :: "theme_colors \<Rightarrow> bool \<Rightarrow> json \<Rightarrow> (string, json) jmap" where
  "theme_entries th isDark layout =
     [(''paper_bgcolor'', JStr ''rgba(0,0,0,0)''), (''plot_bgcolor'', JStr ''rgba(0,0,0,0)''),
      (''font'', JObj [(''color'', JStr (th_ink th)), (''family'', JStr sans_family), (''size'', JNum 12)]),
      (''legend'', spread_with (or_nullish (js_prop layout ''legend'') (JObj [])) [(''font'', tick_font th)]),
      (''hoverlabel'', JObj
         [(''bgcolor'', JStr (if isDark then ''#2a2620'' else ''#ffffff'')),
          (''bordercolor'', JStr (th_grid th)),
          (''font'', JObj [(''color'', JStr (th_ink th)), (''family'', JStr mono_family), (''size'', JNum 11)])]),
      (''xaxis'', mergeAxis th (js_prop layout ''xaxis'')),
      (''yaxis'', mergeAxis th (js_prop layout ''yaxis''))]"

definition themedLayout :: "(string \<Rightarrow> string) option \<Rightarrow> bool \<Rightarrow> json \<Rightarrow> json" where
  "themedLayout css isDark layout =
     spread_with layout (theme_entries (viewer_colors css isDark) isDark layout)"

section \<open>Lemmas: spreading\<close>

abbreviation put_all :: "(string \<times> json) list \<Rightarrow> (string, json) jmap \<Rightarrow> (string, json) jmap" where
  "put_all upd m \<equiv> fold (\<lambda>(k, w). jset k w) upd m"

lemma map_of_put_all: "map_of (put_all upd m) k = first_some (map_of (rev upd) k) (map_of m k)"
  by (induction upd arbitrary: m) (auto simp: first_some_def map_add_def split: option.splits)

lemma jok_put_all: "jok m \<Longrightarrow> jok (put_all upd m)"
  by (induction upd arbitrary: m) auto

lemma jset_same: "map_of m k = Some v \<Longrightarrow> jset k v m = m"
  by (induction m) auto

lemma put_all_same: "\<forall>(k, w) \<in> set upd. map_of m k = Some w \<Longrightarrow> put_all upd m = m"
  by (induction upd) (auto simp: jset_same)

lemma jmap_eqI:
  assumes "jkeys m = jkeys m'" and "jok m" and "\<And>k. map_of m k = map_of m' k"
  shows "m = m'"
  using assms
proof (induction m arbitrary: m')
  case (Cons e m)
  then obtain e' n where m': "m' = e' # n" "fst e = fst e'" by (cases m') (auto simp: jkeys_def)
  obtain k v where e: "e = (k, v)" by (cases e)
  then obtain v' where e': "e' = (k, v')" using m'(2) by (cases e') simp
  have "v = v'" using Cons.prems(3) [of k] by (simp add: m' e e')
  have keys: "jkeys m = jkeys n" using Cons.prems(1) by (simp add: m' jkeys_def)
  have "map_of m x = map_of n x" for x
  proof (cases "x = k")
    case True
    have "k \<notin> fst ` set m" using Cons.prems(2) by (simp add: jok_def e)
    moreover have "k \<notin> fst ` set n" using calculation keys by (metis jkeys_def list.set_map)
    ultimately show ?thesis using True by (simp add: map_of_eq_None_iff [THEN iffD2])
  next
    case False
    then show ?thesis using Cons.prems(3) [of x] by (simp add: m' e e')
  qed
  with Cons.IH [of n] Cons.prems(2) keys have "m = n" by (simp add: jok_def)
  with \<open>v = v'\<close> show ?case by (simp add: m' e e')
qed (simp add: jkeys_def)

lemma jkeys_put_all:
  "distinct (map fst upd) \<Longrightarrow> jkeys (put_all upd m) = jkeys m @ filter (\<lambda>k. k \<notin> set (jkeys m)) (map fst upd)"
proof (induction upd arbitrary: m)
  case (Cons e upd)
  obtain k w where e: "e = (k, w)" by (cases e)
  have "filter (\<lambda>x. x \<notin> set (jkeys (jset k w m))) (map fst upd) = filter (\<lambda>x. x \<notin> set (jkeys m)) (map fst upd)"
    using Cons.prems by (intro filter_cong) (auto simp: e jkeys_jset)
  with Cons.IH [of "jset k w m"] Cons.prems show ?case by (simp add: e jkeys_jset)
qed simp

lemma jkeys_put_all_prefix: "\<exists>ks. jkeys (put_all upd m) = jkeys m @ ks"
proof (induction upd arbitrary: m)
  case (Cons e upd)
  then obtain ks where "jkeys (put_all upd (jset (fst e) (snd e) m)) = jkeys (jset (fst e) (snd e) m) @ ks" by blast
  then show ?case by (auto simp: case_prod_unfold jkeys_jset)
qed simp

lemma map_of_rev_distinct: "distinct (map fst xs) \<Longrightarrow> map_of (rev xs) k = map_of xs k"
proof (induction xs)
  case (Cons x xs)
  then have "fst x = k \<Longrightarrow> map_of xs k = None" by (auto simp: map_of_eq_None_iff)
  with Cons show ?case by (cases x) (auto simp: map_add_def split: option.splits)
qed simp

text \<open>Laying a merged object over the same base again gives the merged object.\<close>

lemma put_all_again:
  assumes "jok m" shows "put_all (put_all upd m) m = put_all upd m"
proof (rule jmap_eqI)
  let ?n = "put_all upd m"
  have ok: "jok ?n" using assms by (rule jok_put_all)
  obtain ks where ks: "jkeys ?n = jkeys m @ ks" using jkeys_put_all_prefix by blast
  have "distinct (jkeys m @ ks)" using ok by (simp add: jok_def jkeys_def [symmetric] ks)
  then have "filter (\<lambda>k. k \<notin> set (jkeys m)) (jkeys ?n) = ks" by (auto simp: ks filter_empty_conv filter_id_conv)
  then show "jkeys (put_all ?n m) = jkeys ?n"
    using jkeys_put_all [of ?n m] ok by (simp add: jok_def jkeys_def [symmetric] ks)
  show "jok (put_all ?n m)" using assms by (rule jok_put_all)
  fix k
  have "map_of (rev ?n) k = map_of ?n k"
    using ok by (simp add: jok_def map_of_rev_distinct)
  then show "map_of (put_all ?n m) k = map_of ?n k"
    by (simp add: map_of_put_all first_some_def split: option.splits)
qed

lemma own_spread [simp]: "own_entries (spread_with v upd) = put_all upd (own_entries v)"
  by simp

lemma put_all_append: "put_all (xs @ ys) m = put_all ys (put_all xs m)"
  by simp

lemma axisTheme_ok: "jok (axisTheme th)"
  by (simp add: jok_def axisTheme_def)

lemma mergeAxis_object: "mergeAxis th (JObj m) = JObj (jset ''tickfont'' (tick_font th) (put_all m (axisTheme th)))"
  by (simp add: mergeAxis_def or_nullish_def)

lemma mergeAxis_again: "mergeAxis th (mergeAxis th v) = mergeAxis th v"
proof -
  define M where "M = put_all (own_entries (or_nullish v (JObj [])) @ [(''tickfont'', tick_font th)]) (axisTheme th)"
  have m: "mergeAxis th v = JObj M" by (simp add: mergeAxis_def M_def)
  have "put_all M (axisTheme th) = M" unfolding M_def by (rule put_all_again [OF axisTheme_ok])
  moreover have "jset ''tickfont'' (tick_font th) M = M" by (rule jset_same) (simp add: M_def)
  ultimately show ?thesis unfolding m mergeAxis_object by simp
qed

lemma legend_again:
  "spread_with (spread_with v [(''font'', w)]) [(''font'', w)] = spread_with v [(''font'', w)]"
  by (simp add: jset_same)

lemma themed_keys: "map fst (theme_entries th isDark layout) =
    [''paper_bgcolor'', ''plot_bgcolor'', ''font'', ''legend'', ''hoverlabel'', ''xaxis'', ''yaxis'']"
  by (simp add: theme_entries_def)

lemma themed_get:
  "map_of (put_all (theme_entries th isDark layout) m) k =
     first_some (map_of (theme_entries th isDark layout) k) (map_of m k)"
  by (simp add: map_of_put_all map_of_rev_distinct themed_keys)

section \<open>Properties\<close>

text \<open>The theme touches only the look of a stored chart. Every part of the layout outside the seven
  themed entries is untouched; an axis keeps everything the agent stored for it except the tick
  font and gets the colours of the theme where it has none of its own; and theming twice is
  theming once.\<close>

theorem themed_layout_preserves:
  "(k \<notin> {''paper_bgcolor'', ''plot_bgcolor'', ''font'', ''legend'', ''hoverlabel'', ''xaxis'', ''yaxis''} \<longrightarrow>
      js_prop (themedLayout css isDark (JObj kvs)) k = js_prop (JObj kvs) k) \<and>
   (\<forall>axis \<in> {''xaxis'', ''yaxis''}. \<forall>avs. map_of kvs axis = Some (JObj avs) \<and> jok avs \<longrightarrow>
      js_prop (js_prop (themedLayout css isDark (JObj kvs)) axis) a =
        (if a = ''tickfont'' then tick_font (viewer_colors css isDark)
         else case map_of avs a of
           Some v \<Rightarrow> v
         | None \<Rightarrow> or_else (map_of (axisTheme (viewer_colors css isDark)) a) JUndef)) \<and>
   themedLayout css isDark (themedLayout css isDark (JObj kvs)) = themedLayout css isDark (JObj kvs)"
  (is "?rest \<and> ?axes \<and> ?again")
proof -
  let ?th = "viewer_colors css isDark"
  let ?E = "theme_entries ?th isDark (JObj kvs)"
  have l: "themedLayout css isDark (JObj kvs) = JObj (put_all ?E kvs)" by (simp add: themedLayout_def)
  have get: "js_prop (JObj (put_all ?E kvs)) x = or_else (first_some (map_of ?E x) (map_of kvs x)) JUndef" for x
    by (simp add: themed_get)
  have "map_of ?E k = None"
    if "k \<notin> {''paper_bgcolor'', ''plot_bgcolor'', ''font'', ''legend'', ''hoverlabel'', ''xaxis'', ''yaxis''}"
    using that themed_keys [of ?th isDark "JObj kvs"]
    by (simp add: map_of_eq_None_iff flip: list.set_map)
  then have rest: ?rest by (simp add: l get del: js_prop.simps) simp
  have xy: "js_prop (JObj (put_all ?E kvs)) axis = mergeAxis ?th (js_prop (JObj kvs) axis)"
    if "axis \<in> {''xaxis'', ''yaxis''}" for axis
    using that unfolding get by (auto simp: theme_entries_def)
  have axes: ?axes
  proof (intro ballI allI impI)
    fix axis avs assume axis: "axis \<in> {''xaxis'', ''yaxis''}" and a: "map_of kvs axis = Some (JObj avs) \<and> jok avs"
    then have "map_of (rev avs) a = map_of avs a" by (simp add: jok_def map_of_rev_distinct)
    then have "js_prop (mergeAxis ?th (JObj avs)) a =
        (if a = ''tickfont'' then tick_font ?th
         else case map_of avs a of Some v \<Rightarrow> v | None \<Rightarrow> or_else (map_of (axisTheme ?th) a) JUndef)"
      by (auto simp: mergeAxis_def or_nullish_def map_of_put_all first_some_def split: option.splits)
    moreover have "js_prop (JObj kvs) axis = JObj avs" using a by simp
    ultimately show "js_prop (js_prop (themedLayout css isDark (JObj kvs)) axis) a =
        (if a = ''tickfont'' then tick_font ?th
         else case map_of avs a of Some v \<Rightarrow> v | None \<Rightarrow> or_else (map_of (axisTheme ?th) a) JUndef)"
      unfolding l xy [OF axis] by metis
  qed
  have legend: "js_prop (JObj (put_all ?E kvs)) ''legend'' =
      spread_with (or_nullish (js_prop (JObj kvs) ''legend'') (JObj [])) [(''font'', tick_font ?th)]"
    unfolding get by (simp add: theme_entries_def)
  have entries: "theme_entries ?th isDark (JObj (put_all ?E kvs)) = ?E"
  proof -
    have n: "or_nullish (spread_with v u) w = spread_with v u" for v u w by (simp add: or_nullish_def)
    show ?thesis
      unfolding theme_entries_def [of ?th isDark "JObj (put_all ?E kvs)"] legend n legend_again
        xy [OF insertI1] xy [OF insertI2 [OF singletonI]] mergeAxis_again
      by (simp add: theme_entries_def)
  qed
  have "put_all ?E (put_all ?E kvs) = put_all ?E kvs"
  proof (rule put_all_same, clarify)
    fix x w assume "(x, w) \<in> set ?E"
    then have "map_of ?E x = Some w"
      by (intro map_of_is_SomeI) (simp_all add: themed_keys)
    then show "map_of (put_all ?E kvs) x = Some w" by (simp add: themed_get)
  qed
  then have again: ?again unfolding l by (simp add: themedLayout_def entries)
  from rest axes again show ?thesis by blast
qed

lemma themed_layout_preserves_witness:
  "js_prop (js_prop (themedLayout None True (JObj [(''xaxis'', JObj [(''title'', JStr ''week'')])])) ''xaxis'') ''title''
     = JStr ''week''"
proof -
  let ?l = "[(''xaxis'', JObj [(''title'', JStr ''week'')])]"
  have "map_of ?l ''xaxis'' = Some (JObj [(''title'', JStr ''week'')]) \<and> jok [(''title'', JStr ''week'')]"
    by (simp add: jok_def)
  moreover have "''xaxis'' \<in> {''xaxis'', ''yaxis''}" by simp
  ultimately have "js_prop (js_prop (themedLayout None True (JObj ?l)) ''xaxis'') ''title'' =
      (if ''title'' = ''tickfont'' then tick_font (viewer_colors None True)
       else case map_of [(''title'', JStr ''week'')] ''title'' of Some v \<Rightarrow> v
         | None \<Rightarrow> or_else (map_of (axisTheme (viewer_colors None True)) ''title'') JUndef)"
    using themed_layout_preserves [of "''title''" None True ?l "''title''"] by blast
  then show ?thesis by simp
qed

text \<open>A chart card is always in exactly one phase: being built while the call has no result, the text
  of the failure (its first 400 characters) when the result is not a chart, loading until the file
  is read or fails to load, and then the failure or the drawing; it asks for a file exactly when
  the result names one, and a result read back from the message history as text gives the same
  card as the object it was written from.\<close>

theorem chart_card_phases:
  "(let card = ChartCard parse check_result cache tc in
    case present_id (tc_result tc) of
      None \<Rightarrow> cc_parts card = [PBuilding] \<and> cc_key card = None \<and> cc_title card = pendingTitle (tc_args tc)
    | Some text \<Rightarrow>
        (case parseChartResult parse check_result (JStr text) of
           None \<Rightarrow> cc_parts card = [PToolError (take 400 text)] \<and> cc_key card = None
         | Some r \<Rightarrow> cc_key card = Some (cr_path r) \<and>
             (case cache (cr_path r) of
                (None, None) \<Rightarrow> cc_parts card = [PLoading] \<and> cc_title card = cr_title r
              | (None, Some err) \<Rightarrow> cc_parts card = [PLoadError err] \<and> cc_title card = cr_title r
              | (Some e, None) \<Rightarrow> cc_parts card = drawing e \<and> cc_title card = ce_title e
              | (Some e, Some err) \<Rightarrow> cc_parts card = PLoadError err # drawing e))) \<and>
   (\<forall>v raw. json_stringify v = Some raw \<and> parse raw = Some v \<and> (\<forall>s. v \<noteq> JStr s) \<longrightarrow>
      parseChartResult parse check_result (JStr raw) = parseChartResult parse check_result v)"
  by (auto simp: ChartCard_def Let_def opt_part_def parseChartResult_def split: option.split prod.split json.split)

lemma chart_card_phases_witness:
  "parseChartResult (\<lambda>_. Some (JBool True)) (\<lambda>v. if v = JBool True then Some \<lparr>cr_path = ''/charts/a'', cr_title = ''A'', cr_kind = ''bar''\<rparr> else None)
     (JStr ''true'') =
   Some \<lparr>cr_path = ''/charts/a'', cr_title = ''A'', cr_kind = ''bar''\<rparr>"
proof -
  let ?p = "\<lambda>_ :: string. Some (JBool True)"
  let ?c = "\<lambda>v. if v = JBool True then Some \<lparr>cr_path = ''/charts/a'', cr_title = ''A'', cr_kind = ''bar''\<rparr> else None"
  have "json_stringify (JBool True) = Some ''true'' \<and> ?p ''true'' = Some (JBool True) \<and> (\<forall>s. JBool True \<noteq> JStr s)"
    by (simp add: json_stringify_def)
  then have "parseChartResult ?p ?c (JStr ''true'') = parseChartResult ?p ?c (JBool True)"
    using chart_card_phases [of ?p ?c _ undefined] by blast
  then show ?thesis by (simp add: parseChartResult_def)
qed

text \<open>A card without a value is compared as zero, since \<^verbatim>\<open>Number(null)\<close> is 0.\<close>

lemma missing_value_compared:
  "to_number JNull = Some 0 \<Longrightarrow> to_number (JNum 10) = Some 10 \<Longrightarrow>
   KpiTile to_number nf percent_text \<lparr>ck_value = JNull, ck_label = l, ck_format = ''number'', ck_previous = JNum 10\<rparr>
     = \<lparr>kt_value = Some ''-'', kt_label = l,
        kt_change = Some (False, percent_text 0 10, Some (nf_number nf 10))\<rparr>"
  by (simp add: KpiTile_def formatValue_def FORMATTERS_def)

text \<open>A format that names an inherited member is not formatted as a number.\<close>

lemma inherited_format: "to_number (JNum 1) = Some n \<Longrightarrow> formatValue to_number nf (JNum 1) ''constructor'' = None"
  by (simp add: formatValue_def FORMATTERS_def js_member_def object_prototype_def)

end
