(* ===== verification/Page.thy ===== *)
theory Page
imports ChatFiles UiState Messages
begin

text \<open>
  Page: the page around the chat (\<^verbatim>\<open>app/page.tsx\<close>) and its top bar
  (\<^verbatim>\<open>app/components/TopBar.tsx\<close>): which agent and thread the address and the stored choice name,
  how a choice the user may not run is dropped, how the assistant of the agent is fetched, and
  what is shown before a configuration exists. The address is the two query parameters of the
  state; the backend's answers are arguments.
\<close>

section \<open>The assistant of an agent\<close>

definition is_hex :: "char \<Rightarrow> bool" where
  "is_hex c = (c \<in> set ''0123456789abcdefABCDEF'')"

text \<open>\<^verbatim>\<open>/^[0-9a-f]{8}-[0-9a-f]{4}-[0-9a-f]{4}-[0-9a-f]{4}-[0-9a-f]{12}$/i\<close>\<close>

definition is_uuid :: "string \<Rightarrow> bool" where
  "is_uuid s =
     (let ws = split_on (CHR ''-'') s in
      map length ws = [8, 4, 4, 4, 12] \<and> list_all (list_all is_hex) ws)"

datatype fetch_request = GetAssistant string | SearchAssistants string nat

datatype fetch_reply = GotAssistant "assistant result" | FoundAssistants "assistant list result"

definition assistant_request :: "string \<Rightarrow> fetch_request" where
  "assistant_request i = (if is_uuid i then GetAssistant i else SearchAssistants i 100)"

definition bare_assistant :: "string \<Rightarrow> string \<Rightarrow> assistant" where
  "bare_assistant i name =
     \<lparr>assistant_id = i, graph_id = i, as_config = JObj [], as_metadata = JObj [], as_name = name\<rparr>"

definition is_default :: "assistant \<Rightarrow> bool" where
  "is_default a = (js_prop (as_metadata a) ''created_by'' = JStr ''system'')"

text \<open>What \<^verbatim>\<open>fetchAssistant\<close> sets once its request has settled.\<close>

definition fetched_assistant :: "string \<Rightarrow> fetch_reply \<Rightarrow> assistant" where
  "fetched_assistant i answer =
     (case answer of
        GotAssistant (Inr a) \<Rightarrow> a
      | GotAssistant (Inl _) \<Rightarrow> bare_assistant i ''Assistant''
      | FoundAssistants (Inr as) \<Rightarrow>
          (case find is_default as of Some a \<Rightarrow> a | None \<Rightarrow> bare_assistant i i)
      | FoundAssistants (Inl _) \<Rightarrow> bare_assistant i i)"

section \<open>State\<close>

text \<open>\<open>hp_fetches\<close> are the requests under way, oldest first, with the agent each was sent for.\<close>

record home_page =
  hp_config :: json
  hp_storage :: "(string, string) jmap"
  hp_agentParam :: "string option"
  hp_threadId :: "string option"
  hp_availability :: "(string, agent_access) jmap"
  hp_assistant :: "assistant option"
  hp_fetches :: "string list"
  hp_panel :: threads_panel

definition with_selected :: "json \<Rightarrow> json \<Rightarrow> json" where
  "with_selected config v = spread_with config [(''selectedAgentId'', v)]"

text \<open>A dynamic identifier in a text context, such as the pattern test of \<^verbatim>\<open>fetchAssistant\<close>.\<close>

definition activeAgentId :: "home_page \<Rightarrow> string" where
  "activeAgentId st =
     js_string (getEffectiveAgentId
       (case present_id (hp_agentParam st) of
          Some p \<Rightarrow> with_selected (hp_config st) (JStr p)
        | None \<Rightarrow> hp_config st)
       (hp_availability st))"

definition handleSaveConfig :: "json \<Rightarrow> home_page \<Rightarrow> home_page" where
  "handleSaveConfig config st =
     st\<lparr>hp_storage := saveConfig True config (hp_storage st), hp_config := config\<rparr>"

definition drop_param :: "home_page \<Rightarrow> home_page" where
  "drop_param st =
     (case present_id (hp_agentParam st) of
        Some p \<Rightarrow>
          if agentAccess (hp_availability st) p \<noteq> Own Allowed
          then st\<lparr>hp_agentParam := None, hp_threadId := None\<rparr> else st
      | None \<Rightarrow> st)"

definition drop_stored :: "home_page \<Rightarrow> home_page" where
  "drop_stored st =
     (let stored = js_prop (hp_config st) ''selectedAgentId'' in
      if truthy stored \<and> agentAccess (hp_availability st) (js_string stored) \<noteq> Own Allowed
      then handleSaveConfig (with_selected (hp_config st) JUndef) st else st)"

definition drop_effect :: "home_page \<Rightarrow> home_page" where
  "drop_effect st = drop_stored (drop_param st)"

definition handleSelectAgent :: "string \<Rightarrow> home_page \<Rightarrow> home_page" where
  "handleSelectAgent gid st =
     (handleSaveConfig (with_selected (hp_config st) (JStr gid)) st)
       \<lparr>hp_agentParam := Some gid, hp_threadId := None\<rparr>"

definition handleThreadSelect :: "string \<Rightarrow> home_page \<Rightarrow> home_page" where
  "handleThreadSelect i st = st\<lparr>hp_threadId := Some i, hp_panel := onThreadSelected (hp_panel st)\<rparr>"

text \<open>The effect on \<^verbatim>\<open>fetchAssistant\<close>, which changes with the active agent.\<close>

definition fetch_effect :: "home_page \<Rightarrow> home_page \<Rightarrow> home_page" where
  "fetch_effect old st =
     (if activeAgentId st \<noteq> activeAgentId old
      then st\<lparr>hp_fetches := hp_fetches st @ [activeAgentId st]\<rparr> else st)"

text \<open>A render after a change: both effects, and the render after what the first one changed.\<close>

definition commit :: "home_page \<Rightarrow> home_page \<Rightarrow> home_page" where
  "commit old new =
     (let s1 = fetch_effect old new; s2 = drop_effect s1 in fetch_effect s1 s2)"

definition page_mount ::
  "json \<Rightarrow> (string, string) jmap \<Rightarrow> string option \<Rightarrow> string option \<Rightarrow> threads_panel \<Rightarrow> home_page" where
  "page_mount config storage param thread tpanel =
     (let s = \<lparr>hp_config = config, hp_storage = storage, hp_agentParam = param, hp_threadId = thread,
               hp_availability = [], hp_assistant = None, hp_fetches = [], hp_panel = tpanel\<rparr>;
          s1 = s\<lparr>hp_fetches := [activeAgentId s]\<rparr> in
      fetch_effect s1 (drop_effect s1))"

text \<open>The answer to the \<open>k\<close>-th of the requests under way.\<close>

definition assistant_reply :: "(string \<Rightarrow> fetch_reply) \<Rightarrow> nat \<Rightarrow> home_page \<Rightarrow> home_page" where
  "assistant_reply answer k st =
     (if k < length (hp_fetches st)
      then st\<lparr>hp_assistant := Some (fetched_assistant (hp_fetches st ! k) (answer (hp_fetches st ! k))),
              hp_fetches := take k (hp_fetches st) @ drop (k + 1) (hp_fetches st)\<rparr>
      else st)"

section \<open>The top bar\<close>

fun ACCESS_REASON :: "agent_access \<Rightarrow> string option" where
  "ACCESS_REASON AdminOnly = Some ''Administrators only''"
| "ACCESS_REASON NotDeployed = Some ''Not available on this deployment''"
| "ACCESS_REASON Allowed = None"

record picker_row =
  pr_graphId :: string
  pr_name :: string
  pr_text :: string
  pr_disabled :: bool
  pr_active :: bool

text \<open>The rows name registered agents, so no lookup meets an inherited member.\<close>

definition meta_of :: "string \<Rightarrow> agent_meta" where
  "meta_of gid = (case agentMeta (Some gid) of Own m \<Rightarrow> m | _ \<Rightarrow> fallback_meta (Some gid))"

definition picker_rows :: "string \<Rightarrow> (string, agent_access) jmap \<Rightarrow> picker_row list" where
  "picker_rows active availability =
     map (\<lambda>gid.
       let access = agentAccess availability gid;
           reason = (case access of Own a \<Rightarrow> ACCESS_REASON a | _ \<Rightarrow> None) in
       \<lparr>pr_graphId = gid, pr_name = agent_name (meta_of gid),
        pr_text = or_else reason (agent_description (meta_of gid)),
        pr_disabled = (access \<noteq> Own Allowed), pr_active = (gid = active)\<rparr>) AGENT_IDS"

definition prep_team :: "string \<Rightarrow> (string \<times> string \<times> string) list" where
  "prep_team active = (if active = CAREER_AGENT_ID then CAREER_SUBAGENTS else [])"

text \<open>A click on a row closes the menu and selects the agent, unless it is the active one.\<close>

definition press_row :: "picker_row \<Rightarrow> home_page \<Rightarrow> home_page" where
  "press_row r st =
     (if pr_disabled r \<or> pr_active r then st else handleSelectAgent (pr_graphId r) st)"

definition press_new_thread :: "home_page \<Rightarrow> home_page" where
  "press_new_thread st = (if present_id (hp_threadId st) = None then st else st\<lparr>hp_threadId := None\<rparr>)"

function collapse_space :: "string \<Rightarrow> string" where
  "collapse_space [] = []"
| "collapse_space (c # s) =
     (if is_space c then CHR '' '' # collapse_space (dropWhile is_space s) else c # collapse_space s)"
  by pat_completeness auto
termination
  by (relation "measure length") (auto simp: less_Suc_eq_le length_dropWhile_le)

text \<open>\<open>first_human\<close> is the text of the first message of the user, if there is one.\<close>

definition threadTitle :: "string option \<Rightarrow> string option \<Rightarrow> string" where
  "threadTitle threadId first_human =
     (if present_id threadId = None then ''New thread''
      else case first_human of
        None \<Rightarrow> ''Conversation''
      | Some s \<Rightarrow>
          (let txt = collapse_space (js_trim s) in
           if txt = [] then ''Conversation''
           else if length txt > 42 then take 42 txt @ ''...'' else txt))"

definition threadSub :: "string option \<Rightarrow> string \<Rightarrow> string" where
  "threadSub threadId name =
     (if present_id threadId \<noteq> None then name else ''New '' @ name @ '' conversation'')"

text \<open>The menu of the picker and of the user close on Escape and on a press outside.\<close>

datatype menu_event = MenuButton | PressOutside | PressInside | MenuKey string | MenuChoice

fun menu_react :: "bool \<Rightarrow> menu_event \<Rightarrow> bool" where
  "menu_react opened MenuButton = (\<not> opened)"
| "menu_react opened PressOutside = False"
| "menu_react opened PressInside = opened"
| "menu_react opened (MenuKey k) = (if k = ''Escape'' then False else opened)"
| "menu_react opened MenuChoice = False"

section \<open>Before there is a configuration\<close>

record home_content =
  hc_config :: json
  hc_dialogOpen :: bool
  hc_storage :: "(string, string) jmap"

definition home_mount :: "build_env \<Rightarrow> (string \<Rightarrow> json option) \<Rightarrow> (string, string) jmap \<Rightarrow> home_content" where
  "home_mount e parse storage =
     (let saved = getConfig e parse True storage in
      \<lparr>hc_config = (if truthy saved then saved else JNull), hc_dialogOpen = (\<not> truthy saved), hc_storage = storage\<rparr>)"

datatype home_view =
    HomeUnavailable
  | HomeWelcome bool
  | HomeShown string "(string \<times> string) list"

definition langsmithApiKey :: "build_env \<Rightarrow> json \<Rightarrow> string" where
  "langsmithApiKey e config =
     (let k = js_prop config ''langsmithApiKey'' in
      if truthy k then js_string k
      else or_else (present_id (NEXT_PUBLIC_LANGSMITH_API_KEY e)) [])"

text \<open>The client of a configuration: its URL and the headers of every request.\<close>

definition client_headers :: "string \<Rightarrow> (string \<times> string) list" where
  "client_headers apiKey = [(''Content-Type'', ''application/json''), (''X-Api-Key'', apiKey)]"

definition home_view_of :: "build_env \<Rightarrow> home_content \<Rightarrow> home_view" where
  "home_view_of e st =
     (if \<not> truthy (hc_config st) then
        (if \<not> isConnectionSettingsEnabled e then HomeUnavailable else HomeWelcome (hc_dialogOpen st))
      else HomeShown (js_string (js_prop (hc_config st) ''deploymentUrl''))
             (client_headers (langsmithApiKey e (hc_config st))))"

section \<open>The page as a reducer\<close>

datatype page_event =
    Availability "(string, agent_access) jmap"
  | PressRow picker_row
  | SelectThread string
  | NewThread
  | SaveConfig json
  | UrlChanged "string option" "string option"
  | Reply nat

fun page_change :: "(string \<Rightarrow> fetch_reply) \<Rightarrow> home_page \<Rightarrow> page_event \<Rightarrow> home_page" where
  "page_change answer st (Availability a) = st\<lparr>hp_availability := a\<rparr>"
| "page_change answer st (PressRow r) = press_row r st"
| "page_change answer st (SelectThread i) = handleThreadSelect i st"
| "page_change answer st NewThread = press_new_thread st"
| "page_change answer st (SaveConfig c) = handleSaveConfig c st"
| "page_change answer st (UrlChanged p t) = st\<lparr>hp_agentParam := p, hp_threadId := t\<rparr>"
| "page_change answer st (Reply k) = assistant_reply answer k st"

definition page_react :: "(string \<Rightarrow> fetch_reply) \<Rightarrow> home_page \<Rightarrow> page_event \<Rightarrow> home_page" where
  "page_react answer st e = commit st (page_change answer st e)"

section \<open>Lemmas: choices\<close>

lemma selected_with [simp]:
  "js_prop (with_selected config v) ''selectedAgentId'' = v"
  by (simp add: with_selected_def js_prop_spread del: spread_with.simps)

lemma fetch_effect_same [simp]:
  "hp_config (fetch_effect old st) = hp_config st" "hp_storage (fetch_effect old st) = hp_storage st"
  "hp_agentParam (fetch_effect old st) = hp_agentParam st" "hp_threadId (fetch_effect old st) = hp_threadId st"
  "hp_availability (fetch_effect old st) = hp_availability st" "hp_panel (fetch_effect old st) = hp_panel st"
  "hp_assistant (fetch_effect old st) = hp_assistant st"
  by (simp_all add: fetch_effect_def)

lemma drop_effect_same [simp]:
  "hp_availability (drop_effect st) = hp_availability st" "hp_assistant (drop_effect st) = hp_assistant st"
  "hp_fetches (drop_effect st) = hp_fetches st" "hp_panel (drop_effect st) = hp_panel st"
  by (simp_all add: drop_effect_def drop_stored_def drop_param_def handleSaveConfig_def Let_def split: option.split)

lemma active_cong:
  "hp_config st = hp_config st' \<Longrightarrow> hp_agentParam st = hp_agentParam st' \<Longrightarrow>
   hp_availability st = hp_availability st' \<Longrightarrow> activeAgentId st = activeAgentId st'"
  by (simp only: activeAgentId_def)

lemma active_fetch [simp]: "activeAgentId (fetch_effect old st) = activeAgentId st"
  by (rule active_cong) simp_all

lemma drop_fetches: "drop_effect (st\<lparr>hp_fetches := fs\<rparr>) = (drop_effect st)\<lparr>hp_fetches := fs\<rparr>"
  by (auto simp: drop_effect_def drop_stored_def drop_param_def handleSaveConfig_def Let_def split: option.split)

lemma drop_fetch_effect: "\<exists>fs. drop_effect (fetch_effect old st) = (drop_effect st)\<lparr>hp_fetches := fs\<rparr>"
proof -
  have "\<exists>fs. fetch_effect old st = st\<lparr>hp_fetches := fs\<rparr>"
    by (auto simp: fetch_effect_def intro: exI [of _ "hp_fetches st"])
  then show ?thesis using drop_fetches by metis
qed

definition choices_ok :: "home_page \<Rightarrow> bool" where
  "choices_ok st =
     ((\<forall>p. present_id (hp_agentParam st) = Some p \<longrightarrow> agentAccess (hp_availability st) p = Own Allowed) \<and>
      (let stored = js_prop (hp_config st) ''selectedAgentId'' in
       truthy stored \<longrightarrow> agentAccess (hp_availability st) (js_string stored) = Own Allowed))"

lemma drop_effect_ok: "choices_ok (drop_effect st)"
proof -
  have p: "present_id (hp_agentParam (drop_param st)) = Some p \<Longrightarrow> agentAccess (hp_availability st) p = Own Allowed" for p
    by (auto simp: drop_param_def present_id_def split: option.splits if_splits)
  have a: "hp_availability (drop_param st) = hp_availability st" "hp_agentParam (drop_stored s) = hp_agentParam s"
    "hp_availability (drop_stored s) = hp_availability s" for s
    by (simp_all add: drop_param_def drop_stored_def handleSaveConfig_def Let_def split: option.split)
  have s: "truthy (js_prop (hp_config (drop_stored s)) ''selectedAgentId'') \<Longrightarrow>
      agentAccess (hp_availability s) (js_string (js_prop (hp_config (drop_stored s)) ''selectedAgentId'')) = Own Allowed" for s
    by (cases "truthy (js_prop (hp_config s) ''selectedAgentId'') \<and>
        agentAccess (hp_availability s) (js_string (js_prop (hp_config s) ''selectedAgentId'')) \<noteq> Own Allowed")
      (auto simp: drop_stored_def handleSaveConfig_def Let_def)
  show ?thesis
    using p s [of "drop_param st"] by (simp add: choices_ok_def drop_effect_def a Let_def)
qed

lemma choices_ok_fixed: "choices_ok st \<Longrightarrow> drop_effect st = st"
  by (auto simp: choices_ok_def drop_effect_def drop_param_def drop_stored_def Let_def split: option.split)

lemma choices_fetch [simp]: "choices_ok (fetch_effect old st) = choices_ok st"
  by (simp add: choices_ok_def)

lemma mount_choices: "choices_ok (page_mount config storage param thread tpanel)"
  by (simp add: page_mount_def Let_def drop_effect_ok)

lemma commit_choices: "choices_ok (commit old new)"
  using drop_effect_ok [of "fetch_effect old new"] by (simp add: commit_def choices_ok_def Let_def)

lemma commit_fields:
  "hp_config (commit old new) = hp_config (drop_effect new)"
  "hp_agentParam (commit old new) = hp_agentParam (drop_effect new)"
  "hp_threadId (commit old new) = hp_threadId (drop_effect new)"
  "hp_storage (commit old new) = hp_storage (drop_effect new)"
  "hp_availability (commit old new) = hp_availability new"
proof -
  obtain fs where "drop_effect (fetch_effect old new) = (drop_effect new)\<lparr>hp_fetches := fs\<rparr>"
    using drop_fetch_effect by blast
  then show "hp_config (commit old new) = hp_config (drop_effect new)"
    "hp_agentParam (commit old new) = hp_agentParam (drop_effect new)"
    "hp_threadId (commit old new) = hp_threadId (drop_effect new)"
    "hp_storage (commit old new) = hp_storage (drop_effect new)"
    "hp_availability (commit old new) = hp_availability new"
    by (simp_all add: commit_def Let_def)
qed

lemma drop_thread:
  "hp_threadId (drop_effect st) =
     (if \<exists>p. present_id (hp_agentParam st) = Some p \<and> agentAccess (hp_availability st) p \<noteq> Own Allowed
      then None else hp_threadId st)"
  "hp_agentParam (drop_effect st) =
     (if \<exists>p. present_id (hp_agentParam st) = Some p \<and> agentAccess (hp_availability st) p \<noteq> Own Allowed
      then None else hp_agentParam st)"
  by (auto simp: drop_effect_def drop_stored_def drop_param_def handleSaveConfig_def Let_def split: option.split)

lemma active_commit: "activeAgentId (commit old new) = activeAgentId (drop_effect new)"
  by (rule active_cong) (simp_all add: commit_fields)

section \<open>Properties\<close>


definition plain_page :: home_page where
  "plain_page = page_mount (JObj [(''assistantId'', JStr ''career_agent'')]) [] (Some ''analytics_agent'') (Some ''t1'')
     (panel_init True None)"


section \<open>Lemmas: the assistant follows the agent\<close>

text \<open>The newest request under way is for the agent \<open>a\<close>; with none, its assistant is there.\<close>

definition follows :: "(string \<Rightarrow> fetch_reply) \<Rightarrow> string \<Rightarrow> home_page \<Rightarrow> bool" where
  "follows answer a st =
     (if hp_fetches st = [] then hp_assistant st = Some (fetched_assistant a (answer a))
      else last (hp_fetches st) = a)"

lemma follows_fetch: "follows answer (activeAgentId old) st \<Longrightarrow> follows answer (activeAgentId st) (fetch_effect old st)"
  by (auto simp: follows_def fetch_effect_def)

lemma follows_drop: "follows answer a (drop_effect st) = follows answer a st"
  by (simp add: follows_def)

lemma follows_commit:
  assumes "follows answer (activeAgentId old) new"
  shows "follows answer (activeAgentId (commit old new)) (commit old new)"
proof -
  let ?s1 = "fetch_effect old new"
  have "follows answer (activeAgentId ?s1) (drop_effect ?s1)"
    using follows_fetch [OF assms] by (simp add: follows_drop)
  from follows_fetch [OF this] show ?thesis by (simp add: commit_def Let_def)
qed

definition in_order :: "page_event \<Rightarrow> page_event" where
  "in_order e = (case e of Reply _ \<Rightarrow> Reply 0 | _ \<Rightarrow> e)"

lemma follows_change:
  assumes "follows answer a st" shows "follows answer a (page_change answer st (in_order e))"
proof (cases e)
  case (Reply k)
  show ?thesis
  proof (cases "hp_fetches st")
    case (Cons b bs)
    then have step: "page_change answer st (in_order e) =
        st\<lparr>hp_assistant := Some (fetched_assistant b (answer b)), hp_fetches := bs\<rparr>"
      by (simp add: Reply in_order_def assistant_reply_def)
    from assms show ?thesis unfolding step by (auto simp: follows_def Cons)
  qed (use assms in \<open>simp add: Reply in_order_def assistant_reply_def\<close>)
qed (use assms in \<open>auto simp: follows_def in_order_def press_row_def handleSelectAgent_def handleSaveConfig_def
      handleThreadSelect_def press_new_thread_def\<close>)

definition follows_active :: "(string \<Rightarrow> fetch_reply) \<Rightarrow> home_page \<Rightarrow> bool" where
  "follows_active answer st = follows answer (activeAgentId st) st"

interpretation pg: reducer "page_mount config storage param thread tpanel"
  "\<lambda>st e. page_react answer st (in_order e)" "follows_active answer"
  for config storage param thread tpanel answer
proof
  let ?s = "\<lparr>hp_config = config, hp_storage = storage, hp_agentParam = param, hp_threadId = thread,
      hp_availability = [], hp_assistant = None, hp_fetches = [], hp_panel = tpanel\<rparr>"
  let ?s1 = "?s\<lparr>hp_fetches := [activeAgentId ?s]\<rparr>"
  have "activeAgentId ?s1 = activeAgentId ?s" by (rule active_cong) simp_all
  then have "follows answer (activeAgentId ?s1) (drop_effect ?s1)" by (simp add: follows_drop follows_def)
  from follows_fetch [OF this] show "follows_active answer (page_mount config storage param thread tpanel)"
    by (simp add: page_mount_def Let_def follows_active_def)
next
  fix s e assume "follows_active answer s"
  then show "follows_active answer (page_react answer s (in_order e))"
    unfolding follows_active_def page_react_def by (intro follows_commit follows_change)
qed

text \<open>C19: The assistant follows the agent. As long as the backend answers in the order it was asked, then
  whatever the user, the address and the availability check did, once no request is under way the
  assistant on the page is the one fetched for the active agent; a failed request still gives an
  assistant of that agent.\<close>

theorem assistant_follows_agent:
  assumes "st = foldl (\<lambda>st e. page_react answer st (in_order e)) (page_mount config storage param thread tpanel) es"
    and "hp_fetches st = []"
  shows "hp_assistant st = Some (fetched_assistant (activeAgentId st) (answer (activeAgentId st))) \<and>
         (answer (activeAgentId st) \<in> {GotAssistant (Inl err), FoundAssistants (Inl err)} \<longrightarrow>
            map_option graph_id (hp_assistant st) = Some (activeAgentId st))"
proof -
  have "follows_active answer st" unfolding assms(1) by (rule pg.run_start_good)
  with assms(2) have "hp_assistant st = Some (fetched_assistant (activeAgentId st) (answer (activeAgentId st)))"
    by (simp add: follows_active_def follows_def)
  then show ?thesis by (auto simp: fetched_assistant_def bare_assistant_def)
qed

lemma assistant_follows_agent_witness:
  "map_option graph_id (hp_assistant (foldl (\<lambda>st e. page_react (\<lambda>_. FoundAssistants (Inl ''offline'')) st (in_order e))
     (page_mount (JObj []) [] None None (panel_init True None)) [Reply 0])) = Some ''career_agent''"
proof -
  let ?a = "\<lambda>_ :: string. FoundAssistants (Inl ''offline'')"
  let ?st = "foldl (\<lambda>st e. page_react ?a st (in_order e)) (page_mount (JObj []) [] None None (panel_init True None)) [Reply 0]"
  have "hp_fetches ?st = []" "activeAgentId ?st = ''career_agent''" by code_simp+
  from assistant_follows_agent [OF refl this(1), of "''offline''"] this(2) show ?thesis
    by (simp add: fetched_assistant_def bare_assistant_def)
qed

text \<open>Nothing cancels a request when the agent changes: a late answer puts the former agent's
  assistant on the page.\<close>

lemma late_answer_wins:
  assumes "hp_fetches st = [old, activeAgentId st]" and "answer old = FoundAssistants (Inl e)"
    and "st1 = assistant_reply answer 1 st" and "st2 = assistant_reply answer 0 st1"
  shows "hp_fetches st2 = [] \<and> map_option graph_id (hp_assistant st2) = Some old"
  using assms by (simp add: assistant_reply_def fetched_assistant_def bare_assistant_def)

section \<open>Lemmas and property: the picker\<close>

lemma agent_known: "gid \<in> set AGENT_IDS \<Longrightarrow> isKnownAgentId (JStr gid)"
  by (simp add: isKnownAgentId_iff)

lemma active_selected:
  assumes "isKnownAgentId (JStr gid)" "agentAccess (hp_availability st) gid = Own Allowed"
    and "present_id (hp_agentParam st) = Some gid \<or>
         present_id (hp_agentParam st) = None \<and> js_prop (hp_config st) ''selectedAgentId'' = JStr gid"
  shows "activeAgentId st = gid"
  using assms by (auto simp: activeAgentId_def getEffectiveAgentId_def access_allowed_def Let_def)

text \<open>The picker switches agents cleanly. Its rows are the registered agents, disabled with a reason
  exactly when the user may not run them; pressing an enabled row other than the active one makes
  that agent active, starts a new thread, asks for its assistant and stores the choice, so that it
  is still active when the address loses its parameter; pressing a disabled row does nothing.\<close>

theorem picker_switches:
  assumes "r \<in> set (picker_rows (activeAgentId st) (hp_availability st))" and "choices_ok st"
  shows "(pr_disabled r \<longleftrightarrow> agentAccess (hp_availability st) (pr_graphId r) \<noteq> Own Allowed) \<and>
         (pr_disabled r \<or> pr_active r \<longrightarrow> page_react answer st (PressRow r) = st) \<and>
         (\<not> pr_disabled r \<and> \<not> pr_active r \<longrightarrow>
            (let st' = page_react answer st (PressRow r); after = page_react answer st' (UrlChanged None t) in
             activeAgentId st' = pr_graphId r \<and> hp_threadId st' = None \<and>
             hp_fetches st' = hp_fetches st @ [pr_graphId r] \<and>
             map_of (hp_storage st') CONFIG_KEY = json_stringify (hp_config st') \<and>
             activeAgentId after = pr_graphId r))"
proof -
  let ?g = "pr_graphId r"
  have r: "?g \<in> set AGENT_IDS" "pr_disabled r \<longleftrightarrow> agentAccess (hp_availability st) ?g \<noteq> Own Allowed"
    "pr_active r \<longleftrightarrow> ?g = activeAgentId st"
    using assms(1) by (auto simp: picker_rows_def Let_def)
  have ne: "?g \<noteq> []" using r(1) by (auto simp: AGENT_IDS_def CAREER_AGENT_ID_def ANALYTICS_AGENT_ID_def)
  have idle: "page_react answer st (PressRow r) = st" if "pr_disabled r \<or> pr_active r"
    using that choices_ok_fixed [OF assms(2)]
    by (auto simp: page_react_def press_row_def commit_def Let_def fetch_effect_def)
  have pressed: "activeAgentId st' = ?g \<and> hp_threadId st' = None \<and> hp_fetches st' = hp_fetches st @ [?g] \<and>
      map_of (hp_storage st') CONFIG_KEY = json_stringify (hp_config st') \<and> activeAgentId after = ?g"
    if "\<not> pr_disabled r" "\<not> pr_active r" "st' = page_react answer st (PressRow r)"
      "after = page_react answer st' (UrlChanged None t)" for st' after
  proof -
    let ?n = "handleSelectAgent ?g st"
    have n: "js_prop (hp_config ?n) ''selectedAgentId'' = JStr ?g" "hp_agentParam ?n = Some ?g" "hp_threadId ?n = None"
      "hp_availability ?n = hp_availability st" "hp_fetches ?n = hp_fetches st"
      "map_of (hp_storage ?n) CONFIG_KEY = Some (or_else (json_stringify (hp_config ?n)) ''undefined'')"
      by (simp_all add: handleSelectAgent_def handleSaveConfig_def saveConfig_def)
    have allowed: "agentAccess (hp_availability st) ?g = Own Allowed" using that(1) r(2) by simp
    have "choices_ok ?n" by (simp add: choices_ok_def n allowed present_id_def ne)
    then have same: "drop_effect ?n = ?n" "drop_effect (fetch_effect st ?n) = fetch_effect st ?n"
      by (intro choices_ok_fixed; simp add: choices_ok_def)+
    have act: "activeAgentId ?n = ?g"
      by (rule active_selected [OF agent_known [OF r(1)]]) (simp_all add: n allowed present_id_def ne)
    have st': "st' = fetch_effect st ?n"
      using that(1,2) unfolding that(3) page_react_def commit_def
      by (simp add: press_row_def Let_def same) (simp add: fetch_effect_def)
    have sel: "hp_config st' = hp_config ?n" "hp_availability st' = hp_availability st" by (simp_all add: st' n)
    let ?b = "st'\<lparr>hp_agentParam := None, hp_threadId := t\<rparr>"
    have "choices_ok ?b" by (simp add: choices_ok_def sel n allowed Let_def present_id_def)
    then have "drop_effect ?b = ?b" by (rule choices_ok_fixed)
    moreover have "activeAgentId ?b = ?g"
      by (rule active_selected [OF agent_known [OF r(1)]]) (simp_all add: sel n allowed present_id_def)
    ultimately have returned: "activeAgentId after = ?g"
      unfolding that(4) page_react_def active_commit page_change.simps by simp
    have "hp_config ?n \<noteq> JUndef" by (simp add: handleSelectAgent_def handleSaveConfig_def with_selected_def)
    moreover have "activeAgentId st' = ?g" by (simp add: st' act)
    moreover have "hp_fetches st' = hp_fetches st @ [?g]"
      using act r(3) that(2) by (simp add: st' n fetch_effect_def)
    ultimately show ?thesis using returned by (simp add: st' n json_stringify_def)
  qed
  show ?thesis unfolding Let_def using r(2) idle pressed [OF _ _ refl refl] by blast
qed

lemma picker_switches_witness:
  "activeAgentId (page_react (\<lambda>_. FoundAssistants (Inr [])) (page_mount (JObj []) [] None (Some ''t'') (panel_init True None))
     (PressRow (picker_rows ''career_agent'' [] ! 1))) = ''analytics_agent''"
proof -
  let ?st = "page_mount (JObj []) [] None (Some ''t'') (panel_init True None)"
  let ?r = "picker_rows ''career_agent'' [] ! 1"
  have a: "activeAgentId ?st = ''career_agent''" "hp_availability ?st = []" "pr_graphId ?r = ''analytics_agent''"
    "\<not> pr_disabled ?r" "\<not> pr_active ?r" by code_simp+
  have "length (picker_rows ''career_agent'' []) = 2" by code_simp
  then have "?r \<in> set (picker_rows (activeAgentId ?st) (hp_availability ?st))" by (simp add: a)
  moreover have "choices_ok ?st" by (rule mount_choices)
  ultimately show ?thesis
    using picker_switches [of ?r ?st "\<lambda>_. FoundAssistants (Inr [])" None] a by (simp add: Let_def)
qed

end
