(* ===== verification/Account.thy ===== *)
theory Account
imports AuthToken Page FilesPanel
begin

text \<open>
  Account: signing in and out (\<^verbatim>\<open>app/login/page.tsx\<close>, \<^verbatim>\<open>app/components/auth/UserMenu.tsx\<close>) and the
  appearance of the page (\<^verbatim>\<open>providers/AccentProvider.tsx\<close>, the script of \<^verbatim>\<open>app/layout.tsx\<close>,
  \<^verbatim>\<open>app/components/AppearanceSettings.tsx\<close>). The answers of the auth server and the storage of
  the browser are arguments.
\<close>

section \<open>Signing in\<close>

datatype sign_mode = SignIn | SignUp

record login_form =
  lf_mode :: sign_mode
  lf_name :: string
  lf_email :: string
  lf_password :: string
  lf_error :: "string option"
  lf_busy :: bool
  lf_redirects :: nat

definition login_init :: login_form where
  "login_init = \<lparr>lf_mode = SignIn, lf_name = [], lf_email = [], lf_password = [], lf_error = None,
     lf_busy = False, lf_redirects = 0\<rparr>"

datatype auth_request =
    SignInEmail string string
  | SignUpEmail string string string
  | SignInSocial string string

text \<open>What an auth call resolves to: no error, or an error with or without a message.\<close>

datatype auth_answer = AuthOk | AuthError "string option"

text \<open>
  \<^verbatim>\<open>handleEmailSubmit\<close> up to the request; the submit button is disabled while one runs. The form
  is there only where email and password are enabled.
\<close>

definition submit_email :: "build_env \<Rightarrow> login_form \<Rightarrow> auth_request option \<times> login_form" where
  "submit_email e st =
     (if \<not> isEmailPasswordAuthEnabled e \<or> lf_busy st then (None, st)
      else (Some (case lf_mode st of
                    SignIn \<Rightarrow> SignInEmail (lf_email st) (lf_password st)
                  | SignUp \<Rightarrow> SignUpEmail (lf_name st) (lf_email st) (lf_password st)),
            st\<lparr>lf_error := None, lf_busy := True\<rparr>))"

definition email_settled :: "auth_answer result \<Rightarrow> login_form \<Rightarrow> login_form" where
  "email_settled answer st =
     (case answer of
        Inl _ \<Rightarrow> st
      | Inr AuthOk \<Rightarrow> st\<lparr>lf_redirects := lf_redirects st + 1\<rparr>
      | Inr (AuthError m) \<Rightarrow> st\<lparr>lf_error := Some (or_else m ''Authentication failed'')\<rparr>)\<lparr>lf_busy := False\<rparr>"

definition submit_google :: "build_env \<Rightarrow> login_form \<Rightarrow> auth_request option \<times> login_form" where
  "submit_google e st =
     (if \<not> isGoogleAuthEnabled e then (None, st)
      else (Some (SignInSocial ''google'' ''/''), st\<lparr>lf_error := None\<rparr>))"

definition google_settled :: "auth_answer result \<Rightarrow> login_form \<Rightarrow> login_form" where
  "google_settled answer st =
     (case answer of
        Inr (AuthError m) \<Rightarrow> st\<lparr>lf_error := Some (or_else m ''Google sign-in failed'')\<rparr>
      | _ \<Rightarrow> st)"

definition toggleMode :: "login_form \<Rightarrow> login_form" where
  "toggleMode st =
     st\<lparr>lf_mode := (case lf_mode st of SignIn \<Rightarrow> SignUp | SignUp \<Rightarrow> SignIn), lf_error := None\<rparr>"

text \<open>The effect on the session: a signed-in visitor goes to the app.\<close>

definition session_effect :: "bool \<Rightarrow> bool \<Rightarrow> login_form \<Rightarrow> login_form" where
  "session_effect is_pending has_session st =
     (if \<not> is_pending \<and> has_session then st\<lparr>lf_redirects := lf_redirects st + 1\<rparr> else st)"

datatype login_part =
    GoogleButton
  | OrRule
  | ErrorText string
  | NoMethod
  | NameField string
  | EmailField string
  | PasswordField string string
  | SubmitButton string bool
  | ModeSwitch string string

definition login_parts :: "build_env \<Rightarrow> login_form \<Rightarrow> login_part list" where
  "login_parts e st =
     (let google = isGoogleAuthEnabled e; email = isEmailPasswordAuthEnabled e;
          shown = (case present_id (lf_error st) of Some m \<Rightarrow> [ErrorText m] | None \<Rightarrow> []) in
      (if google then [GoogleButton] else []) @
      (if google \<and> email then [OrRule] else []) @
      (if google \<and> \<not> email then shown else []) @
      (if \<not> google \<and> \<not> email then [NoMethod] else []) @
      (if email then
         (if lf_mode st = SignUp then [NameField (lf_name st)] else []) @
         [EmailField (lf_email st),
          PasswordField (lf_password st)
            (case lf_mode st of SignIn \<Rightarrow> ''current-password'' | SignUp \<Rightarrow> ''new-password'')] @
         shown @
         [SubmitButton (if lf_busy st then ''Please wait...''
            else case lf_mode st of SignIn \<Rightarrow> ''Sign in'' | SignUp \<Rightarrow> ''Create account'') (lf_busy st),
          (case lf_mode st of
             SignIn \<Rightarrow> ModeSwitch ''New to NextRole?'' ''Create an account''
           | SignUp \<Rightarrow> ModeSwitch ''Already have an account?'' ''Sign in'')]
       else []))"

datatype login_view = BackHome | LoginShown "login_part list"

definition login_page :: "build_env \<Rightarrow> login_form \<Rightarrow> login_view" where
  "login_page e st = (if \<not> isAuthEnabled e then BackHome else LoginShown (login_parts e st))"

section \<open>The menu of the user\<close>

record session_user =
  su_name :: string
  su_email :: string

definition user_initial :: "session_user \<Rightarrow> string" where
  "user_initial u =
     map upper_char (take 1 (if su_name u \<noteq> [] then su_name u else if su_email u \<noteq> [] then su_email u else ''?''))"

datatype menu_view = MenuHidden | MenuChip string string "(string \<times> string) option"

definition user_menu_of :: "bool \<Rightarrow> session_user option \<Rightarrow> bool \<Rightarrow> menu_view" where
  "user_menu_of multi_user session opened =
     (if \<not> multi_user then MenuHidden
      else case session of
        None \<Rightarrow> MenuHidden
      | Some u \<Rightarrow> MenuChip (user_initial u) (su_email u)
          (if opened then Some (if su_name u = [] then ''Signed in'' else su_name u, su_email u) else None))"

text \<open>
  The tab of the browser: the menu, the module state of \<^verbatim>\<open>lib/auth/token.ts\<close>, which lives as long
  as the tab, and the page the router was sent to. \<^verbatim>\<open>handleSignOut\<close> ends the session of the
  server and replaces the page.
\<close>

record browser_tab =
  bt_open :: bool
  bt_token :: "cached_token option"
  bt_route :: string

definition handleSignOut :: "unit result \<Rightarrow> browser_tab \<Rightarrow> unit result \<times> browser_tab" where
  "handleSignOut answer st =
     (case answer of
        Inl e \<Rightarrow> (throws e, st\<lparr>bt_open := False\<rparr>)
      | Inr _ \<Rightarrow> (returns (), st\<lparr>bt_open := False, bt_route := ''/login''\<rparr>))"

definition tab_request :: "auth_world \<Rightarrow> http_init \<Rightarrow> browser_tab \<Rightarrow> http_init \<times> browser_tab" where
  "tab_request w i st = (let (req, c) = authOnRequest w (bt_token st) i in (req, st\<lparr>bt_token := c\<rparr>))"

section \<open>Accent\<close>

definition ACCENTS :: "string list" where
  "ACCENTS = [''emerald'', ''indigo'', ''blue'', ''coral'']"

definition DEFAULT_ACCENT :: string where
  "DEFAULT_ACCENT = ''emerald''"

definition isAccent :: "string option \<Rightarrow> bool" where
  "isAccent v = (case v of Some a \<Rightarrow> a \<in> set ACCENTS | None \<Rightarrow> False)"

text \<open>\<open>ac_works\<close> says whether the storage of the browser can be used; \<open>ac_attr\<close> is \<^verbatim>\<open>data-accent\<close>.\<close>

record accent_state =
  ac_accent :: string
  ac_attr :: "string option"
  ac_store :: "string option"
  ac_works :: bool

text \<open>The script that runs before the first paint.\<close>

definition accent_script :: "bool \<Rightarrow> string option \<Rightarrow> string option" where
  "accent_script works store =
     (if works \<and> (\<exists>a \<in> set [''indigo'', ''blue'', ''emerald'', ''coral'']. store = Some a) then store else None)"

text \<open>The page loads: the script, the initial state and the mount effect, which throws without storage.\<close>

definition accent_load :: "bool \<Rightarrow> string option \<Rightarrow> accent_state option" where
  "accent_load works store =
     (if \<not> works then None
      else Some \<lparr>ac_accent = (if isAccent store then or_else store DEFAULT_ACCENT else DEFAULT_ACCENT),
                 ac_attr = accent_script works store, ac_store = store, ac_works = works\<rparr>)"

definition setAccent :: "string \<Rightarrow> accent_state \<Rightarrow> accent_state" where
  "setAccent next_accent st =
     st\<lparr>ac_accent := next_accent, ac_attr := Some next_accent,
        ac_store := (if ac_works st then Some next_accent else ac_store st)\<rparr>"

definition THEME_OPTIONS :: "(string \<times> string) list" where
  "THEME_OPTIONS = [(''light'', ''Light''), (''dark'', ''Dark''), (''system'', ''System'')]"

definition ACCENT_SWATCH :: "(string, string) jmap" where
  "ACCENT_SWATCH = [(''indigo'', ''#5B5BD6''), (''blue'', ''#2563EB''), (''emerald'', ''#0E9F6E''), (''coral'', ''#E0623C'')]"

text \<open>The buttons of the settings: value, label or title, colour, and whether it is the active one.\<close>

definition theme_buttons :: "bool \<Rightarrow> string option \<Rightarrow> (string \<times> string \<times> bool) list" where
  "theme_buttons mounted theme =
     map (\<lambda>(v, l). (v, l, (if mounted then theme else None) = Some v)) THEME_OPTIONS"

definition accent_buttons :: "string \<Rightarrow> (string \<times> string \<times> string option \<times> bool) list" where
  "accent_buttons accent =
     map (\<lambda>v. (v, map upper_char (take 1 v) @ drop 1 v, map_of ACCENT_SWATCH v, accent = v)) ACCENTS"

section \<open>Properties\<close>

lemma error_shown:
  "isEmailPasswordAuthEnabled e \<Longrightarrow> lf_error st = Some m \<Longrightarrow> m \<noteq> [] \<Longrightarrow> ErrorText m \<in> set (login_parts e st)"
  by (simp add: login_parts_def present_id_def Let_def)

text \<open>Signing in is single and tells its outcome. A request goes out only where the method is enabled
  and none is under way, with the text typed; it locks the form until it settles; then success
  leaves for the app, a refusal is shown where the form is, and the form is usable again; a
  deployment without any method says so.\<close>

theorem sign_in_outcome:
  "(submit_email e st = (Some r, st') \<longrightarrow>
      isEmailPasswordAuthEnabled e \<and> \<not> lf_busy st \<and> fst (submit_email e st') = None \<and>
      r = (if lf_mode st = SignIn then SignInEmail (lf_email st) (lf_password st)
           else SignUpEmail (lf_name st) (lf_email st) (lf_password st)) \<and>
      lf_redirects (email_settled (Inr AuthOk) st') = lf_redirects st + 1 \<and>
      (m \<noteq> [] \<longrightarrow> ErrorText m \<in> set (login_parts e (email_settled (Inr (AuthError (Some m))) st'))) \<and>
      ErrorText ''Authentication failed'' \<in> set (login_parts e (email_settled (Inr (AuthError None)) st')) \<and>
      (\<forall>a. fst (submit_email e (email_settled a st')) = Some r)) \<and>
   (isGoogleAuthEnabled e = (GoogleButton \<in> set (login_parts e st))) \<and>
   (NoMethod \<in> set (login_parts e st) \<longleftrightarrow> fst (submit_email e (st\<lparr>lf_busy := False\<rparr>)) = None \<and> fst (submit_google e st) = None)"
  (is "(?sent \<longrightarrow> ?outcome) \<and> ?google \<and> ?none")
proof (intro conjI impI)
  assume sent: ?sent
  let ?r = "case lf_mode st of SignIn \<Rightarrow> SignInEmail (lf_email st) (lf_password st)
      | SignUp \<Rightarrow> SignUpEmail (lf_name st) (lf_email st) (lf_password st)"
  from sent have on: "isEmailPasswordAuthEnabled e" "\<not> lf_busy st" and r: "r = ?r"
    and st': "st' = st\<lparr>lf_error := None, lf_busy := True\<rparr>"
    by (auto simp: submit_email_def split: if_splits)
  have again: "fst (submit_email e (email_settled a st')) = Some r" for a
    unfolding st' r using on by (cases a rule: sum.exhaust) (auto simp: submit_email_def email_settled_def
        split: auth_answer.split sign_mode.split)
  have refused: "ErrorText t \<in> set (login_parts e (email_settled (Inr (AuthError q)) st'))"
    if "or_else q ''Authentication failed'' = t" "t \<noteq> []" for t q
    using that by (intro error_shown [OF on(1)]) (simp_all add: email_settled_def)
  show "isEmailPasswordAuthEnabled e" "\<not> lf_busy st" by (fact on)+
  show "fst (submit_email e st') = None" by (simp add: st' submit_email_def)
  show "r = (if lf_mode st = SignIn then SignInEmail (lf_email st) (lf_password st)
      else SignUpEmail (lf_name st) (lf_email st) (lf_password st))"
    by (simp add: r split: sign_mode.split)
  show "lf_redirects (email_settled (Inr AuthOk) st') = lf_redirects st + 1"
    by (simp add: st' email_settled_def)
  show "ErrorText m \<in> set (login_parts e (email_settled (Inr (AuthError (Some m))) st'))" if "m \<noteq> []"
    using that by (intro refused) simp_all
  show "ErrorText ''Authentication failed'' \<in> set (login_parts e (email_settled (Inr (AuthError None)) st'))"
    by (intro refused) simp_all
  show "\<forall>a. fst (submit_email e (email_settled a st')) = Some r" using again by blast
next
  show ?google
    by (cases "lf_mode st"; cases "present_id (lf_error st)") (simp_all add: login_parts_def Let_def)
  show ?none
    by (cases "lf_mode st"; cases "present_id (lf_error st)")
      (simp_all add: login_parts_def Let_def submit_email_def submit_google_def)
qed

lemma sign_in_outcome_witness:
  "fst (submit_email prod_env (snd (submit_email prod_env login_init))) = None"
proof -
  have "submit_email prod_env login_init = (Some (SignInEmail [] []), snd (submit_email prod_env login_init))"
    by code_simp
  with sign_in_outcome [of prod_env login_init] show ?thesis by blast
qed

text \<open>The accent stays in step. After any choices the attribute the style sheet reads, the button shown
  as active and the stored value agree, and loading the page again restores the accent; a stored
  value that is no accent is ignored and the default is shown.\<close>

theorem accent_restored:
  assumes "accent_load True store = Some st" and "st' = foldl (\<lambda>s a. setAccent a s) st as" and "set as \<subseteq> set ACCENTS"
  shows "ac_accent st' \<in> set ACCENTS \<and>
         or_else (ac_attr st') DEFAULT_ACCENT = ac_accent st' \<and>
         map fst (filter (\<lambda>b. snd (snd (snd b))) (accent_buttons (ac_accent st'))) = [ac_accent st'] \<and>
         map_option ac_accent (accent_load True (ac_store st')) = Some (ac_accent st') \<and>
         map_option ac_attr (accent_load True (ac_store st')) = Some (ac_attr st')"
proof -
  define ok where "ok s \<longleftrightarrow> ac_works s \<and> ac_accent s \<in> set ACCENTS \<and>
      accent_load True (ac_store s) = Some s" for s
  have "ok st" using assms(1) by (auto simp: ok_def accent_load_def isAccent_def DEFAULT_ACCENT_def ACCENTS_def
      split: option.splits if_splits)
  moreover have "ok (setAccent a s)" if "ok s" "a \<in> set ACCENTS" for a s
    using that by (auto simp: ok_def setAccent_def accent_load_def isAccent_def accent_script_def ACCENTS_def)
  ultimately have "ok st'" unfolding assms(2) using assms(3) by (induction as arbitrary: st) auto
  then have ok: "ac_accent st' \<in> set ACCENTS" "accent_load True (ac_store st') = Some st'" by (simp_all add: ok_def)
  then have "or_else (ac_attr st') DEFAULT_ACCENT = ac_accent st'"
    by (auto simp: accent_load_def isAccent_def accent_script_def DEFAULT_ACCENT_def ACCENTS_def
        split: option.splits if_splits)
  moreover have "map fst (filter (\<lambda>b. snd (snd (snd b))) (accent_buttons (ac_accent st'))) = [ac_accent st']"
    using ok(1) by (auto simp: accent_buttons_def ACCENTS_def)
  ultimately show ?thesis using ok by simp
qed

lemma accent_restored_witness:
  "map_option ac_accent (accent_load True (ac_store (setAccent ''coral'' (the (accent_load True (Some ''pink'')))))) = Some ''coral''"
proof -
  have l: "accent_load True (Some ''pink'') = Some (the (accent_load True (Some ''pink'')))"
    by (simp add: accent_load_def)
  have "set [''coral''] \<subseteq> set ACCENTS" by (simp add: ACCENTS_def)
  from accent_restored [OF l refl this] show ?thesis by (simp add: setAccent_def)
qed

lemma accent_needs_storage: "accent_load False store = None"
  by (simp add: accent_load_def)

text \<open>Signing out does not sign the tab out of the backend. The bearer token in the module cache
  survives signing out and the next sign-in, whoever signs in: until half a minute before it
  expires every request of the tab still carries it.\<close>

theorem sign_out_keeps_token:
  assumes "handleSignOut (Inr ()) st = (r, st')" and "bt_token st = Some k" and "token k \<noteq> []"
    and "auth_on w" and "clock w < expiresAtMs k - EXPIRY_SLACK_MS"
  shows "bt_route st' = ''/login'' \<and>
         map_of (init_headers (fst (tab_request w i st'))) ''authorization'' = Some (''Bearer '' @ token k) \<and>
         bt_token (snd (tab_request w i st')) = Some k"
  using assms
  by (auto simp: handleSignOut_def tab_request_def authOnRequest_def getBearerToken_def fresh_def
      truthy_token_def with_bearer_def split: option.split)

lemma sign_out_keeps_token_witness:
  "map_of (init_headers (fst (tab_request \<lparr>auth_on = True, dec = \<lparr>atob = Some, json_parse = \<lambda>_. None\<rparr>, clock = 0, reply = MintData (Some ''bob'')\<rparr>
      default_init \<lparr>bt_open = False, bt_token = Some \<lparr>token = ''alice'', expiresAtMs = 900000\<rparr>, bt_route = ''/login''\<rparr>)))
     ''authorization'' = Some ''Bearer alice''"
proof -
  let ?w = "\<lparr>auth_on = True, dec = \<lparr>atob = Some, json_parse = \<lambda>_. None\<rparr>, clock = 0, reply = MintData (Some ''bob'')\<rparr>"
  let ?st = "\<lparr>bt_open = True, bt_token = Some \<lparr>token = ''alice'', expiresAtMs = 900000\<rparr>, bt_route = ''/''\<rparr>"
  have "handleSignOut (Inr ()) ?st = (returns (),
      \<lparr>bt_open = False, bt_token = Some \<lparr>token = ''alice'', expiresAtMs = 900000\<rparr>, bt_route = ''/login''\<rparr>)"
    by (simp add: handleSignOut_def)
  from sign_out_keeps_token [OF this, of "\<lparr>token = ''alice'', expiresAtMs = 900000\<rparr>" ?w default_init]
  show ?thesis by (simp add: EXPIRY_SLACK_MS_def)
qed

end
