(* ===== verification/Markdown.thy ===== *)
theory Markdown
imports FileView JsRegex
begin

text \<open>
  Markdown: how the text of a reply or of a report is drawn
  (\<^verbatim>\<open>app/components/MarkdownContent.tsx\<close>): the components for code, links, images and paragraphs,
  and the paths they turn into links. Parsing and sanitizing (\<^verbatim>\<open>react-markdown\<close>) are outside;
  \<open>sanitize\<close> stands for its \<^verbatim>\<open>defaultUrlTransform\<close>. \<open>resolve\<close> is the preview of
  the workspace, absent on the print page.
\<close>

section \<open>Components\<close>

datatype md_view =
    MdText string
  | MdFileLink string string
  | MdCodeBlock string string
  | MdInlineCode string
  | MdAnchor "string option" string
  | MdChart string "string option"
  | MdImage "string option" string
  | MdParagraph "md_view list"
  | MdBare "md_view list"

type_synonym resolver = "(string \<Rightarrow> string option) option"

definition resolved :: "resolver \<Rightarrow> string \<Rightarrow> string option" where
  "resolved preview c = (case preview of Some f \<Rightarrow> present_id (f c) | None \<Rightarrow> None)"

definition urlTransform :: "(string \<Rightarrow> string) \<Rightarrow> string \<Rightarrow> string" where
  "urlTransform sanitize url = (if starts_with url FILE_PATH_URL_PREFIX then url else sanitize url)"

text \<open>The group of \<^verbatim>\<open>/language-(\w+)/.exec\<close>: the leftmost match.\<close>

fun language_class :: "string \<Rightarrow> string option" where
  "language_class [] = None"
| "language_class (c # s) =
     (let w = takeWhile word_char (drop 9 (c # s)) in
      if starts_with (c # s) ''language-'' \<and> w \<noteq> [] then Some w else language_class s)"

definition cut_newline :: "string \<Rightarrow> string" where
  "cut_newline s = (if s \<noteq> [] \<and> last s = newline then butlast s else s)"

definition code_view :: "resolver \<Rightarrow> string option \<Rightarrow> string \<Rightarrow> md_view" where
  "code_view preview className codeStr =
     (let m = language_class (or_else className []) in
      if m \<noteq> None \<or> newline \<in> set codeStr
      then MdCodeBlock (or_else m ''text'') (cut_newline codeStr)
      else case resolved preview codeStr of
        Some k \<Rightarrow> MdFileLink codeStr k
      | None \<Rightarrow> MdInlineCode codeStr)"

definition anchor_view :: "resolver \<Rightarrow> string option \<Rightarrow> string \<Rightarrow> md_view" where
  "anchor_view preview href label =
     (case href of
        Some h \<Rightarrow>
          if starts_with h FILE_PATH_URL_PREFIX then
            (case resolved preview (drop (length FILE_PATH_URL_PREFIX) h) of
               Some k \<Rightarrow> MdFileLink label k
             | None \<Rightarrow> MdText label)
          else MdAnchor href label
      | None \<Rightarrow> MdAnchor href label)"

definition img_view :: "bool \<Rightarrow> resolver \<Rightarrow> string option \<Rightarrow> string option \<Rightarrow> md_view" where
  "img_view embedCharts preview source alt =
     (case source of
        Some s \<Rightarrow>
          if isChartPath s then
            (if embedCharts then MdChart s alt
             else case resolved preview s of
               Some k \<Rightarrow> MdFileLink (or_else (present_id alt) s) k
             | None \<Rightarrow> MdText (or_else alt []))
          else MdImage source (or_else alt [])
      | None \<Rightarrow> MdImage None (or_else alt []))"

text \<open>A child of a paragraph as the component sees it: its tag and the source of an image.\<close>

definition has_chart :: "(string \<times> string option) list \<Rightarrow> bool" where
  "has_chart children =
     list_ex (\<lambda>(tag, s). tag = ''img'' \<and> (case s of Some p \<Rightarrow> isChartPath p | None \<Rightarrow> False)) children"

definition p_view :: "bool \<Rightarrow> (string \<times> string option) list \<Rightarrow> md_view list \<Rightarrow> md_view" where
  "p_view embedCharts children vs = (if has_chart children \<and> embedCharts then MdBare vs else MdParagraph vs)"

section \<open>A text of a reply\<close>

text \<open>
  The nodes \<^verbatim>\<open>remarkFilePaths\<close> makes of a text, drawn by the components: a text node as it is, a
  link through the URL transform and the anchor component, its label the text it holds.
\<close>

definition inline_view :: "(string \<Rightarrow> string) \<Rightarrow> resolver \<Rightarrow> md_node \<Rightarrow> md_view" where
  "inline_view sanitize preview n =
     (if md_type n = ''link''
      then anchor_view preview (map_option (urlTransform sanitize) (md_url n)) (md_flat n)
      else MdText (md_flat n))"

definition reply_views :: "(string \<Rightarrow> string) \<Rightarrow> resolver \<Rightarrow> string \<Rightarrow> md_view list" where
  "reply_views sanitize preview t = map (inline_view sanitize preview) (splitTextNode t)"

fun shown_text :: "md_view \<Rightarrow> string" where
  "shown_text (MdText s) = s"
| "shown_text (MdFileLink label _) = label"
| "shown_text (MdAnchor _ label) = label"
| "shown_text _ = []"

section \<open>Properties\<close>

lemma inline_text: "inline_view sanitize preview (md_text s) = MdText s"
  by (simp add: inline_view_def)

lemma inline_path:
  "inline_view sanitize preview (md_path_link p) =
     (case resolved preview p of Some k \<Rightarrow> MdFileLink p k | None \<Rightarrow> MdText p)"
proof -
  have sel: "md_type (md_path_link p) = ''link''" "md_url (md_path_link p) = Some (FILE_PATH_URL_PREFIX @ p)"
    by (simp_all add: md_path_link_def)
  show ?thesis by (simp add: inline_view_def sel urlTransform_def anchor_view_def)
qed

lemma flat_views:
  "\<forall>x \<in> set xs. (\<exists>s. x = md_text s) \<or> (\<exists>p. x = md_path_link p) \<Longrightarrow>
   concat (map (shown_text \<circ> inline_view sanitize preview) xs) = md_flat_list xs"
  by (induction xs) (auto simp: inline_text inline_path split: option.split)



text \<open>A chart is drawn in a report and linked in the chat, and no paragraph is left around it.\<close>

lemma chart_embedding:
  "isChartPath s \<Longrightarrow> img_view True preview (Some s) alt = MdChart s alt"
  "isChartPath s \<Longrightarrow> p_view True [(''img'', Some s)] vs = MdBare vs"
  "isChartPath s \<Longrightarrow> img_view False (Some (\<lambda>_. Some s)) (Some s) None = (if s = [] then MdText [] else MdFileLink s s)"
  by (simp_all add: img_view_def p_view_def has_chart_def resolved_def present_id_def)

end
