(* ===== verification/Sidecar.thy ===== *)
theory Sidecar
imports ToolData
begin

text \<open>
  The Node sidecar of the backend, first part (\<^verbatim>\<open>backend/server/api/js/client.mts\<close>): the checkpointer
  and the store of a JavaScript graph, which pass every operation on to the Python server over
  HTTP, and the other end of the store in \<^verbatim>\<open>backend/server/api/js/remote.py\<close>. The argument \<open>send\<close>
  stands for \<^verbatim>\<open>sendRecv\<close> with the network and \<^verbatim>\<open>load\<close> of the library behind it: a method and a
  body give the answer or the error thrown.
\<close>

section \<open>Requests with retries\<close>

text \<open>
  One try of a request: \<open>FetchFailed\<close> is a rejected \<^verbatim>\<open>fetch\<close> with the text of its error; an answer has
  its status and, unless reading it fails, its text. \<open>ok\<close> is a status from 200 to 299.
\<close>

datatype fetch_result = FetchFailed string | FetchAnswer nat "string option"

definition fetch_try :: "string \<Rightarrow> fetch_result \<Rightarrow> fetch_result result" where
  "fetch_try url r =
     (case r of
        FetchFailed e \<Rightarrow> throws (url @ '' connecfailed: '' @ e)
      | FetchAnswer st body \<Rightarrow>
          if 200 \<le> st \<and> st \<le> 299 then returns r
          else throws (url @ '' failed: HTTP '' @ show_nat st @
                       (case body of Some t \<Rightarrow> '': '' @ t | None \<Rightarrow> [])))"

definition RETRIES :: nat where
  "RETRIES = 3"

text \<open>
  \<^verbatim>\<open>pRetry\<close> is the argument \<open>retry\<close>: given the number of retries and what the tries give, the outcome.
  \<open>retries_until_success\<close> is its documented behaviour when every error thrown is an \<^verbatim>\<open>Error\<close>.
\<close>

type_synonym retrier = "nat \<Rightarrow> (nat \<Rightarrow> fetch_result result) \<Rightarrow> fetch_result result"

definition tryFetch :: "retrier \<Rightarrow> string \<Rightarrow> (nat \<Rightarrow> fetch_result) \<Rightarrow> fetch_result result" where
  "tryFetch retry url tries = retry RETRIES (\<lambda>i. fetch_try url (tries i))"

fun retry_now :: retrier where
  "retry_now 0 f = f 0"
| "retry_now (Suc n) f = (case f 0 of Inr r \<Rightarrow> Inr r | Inl _ \<Rightarrow> retry_now n (\<lambda>i. f (Suc i)))"

definition REMOTE_PORT :: nat where
  "REMOTE_PORT = 5555"

definition remote_url :: "string \<Rightarrow> string" where
  "remote_url method = ''http://localhost:'' @ show_nat REMOTE_PORT @ ''/'' @ method"

definition sendRecv ::
  "retrier \<Rightarrow> (string \<Rightarrow> json result) \<Rightarrow> (string \<Rightarrow> string option \<Rightarrow> nat \<Rightarrow> fetch_result) \<Rightarrow>
   string \<Rightarrow> json \<Rightarrow> json result" where
  "sendRecv retry load net method data =
     res_bind (tryFetch retry (remote_url method) (net (remote_url method) (json_stringify data)))
       (\<lambda>r. case r of
          FetchAnswer _ (Some t) \<Rightarrow> load t
        | _ \<Rightarrow> throws ''terminated'')"

type_synonym sender = "string \<Rightarrow> json \<Rightarrow> json result"

section \<open>The checkpointer\<close>

definition stripConfigCallbacks :: "json \<Rightarrow> json" where
  "stripConfigCallbacks config =
     (case config of
        JObj kvs \<Rightarrow> if has_prop config ''callbacks''
                    then JObj (filter (\<lambda>(k, _). k \<noteq> ''callbacks'') kvs) else config
      | _ \<Rightarrow> config)"

definition checkpoint_tuple :: "json \<Rightarrow> json" where
  "checkpoint_tuple r =
     JObj [(''checkpoint'', js_prop r ''checkpoint''), (''config'', js_prop r ''config''),
           (''metadata'', js_prop r ''metadata''), (''parentConfig'', js_prop r ''parent_config''),
           (''pendingWrites'', js_prop r ''pending_writes'')]"

definition getTuple :: "sender \<Rightarrow> json \<Rightarrow> json result" where
  "getTuple send config =
     res_bind (send ''checkpointer_get_tuple'' (JObj [(''config'', stripConfigCallbacks config)]))
       (\<lambda>r. returns (if truthy r then checkpoint_tuple r else JUndef))"

fun iterated :: "json \<Rightarrow> json list result" where
  "iterated (JArr vs) = returns vs"
| "iterated (JStr s) = returns (map (\<lambda>c. JStr [c]) s)"
| "iterated _ = throws ''result is not iterable''"

definition list_body :: "json \<Rightarrow> json \<Rightarrow> json" where
  "list_body config options =
     spread_with (spread_with (JObj [(''config'', stripConfigCallbacks config)]) (own_entries options))
       (if truthy (js_prop options ''before'')
        then [(''before'', stripConfigCallbacks (js_prop options ''before''))] else [])"

text \<open>A generator: what it yields and the error it ends with, if any.\<close>

fun yield_tuples :: "json list \<Rightarrow> json list \<times> string option" where
  "yield_tuples [] = ([], None)"
| "yield_tuples (v # vs) =
     (if nullish v then ([], Some ''Cannot read properties of null'')
      else (checkpoint_tuple v # fst (yield_tuples vs), snd (yield_tuples vs)))"

definition list_checkpoints :: "sender \<Rightarrow> json \<Rightarrow> json \<Rightarrow> json list \<times> string option" where
  "list_checkpoints send config options =
     (case res_bind (send ''checkpointer_list'' (list_body config options)) iterated of
        Inl e \<Rightarrow> ([], Some e)
      | Inr vs \<Rightarrow> yield_tuples vs)"

definition put_checkpoint :: "sender \<Rightarrow> json \<Rightarrow> json \<Rightarrow> json \<Rightarrow> json \<Rightarrow> json result" where
  "put_checkpoint send config checkpoint metadata newVersions =
     send ''checkpointer_put''
       (JObj [(''config'', stripConfigCallbacks config), (''checkpoint'', checkpoint),
              (''metadata'', metadata), (''new_versions'', newVersions)])"

definition putWrites :: "sender \<Rightarrow> json \<Rightarrow> json \<Rightarrow> string \<Rightarrow> unit result" where
  "putWrites send config writes taskId =
     res_bind (send ''checkpointer_put_writes''
         (JObj [(''config'', stripConfigCallbacks config), (''writes'', writes), (''taskId'', JStr taskId)]))
       (\<lambda>_. returns ())"

subsection \<open>Versions\<close>

text \<open>
  \<^verbatim>\<open>parseInt(s, 10)\<close>: blanks, a sign and the longest run of digits; \<open>None\<close> is \<^verbatim>\<open>NaN\<close>.
\<close>

definition is_digit :: "char \<Rightarrow> bool" where
  "is_digit c = (let n = (of_char c :: nat) in 48 \<le> n \<and> n \<le> 57)"

definition parse_digits :: "string \<Rightarrow> int option" where
  "parse_digits s = (let ds = takeWhile is_digit s in if ds = [] then None else Some (int (read_nat ds)))"

definition parse_int :: "string \<Rightarrow> int option" where
  "parse_int s =
     (case strip_leading is_space s of
        c # cs \<Rightarrow> if c = CHR ''-'' then map_option uminus (parse_digits cs)
                  else if c = CHR 0x2B then parse_digits cs else parse_digits (c # cs)
      | [] \<Rightarrow> None)"

definition pad_start :: "nat \<Rightarrow> char \<Rightarrow> string \<Rightarrow> string" where
  "pad_start n c s = replicate (n - length s) c @ s"

definition pad_end :: "nat \<Rightarrow> char \<Rightarrow> string \<Rightarrow> string" where
  "pad_end n c s = s @ replicate (n - length s) c"

text \<open>
  The current version is undefined, a number or a text (\<open>js_number\<close> prints a number or \<^verbatim>\<open>NaN\<close>);
  \<open>fixed\<close> is the text of \<^verbatim>\<open>Math.random().toFixed(16)\<close>.
\<close>

definition current_version :: "json \<Rightarrow> int option" where
  "current_version current =
     (case current of
        JNum n \<Rightarrow> Some n
      | JStr s \<Rightarrow> parse_int (hd (split_on CHR ''.'' s))
      | _ \<Rightarrow> Some 0)"

definition js_number :: "int option \<Rightarrow> string" where
  "js_number n = (case n of Some i \<Rightarrow> show_int i | None \<Rightarrow> ''NaN'')"

definition getNextVersion :: "string \<Rightarrow> json \<Rightarrow> string" where
  "getNextVersion fixed current =
     pad_start 32 CHR ''0'' (js_number (map_option (\<lambda>n. n + 1) (current_version current))) @
     ''.'' @ pad_end 16 CHR ''0'' (drop 2 fixed)"

section \<open>The store\<close>

fun snake_char :: "char \<Rightarrow> string" where
  "snake_char c = (let n = (of_char c :: nat) in if 65 \<le> n \<and> n \<le> 90 then [CHR ''_'', lower_char c] else [c])"

definition snake_key :: "string \<Rightarrow> string" where
  "snake_key k = concat (map snake_char k)"

fun snakeCaseKeys :: "json \<Rightarrow> json"
  and snake_entries :: "(string \<times> json) list \<Rightarrow> (string \<times> json) list" where
  "snakeCaseKeys (JObj kvs) = JObj (fold (\<lambda>(k, v). jset k v) (snake_entries kvs) [])"
| "snakeCaseKeys v = v"
| "snake_entries [] = []"
| "snake_entries ((k, v) # kvs) = (snake_key k, snakeCaseKeys v) # snake_entries kvs"

definition snake_condition :: "json \<Rightarrow> json" where
  "snake_condition c = JObj [(''match_type'', js_prop c ''matchType''), (''path'', js_prop c ''path'')]"

definition snake_conditions :: "json \<Rightarrow> json" where
  "snake_conditions v = (case v of JArr cs \<Rightarrow> JArr (map snake_condition cs) | _ \<Rightarrow> JUndef)"

definition camelToSnake :: "json \<Rightarrow> json" where
  "camelToSnake op =
     (if has_prop op ''namespace'' \<and> has_prop op ''key'' then
        JObj ([(''namespace'', js_prop op ''namespace''), (''key'', js_prop op ''key'')] @
              (if has_prop op ''value'' then [(''value'', js_prop op ''value'')] else []))
      else if has_prop op ''namespacePrefix'' then
        JObj [(''namespace_prefix'', js_prop op ''namespacePrefix''), (''filter'', js_prop op ''filter''),
              (''limit'', js_prop op ''limit''), (''offset'', js_prop op ''offset'')]
      else if has_prop op ''matchConditions'' then
        JObj [(''match_conditions'', snake_conditions (js_prop op ''matchConditions'')),
              (''max_depth'', js_prop op ''maxDepth''),
              (''limit'', js_prop op ''limit''), (''offset'', js_prop op ''offset'')]
      else snakeCaseKeys op)"

definition pyItemToJs :: "json \<Rightarrow> json" where
  "pyItemToJs item =
     (if \<not> truthy item then JUndef
      else JObj [(''namespace'', js_prop item ''namespace''), (''key'', js_prop item ''key''),
                 (''value'', js_prop item ''value''), (''createdAt'', js_prop item ''created_at''),
                 (''updatedAt'', js_prop item ''updated_at'')])"

definition isPyItem :: "json \<Rightarrow> bool" where
  "isPyItem r = (is_object r \<and> has_prop r ''value'' \<and> has_prop r ''key'')"

definition item_or_same :: "json \<Rightarrow> json" where
  "item_or_same r = (if isPyItem r then pyItemToJs r else r)"

definition batch_result :: "json \<Rightarrow> json" where
  "batch_result r = (case r of JArr items \<Rightarrow> JArr (map item_or_same items) | _ \<Rightarrow> item_or_same r)"

definition store_batch :: "sender \<Rightarrow> json list \<Rightarrow> json list result" where
  "store_batch send ops =
     res_bind (send ''store_batch'' (JObj [(''operations'', JArr (map camelToSnake ops))]))
       (\<lambda>r. case r of
          JArr results \<Rightarrow> returns (map batch_result results)
        | _ \<Rightarrow> throws ''results.map is not a function'')"

definition json_strings :: "string list \<Rightarrow> json" where
  "json_strings ws = JArr (map JStr ws)"

definition store_get :: "sender \<Rightarrow> string list \<Rightarrow> string \<Rightarrow> json result" where
  "store_get send namespace key =
     send ''store_get'' (JObj [(''namespace'', json_strings namespace), (''key'', JStr key)])"

definition store_search :: "sender \<Rightarrow> string list \<Rightarrow> json \<Rightarrow> json result" where
  "store_search send namespacePrefix options =
     send ''store_search''
       (spread_with (JObj [(''namespace_prefix'', json_strings namespacePrefix)]) (own_entries options))"

definition store_put :: "sender \<Rightarrow> string list \<Rightarrow> string \<Rightarrow> json \<Rightarrow> unit result" where
  "store_put send namespace key v =
     res_bind (send ''store_put''
         (JObj [(''namespace'', json_strings namespace), (''key'', JStr key), (''value'', v)]))
       (\<lambda>_. returns ())"

definition store_delete :: "sender \<Rightarrow> string list \<Rightarrow> string \<Rightarrow> unit result" where
  "store_delete send namespace key =
     res_bind (send ''store_delete'' (JObj [(''namespace'', json_strings namespace), (''key'', JStr key)]))
       (\<lambda>_. returns ())"

definition listNamespaces :: "sender \<Rightarrow> json \<Rightarrow> json result" where
  "listNamespaces send options =
     res_bind (send ''store_list_namespaces''
         (spread_with (JObj [(''max_depth'', js_prop options ''maxDepth'')]) (own_entries options)))
       (\<lambda>data. if nullish data then throws ''Cannot read properties of null''
               else returns (js_prop data ''namespaces''))"

section \<open>The other end of the store\<close>

text \<open>
  What \<^verbatim>\<open>JSON.stringify\<close> and reading it back make of a value: undefined members go, undefined
  elements become null.
\<close>

fun on_wire :: "json \<Rightarrow> json"
  and on_wire_list :: "json list \<Rightarrow> json list"
  and on_wire_members :: "(string \<times> json) list \<Rightarrow> (string \<times> json) list" where
  "on_wire JUndef = JNull"
| "on_wire (JArr vs) = JArr (on_wire_list vs)"
| "on_wire (JObj kvs) = JObj (on_wire_members kvs)"
| "on_wire v = v"
| "on_wire_list [] = []"
| "on_wire_list (v # vs) = on_wire v # on_wire_list vs"
| "on_wire_members [] = []"
| "on_wire_members ((k, v) # kvs) =
     (if v = JUndef then on_wire_members kvs else (k, on_wire v) # on_wire_members kvs)"

text \<open>
  The operations of the server's store library as \<^verbatim>\<open>store_batch\<close> builds them; \<open>repr\<close> prints a
  dictionary. \<^verbatim>\<open>tuple\<close> of a list is the list.
\<close>

datatype py_op =
    GetOp "json list" json
  | PutOp "json list" json json
  | SearchOp "json list" json json json
  | ListNamespacesOp "json list" json json json

definition py_get :: "json \<Rightarrow> string \<Rightarrow> json \<Rightarrow> json" where
  "py_get d k fallback = (if has_prop d k then js_prop d k else fallback)"

fun py_tuple :: "json \<Rightarrow> json list result" where
  "py_tuple (JArr vs) = returns vs"
| "py_tuple (JStr s) = returns (map (\<lambda>c. JStr [c]) s)"
| "py_tuple (JObj kvs) = returns (map (JStr \<circ> fst) kvs)"
| "py_tuple _ = throws ''object is not iterable''"

definition py_item_of :: "json \<Rightarrow> string \<Rightarrow> json result" where
  "py_item_of d k = (if has_prop d k then returns (js_prop d k) else throws (''KeyError: '' @ k))"

definition decode_op :: "(json \<Rightarrow> string) \<Rightarrow> json \<Rightarrow> py_op result" where
  "decode_op repr op =
     (if has_prop op ''value'' then
        res_bind (py_item_of op ''namespace'') (\<lambda>n. res_bind (py_tuple n) (\<lambda>ns.
          res_bind (py_item_of op ''key'') (\<lambda>k. returns (PutOp ns k (js_prop op ''value'')))))
      else if has_prop op ''namespace_prefix'' then
        res_bind (py_tuple (js_prop op ''namespace_prefix'')) (\<lambda>ns.
          returns (SearchOp ns (py_get op ''filter'' JNull) (py_get op ''limit'' (JNum 10))
                     (py_get op ''offset'' (JNum 0))))
      else if has_prop op ''namespace'' \<and> has_prop op ''key'' then
        res_bind (py_tuple (js_prop op ''namespace'')) (\<lambda>ns. returns (GetOp ns (js_prop op ''key'')))
      else if has_prop op ''match_conditions'' then
        res_bind (py_tuple (js_prop op ''match_conditions'')) (\<lambda>cs.
          returns (ListNamespacesOp cs (py_get op ''max_depth'' JNull) (py_get op ''limit'' (JNum 100))
                     (py_get op ''offset'' (JNum 0))))
      else throws (''Unknown operation type: '' @ repr op))"

fun decode_ops :: "(json \<Rightarrow> string) \<Rightarrow> json list \<Rightarrow> py_op list result" where
  "decode_ops repr [] = returns []"
| "decode_ops repr (op # ops) =
     res_bind (decode_op repr op) (\<lambda>p. res_bind (decode_ops repr ops) (\<lambda>ps. returns (p # ps)))"

record py_item =
  pi_namespace :: "string list"
  pi_key :: string
  pi_value :: json
  pi_created :: string
  pi_updated :: string

datatype py_element = ElemItem py_item | ElemTuple "string list" | ElemNone | ElemOther string

datatype py_result = ResItem py_item | ResList "py_element list" | ResNone | ResOther string

definition item_dict :: "py_item \<Rightarrow> json" where
  "item_dict i =
     JObj [(''namespace'', json_strings (pi_namespace i)), (''key'', JStr (pi_key i)), (''value'', pi_value i),
           (''created_at'', JStr (pi_created i)), (''updated_at'', JStr (pi_updated i))]"

fun coerce_element :: "py_element \<Rightarrow> json" where
  "coerce_element (ElemItem i) = item_dict i"
| "coerce_element (ElemTuple ns) = json_strings ns"
| "coerce_element ElemNone = JNull"
| "coerce_element (ElemOther s) = JStr s"

fun coerce_result :: "py_result \<Rightarrow> json" where
  "coerce_result (ResItem i) = item_dict i"
| "coerce_result (ResList es) = JArr (map coerce_element es)"
| "coerce_result ResNone = JNull"
| "coerce_result (ResOther s) = JStr s"

definition serve_batch :: "(json \<Rightarrow> string) \<Rightarrow> (py_op \<Rightarrow> py_result) \<Rightarrow> json \<Rightarrow> json result" where
  "serve_batch repr abatch payload =
     (case py_get payload ''operations'' (JArr []) of
        JArr ops \<Rightarrow>
          if ops = [] then throws ''No operations provided''
          else res_bind (decode_ops repr ops) (\<lambda>ps. returns (JArr (map (coerce_result \<circ> abatch) ps)))
      | _ \<Rightarrow> throws ''No operations provided'')"

definition serve_list_namespaces :: "(json \<Rightarrow> string list list) \<Rightarrow> json \<Rightarrow> json result" where
  "serve_list_namespaces alist payload = returns (JArr (map json_strings (alist payload)))"

section \<open>Properties\<close>

subsection \<open>The order of versions\<close>

text \<open>The order of texts by their character codes, the same in JavaScript, Python and the database.\<close>

fun str_less :: "string \<Rightarrow> string \<Rightarrow> bool" where
  "str_less _ [] = False"
| "str_less [] (_ # _) = True"
| "str_less (c # s) (d # t) =
     ((of_char c :: nat) < of_char d \<or> (c = d \<and> str_less s t))"

definition all_digits :: "string \<Rightarrow> bool" where
  "all_digits s = (\<forall>c \<in> set s. is_digit c)"

lemma read_nat_snoc: "read_nat (s @ [c]) = 10 * read_nat s + digit_value c"
  by (simp add: read_nat_def)

lemma read_nat_Cons: "read_nat (c # s) = digit_value c * 10 ^ length s + read_nat s"
  by (induction s rule: rev_induct) (simp_all add: read_nat_snoc algebra_simps flip: append_Cons, simp add: read_nat_def)

lemma digit_value_less: "is_digit c \<Longrightarrow> digit_value c < 10"
  by (auto simp: is_digit_def digit_value_def Let_def)

lemma digit_value_eq: "is_digit c \<Longrightarrow> is_digit d \<Longrightarrow> digit_value c = digit_value d \<longleftrightarrow> c = d"
proof -
  assume "is_digit c" "is_digit d"
  then have "digit_value c = digit_value d \<longleftrightarrow> (of_char c :: nat) = of_char d"
    unfolding is_digit_def digit_value_def Let_def by linarith
  then show ?thesis by (simp only: of_char_eq_iff)
qed

lemma read_nat_bound: "all_digits s \<Longrightarrow> read_nat s < 10 ^ length s"
proof (induction s)
  case (Cons c s)
  then have "digit_value c \<le> 9" "read_nat s < 10 ^ length s"
    using digit_value_less [of c] by (auto simp: all_digits_def)
  then have "digit_value c * 10 ^ length s + read_nat s < 9 * 10 ^ length s + 10 ^ length s"
    by (intro add_le_less_mono mult_right_mono) simp_all
  then show ?case by (simp add: read_nat_Cons)
qed (simp add: read_nat_def)

text \<open>Texts of digits of one length are ordered as the numbers they are.\<close>

lemma str_less_read_nat:
  "length s = length t \<Longrightarrow> all_digits s \<Longrightarrow> all_digits t \<Longrightarrow> read_nat s < read_nat t \<Longrightarrow>
   str_less (s @ u) (t @ v)"
proof (induction s t rule: list_induct2)
  case (Cons c s d t)
  have dig: "is_digit c" "is_digit d" and rest: "all_digits s" "all_digits t"
    using Cons.prems by (auto simp: all_digits_def)
  show ?case
  proof (cases "c = d")
    case True
    with Cons.prems(3) Cons.hyps have "read_nat s < read_nat t" by (simp add: read_nat_Cons)
    with Cons.IH [OF rest] True show ?thesis by simp
  next
    case False
    have "digit_value c < digit_value d"
    proof (rule ccontr)
      assume "\<not> ?thesis"
      with False dig have "digit_value d + 1 \<le> digit_value c"
        using digit_value_eq [of c d] by linarith
      then have "(digit_value d + 1) * 10 ^ length t \<le> digit_value c * 10 ^ length t"
        by (rule mult_right_mono) simp
      with Cons.prems(3) Cons.hyps read_nat_bound [OF rest(2)] show False
        by (simp add: read_nat_Cons algebra_simps)
    qed
    with dig have "(of_char c :: nat) < of_char d"
      by (auto simp: is_digit_def digit_value_def Let_def)
    then show ?thesis by simp
  qed
qed simp

lemma show_nat_all_digits: "all_digits (show_nat n)"
  using show_nat_digits by (auto simp: all_digits_def is_digit_def Let_def)

lemma length_show_nat: "n < 10 ^ k \<Longrightarrow> 0 < k \<Longrightarrow> length (show_nat n) \<le> k"
proof (induction n arbitrary: k rule: show_nat.induct)
  case (1 n)
  show ?case
  proof (cases "n < 10")
    case True
    then show ?thesis using 1(3) by (subst show_nat.simps) simp
  next
    case False
    then obtain j where k: "k = Suc j" "0 < j" using 1(2,3) by (cases k; cases "k = 1") auto
    with 1(2) have "n div 10 < 10 ^ j" by (simp add: div_less_iff_less_mult mult.commute)
    from 1(1) [OF False this k(2)] False k show ?thesis by (subst show_nat.simps) simp
  qed
qed

lemma read_nat_zeros: "read_nat (replicate k CHR ''0'' @ s) = read_nat s"
  by (induction k) (simp_all add: read_nat_Cons digit_value_def)

text \<open>The text of a random fraction and the parts of a version.\<close>

definition fraction_text :: "string \<Rightarrow> bool" where
  "fraction_text f = (take 2 f = ''0.'' \<and> length f = 18 \<and> all_digits (drop 2 f))"

definition version_number :: "nat \<Rightarrow> string" where
  "version_number n = pad_start 32 CHR ''0'' (show_nat n)"

lemma version_number_facts:
  assumes "n < 10 ^ 32"
  shows "length (version_number n) = 32" and "all_digits (version_number n)"
    and "read_nat (version_number n) = n"
proof -
  have "length (show_nat n) \<le> 32" by (rule length_show_nat [OF assms]) simp
  then show "length (version_number n) = 32" by (simp add: version_number_def pad_start_def)
  have "is_digit CHR ''0''" by (simp add: is_digit_def)
  then show "all_digits (version_number n)"
    using show_nat_all_digits [of n] by (auto simp: version_number_def pad_start_def all_digits_def)
  show "read_nat (version_number n) = n"
    by (simp add: version_number_def pad_start_def read_nat_zeros)
qed

lemma getNextVersion_parts:
  assumes "current_version current = Some (int n)" and "fraction_text f"
  shows "getNextVersion f current = version_number (n + 1) @ CHR ''.'' # drop 2 f"
proof -
  have "pad_end 16 CHR ''0'' (drop 2 f) = drop 2 f"
    using assms(2) by (simp add: pad_end_def fraction_text_def)
  moreover have "show_int (int n + 1) = show_nat (n + 1)"
    by (simp add: show_int_def nat_add_distrib)
  ultimately show ?thesis
    using assms(1) by (simp add: getNextVersion_def version_number_def js_number_def)
qed

lemma parse_version:
  assumes "n < 10 ^ 32"
  shows "current_version (JStr (version_number n @ CHR ''.'' # u)) = Some (int n)"
proof -
  note v = version_number_facts [OF assms]
  have dot: "CHR ''.'' \<notin> set (version_number n)"
    using v(2) by (auto simp: all_digits_def is_digit_def)
  obtain c cs where cons: "version_number n = c # cs" using v(1) by (cases "version_number n") auto
  have c: "is_digit c" using v(2) cons by (simp add: all_digits_def)
  then have lead: "strip_leading is_space (version_number n) = version_number n"
    by (simp add: cons strip_leading_def is_space_def is_digit_def Let_def)
  have take: "takeWhile is_digit (version_number n) = version_number n"
    using v(2) by (simp add: all_digits_def takeWhile_eq_all_conv)
  have "version_number n \<noteq> []" by (simp add: cons)
  then have "parse_digits (version_number n) = Some (int n)"
    unfolding parse_digits_def Let_def take using v(3) by simp
  with lead c cons have "parse_int (version_number n) = Some (int n)"
    by (auto simp: parse_int_def is_digit_def Let_def)
  then show ?thesis using dot by (simp add: current_version_def split_on_append_sep)
qed

text \<open>Versions of channels have 49 characters and grow. A version made from a number below
  9007199254740992 (where numbers of the platform stop being exact) reads back as the next number, is
  below every version made from a greater number whatever the random parts are, and below the one
  made from itself.\<close>

theorem versions_grow:
  assumes "current_version a = Some (int n)" and "current_version b = Some (int m)"
    and "n < m" and "m < 2 ^ 53" and "fraction_text f" and "fraction_text g"
  shows "length (getNextVersion f a) = 49 \<and>
         current_version (JStr (getNextVersion f a)) = Some (int n + 1) \<and>
         str_less (getNextVersion f a) (getNextVersion g b) \<and>
         str_less (getNextVersion f a) (getNextVersion g (JStr (getNextVersion f a)))"
proof -
  have lt: "n + 1 < 10 ^ 32" "m + 1 < 10 ^ 32" "n + 2 < 10 ^ 32"
    using assms(3,4) by simp_all
  have fa: "getNextVersion f a = version_number (n + 1) @ CHR ''.'' # drop 2 f"
    by (rule getNextVersion_parts [OF assms(1,5)])
  have parse: "current_version (JStr (getNextVersion f a)) = Some (int (n + 1))"
    unfolding fa by (rule parse_version [OF lt(1)])
  have less: "str_less (version_number (n + 1) @ u) (version_number k @ v)" if "n + 1 < k" "k < 10 ^ 32" for k u v
    using str_less_read_nat version_number_facts [OF lt(1)] version_number_facts [OF that(2)] that(1)
    by simp
  have "str_less (getNextVersion f a) (getNextVersion g b)"
    unfolding fa getNextVersion_parts [OF assms(2,6)] using assms(3) lt(2) by (intro less) simp_all
  moreover have "str_less (getNextVersion f a) (getNextVersion g (JStr (getNextVersion f a)))"
    unfolding getNextVersion_parts [OF parse assms(6)] unfolding fa using lt(3) by (intro less) simp_all
  moreover have "length (getNextVersion f a) = 49"
    using version_number_facts(1) [OF lt(1)] assms(5) by (simp add: fa fraction_text_def)
  ultimately show ?thesis using parse by simp
qed

lemma versions_grow_witness:
  "str_less (getNextVersion ''0.1234567890123456'' JUndef) (getNextVersion ''0.0000000000000001'' (JNum 4))"
  using versions_grow [of JUndef 0 "JNum 4" 4 "''0.1234567890123456''" "''0.0000000000000001''"]
  by (simp add: current_version_def fraction_text_def all_digits_def is_digit_def)

subsection \<open>The store across the two languages\<close>

text \<open>
  The operations of the JavaScript store library by their types (absent options are undefined), and
  what each is meant to be on the other side; a listing without conditions has no counterpart there.
\<close>

datatype store_op =
    StoreGet "string list" string
  | StorePut "string list" string "(string \<times> json) list option"
  | StoreSearch "string list" "(string \<times> json) list option" "int option" "int option"
  | StoreList "(string \<times> string list) list option" "int option" "int option" "int option"

definition opt_num :: "int option \<Rightarrow> json" where
  "opt_num n = (case n of Some i \<Rightarrow> JNum i | None \<Rightarrow> JUndef)"

definition opt_object :: "json \<Rightarrow> (string \<times> json) list option \<Rightarrow> json" where
  "opt_object absent v = (case v of Some kvs \<Rightarrow> JObj kvs | None \<Rightarrow> absent)"

fun js_operation :: "store_op \<Rightarrow> json" where
  "js_operation (StoreGet ns k) = JObj [(''namespace'', json_strings ns), (''key'', JStr k)]"
| "js_operation (StorePut ns k v) =
     JObj [(''namespace'', json_strings ns), (''key'', JStr k), (''value'', opt_object JNull v)]"
| "js_operation (StoreSearch ns f l off) =
     JObj [(''namespacePrefix'', json_strings ns), (''filter'', opt_object JUndef f),
           (''limit'', opt_num l), (''offset'', opt_num off)]"
| "js_operation (StoreList cs d l off) =
     JObj ((case cs of
              Some ps \<Rightarrow> [(''matchConditions'',
                JArr (map (\<lambda>(t, p). JObj [(''matchType'', JStr t), (''path'', json_strings p)]) ps))]
            | None \<Rightarrow> []) @
           [(''maxDepth'', opt_num d), (''limit'', opt_num l), (''offset'', opt_num off)])"

fun meant_op :: "(json \<Rightarrow> string) \<Rightarrow> store_op \<Rightarrow> py_op result" where
  "meant_op repr (StoreGet ns k) = returns (GetOp (map JStr ns) (JStr k))"
| "meant_op repr (StorePut ns k v) = returns (PutOp (map JStr ns) (JStr k) (on_wire (opt_object JNull v)))"
| "meant_op repr (StoreSearch ns f l off) =
     returns (SearchOp (map JStr ns) (on_wire (opt_object JNull f))
       (JNum (or_else l 10)) (JNum (or_else off 0)))"
| "meant_op repr (StoreList cs d l off) =
     (case cs of
        Some ps \<Rightarrow> returns (ListNamespacesOp
          (map (\<lambda>(t, p). JObj [(''match_type'', JStr t), (''path'', json_strings p)]) ps)
          (case d of Some i \<Rightarrow> JNum i | None \<Rightarrow> JNull) (JNum (or_else l 100)) (JNum (or_else off 0)))
      | None \<Rightarrow> throws (''Unknown operation type: '' @
          repr (on_wire (camelToSnake (js_operation (StoreList cs d l off))))))"

fun meant_ops :: "(json \<Rightarrow> string) \<Rightarrow> store_op list \<Rightarrow> py_op list result" where
  "meant_ops repr [] = returns []"
| "meant_ops repr (op # ops) =
     res_bind (meant_op repr op) (\<lambda>p. res_bind (meant_ops repr ops) (\<lambda>ps. returns (p # ps)))"

definition js_item :: "py_item \<Rightarrow> json" where
  "js_item i =
     JObj [(''namespace'', json_strings (pi_namespace i)), (''key'', JStr (pi_key i)), (''value'', pi_value i),
           (''createdAt'', JStr (pi_created i)), (''updatedAt'', JStr (pi_updated i))]"

fun js_element :: "py_element \<Rightarrow> json" where
  "js_element (ElemItem i) = js_item i"
| "js_element (ElemTuple ns) = json_strings ns"
| "js_element ElemNone = JNull"
| "js_element (ElemOther s) = JStr s"

fun js_result :: "py_result \<Rightarrow> json" where
  "js_result (ResItem i) = js_item i"
| "js_result (ResList es) = JArr (map js_element es)"
| "js_result ResNone = JNull"
| "js_result (ResOther s) = JStr s"

lemma on_wire_strings [simp]: "on_wire (json_strings ws) = json_strings ws"
  by (induction ws) (simp_all add: json_strings_def)

lemma json_strings_undef [simp]: "json_strings ws \<noteq> JUndef" "JUndef \<noteq> json_strings ws"
  by (simp_all add: json_strings_def)

lemma on_wire_list_map: "on_wire_list vs = map on_wire vs"
  by (induction vs) simp_all

lemma opt_num_wire:
  "opt_num n = JUndef \<longleftrightarrow> n = None" "on_wire (opt_num (Some i)) = JNum i"
  by (simp_all add: opt_num_def split: option.split)

lemma char_d: "char_of (100 :: nat) = CHR ''d''"
  by code_simp

lemma snake_keys [simp]:
  "snake_key ''maxDepth'' = ''max_depth''" "snake_key ''limit'' = ''limit''" "snake_key ''offset'' = ''offset''"
  by (simp_all add: snake_key_def lower_char_def char_d)

lemmas wire_defs = camelToSnake_def decode_op_def py_get_def py_item_of_def opt_object_def opt_num_def

lemma decode_sent: "decode_op repr (on_wire (camelToSnake (js_operation op))) = meant_op repr op"
proof (cases op)
  case (StoreGet ns k)
  then show ?thesis by (simp add: wire_defs) (simp add: json_strings_def)
next
  case (StorePut ns k v)
  then show ?thesis by (cases v) (simp_all add: wire_defs, simp_all add: json_strings_def)
next
  case (StoreSearch ns f l off)
  then show ?thesis
    by (cases f; cases l; cases off) (simp_all add: wire_defs, simp_all add: json_strings_def)
next
  case (StoreList cs d l off)
  show ?thesis
  proof (cases cs)
    case None
    with StoreList show ?thesis by (cases d; cases l; cases off) (simp_all add: wire_defs)
  next
    case (Some ps)
    have "map (on_wire \<circ> (snake_condition \<circ> (\<lambda>(t, p). JObj [(''matchType'', JStr t), (''path'', json_strings p)]))) ps
        = map (\<lambda>(t, p). JObj [(''match_type'', JStr t), (''path'', json_strings p)]) ps"
      by (rule map_cong) (auto simp: snake_condition_def)
    with StoreList Some show ?thesis
      by (cases d; cases l; cases off)
        (simp_all add: wire_defs snake_conditions_def on_wire_list_map comp_assoc)
  qed
qed

lemma decode_sent_all:
  "decode_ops repr (on_wire_list (map (camelToSnake \<circ> js_operation) ops)) = meant_ops repr ops"
  by (induction ops) (simp_all add: decode_sent)

lemma item_or_same_simps:
  "item_or_same (item_dict i) = js_item i" "item_or_same (json_strings ns) = json_strings ns"
  "item_or_same JNull = JNull" "item_or_same (JStr s) = JStr s"
  by (simp_all add: item_or_same_def isPyItem_def item_dict_def js_item_def pyItemToJs_def json_strings_def)

lemma batch_result_coerced: "batch_result (coerce_result r) = js_result r"
proof (cases r)
  case (ResItem i)
  then show ?thesis using item_or_same_simps(1) [of i] by (simp add: batch_result_def item_dict_def)
next
  case (ResList es)
  have "item_or_same (coerce_element e) = js_element e" for e
    by (cases e) (simp_all add: item_or_same_simps)
  with ResList show ?thesis by (simp add: batch_result_def)
qed (simp_all add: batch_result_def item_or_same_simps)


text \<open>
  Two operations disagree with what they are declared to return: an item from \<^verbatim>\<open>get\<close> has no
  \<^verbatim>\<open>createdAt\<close> (one from \<^verbatim>\<open>batch\<close> has), and the namespaces the server lists are never found.
\<close>

lemma get_keeps_snake_case:
  assumes "send ''store_get'' (JObj [(''namespace'', json_strings ns), (''key'', JStr k)]) = returns (item_dict i)"
  shows "map_option (\<lambda>r. js_prop r ''createdAt'') (case store_get send ns k of Inr r \<Rightarrow> Some r | Inl _ \<Rightarrow> None) = Some JUndef"
  by (simp add: store_get_def assms) (simp add: item_dict_def)

lemma namespaces_lost:
  "listNamespaces (\<lambda>method body. serve_list_namespaces alist (on_wire body)) options = returns JUndef"
  by (simp add: listNamespaces_def serve_list_namespaces_def)

text \<open>With the documented retries, a request fails only after four failed tries.\<close>

lemma retry_now_returns:
  "(\<exists>r. retry_now n f = Inr r) \<longleftrightarrow> (\<exists>i \<le> n. \<exists>r. f i = Inr r)"
proof (induction n arbitrary: f)
  case (Suc n)
  show ?case
  proof (cases "f 0")
    case (Inl e)
    then have "(\<exists>i \<le> Suc n. \<exists>r. f i = Inr r) \<longleftrightarrow> (\<exists>i \<le> n. \<exists>r. f (Suc i) = Inr r)"
      by (metis Suc_le_mono not0_implies_Suc sum.distinct(1))
    with Suc [of "\<lambda>i. f (Suc i)"] Inl show ?thesis by simp
  qed auto
qed simp

lemma tryFetch_four_tries:
  "(\<exists>r. tryFetch retry_now url tries = Inr r) \<longleftrightarrow>
   (\<exists>i \<le> 3. \<exists>st body. tries i = FetchAnswer st body \<and> 200 \<le> st \<and> st \<le> 299)"
proof -
  have "(\<exists>r. fetch_try url (tries i) = Inr r) \<longleftrightarrow>
      (\<exists>st body. tries i = FetchAnswer st body \<and> 200 \<le> st \<and> st \<le> 299)" for i
    by (cases "tries i") (auto simp: fetch_try_def)
  then show ?thesis by (simp add: tryFetch_def RETRIES_def retry_now_returns)
qed

end
