(* ===== verification/SidecarStream.thy ===== *)
theory SidecarStream
imports Sidecar
begin

text \<open>
  The Node sidecar of the backend, second part (\<^verbatim>\<open>backend/server/api/js/client.mts\<close> and its
  \<^verbatim>\<open>src/utils\<close>): the run of a graph as a stream of events with the messages rebuilt from their chunks,
  and how answers and streams are written to the connection with heartbeats. The events of the graph,
  the concatenation of two message chunks (\<open>glue\<close>) and the clock (a timer firing is an event) are
  arguments.
\<close>

section \<open>Values to text\<close>

text \<open>
  A value to be written: objects of the library with a \<^verbatim>\<open>toDict\<close> are \<open>DDict\<close> with the type and data it
  gives; anything without one inside is a leaf as \<^verbatim>\<open>JSON.stringify\<close> sees it.
\<close>

datatype dict_value =
    DLeaf json
  | DList "dict_value list"
  | DObject "(string \<times> dict_value) list"
  | DDict json "(string \<times> dict_value) list"

fun as_dict :: "dict_value \<Rightarrow> json"
  and as_dict_list :: "dict_value list \<Rightarrow> json list"
  and as_dict_members :: "(string \<times> dict_value) list \<Rightarrow> (string \<times> json) list" where
  "as_dict (DLeaf v) = v"
| "as_dict (DList vs) = JArr (as_dict_list vs)"
| "as_dict (DObject kvs) = JObj (as_dict_members kvs)"
| "as_dict (DDict t kvs) = JObj (jset ''type'' t (as_dict_members kvs))"
| "as_dict_list [] = []"
| "as_dict_list (v # vs) = as_dict v # as_dict_list vs"
| "as_dict_members [] = []"
| "as_dict_members ((k, v) # kvs) = (k, as_dict v) # as_dict_members kvs"

definition serialiseAsDict :: "dict_value \<Rightarrow> string option" where
  "serialiseAsDict v = json_stringify2 (as_dict v)"

datatype thrown = ErrorThrown string string | OtherThrown json

definition serializeError :: "thrown \<Rightarrow> json" where
  "serializeError e =
     (case e of
        ErrorThrown name message \<Rightarrow> JObj [(''error'', JStr name), (''message'', JStr message)]
      | OtherThrown v \<Rightarrow>
          JObj [(''error'', JStr ''Error''),
                (''message'', case json_stringify v of Some t \<Rightarrow> JStr t | None \<Rightarrow> JUndef)])"

section \<open>Configuration of a run\<close>

definition getRunnableConfig :: "json \<Rightarrow> json" where
  "getRunnableConfig userConfig =
     (if \<not> truthy userConfig then JObj []
      else JObj [(''configurable'', js_prop userConfig ''configurable''), (''tags'', js_prop userConfig ''tags''),
                 (''metadata'', js_prop userConfig ''metadata''), (''runName'', js_prop userConfig ''run_name''),
                 (''maxConcurrency'', js_prop userConfig ''max_concurrency''),
                 (''recursionLimit'', js_prop userConfig ''recursion_limit''),
                 (''runId'', js_prop userConfig ''run_id'')])"

record replica =
  rp_project :: string
  rp_example :: "string option"

definition buildExperimentReplicas :: "json \<Rightarrow> (string \<Rightarrow> string option) \<Rightarrow> replica list option" where
  "buildExperimentReplicas configurable env =
     (case js_prop configurable ''__langsmith_project__'' of
        JStr p \<Rightarrow>
          if p = [] then None
          else Some
            [\<lparr>rp_project = p,
              rp_example = (case js_prop configurable ''__langsmith_example_id__'' of
                JStr i \<Rightarrow> (if i = [] then None else Some i) | _ \<Rightarrow> None)\<rparr>,
             \<lparr>rp_project = or_else (first_some (env ''LANGSMITH_PROJECT'') (env ''LANGCHAIN_PROJECT'')) ''default'',
              rp_example = None\<rparr>]
      | _ \<Rightarrow> None)"

text \<open>\<^verbatim>\<open>Command\<close> and \<^verbatim>\<open>Send\<close> are constructors of the library; \<open>None\<close> is no command.\<close>

datatype goto_target = GotoNode string | GotoSend json json

record command =
  cd_goto :: "goto_target list option"
  cd_update :: json
  cd_resume :: json
  cd_graph :: json

definition goto_target_of :: "json \<Rightarrow> goto_target" where
  "goto_target_of item =
     (case item of JStr n \<Rightarrow> GotoNode n | _ \<Rightarrow> GotoSend (js_prop item ''node'') (js_prop item ''args''))"

definition goto_targets :: "json \<Rightarrow> goto_target list option" where
  "goto_targets goto =
     (if nullish goto then None
      else Some (map goto_target_of (case goto of JArr items \<Rightarrow> items | _ \<Rightarrow> [goto])))"

definition null_to_undefined :: "json \<Rightarrow> json" where
  "null_to_undefined v = or_nullish v JUndef"

definition reviveCommand :: "json \<Rightarrow> command option" where
  "reviveCommand c =
     (if nullish c then None
      else Some \<lparr>cd_goto = goto_targets (js_prop c ''goto''),
                 cd_update = null_to_undefined (js_prop c ''update''),
                 cd_resume = null_to_undefined (js_prop c ''resume''),
                 cd_graph = null_to_undefined (js_prop c ''graph'')\<rparr>)"

definition userStreamMode :: "json \<Rightarrow> string list" where
  "userStreamMode mode =
     (case mode of JStr m \<Rightarrow> [m] | JArr ms \<Rightarrow> map js_string ms | _ \<Rightarrow> [])"

definition graph_mode :: "string \<Rightarrow> string" where
  "graph_mode m =
     (if m = ''messages'' then ''values'' else if m = ''messages-tuple'' then ''messages'' else m)"

definition graphStreamMode :: "json \<Rightarrow> string list" where
  "graphStreamMode mode =
     (if truthy mode
      then foldl (\<lambda>ms m. if m \<in> set ms then ms else ms @ [m]) [] (map graph_mode (userStreamMode mode))
      else [])"

definition interrupt_points :: "json \<Rightarrow> json" where
  "interrupt_points v = (if nullish v \<or> v = JArr [] then JUndef else v)"

text \<open>
  The call of the graph: \<open>sc_modes\<close> and \<open>sc_subgraphs\<close> are what only the older protocol passes. The
  counter hook is the value \<open>increment\<close>, the version of the library \<open>version\<close>.
\<close>

record stream_call =
  sc_command :: "command option"
  sc_input :: json
  sc_config :: json
  sc_version :: string
  sc_modes :: "string list option"
  sc_subgraphs :: json
  sc_before :: json
  sc_after :: json
  sc_replicas :: "replica list option"

definition run_config :: "json \<Rightarrow> json option \<Rightarrow> json \<Rightarrow> json" where
  "run_config increment version userConfig =
     (let config = getRunnableConfig userConfig;
          counted = spread_with config
            [(''configurable'', spread_with (js_prop config ''configurable'') [(''__pregel_node_finished'', increment)])]
      in case version of
           None \<Rightarrow> counted
         | Some v \<Rightarrow> spread_with counted
             [(''metadata'', spread_with (or_nullish (js_prop counted ''metadata'') (JObj []))
                [(''langgraph_version'', v)])])"

definition isV3 :: "json \<Rightarrow> bool" where
  "isV3 payload = (js_prop payload ''stream_protocol'' = JStr ''v3'')"

definition stream_call_of ::
  "json \<Rightarrow> json option \<Rightarrow> (string \<Rightarrow> string option) \<Rightarrow> json \<Rightarrow> stream_call" where
  "stream_call_of increment version env payload =
     (let config = run_config increment version (js_prop payload ''config'') in
      \<lparr>sc_command = reviveCommand (js_prop payload ''command''),
       sc_input = js_prop payload ''input'',
       sc_config = config,
       sc_version = (if isV3 payload then ''v3'' else ''v2''),
       sc_modes = (if isV3 payload then None else Some (graphStreamMode (js_prop payload ''stream_mode''))),
       sc_subgraphs = (if isV3 payload then JUndef else js_prop payload ''subgraphs''),
       sc_before = interrupt_points (js_prop payload ''interrupt_before''),
       sc_after = interrupt_points (js_prop payload ''interrupt_after''),
       sc_replicas = buildExperimentReplicas (js_prop config ''configurable'') env\<rparr>)"

section \<open>The events of a run\<close>

record 'b chunk_message =
  cm_id :: "string option"
  cm_body :: 'b

datatype 'b messages_field =
    ManyMessages "'b chunk_message list"
  | OneMessage "'b chunk_message"
  | NoMessages

text \<open>
  What an event carries: one part or an array of parts. A part is a mode, a namespace, a state with
  a \<^verbatim>\<open>messages\<close> field, a message, or anything else (also undefined).
\<close>

datatype 'b part =
    ModePart string
  | NamespacePart "string list"
  | StatePart "'b messages_field"
  | MessagePart "'b chunk_message"
  | OtherPart json

datatype 'b chunk = Parts "'b part list" | Single "'b part"

record 'b graph_event =
  ge_event :: string
  ge_run :: "string option"
  ge_tags :: "string list"
  ge_metadata :: json
  ge_chunk :: "'b chunk"

datatype 'b stream_out =
    Forward "'b graph_event"
  | CompleteOut "'b chunk_message list"
  | MetadataOut string json
  | PartialOut "'b chunk_message"

definition reshape :: "string list \<Rightarrow> bool \<Rightarrow> 'b chunk \<Rightarrow> 'b chunk" where
  "reshape streamMode subgraphs c =
     (let c1 = (case c of
            Single p \<Rightarrow> (case streamMode of [m] \<Rightarrow> Parts [ModePart m, p] | _ \<Rightarrow> c)
          | Parts _ \<Rightarrow> c)
      in case c1 of
           Parts ps \<Rightarrow> if subgraphs \<and> length ps = 2 then Parts (NamespacePart [] # ps) else c1
         | Single _ \<Rightarrow> c1)"

text \<open>\<^verbatim>\<open>const [_, chunk] = data.data.chunk\<close>: \<open>OtherPart JUndef\<close> is a missing second part.\<close>

definition second_part :: "'b chunk \<Rightarrow> 'b part result" where
  "second_part c =
     (case c of
        Parts (_ # p # _) \<Rightarrow> returns p
      | Parts _ \<Rightarrow> returns (OtherPart JUndef)
      | Single (ModePart (_ # d # _)) \<Rightarrow> returns (ModePart [d])
      | Single (ModePart _) \<Rightarrow> returns (OtherPart JUndef)
      | Single _ \<Rightarrow> throws ''data.data.chunk is not iterable'')"

definition chunk_messages :: "'b part \<Rightarrow> 'b chunk_message list result" where
  "chunk_messages p =
     (case p of
        StatePart (ManyMessages ms) \<Rightarrow> returns ms
      | StatePart (OneMessage m) \<Rightarrow> returns [m]
      | StatePart NoMessages \<Rightarrow> throws ''Cannot read properties of undefined''
      | _ \<Rightarrow> returns [])"

fun complete_new :: "string list \<Rightarrow> 'b chunk_message list \<Rightarrow> string list \<times> 'b chunk_message list" where
  "complete_new seen [] = (seen, [])"
| "complete_new seen (m # ms) =
     (case present_id (cm_id m) of
        Some i \<Rightarrow>
          if i \<in> set seen then complete_new seen ms
          else (case complete_new (seen @ [i]) ms of (s, new) \<Rightarrow> (s, m # new))
      | None \<Rightarrow> complete_new seen ms)"

record 'b stream_state =
  ss_messages :: "(string, 'b chunk_message) jmap"
  ss_completed :: "string list"

definition stream_init :: "'b stream_state" where
  "stream_init = \<lparr>ss_messages = [], ss_completed = []\<rparr>"

type_synonym 'b glue = "'b chunk_message \<Rightarrow> 'b chunk_message \<Rightarrow> 'b chunk_message"

definition chain_step :: "'b stream_state \<Rightarrow> 'b chunk \<Rightarrow> ('b stream_out list \<times> 'b stream_state) result" where
  "chain_step st c =
     res_bind (second_part c) (\<lambda>p. res_bind (chunk_messages p) (\<lambda>ms.
       case complete_new (ss_completed st) ms of (seen, new) \<Rightarrow>
         returns (if new = [] then [] else [CompleteOut new], st\<lparr>ss_completed := seen\<rparr>)))"

definition model_step ::
  "'b glue \<Rightarrow> 'b stream_state \<Rightarrow> json \<Rightarrow> 'b chunk \<Rightarrow> ('b stream_out list \<times> 'b stream_state) result" where
  "model_step glue st metadata c =
     (case c of
        Single (MessagePart m) \<Rightarrow>
          (case present_id (cm_id m) of
             None \<Rightarrow> returns ([], st)
           | Some i \<Rightarrow>
               (case js_member (ss_messages st) i of
                  Absent \<Rightarrow>
                    returns ([MetadataOut i metadata, PartialOut m],
                             st\<lparr>ss_messages := jset i m (ss_messages st)\<rparr>)
                | Own old \<Rightarrow>
                    returns ([PartialOut (glue old m)],
                             st\<lparr>ss_messages := jset i (glue old m) (ss_messages st)\<rparr>)
                | Inherited \<Rightarrow> throws ''messages[message.id].concat is not a function''))
      | _ \<Rightarrow> returns ([], st))"

record stream_args =
  sa_user :: "string list"
  sa_modes :: "string list"
  sa_subgraphs :: bool
  sa_run :: "string option"

definition event_step ::
  "'b glue \<Rightarrow> stream_args \<Rightarrow> 'b stream_state \<Rightarrow> 'b graph_event \<Rightarrow>
   'b graph_event \<times> ('b stream_out list \<times> 'b stream_state) result" where
  "event_step glue a st ev =
     (let ev' = ev\<lparr>ge_chunk := reshape (sa_modes a) (sa_subgraphs a) (ge_chunk ev)\<rparr> in
      (ev',
       if ''messages'' \<notin> set (sa_user a) then returns ([], st)
       else if ge_event ev' = ''on_chain_stream'' \<and> ge_run ev' = sa_run a
       then chain_step st (ge_chunk ev')
       else if ge_event ev' = ''on_chat_model_stream'' \<and> ''nostream'' \<notin> set (ge_tags ev')
       then model_step glue st (ge_metadata ev') (ge_chunk ev')
       else returns ([], st)))"

text \<open>The generator: what it yields and the error it ends with, if any.\<close>

fun stream_events ::
  "'b glue \<Rightarrow> stream_args \<Rightarrow> 'b stream_state \<Rightarrow> 'b graph_event list \<Rightarrow> 'b stream_out list \<times> string option" where
  "stream_events glue a st [] = ([], None)"
| "stream_events glue a st (ev # evs) =
     (case event_step glue a st ev of
        (ev', Inl e) \<Rightarrow> ([Forward ev'], Some e)
      | (ev', Inr (outs, st')) \<Rightarrow>
          (case stream_events glue a st' evs of
             (rest, err) \<Rightarrow> (Forward ev' # outs @ rest, err)))"

definition stream_args_of :: "json \<Rightarrow> stream_args" where
  "stream_args_of payload =
     \<lparr>sa_user = userStreamMode (js_prop payload ''stream_mode''),
      sa_modes = graphStreamMode (js_prop payload ''stream_mode''),
      sa_subgraphs = truthy (js_prop payload ''subgraphs''),
      sa_run = (case js_prop (getRunnableConfig (js_prop payload ''config'')) ''runId'' of
                  JStr r \<Rightarrow> Some r | _ \<Rightarrow> None)\<rparr>"

definition streamEventsRequest ::
  "'b glue \<Rightarrow> json \<Rightarrow> 'b graph_event list \<Rightarrow> 'b stream_out list \<times> string option" where
  "streamEventsRequest glue payload evs =
     (if isV3 payload then (map Forward evs, None)
      else stream_events glue (stream_args_of payload) stream_init evs)"

section \<open>Writing answers and streams\<close>

text \<open>
  The answer of a handler: blanks are written while it runs, then the text of its result or of an
  error object. Nothing runs after that.
\<close>

datatype invoke_event = InvokeTick | InvokeReturns json | InvokeThrows thrown

record invoke =
  iv_interval :: bool
  iv_written :: string

definition invoke_init :: invoke where
  "invoke_init = \<lparr>iv_interval = True, iv_written = []\<rparr>"

definition invoke_error :: "thrown \<Rightarrow> json" where
  "invoke_error e = spread_with (JObj [(''__error__'', JBool True)]) (own_entries (serializeError e))"

definition invoke_react :: "invoke \<Rightarrow> invoke_event \<Rightarrow> invoke" where
  "invoke_react s ev =
     (if \<not> iv_interval s then s
      else case ev of
        InvokeTick \<Rightarrow> s\<lparr>iv_written := iv_written s @ '' ''\<rparr>
      | InvokeReturns v \<Rightarrow> \<lparr>iv_interval = False, iv_written = iv_written s @ json_render [] [] v\<rparr>
      | InvokeThrows e \<Rightarrow>
          \<lparr>iv_interval = False, iv_written = iv_written s @ json_render [] [] (invoke_error e)\<rparr>)"

text \<open>
  The frames of an event stream. \<open>sv_timer\<close> is the pending heartbeat, \<open>sv_open\<close> holds until the
  generator is done; data are the values as they are written.
\<close>

datatype sse_frame = HeartbeatFrame | EventFrame string "string option"

datatype sse_event = SseTimer | SseYields dict_value | SseEnds | SseThrows thrown

record sse =
  sv_timer :: bool
  sv_open :: bool
  sv_frames :: "sse_frame list"

definition sse_init :: sse where
  "sse_init = \<lparr>sv_timer = True, sv_open = True, sv_frames = []\<rparr>"

definition sendHeartbeat :: "sse \<Rightarrow> sse" where
  "sendHeartbeat s = s\<lparr>sv_frames := sv_frames s @ [HeartbeatFrame], sv_timer := True\<rparr>"

definition sendSSE :: "string \<Rightarrow> dict_value \<Rightarrow> sse \<Rightarrow> sse" where
  "sendSSE event v s = s\<lparr>sv_frames := sv_frames s @ [EventFrame event (serialiseAsDict v)], sv_timer := True\<rparr>"

definition sse_close :: "sse \<Rightarrow> sse" where
  "sse_close s = s\<lparr>sv_timer := False, sv_open := False\<rparr>"

definition sse_react :: "string \<Rightarrow> sse \<Rightarrow> sse_event \<Rightarrow> sse" where
  "sse_react name s ev =
     (case ev of
        SseTimer \<Rightarrow> if sv_timer s then sendHeartbeat s else s
      | SseYields v \<Rightarrow> if sv_open s then sendSSE name v s else s
      | SseEnds \<Rightarrow> if sv_open s then sse_close s else s
      | SseThrows e \<Rightarrow>
          if sv_open s then sse_close (sendSSE ''error'' (DLeaf (serializeError e)) s) else s)"

text \<open>The counter of executed nodes, which every reading resets.\<close>

datatype node_event = NodeFinished | NodesAsked

record node_counter =
  nc_executed :: nat
  nc_answers :: "nat list"

definition node_init :: node_counter where
  "node_init = \<lparr>nc_executed = 0, nc_answers = []\<rparr>"

definition node_react :: "node_counter \<Rightarrow> node_event \<Rightarrow> node_counter" where
  "node_react s ev =
     (case ev of
        NodeFinished \<Rightarrow> s\<lparr>nc_executed := nc_executed s + 1\<rparr>
      | NodesAsked \<Rightarrow> \<lparr>nc_executed = 0, nc_answers = nc_answers s @ [nc_executed s]\<rparr>)"

section \<open>Properties\<close>

subsection \<open>Messages of a stream\<close>

text \<open>
  What the stream should say, by its history: every chunk of a message streamed by a model is the
  concatenation of the chunks of that message so far, announced with metadata the first time; of the
  messages of the states every one is complete once.
\<close>

definition glued :: "'b glue \<Rightarrow> 'b chunk_message list \<Rightarrow> 'b chunk_message" where
  "glued glue ms = foldl glue (hd ms) (tl ms)"

definition same_id :: "'b chunk_message \<Rightarrow> 'b chunk_message list \<Rightarrow> 'b chunk_message list" where
  "same_id m ms = filter (\<lambda>x. cm_id x = cm_id m) ms"

fun announced ::
  "'b glue \<Rightarrow> 'b chunk_message list \<Rightarrow> (json \<times> 'b chunk_message) list \<Rightarrow> 'b stream_out list" where
  "announced glue before [] = []"
| "announced glue before ((metadata, m) # ms) =
     (if same_id m before = [] then [MetadataOut (or_else (cm_id m) []) metadata] else []) @
     PartialOut (glued glue (same_id m (before @ [m]))) # announced glue (before @ [m]) ms"

fun first_of_each :: "'b chunk_message list \<Rightarrow> 'b chunk_message list \<Rightarrow> 'b chunk_message list" where
  "first_of_each before [] = []"
| "first_of_each before (m # ms) =
     (if present_id (cm_id m) \<noteq> None \<and> same_id m before = [] then [m] else []) @
     first_of_each (before @ [m]) ms"

definition sent_event :: "stream_args \<Rightarrow> 'b graph_event \<Rightarrow> 'b graph_event" where
  "sent_event a ev = ev\<lparr>ge_chunk := reshape (sa_modes a) (sa_subgraphs a) (ge_chunk ev)\<rparr>"

definition from_chain :: "stream_args \<Rightarrow> 'b graph_event \<Rightarrow> bool" where
  "from_chain a ev =
     (''messages'' \<in> set (sa_user a) \<and> ge_event ev = ''on_chain_stream'' \<and> ge_run ev = sa_run a)"

definition from_model :: "stream_args \<Rightarrow> 'b graph_event \<Rightarrow> bool" where
  "from_model a ev =
     (''messages'' \<in> set (sa_user a) \<and> \<not> from_chain a ev \<and>
      ge_event ev = ''on_chat_model_stream'' \<and> ''nostream'' \<notin> set (ge_tags ev))"

definition state_messages :: "stream_args \<Rightarrow> 'b graph_event \<Rightarrow> 'b chunk_message list" where
  "state_messages a ev =
     (if from_chain a ev
      then (case second_part (ge_chunk (sent_event a ev)) of
              Inr (StatePart (ManyMessages ms)) \<Rightarrow> ms
            | Inr (StatePart (OneMessage m)) \<Rightarrow> [m]
            | _ \<Rightarrow> [])
      else [])"

definition model_messages :: "stream_args \<Rightarrow> 'b graph_event \<Rightarrow> (json \<times> 'b chunk_message) list" where
  "model_messages a ev =
     (if from_model a ev
      then (case ge_chunk (sent_event a ev) of
              Single (MessagePart m) \<Rightarrow> if present_id (cm_id m) = None then [] else [(ge_metadata ev, m)]
            | _ \<Rightarrow> [])
      else [])"

fun forwarded :: "'b stream_out list \<Rightarrow> 'b graph_event list" where
  "forwarded [] = []"
| "forwarded (Forward ev # os) = ev # forwarded os"
| "forwarded (_ # os) = forwarded os"

fun completed :: "'b stream_out list \<Rightarrow> 'b chunk_message list" where
  "completed [] = []"
| "completed (CompleteOut ms # os) = ms @ completed os"
| "completed (_ # os) = completed os"

fun spoken :: "'b stream_out list \<Rightarrow> 'b stream_out list" where
  "spoken [] = []"
| "spoken (MetadataOut i v # os) = MetadataOut i v # spoken os"
| "spoken (PartialOut m # os) = PartialOut m # spoken os"
| "spoken (_ # os) = spoken os"

lemma outs_append [simp]:
  "forwarded (os @ ps) = forwarded os @ forwarded ps"
  "completed (os @ ps) = completed os @ completed ps"
  "spoken (os @ ps) = spoken os @ spoken ps"
  by (induction os rule: forwarded.induct; simp)+

lemma first_of_each_append:
  "first_of_each before (ms @ rest) = first_of_each before ms @ first_of_each (before @ ms) rest"
  by (induction before ms rule: first_of_each.induct) simp_all

lemma announced_append:
  "announced glue before (ms @ rest) = announced glue before ms @ announced glue (before @ map snd ms) rest"
  by (induction glue before ms rule: announced.induct) simp_all

definition seen_ok :: "string list \<Rightarrow> 'b chunk_message list \<Rightarrow> bool" where
  "seen_ok seen before \<longleftrightarrow> (\<forall>i. i \<in> set seen \<longleftrightarrow> (\<exists>x \<in> set before. present_id (cm_id x) = Some i))"

definition glued_ok :: "'b glue \<Rightarrow> (string, 'b chunk_message) jmap \<Rightarrow> 'b chunk_message list \<Rightarrow> bool" where
  "glued_ok glue table before \<longleftrightarrow>
     (\<forall>i. map_of table i =
        (let ms = filter (\<lambda>x. cm_id x = Some i) before in if ms = [] then None else Some (glued glue ms)))"

lemma seen_same_id:
  assumes "seen_ok seen before" and "present_id (cm_id m) = Some i"
  shows "i \<in> set seen \<longleftrightarrow> same_id m before \<noteq> []"
proof -
  from assms(2) have m: "cm_id m = Some i" "i \<noteq> []" by (simp_all add: present_id_Some)
  have "i \<in> set seen \<longleftrightarrow> (\<exists>x \<in> set before. present_id (cm_id x) = Some i)"
    using assms(1) by (simp add: seen_ok_def)
  also have "\<dots> \<longleftrightarrow> (\<exists>x \<in> set before. cm_id x = cm_id m)"
    using m by (simp add: present_id_Some)
  finally show ?thesis by (auto simp: same_id_def filter_empty_conv)
qed

lemma complete_new_first:
  "seen_ok seen before \<Longrightarrow> complete_new seen ms = (seen', new) \<Longrightarrow>
   new = first_of_each before ms \<and> seen_ok seen' (before @ ms)"
proof (induction ms arbitrary: seen before new)
  case (Cons m ms)
  show ?case
  proof (cases "present_id (cm_id m)")
    case None
    with Cons.prems(1) have "seen_ok seen (before @ [m])" by (auto simp: seen_ok_def)
    from Cons.IH [OF this] Cons.prems(2) None show ?thesis by simp
  next
    case (Some i)
    show ?thesis
    proof (cases "i \<in> set seen")
      case True
      with Cons.prems(1) Some have "seen_ok seen (before @ [m])" by (auto simp: seen_ok_def)
      from Cons.IH [OF this] Cons.prems(2) Some True seen_same_id [OF Cons.prems(1) Some]
      show ?thesis by simp
    next
      case False
      with Cons.prems(2) Some obtain new' where new': "complete_new (seen @ [i]) ms = (seen', new')" "new = m # new'"
        by (auto split: prod.splits)
      have "seen_ok (seen @ [i]) (before @ [m])"
        using Cons.prems(1) Some by (auto simp: seen_ok_def)
      from Cons.IH [OF this new'(1)] new'(2) False Some seen_same_id [OF Cons.prems(1) Some]
      show ?thesis by simp
    qed
  qed
qed (auto simp: seen_ok_def)

lemma glued_snoc: "ms \<noteq> [] \<Longrightarrow> glued glue (ms @ [m]) = glue (glued glue ms) m"
  by (cases ms) (simp_all add: glued_def)

lemma model_step_announced:
  assumes "glued_ok glue (ss_messages st) before" and "present_id (cm_id m) = Some i"
    and "model_step glue st metadata (Single (MessagePart m)) = Inr (outs, st')"
  shows "outs = announced glue before [(metadata, m)] \<and>
    glued_ok glue (ss_messages st') (before @ [m]) \<and> ss_completed st' = ss_completed st"
proof -
  from assms(2) have m: "cm_id m = Some i" "i \<noteq> []" by (simp_all add: present_id_Some)
  have same: "same_id m before = filter (\<lambda>x. cm_id x = Some i) before" by (simp add: same_id_def m)
  have table: "map_of (ss_messages st) i = (if same_id m before = [] then None else Some (glued glue (same_id m before)))"
    using assms(1) by (simp add: glued_ok_def same Let_def)
  have other: "glued_ok glue (jset i v (ss_messages st)) (before @ [m])" if "v = glued glue (same_id m before @ [m])" for v
    using assms(1) m that by (auto simp: glued_ok_def Let_def same)
  show ?thesis
  proof (cases "same_id m before = []")
    case True
    with assms(3) table m show ?thesis
      using other [of m] by (auto simp: model_step_def present_id_def js_member_def glued_def same_id_def split: if_splits)
  next
    case False
    let ?g = "glue (glued glue (same_id m before)) m"
    have g: "?g = glued glue (same_id m before @ [m])" using False by (simp add: glued_snoc)
    from False table have own: "js_member (ss_messages st) i = Own (glued glue (same_id m before))" by simp
    with assms(2,3) have out: "outs = [PartialOut ?g]" "st' = st\<lparr>ss_messages := jset i ?g (ss_messages st)\<rparr>"
      by (simp_all add: model_step_def)
    have "same_id m (before @ [m]) = same_id m before @ [m]" by (simp add: same_id_def)
    with out False g other [OF g] show ?thesis by simp
  qed
qed

lemma announced_kinds: "forwarded (announced glue b ms) = [] \<and> completed (announced glue b ms) = [] \<and>
    spoken (announced glue b ms) = announced glue b ms"
  by (induction glue b ms rule: announced.induct) auto

lemma event_step_history:
  assumes "seen_ok (ss_completed st) bs" and "glued_ok glue (ss_messages st) bm"
    and "event_step glue a st ev = (ev', Inr (outs, st'))"
  shows "ev' = sent_event a ev \<and> forwarded outs = [] \<and>
    completed outs = first_of_each bs (state_messages a ev) \<and>
    spoken outs = announced glue bm (model_messages a ev) \<and>
    seen_ok (ss_completed st') (bs @ state_messages a ev) \<and>
    glued_ok glue (ss_messages st') (bm @ map snd (model_messages a ev))"
proof -
  have ev': "ev' = sent_event a ev" using assms(3) by (simp add: event_step_def sent_event_def Let_def)
  have same: "ge_event (sent_event a ev) = ge_event ev" "ge_run (sent_event a ev) = ge_run ev"
    "ge_tags (sent_event a ev) = ge_tags ev" "ge_metadata (sent_event a ev) = ge_metadata ev"
    by (simp_all add: sent_event_def)
  consider (chain) "from_chain a ev" | (model) "\<not> from_chain a ev" "from_model a ev"
    | (none) "\<not> from_chain a ev" "\<not> from_model a ev" by blast
  then show ?thesis
  proof cases
    case chain
    then have nomodel: "model_messages a ev = []" by (simp add: model_messages_def from_model_def)
    from chain assms(3) have "chain_step st (ge_chunk (sent_event a ev)) = Inr (outs, st')"
      by (auto simp: event_step_def from_chain_def Let_def sent_event_def)
    then obtain p ms where p: "second_part (ge_chunk (sent_event a ev)) = Inr p" "chunk_messages p = Inr ms"
      "(case complete_new (ss_completed st) ms of (seen, new) \<Rightarrow>
         (Inr (if new = [] then [] else [CompleteOut new], st\<lparr>ss_completed := seen\<rparr>) :: (_ list \<times> _) result)) = Inr (outs, st')"
      unfolding chain_step_def by (auto simp: res_bind_Inr)
    obtain seen new where cn: "complete_new (ss_completed st) ms = (seen, new)" by fastforce
    from p(2) have "state_messages a ev = ms"
      using chain p(1) by (auto simp: state_messages_def chunk_messages_def split: part.splits messages_field.splits)
    with complete_new_first [OF assms(1) cn] cn p(3) ev' nomodel assms(2) show ?thesis
      by (auto split: if_splits)
  next
    case model
    then have nostate: "state_messages a ev = []" by (simp add: state_messages_def)
    from model assms(3) have step: "model_step glue st (ge_metadata ev) (ge_chunk (sent_event a ev)) = Inr (outs, st')"
      by (auto simp: event_step_def from_chain_def from_model_def Let_def sent_event_def)
    show ?thesis
    proof (cases "\<exists>m i. ge_chunk (sent_event a ev) = Single (MessagePart m) \<and> present_id (cm_id m) = Some i")
      case True
      then obtain m i where m: "ge_chunk (sent_event a ev) = Single (MessagePart m)" "present_id (cm_id m) = Some i"
        by blast
      with model have "model_messages a ev = [(ge_metadata ev, m)]" by (simp add: model_messages_def)
      with model_step_announced [OF assms(2) m(2)] step m(1) nostate ev' assms(1)
        announced_kinds [of glue bm "[(ge_metadata ev, m)]"] show ?thesis by simp
    next
      case False
      with step have "outs = [] \<and> st' = st"
        by (auto simp: model_step_def split: chunk.splits part.splits option.splits)
      moreover from False model have "model_messages a ev = []"
        by (auto simp: model_messages_def split: chunk.splits part.splits)
      ultimately show ?thesis using nostate ev' assms(1,2) by simp
    qed
  next
    case none
    then have "state_messages a ev = []" "model_messages a ev = []"
      by (simp_all add: state_messages_def model_messages_def)
    moreover from none assms(3) have "outs = [] \<and> st' = st"
      by (auto simp: event_step_def from_chain_def from_model_def Let_def split: if_splits)
    ultimately show ?thesis using ev' assms(1,2) by simp
  qed
qed

lemma stream_history:
  "seen_ok (ss_completed st) bs \<Longrightarrow> glued_ok glue (ss_messages st) bm \<Longrightarrow>
   stream_events glue a st evs = (outs, None) \<Longrightarrow>
   forwarded outs = map (sent_event a) evs \<and>
   completed outs = first_of_each bs (concat (map (state_messages a) evs)) \<and>
   spoken outs = announced glue bm (concat (map (model_messages a) evs))"
proof (induction evs arbitrary: st bs bm outs)
  case (Cons ev evs)
  from Cons.prems(3) obtain ev' os st' rest where
    step: "event_step glue a st ev = (ev', Inr (os, st'))" and
    rest: "stream_events glue a st' evs = (rest, None)" and outs: "outs = Forward ev' # os @ rest"
    by (auto split: prod.splits sum.splits)
  from event_step_history [OF Cons.prems(1,2) step]
  have h: "ev' = sent_event a ev" "forwarded os = []" "completed os = first_of_each bs (state_messages a ev)"
    "spoken os = announced glue bm (model_messages a ev)"
    "seen_ok (ss_completed st') (bs @ state_messages a ev)"
    "glued_ok glue (ss_messages st') (bm @ map snd (model_messages a ev))" by blast+
  from Cons.IH [OF h(5,6) rest] h(1-4) outs show ?case
    by (simp add: first_of_each_append announced_append)
qed simp


definition demo_chunk :: "string \<Rightarrow> string graph_event" where
  "demo_chunk s =
     \<lparr>ge_event = ''on_chat_model_stream'', ge_run = Some ''r'', ge_tags = [], ge_metadata = JObj [],
      ge_chunk = Single (MessagePart \<lparr>cm_id = Some ''m'', cm_body = s\<rparr>)\<rparr>"

definition demo_glue :: "string glue" where
  "demo_glue x y = x\<lparr>cm_body := cm_body x @ cm_body y\<rparr>"

definition demo_args :: stream_args where
  "demo_args = \<lparr>sa_user = [''messages''], sa_modes = [''values'', ''debug''], sa_subgraphs = False, sa_run = None\<rparr>"


text \<open>
  With subgraphs a part more stands in front, so the second part of an event is the mode and no
  message is ever reported complete.
\<close>

lemma subgraphs_never_complete:
  assumes "sa_subgraphs a"
    and "ge_chunk ev = Parts [ModePart mode, p] \<or> ge_chunk ev = Parts [NamespacePart ns, ModePart mode, p]"
  shows "state_messages a ev = []"
  using assms by (auto simp: state_messages_def sent_event_def reshape_def second_part_def)

subsection \<open>Heartbeats\<close>

interpretation sv: reducer sse_init "sse_react name" "\<lambda>s. sv_timer s = sv_open s" for name
  by unfold_locales
    (auto simp: sse_init_def sse_react_def sendHeartbeat_def sendSSE_def sse_close_def split: sse_event.splits)

fun sse_over :: "sse_event \<Rightarrow> bool" where
  "sse_over SseEnds = True"
| "sse_over (SseThrows _) = True"
| "sse_over _ = False"

fun sse_frame_of :: "string \<Rightarrow> sse_event \<Rightarrow> sse_frame list" where
  "sse_frame_of name SseTimer = [HeartbeatFrame]"
| "sse_frame_of name (SseYields v) = [EventFrame name (serialiseAsDict v)]"
| "sse_frame_of name (SseThrows e) = [EventFrame ''error'' (serialiseAsDict (DLeaf (serializeError e)))]"
| "sse_frame_of name SseEnds = []"

lemmas sse_defs = sse_react_def sendHeartbeat_def sendSSE_def sse_close_def

lemma sse_closed_stays: "\<not> sv_open s \<Longrightarrow> \<not> sv_timer s \<Longrightarrow> foldl (sse_react name) s es = s"
  by (induction es) (auto simp: sse_defs split: sse_event.split)

lemma sse_run:
  "sv_open s \<Longrightarrow> sv_timer s \<Longrightarrow>
   sv_frames (foldl (sse_react name) s es) =
     sv_frames s @ concat (map (sse_frame_of name) (takeWhile (\<lambda>e. \<not> sse_over e) es)) @
     (case dropWhile (\<lambda>e. \<not> sse_over e) es of [] \<Rightarrow> [] | e # _ \<Rightarrow> sse_frame_of name e) \<and>
   sv_open (foldl (sse_react name) s es) = (\<forall>e \<in> set es. \<not> sse_over e)"
proof (induction es arbitrary: s)
  case (Cons e es)
  show ?case
  proof (cases "sse_over e")
    case True
    then have "foldl (sse_react name) (sse_react name s e) es = sse_react name s e"
      using Cons.prems by (intro sse_closed_stays) (auto simp: sse_defs split: sse_event.split)
    moreover have "sv_frames (sse_react name s e) = sv_frames s @ sse_frame_of name e"
      "\<not> sv_open (sse_react name s e)"
      using True Cons.prems by (cases e; simp add: sse_defs)+
    ultimately show ?thesis using True by simp
  next
    case False
    then have "sv_open (sse_react name s e)" "sv_timer (sse_react name s e)"
      "sv_frames (sse_react name s e) = sv_frames s @ sse_frame_of name e"
      using Cons.prems by (cases e; simp add: sse_defs)+
    with Cons.IH False show ?thesis by simp
  qed
qed simp

text \<open>C40: A stream writes the values of its handler in order with heartbeats between them, then one
  error frame exactly if the handler threw, and nothing after that. As long as it is open a heartbeat
  is pending, so the connection never goes silent; once it is closed no timer is left.\<close>

theorem stream_frames_exact:
  "let s = foldl (sse_react name) sse_init es;
       running = takeWhile (\<lambda>e. \<not> sse_over e) es;
       rest = dropWhile (\<lambda>e. \<not> sse_over e) es in
   sv_frames s = concat (map (sse_frame_of name) running) @ (case rest of [] \<Rightarrow> [] | e # _ \<Rightarrow> sse_frame_of name e) \<and>
   sv_open s = (rest = []) \<and> sv_timer s = sv_open s"
proof -
  have "sv_timer (foldl (sse_react name) sse_init es) = sv_open (foldl (sse_react name) sse_init es)"
    by (rule sv.run_start_good)
  moreover have "dropWhile (\<lambda>e. \<not> sse_over e) es = [] \<longleftrightarrow> (\<forall>e \<in> set es. \<not> sse_over e)"
    by (simp add: dropWhile_eq_Nil_conv)
  ultimately show ?thesis
    using sse_run [of sse_init name es] by (simp add: Let_def sse_init_def)
qed

lemma invoke_ticks:
  "foldl invoke_react \<lparr>iv_interval = True, iv_written = w\<rparr> (replicate n InvokeTick) =
     \<lparr>iv_interval = True, iv_written = w @ replicate n CHR '' ''\<rparr>"
  by (induction n arbitrary: w) (simp_all add: invoke_react_def)

lemma invoke_stops: "\<not> iv_interval s \<Longrightarrow> foldl invoke_react s es = s"
  by (induction es) (simp_all add: invoke_react_def)

text \<open>A reader that skips blanks gets exactly the JSON text of the result, or of the error object.\<close>

lemma invoke_answer:
  assumes "e = InvokeReturns (JObj kvs) \<or> (e = InvokeThrows x \<and> invoke_error x = JObj kvs)"
  shows "strip_leading is_space (iv_written (foldl invoke_react invoke_init (replicate n InvokeTick @ e # es))) =
     json_render [] [] (JObj kvs)"
proof -
  have "strip_leading is_space (replicate n CHR '' '' @ s) = strip_leading is_space s" for s
    by (induction n) (simp_all add: strip_leading_def is_space_def)
  moreover have "strip_leading is_space (json_render [] [] (JObj kvs)) = json_render [] [] (JObj kvs)"
    by (simp add: wrap_items_def strip_leading_def is_space_def)
  moreover have "foldl invoke_react invoke_init (replicate n InvokeTick @ e # es) =
      \<lparr>iv_interval = False, iv_written = replicate n CHR '' '' @ json_render [] [] (JObj kvs)\<rparr>"
    unfolding invoke_init_def foldl_append invoke_ticks using assms
    by (auto simp: invoke_stops invoke_react_def)
  ultimately show ?thesis by simp
qed

subsection \<open>Executed nodes\<close>

text \<open>No executed node is lost or counted twice.\<close>

lemma node_conservation:
  "sum_list (nc_answers (foldl node_react s es)) + nc_executed (foldl node_react s es) =
   sum_list (nc_answers s) + nc_executed s + length (filter (\<lambda>e. e = NodeFinished) es)"
  by (induction es arbitrary: s) (auto simp: node_react_def split: node_event.split)

end
