(* ===== verification/SidecarGraphs.thy ===== *)
theory SidecarGraphs
imports SidecarStream
begin

text \<open>
  The Node sidecar of the backend, third part: how graphs are loaded, named and described
  (\<^verbatim>\<open>client.mts\<close>, \<^verbatim>\<open>build.mts\<close>, \<^verbatim>\<open>src/graph.mts\<close> under \<^verbatim>\<open>backend/server/api/js\<close>), its routes for
  authentication and the HTTP application of the user (\<^verbatim>\<open>client.http.mts\<close>), where the packages of the
  graph library are found (\<^verbatim>\<open>src/load.hooks.mjs\<close>, \<^verbatim>\<open>src/preload.mjs\<close>) and which trace requests are
  blocked (\<^verbatim>\<open>traceblock.mts\<close>). Modules, the file system, the module loader and the library that
  extracts schemas are arguments.
\<close>

section \<open>Loading a graph\<close>

text \<open>
  A value that may be a graph: an object with an identity, what its \<^verbatim>\<open>compile\<close> gives if it has one,
  whether its \<^verbatim>\<open>builder\<close> is an object, and its \<^verbatim>\<open>graph\<close> member; or no object.
\<close>

datatype graph_like =
    GraphObject (graph_id: string) (compile_of: "graph_like option") (has_builder: bool) (graph_member: "graph_like option")
  | GraphPrimitive

definition afterResolve :: "graph_like \<Rightarrow> graph_like result" where
  "afterResolve g =
     (let c = (case g of GraphObject _ (Some h) _ _ \<Rightarrow> h | _ \<Rightarrow> g) in
      case c of
        GraphPrimitive \<Rightarrow> throws ''Cannot use 'in' operator to search for 'graph' in the value''
      | GraphObject _ _ builder member \<Rightarrow>
          if builder then returns c else returns (or_else member c))"

datatype graph_export =
    NoExport
  | FactoryExport "json \<Rightarrow> graph_like result"
  | GraphExport "graph_like result"

datatype resolved_graph = ReadyGraph graph_like | GraphFactory "json \<Rightarrow> graph_like result"

definition resolve_export :: "graph_export \<Rightarrow> resolved_graph result" where
  "resolve_export e =
     (case e of
        NoExport \<Rightarrow> throws ''Failed to load graph: graph is nullush''
      | FactoryExport f \<Rightarrow> returns (GraphFactory (\<lambda>config. res_bind (f config) afterResolve))
      | GraphExport r \<Rightarrow> res_bind r (\<lambda>g. res_bind (afterResolve g) (\<lambda>c. returns (ReadyGraph c))))"

record graph_spec =
  gp_source :: string
  gp_symbol :: "string option"

definition spec_file :: "string \<Rightarrow> string" where
  "spec_file spec = hd (split_on CHR '':'' spec)"

definition spec_symbol :: "string \<Rightarrow> string option" where
  "spec_symbol spec = (case split_on CHR '':'' spec of _ # s # _ \<Rightarrow> Some s | _ \<Rightarrow> None)"

definition resolveGraph ::
  "(string \<Rightarrow> string) \<Rightarrow> (string \<Rightarrow> bool) \<Rightarrow> (string \<Rightarrow> string \<Rightarrow> graph_export result) \<Rightarrow> bool \<Rightarrow> string \<Rightarrow>
   (graph_spec \<times> resolved_graph option) result" where
  "resolveGraph absolute present load onlyFilePresence spec =
     (let sourceFile = absolute (spec_file spec);
          gs = \<lparr>gp_source = sourceFile, gp_symbol = spec_symbol spec\<rparr> in
      if \<not> present sourceFile then throws (''ENOENT: no such file or directory, stat '' @ sourceFile)
      else if onlyFilePresence then returns (gs, None)
      else res_bind (load sourceFile (or_else (present_id (spec_symbol spec)) ''default''))
             (\<lambda>e. res_bind (resolve_export e) (\<lambda>r. returns (gs, Some r))))"

text \<open>A source of Python is not the sidecar's; \<open>None\<close> is no path.\<close>

definition filterValidExportPath :: "string option \<Rightarrow> bool" where
  "filterValidExportPath path =
     (case present_id path of
        None \<Rightarrow> False
      | Some p \<Rightarrow> \<not> ends_with (spec_file p) ''.py'')"

definition spec_path :: "json \<Rightarrow> string option" where
  "spec_path raw = (case raw of JStr p \<Rightarrow> Some p | _ \<Rightarrow> (case js_prop raw ''path'' of JStr p \<Rightarrow> Some p | _ \<Rightarrow> None))"

definition spec_valid :: "json \<Rightarrow> bool" where
  "spec_valid raw =
     (case raw of
        JStr p \<Rightarrow> filterValidExportPath (Some p)
      | _ \<Rightarrow> \<not> ends_with (spec_file (or_else (spec_path raw) [])) ''.py'')"

definition sidecar_specs :: "json \<Rightarrow> (string \<times> json) list" where
  "sidecar_specs graphs = filter (\<lambda>(_, raw). spec_valid raw) (own_entries graphs)"

section \<open>The graphs at run time\<close>

datatype http_error = HttpError nat string | PlainError string

text \<open>
  The graphs are shared objects: \<open>gr_names\<close> holds the name of each by its identity and \<open>gr_wired\<close> those
  that were given the checkpointer and the store. Graphs are looked up by the ids the server registered.
\<close>

record graphs =
  gr_resolved :: "(string, resolved_graph) jmap"
  gr_names :: "(string, string) jmap"
  gr_wired :: "string list"

definition factory_config :: "json \<Rightarrow> json \<Rightarrow> json \<Rightarrow> json" where
  "factory_config checkpointer store config =
     spread_with config [(''checkpointer'', checkpointer), (''store'', store)]"

definition name_graph :: "string option \<Rightarrow> string \<Rightarrow> (string, string) jmap \<Rightarrow> (string, string) jmap" where
  "name_graph name g names =
     (if map_of names g = None \<or> map_of names g = Some ''LangGraph''
      then (case name of Some n \<Rightarrow> jset g n names | None \<Rightarrow> jdel g names)
      else names)"

definition getGraph ::
  "json \<Rightarrow> json \<Rightarrow> graphs \<Rightarrow> string \<Rightarrow> json \<Rightarrow> string option \<Rightarrow> http_error + (graph_like \<times> graphs)" where
  "getGraph checkpointer store st graphId config name =
     (case map_of (gr_resolved st) graphId of
        None \<Rightarrow> Inl (HttpError 404 (''Graph '' @ [CHR 0x22] @ graphId @ [CHR 0x22] @ '' not found''))
      | Some r \<Rightarrow>
          (case (case r of ReadyGraph g \<Rightarrow> returns g
                         | GraphFactory f \<Rightarrow> f (factory_config checkpointer store config)) of
             Inl e \<Rightarrow> Inl (PlainError e)
           | Inr g \<Rightarrow>
               (case g of
                  GraphPrimitive \<Rightarrow> Inr (g, st)
                | GraphObject i _ _ _ \<Rightarrow>
                    Inr (g, st\<lparr>gr_names := name_graph name i (gr_names st), gr_wired := gr_wired st @ [i]\<rparr>))))"

section \<open>Schemas\<close>

text \<open>\<open>None\<close> in the cache is the \<^verbatim>\<open>false\<close> the build writes for a graph without a schema.\<close>

definition schema_timeout :: "string option \<Rightarrow> int option" where
  "schema_timeout setting =
     (case parse_int (or_else (present_id setting) ''30000'') of
        Some n \<Rightarrow> if n \<le> 0 then None else Some n
      | None \<Rightarrow> None)"

type_synonym schema_cache = "(string, json option) jmap"

definition getOrExtractSchema ::
  "(string, graph_spec) jmap \<Rightarrow> (string \<Rightarrow> json result) \<Rightarrow> schema_cache \<Rightarrow> string \<Rightarrow> json result \<times> schema_cache" where
  "getOrExtractSchema specs extract cache graphId =
     (if \<not> js_in graphId specs then (throws (''Spec for '' @ graphId @ '' not found''), cache)
      else case map_of cache graphId of
        Some (Some s) \<Rightarrow> (returns s, cache)
      | Some None \<Rightarrow> (throws (''Failed to locate schema for '' @ [CHR 0x22] @ graphId @ [CHR 0x22]), cache)
      | None \<Rightarrow>
          (case extract graphId of
             Inr s \<Rightarrow> (returns s, jset graphId (Some s) cache)
           | Inl e \<Rightarrow> (throws (''Failed to extract schema for '' @ [CHR 0x22] @ graphId @ [CHR 0x22] @ '': '' @ e), cache)))"

definition root_graph :: "json \<Rightarrow> string result" where
  "root_graph schema =
     (case find (\<lambda>k. CHR ''|'' \<notin> set k) (map fst (own_entries schema)) of
        Some k \<Rightarrow> if k = [] then throws ''Failed to find root graph'' else returns k
      | None \<Rightarrow> throws ''Failed to find root graph'')"

definition subgraph_schema :: "json \<Rightarrow> string \<Rightarrow> json result" where
  "subgraph_schema schema ns =
     res_bind (root_graph schema) (\<lambda>root.
       let own = js_prop schema (root @ ''|'' @ ns) in
       returns (if truthy own then own else js_prop schema root))"

text \<open>
  A request extracts the static schema at most once, the first time a subgraph has none of its own:
  \<open>extracted\<close> is what that gives.
\<close>

fun subgraph_entries :: "json result \<Rightarrow> (string \<times> json) list \<Rightarrow> (string \<times> json) list result" where
  "subgraph_entries extracted [] = returns []"
| "subgraph_entries extracted ((ns, runtime) # rest) =
     res_bind (if truthy runtime then returns runtime
               else res_bind extracted (\<lambda>schema. subgraph_schema schema ns))
       (\<lambda>s. res_bind (subgraph_entries extracted rest) (\<lambda>es. returns ((ns, s) # es)))"

definition getSubgraphsRequest :: "json result \<Rightarrow> (string \<times> json) list \<Rightarrow> json result" where
  "getSubgraphsRequest extracted subgraphs =
     res_bind (subgraph_entries extracted subgraphs)
       (\<lambda>es. returns (JObj (fold (\<lambda>(k, v). jset k v) es [])))"

definition getSchemaRequest :: "json result \<Rightarrow> json \<Rightarrow> json result" where
  "getSchemaRequest extracted runtime =
     (if truthy runtime then returns runtime
      else res_bind extracted (\<lambda>schema. res_bind (root_graph schema) (\<lambda>root. returns (js_prop schema root))))"

text \<open>What the build writes for each graph of the sidecar: its schemas, or \<^verbatim>\<open>false\<close>.\<close>

definition built_schema :: "json \<Rightarrow> json" where
  "built_schema valid =
     (if nullish valid \<or> list_all (\<lambda>(_, v). nullish v) (own_entries valid) then JBool False else valid)"

definition schema_file :: "json \<Rightarrow> (string \<times> json) list \<Rightarrow> json" where
  "schema_file schemas specs =
     JObj (fold (\<lambda>(g, _). jset g (built_schema (js_prop schemas g))) specs [])"

definition read_cache :: "json \<Rightarrow> schema_cache" where
  "read_cache file =
     List.map_filter (\<lambda>(g, v). if v = JBool False then Some (g, None)
        else if truthy v then Some (g, Some v) else None) (own_entries file)"

section \<open>Start-up times\<close>

datatype log_level = LogInfo | LogWarn | LogError

definition time_level :: "nat \<Rightarrow> log_level" where
  "time_level ms = (if 30000 < ms then LogError else if 3000 < ms then LogWarn else LogInfo)"

definition threshold_ms :: "nat \<Rightarrow> nat" where
  "threshold_ms ms = (case time_level ms of LogError \<Rightarrow> 30000 | LogWarn \<Rightarrow> 3000 | LogInfo \<Rightarrow> 0)"

definition by_duration_desc :: "string \<times> nat \<Rightarrow> string \<times> nat \<Rightarrow> int" where
  "by_duration_desc a b = int (snd b) - int (snd a)"

definition graph_timings :: "(string \<times> nat) list \<Rightarrow> (string \<times> nat) list" where
  "graph_timings ts = js_sort by_duration_desc ts"

section \<open>Routes\<close>

text \<open>
  What authentication throws: an \<^verbatim>\<open>HTTPException\<close> with its status, the status and headers of its own
  response if it has one, and the error it prints as; or anything else.
\<close>

datatype auth_thrown = HttpThrown nat "(nat \<times> json) option" thrown | OtherAuthThrown thrown

definition authenticate_route :: "auth_thrown + json \<Rightarrow> nat \<times> json" where
  "authenticate_route r =
     (case r of
        Inr context \<Rightarrow> (200, context)
      | Inl (HttpThrown st res e) \<Rightarrow>
          (st, spread_with (serializeError e)
             [(''status'', JNum (int (case res of Some (s, _) \<Rightarrow> s | None \<Rightarrow> st))),
              (''headers'', case res of Some (_, h) \<Rightarrow> h | None \<Rightarrow> JUndef)])
      | Inl (OtherAuthThrown e) \<Rightarrow> (403, serializeError e))"

definition authorize_route :: "auth_thrown + json \<Rightarrow> nat \<times> json" where
  "authorize_route r =
     (case r of
        Inr v \<Rightarrow> (200, v)
      | Inl (HttpThrown st _ e) \<Rightarrow> (st, serializeError e)
      | Inl (OtherAuthThrown e) \<Rightarrow> (500, serializeError e))"

text \<open>The last resort: \<open>None\<close> is the response an unauthorized exception carries itself.\<close>

definition on_error :: "auth_thrown \<Rightarrow> (nat \<times> string) option" where
  "on_error t =
     (let text = (\<lambda>e. case js_prop (serializeError e) ''message'' of
                        JStr s \<Rightarrow> if s = [] then ''Internal server error'' else s
                      | _ \<Rightarrow> ''Internal server error'') in
      case t of
        HttpThrown st _ e \<Rightarrow> if st = 401 then None else Some (500, text e)
      | OtherAuthThrown e \<Rightarrow> Some (500, text e))"

text \<open>
  The user's application: the check whether it handles a request, and its own not-found answer, which
  gives the body back. \<open>kept\<close> is the body kept before the handlers ran and \<open>body_json\<close> what reading
  it as JSON gives.
\<close>

definition langgraph_check :: "(string \<Rightarrow> string \<Rightarrow> nat) \<Rightarrow> string option \<Rightarrow> string option \<Rightarrow> nat" where
  "langgraph_check handlers method path =
     (case (present_id method, present_id path) of
        (Some m, Some p) \<Rightarrow> if handlers m p = 0 then 404 else 200
      | _ \<Rightarrow> 400)"

record not_found =
  nf_status :: nat
  nf_body :: "string option"
  nf_marker :: string
  nf_has_body :: string

definition notFound :: "string option \<Rightarrow> json result \<Rightarrow> not_found" where
  "notFound kept body_json =
     (let payload = (case kept of
            Some b \<Rightarrow> Some b
          | None \<Rightarrow> (case body_json of Inr v \<Rightarrow> json_stringify v | Inl _ \<Rightarrow> None)) in
      \<lparr>nf_status = 404, nf_body = payload, nf_marker = ''not-found'',
       nf_has_body = (if payload \<noteq> None then ''true'' else ''false'')\<rparr>)"

definition registerHttp ::
  "(string \<Rightarrow> string) \<Rightarrow> (string \<Rightarrow> string \<Rightarrow> 'app option) \<Rightarrow> string \<Rightarrow> 'app result" where
  "registerHttp absolute load appPath =
     (case load (absolute (spec_file appPath)) (or_else (present_id (spec_symbol appPath)) ''default'') of
        Some user \<Rightarrow> returns user
      | None \<Rightarrow> throws (''Failed to load HTTP app: '' @ appPath))"

section \<open>Resolving packages\<close>

definition under_package :: "string \<Rightarrow> string \<Rightarrow> bool" where
  "under_package package specifier =
     (specifier = package \<or>
      (starts_with specifier (package @ ''/'') \<and> drop (length package + 1) specifier \<noteq> [] \<and>
       list_all (\<lambda>c. \<not> is_newline c) (drop (length package + 1) specifier)))"

definition LANGGRAPH :: string where
  "LANGGRAPH = ''@langchain/langgraph''"

definition CHECKPOINT :: string where
  "CHECKPOINT = ''@langchain/langgraph-checkpoint''"

definition overridden :: "string \<Rightarrow> bool" where
  "overridden specifier = (under_package LANGGRAPH specifier \<or> under_package CHECKPOINT specifier)"

fun replace_first :: "string \<Rightarrow> string \<Rightarrow> string \<Rightarrow> string" where
  "replace_first p w [] = (if p = [] then w else [])"
| "replace_first p w (c # s) =
     (if starts_with (c # s) p then w @ drop (length p) (c # s) else c # replace_first p w s)"

text \<open>
  The hook: \<open>next\<close> is the rest of the loader, given a specifier and the parent to resolve from
  (\<open>None\<close> keeps the importing module). The state is the place the graph library was found at.
\<close>

definition resolve_hook ::
  "(string \<Rightarrow> string option \<Rightarrow> string) \<Rightarrow> string \<Rightarrow> string option \<Rightarrow> string \<Rightarrow> string \<times> string option" where
  "resolve_hook next parentURL found specifier =
     (if includes_str specifier ''@tailwindcss/node/dist/esm-cache.loader'' \<and> starts_with specifier ''file://''
      then (replace_first ''.mts'' ''.mjs'' specifier, found)
      else if specifier = CHECKPOINT then
        (let main = (case present_id found of Some u \<Rightarrow> u | None \<Rightarrow> next LANGGRAPH (Some parentURL)) in
         (next specifier (Some main), Some main))
      else if overridden specifier then
        (let url = next specifier (Some parentURL) in
         (url, if specifier = LANGGRAPH \<and> present_id found = None then Some url else found))
      else (next specifier None, found))"

definition graph_file :: "json \<Rightarrow> string option" where
  "graph_file g =
     (case g of
        JStr s \<Rightarrow> Some (spec_file s)
      | _ \<Rightarrow> (case js_prop g ''path'' of JStr p \<Rightarrow> if p = [] then None else Some (spec_file p) | _ \<Rightarrow> None))"

definition firstGraphFile :: "json \<Rightarrow> string" where
  "firstGraphFile graphs =
     (case List.map_filter (\<lambda>(_, g). present_id (graph_file g)) (own_entries graphs) of
        f # _ \<Rightarrow> f
      | [] \<Rightarrow> ''index.mts'')"

section \<open>Blocked traces\<close>

definition RUNS_RE :: re where
  "RUNS_RE =
     cats [TextStart, lit_ci ''https://api.smith.langchain.com/'', Rep (Cls (\<lambda>c. \<not> is_newline c)),
           lit_ci ''runs'', Alt (lit ''/'') TextEnd]"

definition upper_ascii :: "char \<Rightarrow> char" where
  "upper_ascii c = (let n = (of_char c :: nat) in if 97 \<le> n \<and> n \<le> 122 then char_of (n - 32) else c)"

definition trace_blocked :: "string option \<Rightarrow> string \<Rightarrow> string \<Rightarrow> bool" where
  "trace_blocked setting method url =
     (setting = Some ''true'' \<and> map upper_ascii method = ''POST'' \<and> test_re RUNS_RE url)"

section \<open>Properties\<close>

subsection \<open>Schemas from build to run time\<close>

lemma read_cache_lookup:
  "map_of kvs g = Some v \<Longrightarrow> v = JBool False \<or> truthy v \<Longrightarrow>
   map_of (read_cache (JObj kvs)) g = Some (if v = JBool False then None else Some v)"
proof (induction kvs)
  case (Cons kv kvs)
  obtain k w where kv: "kv = (k, w)" by fastforce
  show ?case
  proof (cases "k = g")
    case True
    with Cons.prems kv have "w = v" "w = JBool False \<or> truthy w" by simp_all
    with True kv show ?thesis by (auto simp: read_cache_def List.map_filter_simps)
  next
    case False
    with Cons kv show ?thesis
      by (simp add: read_cache_def List.map_filter_simps split: option.split)
  qed
qed simp

lemma map_of_wire_members:
  "map_of (on_wire_members kvs) g =
     (case map_of (filter (\<lambda>(_, v). v \<noteq> JUndef) kvs) g of Some v \<Rightarrow> Some (on_wire v) | None \<Rightarrow> None)"
proof (induction kvs)
  case (Cons kv kvs)
  then show ?case by (cases kv) simp
qed simp

lemma built_schema_defined: "built_schema v \<noteq> JUndef"
  by (simp add: built_schema_def) (metis nullish.simps(1))

lemma map_of_schema_file:
  fixes specs :: "(string \<times> json) list"
  assumes "g \<in> fst ` set specs"
  shows "map_of (fold (\<lambda>(g, _). jset g (built_schema (js_prop schemas g))) specs acc) g =
    Some (built_schema (js_prop schemas g))"
proof -
  have keep: "map_of acc g = Some (built_schema (js_prop schemas g)) \<Longrightarrow>
      map_of (fold (\<lambda>(g, _). jset g (built_schema (js_prop schemas g))) sp acc) g = Some (built_schema (js_prop schemas g))"
    for sp :: "(string \<times> json) list" and acc
    by (induction sp arbitrary: acc) auto
  show ?thesis using assms
  proof (induction specs arbitrary: acc)
    case (Cons s specs)
    show ?case
    proof (cases "fst s = g")
      case True
      then show ?thesis using keep [of "jset g (built_schema (js_prop schemas g)) acc" specs] by (cases s) simp
    next
      case False
      with Cons show ?thesis by (cases s) auto
    qed
  qed simp
qed

lemma schema_values_defined:
  "list_all (\<lambda>(_, v). v \<noteq> JUndef) acc \<Longrightarrow>
   list_all (\<lambda>(_, v). v \<noteq> JUndef) (fold (\<lambda>(g, _). jset g (built_schema (js_prop schemas g))) specs acc)"
proof (induction specs arbitrary: acc)
  case (Cons s specs)
  have "list_all (\<lambda>(_, v). v \<noteq> JUndef) (jset k (built_schema w) acc)" for k w
    using Cons.prems by (induction acc) (auto simp: built_schema_defined)
  with Cons.IH show ?case by (cases s) simp
qed simp

text \<open>Schemas found at build time are what the sidecar answers at run time: for every graph of the
  sidecar the file written by the build makes the run-time lookup return the graph's schemas without
  extracting them again, or refuse a graph the build found no schema for.\<close>

theorem build_schemas_served:
  assumes "g \<in> fst ` set specs" and "js_in g gspecs" and "js_prop schemas g = JUndef \<or> is_object (js_prop schemas g)"
  shows "getOrExtractSchema gspecs extract (read_cache (on_wire (schema_file schemas specs))) g =
    (if built_schema (js_prop schemas g) = JBool False
     then throws (''Failed to locate schema for '' @ [CHR 0x22] @ g @ [CHR 0x22])
     else returns (on_wire (js_prop schemas g)),
     read_cache (on_wire (schema_file schemas specs)))"
proof -
  let ?m = "fold (\<lambda>(g, _). jset g (built_schema (js_prop schemas g))) specs []"
  have "filter (\<lambda>(_, v). v \<noteq> JUndef) ?m = ?m"
    using schema_values_defined [of "[]"] by (simp add: filter_id_conv list_all_iff case_prod_beta)
  with map_of_schema_file [OF assms(1), of schemas "[]"]
  have wire: "map_of (on_wire_members ?m) g = Some (on_wire (built_schema (js_prop schemas g)))"
    by (simp add: map_of_wire_members)
  have "map_of (read_cache (JObj (on_wire_members ?m))) g =
      Some (if built_schema (js_prop schemas g) = JBool False then None else Some (on_wire (js_prop schemas g)))"
  proof (cases "built_schema (js_prop schemas g) = JBool False")
    case True
    then show ?thesis using read_cache_lookup [OF wire] by simp
  next
    case False
    with assms(3) have "is_object (js_prop schemas g)" "built_schema (js_prop schemas g) = js_prop schemas g"
      by (auto simp: built_schema_def split: if_splits)
    then have "on_wire (built_schema (js_prop schemas g)) \<noteq> JBool False"
      "truthy (on_wire (built_schema (js_prop schemas g)))"
      by (cases "js_prop schemas g"; simp)+
    with False \<open>built_schema _ = js_prop schemas g\<close> show ?thesis using read_cache_lookup [OF wire] by simp
  qed
  then show ?thesis using assms(2) by (simp add: getOrExtractSchema_def schema_file_def)
qed

lemma build_schemas_served_witness:
  "fst (getOrExtractSchema [(''a'', \<lparr>gp_source = ''a.ts'', gp_symbol = None\<rparr>)] (\<lambda>_. throws ''no'')
     (read_cache (on_wire (schema_file (JObj [(''a'', JObj [(''state'', JBool True)])]) [(''a'', JStr ''a.ts'')]))) ''a'') =
   returns (JObj [(''state'', JBool True)])"
  by (subst build_schemas_served) (simp_all add: js_in_iff built_schema_def)

lemma schema_extracted_once:
  assumes "getOrExtractSchema specs extract cache g = (Inr s, cache')"
  shows "getOrExtractSchema specs extract' cache' g = (Inr s, cache')"
  using assms by (auto simp: getOrExtractSchema_def split: if_splits option.splits sum.splits)

subsection \<open>Where packages come from\<close>

text \<open>The place of the graph library, once known, is the one found from the graph's own directory.\<close>

lemma hook_found:
  assumes "next LANGGRAPH (Some parentURL) \<noteq> []" and "found = None \<or> found = Some (next LANGGRAPH (Some parentURL))"
  shows "snd (resolve_hook next parentURL found s) \<in> {None, Some (next LANGGRAPH (Some parentURL))}"
    and "s = CHECKPOINT \<Longrightarrow> fst (resolve_hook next parentURL found s) =
           next CHECKPOINT (Some (next LANGGRAPH (Some parentURL)))"
proof -
  show "snd (resolve_hook next parentURL found s) \<in> {None, Some (next LANGGRAPH (Some parentURL))}"
    using assms by (auto simp: resolve_hook_def Let_def present_id_def split: option.splits if_splits)
  show "s = CHECKPOINT \<Longrightarrow> fst (resolve_hook next parentURL found s) =
      next CHECKPOINT (Some (next LANGGRAPH (Some parentURL)))"
    using assms by (auto simp: resolve_hook_def Let_def present_id_def CHECKPOINT_def)
qed

lemma sdk_not_overridden:
  "\<not> overridden ''@langchain/langgraph-sdk'' \<and> overridden ''@langchain/langgraph/prebuilt'' \<and>
   overridden ''@langchain/langgraph-checkpoint''"
  by (simp add: overridden_def under_package_def LANGGRAPH_def CHECKPOINT_def is_newline_def)

subsection \<open>Shared graphs\<close>

text \<open>The first name a shared graph is asked for under stays its name.\<close>

lemma first_name_stays:
  "n \<noteq> ''LangGraph'' \<Longrightarrow> map_of names g = None \<Longrightarrow>
   map_of (name_graph name' g (name_graph (Some n) g names)) g = Some n"
  by (simp add: name_graph_def)

lemma unknown_graph_404:
  "map_of (gr_resolved st) g = None \<Longrightarrow> \<exists>e. getGraph checkpointer store st g config name = Inl (HttpError 404 e)"
  by (simp add: getGraph_def)

text \<open>A parsed path never names a Python source.\<close>

lemma sidecar_specs_javascript:
  "(g, JStr p) \<in> set (sidecar_specs graphs) \<Longrightarrow> p \<noteq> [] \<and> \<not> ends_with (spec_file p) ''.py''"
  by (auto simp: sidecar_specs_def spec_valid_def filterValidExportPath_def present_id_def split: if_splits)

interpretation slowest: comparator by_duration_desc
  by unfold_locales (auto simp: by_duration_desc_def)

lemma timings_slowest_first:
  "mset (graph_timings ts) = mset ts \<and> sorted_wrt (\<lambda>a b. snd b \<le> snd a) (graph_timings ts)"
  using slowest.sorted_js_sort [of ts] by (auto simp: graph_timings_def by_duration_desc_def intro: sorted_wrt_mono_rel)

end
