(* ===== verification/UpdateContract.thy ===== *)
theory UpdateContract
imports Sidecar
begin

text \<open>
  The release contract of the archify skill (\<^verbatim>\<open>.agents/skills/archify/scripts/update-contract.mjs\<close>):
  reading and ordering versions, and what a local release and a published manifest must say. The
  pattern of a version is modelled as the parser it denotes: its separators occur in no part before
  them. \<open>real_instant\<close> stands for the check of a date by \<^verbatim>\<open>Date\<close>.
\<close>

section \<open>Versions\<close>

definition identifier_char :: "char \<Rightarrow> bool" where
  "identifier_char c = (let n = (of_char c :: nat) in
     (48 \<le> n \<and> n \<le> 57) \<or> (65 \<le> n \<and> n \<le> 90) \<or> (97 \<le> n \<and> n \<le> 122) \<or> n = 45)"

definition numeric_text :: "string \<Rightarrow> bool" where
  "numeric_text s = (s \<noteq> [] \<and> all_digits s)"

text \<open>\<^verbatim>\<open>0|[1-9]\d*\<close> and the dotted identifiers.\<close>

definition core_number :: "string \<Rightarrow> bool" where
  "core_number s = (numeric_text s \<and> (s = ''0'' \<or> hd s \<noteq> CHR ''0''))"

definition dotted_identifiers :: "string \<Rightarrow> bool" where
  "dotted_identifiers s = list_all (\<lambda>w. w \<noteq> [] \<and> list_all identifier_char w) (split_on CHR ''.'' s)"

definition before_char :: "char \<Rightarrow> string \<Rightarrow> string" where
  "before_char c s = takeWhile (\<lambda>d. d \<noteq> c) s"

definition after_char :: "char \<Rightarrow> string \<Rightarrow> string option" where
  "after_char c s = (case dropWhile (\<lambda>d. d \<noteq> c) s of _ # t \<Rightarrow> Some t | [] \<Rightarrow> None)"

record semver =
  sv_core :: "string list"
  sv_prerelease :: "string list option"
  sv_build :: "string list option"

definition match_semver :: "string \<Rightarrow> semver option" where
  "match_semver s =
     (let main = before_char CHR 0x2B s; build = after_char CHR 0x2B s;
          core = split_on CHR ''.'' (before_char CHR ''-'' main); pre = after_char CHR ''-'' main in
      if length core = 3 \<and> list_all core_number core \<and>
         (case pre of Some p \<Rightarrow> dotted_identifiers p | None \<Rightarrow> True) \<and>
         (case build of Some b \<Rightarrow> dotted_identifiers b | None \<Rightarrow> True)
      then Some \<lparr>sv_core = core, sv_prerelease = map_option (split_on CHR ''.'') pre,
                 sv_build = map_option (split_on CHR ''.'') build\<rparr>
      else None)"

definition leading_zero :: "string \<Rightarrow> bool" where
  "leading_zero w = (numeric_text w \<and> 1 < length w \<and> hd w = CHR ''0'')"

definition parseSemver :: "json \<Rightarrow> semver result" where
  "parseSemver v =
     (case v of
        JStr s \<Rightarrow>
          (case (if 128 < length s then None else match_semver s) of
             None \<Rightarrow> throws (''invalid SemVer: '' @ quote_str s)
           | Some sv \<Rightarrow>
               if list_ex leading_zero (or_else (sv_prerelease sv) [])
               then throws (''invalid SemVer: '' @ quote_str s) else returns sv)
      | _ \<Rightarrow> throws (''invalid SemVer: '' @ or_else (json_stringify v) ''undefined''))"

definition js_order :: "string \<Rightarrow> string \<Rightarrow> int" where
  "js_order l r = (if l = r then 0 else if str_less l r then -1 else 1)"

definition compareNumericIdentifiers :: "string \<Rightarrow> string \<Rightarrow> int" where
  "compareNumericIdentifiers l r =
     (if length l \<noteq> length r then (if length l < length r then -1 else 1) else js_order l r)"

definition compare_identifier :: "string \<Rightarrow> string \<Rightarrow> int" where
  "compare_identifier l r =
     (if numeric_text l \<and> numeric_text r then compareNumericIdentifiers l r
      else if numeric_text l \<noteq> numeric_text r then (if numeric_text l then -1 else 1)
      else js_order l r)"

fun compare_identifiers :: "string list \<Rightarrow> string list \<Rightarrow> int" where
  "compare_identifiers [] [] = 0"
| "compare_identifiers [] (_ # _) = -1"
| "compare_identifiers (_ # _) [] = 1"
| "compare_identifiers (l # ls) (r # rs) =
     (if l = r then compare_identifiers ls rs else compare_identifier l r)"

definition comparePrerelease :: "string list option \<Rightarrow> string list option \<Rightarrow> int" where
  "comparePrerelease l r =
     (case (l, r) of
        (None, None) \<Rightarrow> 0
      | (None, Some _) \<Rightarrow> 1
      | (Some _, None) \<Rightarrow> -1
      | (Some ls, Some rs) \<Rightarrow> compare_identifiers ls rs)"

fun compare_core :: "string list \<Rightarrow> string list \<Rightarrow> int" where
  "compare_core (l # ls) (r # rs) =
     (let c = compareNumericIdentifiers l r in if c \<noteq> 0 then c else compare_core ls rs)"
| "compare_core _ _ = 0"

definition compare_versions :: "semver \<Rightarrow> semver \<Rightarrow> int" where
  "compare_versions l r =
     (let c = compare_core (sv_core l) (sv_core r) in
      if c \<noteq> 0 then c else comparePrerelease (sv_prerelease l) (sv_prerelease r))"

definition compareSemver :: "string \<Rightarrow> string \<Rightarrow> int result" where
  "compareSemver l r =
     res_bind (parseSemver (JStr l)) (\<lambda>a. res_bind (parseSemver (JStr r)) (\<lambda>b. returns (compare_versions a b)))"

definition releaseChannelForVersion :: "json \<Rightarrow> string result" where
  "releaseChannelForVersion v =
     res_bind (parseSemver v) (\<lambda>s. returns (if sv_prerelease s \<noteq> None then ''development'' else ''stable''))"

definition isStableCoreVersion :: "json \<Rightarrow> bool" where
  "isStableCoreVersion v =
     (case parseSemver v of Inr s \<Rightarrow> sv_prerelease s = None \<and> sv_build s = None | Inl _ \<Rightarrow> False)"

section \<open>Releases and manifests\<close>

definition SKILL_ID :: string where
  "SKILL_ID = ''archify''"

definition EXPECTED_REPOSITORY :: string where
  "EXPECTED_REPOSITORY = ''https://github.com/tt-a1i/archify''"

definition DEFAULT_MANIFEST_URL :: string where
  "DEFAULT_MANIFEST_URL = ''https://tt-a1i.github.io/archify/skill-updates/archify/stable.json''"

definition hasExactKeys :: "json \<Rightarrow> string list \<Rightarrow> bool" where
  "hasExactKeys v expected =
     (case v of
        JObj kvs \<Rightarrow> join_with [CHR 0x00] (js_sort js_order (map fst kvs)) = join_with [CHR 0x00] (js_sort js_order expected)
      | _ \<Rightarrow> False)"

text \<open>A pattern's \<^verbatim>\<open>test\<close> reads its argument as a string.\<close>

definition hex_text :: "nat \<Rightarrow> json \<Rightarrow> bool" where
  "hex_text n v =
     (let s = js_string v in length s = n \<and>
        list_all (\<lambda>c. is_digit c \<or> (let k = (of_char c :: nat) in 97 \<le> k \<and> k \<le> 102)) s)"

definition validateLocalRelease :: "json \<Rightarrow> json result" where
  "validateLocalRelease v =
     (if \<not> hasExactKeys v [''schemaVersion'', ''skillId'', ''channel'', ''version'', ''source'', ''updateManifestUrl''] \<or>
         js_prop v ''schemaVersion'' \<noteq> JNum 1 \<or> js_prop v ''skillId'' \<noteq> JStr SKILL_ID \<or>
         \<not> hasExactKeys (js_prop v ''source'') [''repository''] \<or>
         js_prop (js_prop v ''source'') ''repository'' \<noteq> JStr EXPECTED_REPOSITORY \<or>
         js_prop v ''updateManifestUrl'' \<noteq> JStr DEFAULT_MANIFEST_URL
      then throws ''invalid local release identity''
      else res_bind (releaseChannelForVersion (js_prop v ''version'')) (\<lambda>channel.
        if js_prop v ''channel'' \<noteq> JStr channel
        then throws ''local release channel does not match its version''
        else returns (JObj
          [(''schemaVersion'', js_prop v ''schemaVersion''), (''skillId'', js_prop v ''skillId''),
           (''channel'', js_prop v ''channel''), (''version'', js_prop v ''version''),
           (''source'', JObj [(''repository'', js_prop (js_prop v ''source'') ''repository'')]),
           (''updateManifestUrl'', js_prop v ''updateManifestUrl'')])))"

definition release_notes_url :: "string \<Rightarrow> string" where
  "release_notes_url version = ''https://github.com/tt-a1i/archify/releases/tag/v'' @ version"

definition validateReleaseNotesUrl :: "json \<Rightarrow> json \<Rightarrow> json result" where
  "validateReleaseNotesUrl v version =
     (if \<not> isStableCoreVersion version then throws ''release notes require a stable core version''
      else if v \<noteq> JStr (release_notes_url (js_string version))
      then throws ''release notes URL is outside the exact trusted release path''
      else returns v)"

definition utc_seconds :: "string \<Rightarrow> bool" where
  "utc_seconds s =
     (length s = 20 \<and>
      list_all (\<lambda>(c, d). if d = CHR ''0'' then is_digit c else c = d) (zip s ''0000-00-00T00:00:00Z''))"

definition validateCanonicalUtcTimestamp :: "(string \<Rightarrow> bool) \<Rightarrow> json \<Rightarrow> json result" where
  "validateCanonicalUtcTimestamp real_instant v =
     (case v of
        JStr s \<Rightarrow>
          if \<not> utc_seconds s then throws ''publication time must use YYYY-MM-DDTHH:mm:ssZ''
          else if \<not> real_instant s then throws ''publication time is not a real UTC calendar instant''
          else returns v
      | _ \<Rightarrow> throws ''publication time must use YYYY-MM-DDTHH:mm:ssZ'')"

text \<open>Characters are the first 256 code points here, which have no bidirectional controls.\<close>

definition control_char :: "char \<Rightarrow> bool" where
  "control_char c = (let n = (of_char c :: nat) in n \<le> 31 \<or> (127 \<le> n \<and> n \<le> 159))"

definition summary_ok :: "json \<Rightarrow> bool" where
  "summary_ok v =
     (case v of JStr s \<Rightarrow> 1 \<le> length s \<and> length s \<le> 160 \<and> \<not> list_ex control_char s | _ \<Rightarrow> False)"

definition stable_identity :: "json \<Rightarrow> bool" where
  "stable_identity v =
     (hasExactKeys v [''schemaVersion'', ''skillId'', ''channel'', ''version'', ''publishedAt'', ''source'',
        ''artifact'', ''summary'', ''releaseNotes'', ''severity''] \<and>
      js_prop v ''schemaVersion'' = JNum 1 \<and> js_prop v ''skillId'' = JStr SKILL_ID \<and>
      js_prop v ''channel'' = JStr ''stable'' \<and> isStableCoreVersion (js_prop v ''version'') \<and>
      hasExactKeys (js_prop v ''source'') [''repository'', ''ref'', ''treeSha''] \<and>
      js_prop (js_prop v ''source'') ''repository'' = JStr EXPECTED_REPOSITORY \<and>
      js_prop (js_prop v ''source'') ''ref'' = JStr (''v'' @ js_string (js_prop v ''version'')) \<and>
      hex_text 40 (js_prop (js_prop v ''source'') ''treeSha'') \<and>
      hasExactKeys (js_prop v ''artifact'') [''sha256''] \<and>
      hex_text 64 (js_prop (js_prop v ''artifact'') ''sha256''))"

definition manifest_of :: "json \<Rightarrow> json" where
  "manifest_of v =
     JObj [(''schemaVersion'', js_prop v ''schemaVersion''), (''skillId'', js_prop v ''skillId''),
           (''channel'', js_prop v ''channel''), (''version'', js_prop v ''version''),
           (''publishedAt'', js_prop v ''publishedAt''),
           (''source'', JObj [(''repository'', js_prop (js_prop v ''source'') ''repository''),
              (''ref'', js_prop (js_prop v ''source'') ''ref''),
              (''treeSha'', js_prop (js_prop v ''source'') ''treeSha'')]),
           (''artifact'', JObj [(''sha256'', js_prop (js_prop v ''artifact'') ''sha256'')]),
           (''summary'', js_prop v ''summary''), (''releaseNotes'', js_prop v ''releaseNotes''),
           (''severity'', js_prop v ''severity'')]"

definition validateStableUpdateManifest :: "(string \<Rightarrow> bool) \<Rightarrow> json \<Rightarrow> json result" where
  "validateStableUpdateManifest real_instant v =
     (if \<not> stable_identity v then throws ''invalid immutable stable release identity''
      else res_bind (validateCanonicalUtcTimestamp real_instant (js_prop v ''publishedAt'')) (\<lambda>_.
        if \<not> summary_ok (js_prop v ''summary'') then throws ''invalid release summary''
        else res_bind (validateReleaseNotesUrl (js_prop v ''releaseNotes'') (js_prop v ''version'')) (\<lambda>_.
          if js_prop v ''severity'' \<notin> {JStr ''normal'', JStr ''security''}
          then throws ''invalid update severity''
          else returns (manifest_of v))))"

section \<open>Properties\<close>

subsection \<open>Three-way comparisons\<close>

text \<open>
  The contract of a comparison that returns a sign: it is antisymmetric, zero only on equal values and
  transitive. Lexicographic comparison with it is one again.
\<close>

fun lex_cmp :: "('a \<Rightarrow> 'a \<Rightarrow> int) \<Rightarrow> 'a list \<Rightarrow> 'a list \<Rightarrow> int" where
  "lex_cmp c [] [] = 0"
| "lex_cmp c [] (_ # _) = -1"
| "lex_cmp c (_ # _) [] = 1"
| "lex_cmp c (x # xs) (y # ys) = (if x = y then lex_cmp c xs ys else c x y)"

locale three_way =
  fixes c :: "'a \<Rightarrow> 'a \<Rightarrow> int"
  assumes anti: "c y x = - c x y"
    and zero: "c x y = 0 \<longleftrightarrow> x = y"
    and trans: "c x y < 0 \<Longrightarrow> c y z < 0 \<Longrightarrow> c x z < 0"
begin

lemma refl [simp]: "c x x = 0"
  by (simp add: zero)

lemma lex_anti: "lex_cmp c ys xs = - lex_cmp c xs ys"
proof (induction xs arbitrary: ys)
  case Nil
  then show ?case by (cases ys) simp_all
next
  case (Cons x xs)
  then show ?case using anti [of x] by (cases ys) auto
qed

lemma lex_zero: "lex_cmp c xs ys = 0 \<longleftrightarrow> xs = ys"
proof (induction xs arbitrary: ys)
  case Nil
  then show ?case by (cases ys) simp_all
next
  case (Cons x xs)
  then show ?case using zero by (cases ys) auto
qed

lemma lex_trans: "lex_cmp c xs ys < 0 \<Longrightarrow> lex_cmp c ys zs < 0 \<Longrightarrow> lex_cmp c xs zs < 0"
proof (induction xs arbitrary: ys zs)
  case Nil
  then show ?case by (cases ys; cases zs) auto
next
  case (Cons x xs)
  then obtain y ys' z zs' where e: "ys = y # ys'" "zs = z # zs'" by (cases ys; cases zs) auto
  with Cons show ?case
    using anti [of z y] zero [of x z] trans [of x y z] by (auto split: if_splits)
qed

end

sublocale three_way \<subseteq> comparator c
proof
  show "c x y \<le> 0 \<or> c y x \<le> 0" for x y using anti [of x y] by linarith
  show "c x y \<le> 0 \<Longrightarrow> c y z \<le> 0 \<Longrightarrow> c x z \<le> 0" for x y z
    using zero [of x y] zero [of y z] trans [of x y z] by (metis less_le)
qed

lemma str_less_asym: "str_less s t \<Longrightarrow> \<not> str_less t s"
  by (induction s t rule: str_less.induct) auto

lemma str_less_total: "s \<noteq> t \<Longrightarrow> str_less s t \<or> str_less t s"
proof (induction s t rule: str_less.induct)
  case (3 c s d t)
  then show ?case by (metis linorder_neqE_nat of_char_eq_iff str_less.simps(3))
qed (auto elim: list.exhaust, metis list.exhaust str_less.simps(2))

lemma str_less_trans: "str_less s t \<Longrightarrow> str_less t u \<Longrightarrow> str_less s u"
proof (induction s arbitrary: t u)
  case Nil
  then show ?case by (cases t; cases u) auto
next
  case (Cons c s)
  then show ?case by (cases t; cases u) auto
qed

interpretation by_code: three_way js_order
proof
  show "js_order y x = - js_order x y" for x y
    using str_less_asym [of x y] str_less_total [of x y] by (auto simp: js_order_def)
  show "js_order x y = 0 \<longleftrightarrow> x = y" for x y by (simp add: js_order_def)
  show "js_order x y < 0 \<Longrightarrow> js_order y z < 0 \<Longrightarrow> js_order x z < 0" for x y z
    using str_less_trans [of x y z] str_less_asym by (auto simp: js_order_def split: if_splits)
qed

interpretation by_size: three_way compareNumericIdentifiers
proof
  show "compareNumericIdentifiers y x = - compareNumericIdentifiers x y" for x y
    using by_code.anti [of x y] by (auto simp: compareNumericIdentifiers_def)
  show "compareNumericIdentifiers x y = 0 \<longleftrightarrow> x = y" for x y
    using by_code.zero by (auto simp: compareNumericIdentifiers_def)
  show "compareNumericIdentifiers x y < 0 \<Longrightarrow> compareNumericIdentifiers y z < 0 \<Longrightarrow>
      compareNumericIdentifiers x z < 0" for x y z
    using by_code.trans [of x y z] by (auto simp: compareNumericIdentifiers_def split: if_splits)
qed

interpretation by_identifier: three_way compare_identifier
proof
  show "compare_identifier y x = - compare_identifier x y" for x y
    using by_code.anti [of x y] by_size.anti [of x y] by (auto simp: compare_identifier_def)
  show "compare_identifier x y = 0 \<longleftrightarrow> x = y" for x y
    using by_code.zero by_size.zero by (auto simp: compare_identifier_def)
  show "compare_identifier x y < 0 \<Longrightarrow> compare_identifier y z < 0 \<Longrightarrow> compare_identifier x z < 0" for x y z
    using by_code.trans [of x y z] by_size.trans [of x y z]
    by (auto simp: compare_identifier_def split: if_splits)
qed

lemma compare_identifiers_lex: "compare_identifiers xs ys = lex_cmp compare_identifier xs ys"
  by (induction xs ys rule: compare_identifiers.induct) simp_all

lemma compare_core_lex:
  "length xs = length ys \<Longrightarrow> compare_core xs ys = lex_cmp compareNumericIdentifiers xs ys"
  by (induction xs ys rule: list_induct2) (auto simp: Let_def by_size.zero)

subsection \<open>Precedence\<close>

text \<open>
  Precedence as the standard of semantic versions has it: the three numbers, then a release before
  none of its prereleases, then the identifiers, numbers by value and before words.
\<close>

datatype version_part = Numeric nat | Word string

definition part_of :: "string \<Rightarrow> version_part" where
  "part_of s = (if numeric_text s then Numeric (read_nat s) else Word s)"

fun part_less :: "version_part \<Rightarrow> version_part \<Rightarrow> bool" where
  "part_less (Numeric m) (Numeric n) = (m < n)"
| "part_less (Numeric _) (Word _) = True"
| "part_less (Word _) (Numeric _) = False"
| "part_less (Word s) (Word t) = str_less s t"

fun lex_less :: "('a \<Rightarrow> 'a \<Rightarrow> bool) \<Rightarrow> 'a list \<Rightarrow> 'a list \<Rightarrow> bool" where
  "lex_less r _ [] = False"
| "lex_less r [] (_ # _) = True"
| "lex_less r (x # xs) (y # ys) = (if x = y then lex_less r xs ys else r x y)"

definition precedes :: "semver \<Rightarrow> semver \<Rightarrow> bool" where
  "precedes a b =
     (let m = map read_nat (sv_core a); n = map read_nat (sv_core b) in
      if m \<noteq> n then lex_less (<) m n
      else case (sv_prerelease a, sv_prerelease b) of
        (Some p, Some q) \<Rightarrow> lex_less part_less (map part_of p) (map part_of q)
      | (Some _, None) \<Rightarrow> True
      | _ \<Rightarrow> False)"

text \<open>Numbers written without leading zeros: longer is greater.\<close>

definition plain_number :: "string \<Rightarrow> bool" where
  "plain_number s = (numeric_text s \<and> (length s = 1 \<or> hd s \<noteq> CHR ''0''))"

lemma plain_number_lower:
  assumes "plain_number s" and "1 < length s"
  shows "10 ^ (length s - 1) \<le> read_nat s"
proof -
  obtain d t where s: "s = d # t" using assms(2) by (cases s) auto
  have d: "is_digit d" "d \<noteq> CHR ''0''" using assms s by (auto simp: plain_number_def numeric_text_def all_digits_def)
  have "digit_value d \<noteq> 0"
    using d digit_value_eq [of d "CHR ''0''"] by (simp add: is_digit_def digit_value_def)
  then have "1 * 10 ^ length t \<le> digit_value d * 10 ^ length t" by (intro mult_right_mono) simp_all
  then have "10 ^ length t \<le> digit_value d * 10 ^ length t + read_nat t" by linarith
  then show ?thesis unfolding s read_nat_Cons by simp
qed

lemma read_nat_inj:
  "length s = length t \<Longrightarrow> all_digits s \<Longrightarrow> all_digits t \<Longrightarrow> read_nat s = read_nat t \<longleftrightarrow> s = t"
proof (induction s t rule: list_induct2)
  case (Cons c s d t)
  have dig: "is_digit c" "is_digit d" "all_digits s" "all_digits t"
    using Cons.prems by (auto simp: all_digits_def)
  have lt: "read_nat s < 10 ^ length t" "read_nat t < 10 ^ length t"
    using read_nat_bound dig(3,4) Cons.hyps by metis+
  have "digit_value c * 10 ^ length t + read_nat s = digit_value d * 10 ^ length t + read_nat t \<longleftrightarrow>
      digit_value c = digit_value d \<and> read_nat s = read_nat t"
  proof
    assume eq: "digit_value c * 10 ^ length t + read_nat s = digit_value d * 10 ^ length t + read_nat t"
    have "(digit_value c * 10 ^ length t + read_nat s) div 10 ^ length t = digit_value c"
      "(digit_value d * 10 ^ length t + read_nat t) div 10 ^ length t = digit_value d"
      using lt by simp_all
    with eq have "digit_value c = digit_value d" by metis
    with eq show "digit_value c = digit_value d \<and> read_nat s = read_nat t" by simp
  qed simp
  then show ?case using Cons.IH [OF dig(3,4)] digit_value_eq [OF dig(1,2)] Cons.hyps
    by (simp add: read_nat_Cons)
qed simp

lemma numeric_sign:
  assumes "plain_number s" and "plain_number t"
  shows "compareNumericIdentifiers s t < 0 \<longleftrightarrow> read_nat s < read_nat t"
    and "read_nat s = read_nat t \<longleftrightarrow> s = t"
proof -
  have dig: "all_digits s" "all_digits t" "s \<noteq> []" "t \<noteq> []"
    using assms by (simp_all add: plain_number_def numeric_text_def)
  have shorter: "read_nat u < read_nat v"
    if "plain_number u" "plain_number v" "length u < length v" for u v
  proof -
    have "all_digits u" "u \<noteq> []" using that(1) by (simp_all add: plain_number_def numeric_text_def)
    then have "read_nat u < 10 ^ length u" by (intro read_nat_bound)
    moreover have "1 < length v" using \<open>u \<noteq> []\<close> that(3) by (cases u) simp_all
    moreover have "(10 :: nat) ^ length u \<le> 10 ^ (length v - 1)" using that(3) by (intro power_increasing) simp_all
    ultimately show ?thesis using plain_number_lower [OF that(2)] by linarith
  qed
  show "read_nat s = read_nat t \<longleftrightarrow> s = t"
  proof (cases "length s = length t")
    case True
    from read_nat_inj [OF True dig(1,2)] show ?thesis .
  next
    case False
    then consider "length s < length t" | "length t < length s" by linarith
    then show ?thesis using shorter [OF assms] shorter [OF assms(2,1)] by cases auto
  qed
  show "compareNumericIdentifiers s t < 0 \<longleftrightarrow> read_nat s < read_nat t"
  proof (cases "length s = length t")
    case True
    have up: "read_nat s < read_nat t \<Longrightarrow> str_less s t" and down: "read_nat t < read_nat s \<Longrightarrow> str_less t s"
      using str_less_read_nat [OF True dig(1,2), of "[]" "[]"] str_less_read_nat [OF True [symmetric] dig(2,1), of "[]" "[]"]
      by simp_all
    have "str_less s t \<longleftrightarrow> read_nat s < read_nat t"
    proof
      assume less: "str_less s t"
      then have "s \<noteq> t" using str_less_asym by blast
      then have "read_nat s \<noteq> read_nat t" using read_nat_inj [OF True dig(1,2)] by blast
      moreover have "\<not> read_nat t < read_nat s" using down str_less_asym [OF less] by blast
      ultimately show "read_nat s < read_nat t" by linarith
    qed (rule up)
    moreover have "\<not> str_less t t" using str_less_asym by blast
    then have "compareNumericIdentifiers s t < 0 \<longleftrightarrow> str_less s t"
      using True by (auto simp: compareNumericIdentifiers_def js_order_def)
    ultimately show ?thesis by simp
  next
    case False
    then consider "length s < length t" | "length t < length s" by linarith
    then show ?thesis
      using shorter [OF assms] shorter [OF assms(2,1)] by cases (auto simp: compareNumericIdentifiers_def)
  qed
qed

lemma part_sign:
  assumes "numeric_text s \<longrightarrow> plain_number s" and "numeric_text t \<longrightarrow> plain_number t"
  shows "compare_identifier s t < 0 \<longleftrightarrow> part_less (part_of s) (part_of t)"
    and "part_of s = part_of t \<longleftrightarrow> s = t"
  using assms numeric_sign [of s t] str_less_asym [of s s]
  by (auto simp: compare_identifier_def part_of_def js_order_def)

lemma lex_sign:
  assumes "\<And>x y. x \<in> set xs \<Longrightarrow> y \<in> set ys \<Longrightarrow> (c x y < 0 \<longleftrightarrow> r (f x) (f y)) \<and> (f x = f y \<longleftrightarrow> x = y)"
  shows "(lex_cmp c xs ys < 0 \<longleftrightarrow> lex_less r (map f xs) (map f ys)) \<and> (map f xs = map f ys \<longleftrightarrow> xs = ys)"
  using assms
proof (induction xs arbitrary: ys)
  case Nil
  then show ?case by (cases ys) simp_all
next
  case (Cons x xs)
  then show ?case by (cases ys) auto
qed

definition parsed_version :: "semver \<Rightarrow> bool" where
  "parsed_version v =
     (length (sv_core v) = 3 \<and> list_all plain_number (sv_core v) \<and>
      (\<forall>w \<in> set (or_else (sv_prerelease v) []). numeric_text w \<longrightarrow> plain_number w))"

lemma core_number_plain: "core_number s \<Longrightarrow> plain_number s"
  by (auto simp: core_number_def plain_number_def)

lemma no_leading_zero_plain: "\<not> leading_zero w \<Longrightarrow> numeric_text w \<Longrightarrow> plain_number w"
  by (cases w rule: list.exhaust) (auto simp: leading_zero_def plain_number_def numeric_text_def)

lemma parseSemver_parsed:
  assumes "parseSemver (JStr s) = Inr v"
  shows "parsed_version v"
proof -
  from assms have m: "match_semver s = Some v" and z: "\<not> list_ex leading_zero (or_else (sv_prerelease v) [])"
    by (auto simp: parseSemver_def split: if_splits option.splits)
  from m have "length (sv_core v) = 3" "list_all core_number (sv_core v)"
    by (auto simp: match_semver_def Let_def split: if_splits)
  then show ?thesis
    using z core_number_plain no_leading_zero_plain
    by (auto simp: parsed_version_def list_all_iff list_ex_iff)
qed

lemma compareSemver_precedes:
  assumes "parseSemver (JStr s) = Inr a" and "parseSemver (JStr t) = Inr b"
  shows "\<exists>n. compareSemver s t = Inr n \<and> (n < 0 \<longleftrightarrow> precedes a b) \<and> (0 < n \<longleftrightarrow> precedes b a) \<and>
    (n = 0 \<longleftrightarrow> sv_core a = sv_core b \<and> sv_prerelease a = sv_prerelease b)"
proof -
  have neg: "(compare_versions x y < 0 \<longleftrightarrow> precedes x y) \<and>
      (compare_versions x y = 0 \<longleftrightarrow> sv_core x = sv_core y \<and> sv_prerelease x = sv_prerelease y)"
    if "parsed_version x" "parsed_version y" for x y
  proof -
    have lens: "length (sv_core x) = length (sv_core y)" using that by (simp add: parsed_version_def)
    have core: "(compare_core (sv_core x) (sv_core y) < 0 \<longleftrightarrow>
        lex_less (<) (map read_nat (sv_core x)) (map read_nat (sv_core y))) \<and>
        (map read_nat (sv_core x) = map read_nat (sv_core y) \<longleftrightarrow> sv_core x = sv_core y)"
      unfolding compare_core_lex [OF lens] using that
      by (intro lex_sign) (auto simp: parsed_version_def list_all_iff numeric_sign)
    have czero: "compare_core (sv_core x) (sv_core y) = 0 \<longleftrightarrow> sv_core x = sv_core y"
      unfolding compare_core_lex [OF lens] by (rule by_size.lex_zero)
    have pre: "(compare_identifiers p q < 0 \<longleftrightarrow> lex_less part_less (map part_of p) (map part_of q)) \<and>
        (map part_of p = map part_of q \<longleftrightarrow> p = q)"
      if "sv_prerelease x = Some p" "sv_prerelease y = Some q" for p q
      unfolding compare_identifiers_lex
      using that \<open>parsed_version x\<close> \<open>parsed_version y\<close>
      by (intro lex_sign) (auto simp: parsed_version_def part_sign)
    have pzero: "compare_identifiers p q = 0 \<longleftrightarrow> p = q" for p q
      unfolding compare_identifiers_lex by (rule by_identifier.lex_zero)
    show ?thesis
      using core czero pre pzero
      by (cases "sv_prerelease x"; cases "sv_prerelease y")
        (auto simp: compare_versions_def comparePrerelease_def precedes_def Let_def)
  qed
  have anti: "compare_versions b a = - compare_versions a b"
    if "parsed_version a" "parsed_version b"
  proof -
    have lens: "length (sv_core a) = length (sv_core b)" using that by (simp add: parsed_version_def)
    have core: "compare_core (sv_core b) (sv_core a) = - compare_core (sv_core a) (sv_core b)"
      unfolding compare_core_lex [OF lens] compare_core_lex [OF lens [symmetric]] by (rule by_size.lex_anti)
    have pre: "comparePrerelease q p = - comparePrerelease p q" for p q
    proof (cases p)
      case p: (Some ps)
      show ?thesis
      proof (cases q)
        case (Some qs)
        have "comparePrerelease q p = lex_cmp compare_identifier qs ps"
          "comparePrerelease p q = lex_cmp compare_identifier ps qs"
          by (simp_all add: comparePrerelease_def p Some compare_identifiers_lex)
        then show ?thesis by (simp only: by_identifier.lex_anti [of qs ps])
      qed (simp add: comparePrerelease_def p)
    qed (cases q; simp add: comparePrerelease_def)
    from core show ?thesis
      using pre [of "sv_prerelease b" "sv_prerelease a"] by (simp add: compare_versions_def Let_def)
  qed
  have p: "parsed_version a" "parsed_version b" using assms parseSemver_parsed by blast+
  have "compareSemver s t = Inr (compare_versions a b)" using assms by (simp add: compareSemver_def)
  then show ?thesis using neg [OF p] neg [OF p(2,1)] anti [OF p] by auto
qed

text \<open>C28: Comparing two versions gives the precedence of the standard: negative exactly when the first
  precedes the second, zero exactly when neither precedes the other, and the versions are equal up to
  build data then.\<close>

theorem semver_precedence:
  assumes "parseSemver (JStr s) = Inr a" and "parseSemver (JStr t) = Inr b"
  shows "\<exists>n. compareSemver s t = Inr n \<and> (n < 0 \<longleftrightarrow> precedes a b) \<and> (0 < n \<longleftrightarrow> precedes b a) \<and>
    (n = 0 \<longleftrightarrow> sv_core a = sv_core b \<and> sv_prerelease a = sv_prerelease b)"
  by (rule compareSemver_precedes [OF assms])

lemma semver_precedence_witness:
  "\<exists>n. compareSemver ''1.9.0-rc.1'' ''1.10.0'' = Inr n \<and> n < 0"
proof -
  have "parseSemver (JStr ''1.9.0-rc.1'') = Inr \<lparr>sv_core = [''1'', ''9'', ''0''], sv_prerelease = Some [''rc'', ''1''], sv_build = None\<rparr>"
    "parseSemver (JStr ''1.10.0'') = Inr \<lparr>sv_core = [''1'', ''10'', ''0''], sv_prerelease = None, sv_build = None\<rparr>"
    by code_simp+
  from semver_precedence [OF this] show ?thesis
    by (auto simp: precedes_def read_nat_def digit_value_def)
qed

lemma precedence_trans:
  assumes "parsed_version a" "parsed_version b" "parsed_version c"
    and "compare_versions a b < 0" "compare_versions b c < 0"
  shows "compare_versions a c < 0"
proof -
  have core: "compare_core (sv_core x) (sv_core y) = lex_cmp compareNumericIdentifiers (sv_core x) (sv_core y)"
    if "parsed_version x" "parsed_version y" for x y
    by (rule compare_core_lex) (use that in \<open>simp add: parsed_version_def\<close>)
  let ?k = "\<lambda>x y. lex_cmp compareNumericIdentifiers (sv_core x) (sv_core y)"
  let ?p = "\<lambda>x y. comparePrerelease (sv_prerelease x) (sv_prerelease y)"
  have pre: "?p a b < 0 \<Longrightarrow> ?p b c < 0 \<Longrightarrow> ?p a c < 0"
    using by_identifier.lex_trans [of "the (sv_prerelease a)" "the (sv_prerelease b)" "the (sv_prerelease c)"]
    by (cases "sv_prerelease a"; cases "sv_prerelease b"; cases "sv_prerelease c")
      (simp_all add: comparePrerelease_def compare_identifiers_lex)
  have step: "compare_versions x y < 0 \<longleftrightarrow> ?k x y < 0 \<or> (sv_core x = sv_core y \<and> ?p x y < 0)"
    if "parsed_version x" "parsed_version y" for x y
    using by_size.lex_zero [of "sv_core x" "sv_core y"] core [OF that]
    by (auto simp: compare_versions_def Let_def)
  have "?k a b < 0 \<or> (sv_core a = sv_core b \<and> ?p a b < 0)" "?k b c < 0 \<or> (sv_core b = sv_core c \<and> ?p b c < 0)"
    using assms step by blast+
  then have "?k a c < 0 \<or> (sv_core a = sv_core c \<and> ?p a c < 0)"
    using by_size.lex_trans [of "sv_core a" "sv_core b" "sv_core c"] pre by (elim disjE) auto
  then show ?thesis using step [OF assms(1,3)] by blast
qed

text \<open>A manifest that passes is its own normal form: validating the result changes nothing.\<close>

lemma manifest_of_props:
  "js_prop (manifest_of v) ''schemaVersion'' = js_prop v ''schemaVersion''"
  "js_prop (manifest_of v) ''skillId'' = js_prop v ''skillId''"
  "js_prop (manifest_of v) ''channel'' = js_prop v ''channel''"
  "js_prop (manifest_of v) ''version'' = js_prop v ''version''"
  "js_prop (manifest_of v) ''publishedAt'' = js_prop v ''publishedAt''"
  "js_prop (manifest_of v) ''summary'' = js_prop v ''summary''"
  "js_prop (manifest_of v) ''releaseNotes'' = js_prop v ''releaseNotes''"
  "js_prop (manifest_of v) ''severity'' = js_prop v ''severity''"
  "js_prop (js_prop (manifest_of v) ''source'') ''repository'' = js_prop (js_prop v ''source'') ''repository''"
  "js_prop (js_prop (manifest_of v) ''source'') ''ref'' = js_prop (js_prop v ''source'') ''ref''"
  "js_prop (js_prop (manifest_of v) ''source'') ''treeSha'' = js_prop (js_prop v ''source'') ''treeSha''"
  "js_prop (js_prop (manifest_of v) ''artifact'') ''sha256'' = js_prop (js_prop v ''artifact'') ''sha256''"
  by (simp_all add: manifest_of_def)

lemma manifest_of_keys:
  "hasExactKeys (manifest_of v) [''schemaVersion'', ''skillId'', ''channel'', ''version'', ''publishedAt'', ''source'',
     ''artifact'', ''summary'', ''releaseNotes'', ''severity'']"
  "hasExactKeys (js_prop (manifest_of v) ''source'') [''repository'', ''ref'', ''treeSha'']"
  "hasExactKeys (js_prop (manifest_of v) ''artifact'') [''sha256'']"
  by (simp_all add: manifest_of_def hasExactKeys_def)

lemma manifest_validated_again:
  assumes "validateStableUpdateManifest real_instant v = Inr m"
  shows "validateStableUpdateManifest real_instant m = Inr m"
proof -
  from assms have m: "m = manifest_of v" and ok: "stable_identity v"
    by (auto simp: validateStableUpdateManifest_def res_bind_Inr split: if_splits)
  have again: "manifest_of (manifest_of v) = manifest_of v"
    by (subst manifest_of_def) (simp only: manifest_of_props, simp only: manifest_of_def)
  have "stable_identity (manifest_of v)"
    using ok unfolding stable_identity_def manifest_of_props by (simp only: manifest_of_keys simp_thms)
  with assms ok show ?thesis
    unfolding m validateStableUpdateManifest_def by (simp only: manifest_of_props again if_False simp_thms)
qed

end
