(* ===== verification/UpdateState.thy ===== *)
theory UpdateState
imports Complex_Main UpdateContract
begin

text \<open>
  What the update check of the archify skill remembers
  (\<^verbatim>\<open>.agents/skills/archify/scripts/check-update.mjs\<close>): the cached state with its validation and size
  limit, what a check or a preference changes in it, the answer for a cached candidate and the answer
  of a whole check. \<open>date_parse\<close> and \<open>iso_of\<close> stand for \<^verbatim>\<open>Date.parse\<close> and \<^verbatim>\<open>toISOString\<close> on the times that
  have one, \<open>real_instant\<close> for the calendar check of a publication time; times are whole milliseconds.
\<close>

section \<open>The cached state\<close>

definition CHECK_TTL_MS :: int where
  "CHECK_TTL_MS = 24 * 60 * 60 * 1000"

definition MAX_CACHE_HORIZON_MS :: int where
  "MAX_CACHE_HORIZON_MS = ceiling (of_int CHECK_TTL_MS * (6 / 5 :: rat))"

definition FIRST_FAILURE_DELAY_MS :: int where
  "FIRST_FAILURE_DELAY_MS = 6 * 60 * 60 * 1000"

definition LATER_FAILURE_DELAY_MS :: int where
  "LATER_FAILURE_DELAY_MS = 24 * 60 * 60 * 1000"

definition MAX_CACHE_STATE_BYTES :: int where
  "MAX_CACHE_STATE_BYTES = 64 * 1024"

definition LONGEST_ISO_TIMESTAMP :: string where
  "LONGEST_ISO_TIMESTAMP = ''+275760-09-13T00:00:00.000Z''"

record target =
  tg_version :: string
  tg_digest :: json
  tg_severity :: string
  tg_releaseNotes :: string

record update_candidate = target +
  cd_checkedAt :: string

record preference =
  pf_targetDigest :: json
  pf_version :: string
  pf_mode :: string
  pf_until :: "string option"

record update_state =
  us_installedVersion :: "string option"
  us_nextCheckAt :: "string option"
  us_failures :: int
  us_preferences :: "preference list"
  us_candidate :: "update_candidate option"

definition hasOnlyKeys :: "json \<Rightarrow> string list \<Rightarrow> bool" where
  "hasOnlyKeys v allowed = (case v of JObj kvs \<Rightarrow> list_all (\<lambda>kv. fst kv \<in> set allowed) kvs | _ \<Rightarrow> True)"

definition digest_text :: "json \<Rightarrow> bool" where
  "digest_text v = (let s = js_string v in starts_with s ''sha256:'' \<and> hex_text 64 (JStr (drop 7 s)))"

definition known_severity :: "json \<Rightarrow> bool" where
  "known_severity v = (v \<in> {JStr ''normal'', JStr ''security''})"

definition text_of :: "json \<Rightarrow> string" where
  "text_of v = (case v of JStr s \<Rightarrow> s | _ \<Rightarrow> [])"

definition text_or_null :: "json \<Rightarrow> string option" where
  "text_or_null v = (case v of JStr s \<Rightarrow> Some s | _ \<Rightarrow> None)"

definition plain_object :: "json \<Rightarrow> bool" where
  "plain_object v = (case v of JObj _ \<Rightarrow> True | _ \<Rightarrow> False)"

definition validateManifest :: "(string \<Rightarrow> bool) \<Rightarrow> json \<Rightarrow> target result" where
  "validateManifest real_instant v =
     res_bind (validateStableUpdateManifest real_instant v) (\<lambda>m. returns
       \<lparr>tg_version = text_of (js_prop m ''version''),
        tg_digest = JStr (''sha256:'' @ js_string (js_prop (js_prop m ''artifact'') ''sha256'')),
        tg_severity = text_of (js_prop m ''severity''),
        tg_releaseNotes = text_of (js_prop m ''releaseNotes'')\<rparr>)"

definition parses_as_date :: "(string \<Rightarrow> int option) \<Rightarrow> json \<Rightarrow> bool" where
  "parses_as_date date_parse v = (case v of JStr s \<Rightarrow> date_parse s \<noteq> None | _ \<Rightarrow> False)"

definition candidate_fields_ok :: "(string \<Rightarrow> int option) \<Rightarrow> json \<Rightarrow> bool" where
  "candidate_fields_ok date_parse v =
     (plain_object v \<and> hasOnlyKeys v [''version'', ''targetDigest'', ''severity'', ''releaseNotes'', ''checkedAt''] \<and>
      isStableCoreVersion (js_prop v ''version'') \<and> digest_text (js_prop v ''targetDigest'') \<and>
      known_severity (js_prop v ''severity'') \<and>
      (case validateReleaseNotesUrl (js_prop v ''releaseNotes'') (js_prop v ''version'') of Inr _ \<Rightarrow> True | Inl _ \<Rightarrow> False) \<and>
      parses_as_date date_parse (js_prop v ''checkedAt''))"

definition validateCachedCandidate :: "(string \<Rightarrow> int option) \<Rightarrow> json \<Rightarrow> update_candidate option" where
  "validateCachedCandidate date_parse v =
     (if candidate_fields_ok date_parse v
      then Some \<lparr>tg_version = text_of (js_prop v ''version''), tg_digest = js_prop v ''targetDigest'',
                 tg_severity = text_of (js_prop v ''severity''), tg_releaseNotes = text_of (js_prop v ''releaseNotes''),
                 cd_checkedAt = text_of (js_prop v ''checkedAt'')\<rparr>
      else None)"

definition emptyUpdateState :: "string option \<Rightarrow> update_state" where
  "emptyUpdateState installed =
     \<lparr>us_installedVersion = installed, us_nextCheckAt = None, us_failures = 0, us_preferences = [],
      us_candidate = None\<rparr>"

definition validPreference :: "(string \<Rightarrow> int option) \<Rightarrow> json \<Rightarrow> bool" where
  "validPreference date_parse v =
     (plain_object v \<and> hasOnlyKeys v [''targetDigest'', ''version'', ''mode'', ''until''] \<and>
      digest_text (js_prop v ''targetDigest'') \<and> isStableCoreVersion (js_prop v ''version'') \<and>
      js_prop v ''mode'' \<in> {JStr ''ignore'', JStr ''snooze''} \<and>
      (if js_prop v ''mode'' = JStr ''ignore'' then js_prop v ''until'' = JNull
       else parses_as_date date_parse (js_prop v ''until'')))"

definition preference_of :: "json \<Rightarrow> preference" where
  "preference_of v =
     \<lparr>pf_targetDigest = js_prop v ''targetDigest'', pf_version = text_of (js_prop v ''version''),
      pf_mode = text_of (js_prop v ''mode''), pf_until = text_or_null (js_prop v ''until'')\<rparr>"

section \<open>Writing and reading it\<close>

definition or_null :: "string option \<Rightarrow> json" where
  "or_null x = (case x of Some s \<Rightarrow> JStr s | None \<Rightarrow> JNull)"

definition preference_json :: "preference \<Rightarrow> json" where
  "preference_json p =
     JObj [(''targetDigest'', pf_targetDigest p), (''version'', JStr (pf_version p)), (''mode'', JStr (pf_mode p)),
           (''until'', or_null (pf_until p))]"

definition candidate_json :: "update_candidate \<Rightarrow> json" where
  "candidate_json c =
     JObj [(''version'', JStr (tg_version c)), (''targetDigest'', tg_digest c), (''severity'', JStr (tg_severity c)),
           (''releaseNotes'', JStr (tg_releaseNotes c)), (''checkedAt'', JStr (cd_checkedAt c))]"

definition state_json :: "update_state \<Rightarrow> json" where
  "state_json s =
     JObj ([(''schemaVersion'', JNum 2), (''skillId'', JStr SKILL_ID),
            (''installedVersion'', or_null (us_installedVersion s)),
            (''check'', JObj [(''nextCheckAt'', or_null (us_nextCheckAt s)),
                              (''consecutiveFailures'', JNum (us_failures s))]),
            (''preferences'', JArr (map preference_json (us_preferences s)))] @
           (case us_candidate s of Some c \<Rightarrow> [(''candidate'', candidate_json c)] | None \<Rightarrow> []))"

definition utf8_length :: "string \<Rightarrow> nat" where
  "utf8_length s = sum_list (map (\<lambda>c. if (of_char c :: nat) < 128 then 1 else 2) s)"

definition encodeBoundedState :: "update_state \<Rightarrow> string option" where
  "encodeBoundedState s =
     (let encoded = or_else (json_stringify (state_json s)) ''undefined'' @ [CHR 0x0A] in
      if int (utf8_length encoded) \<le> MAX_CACHE_STATE_BYTES then Some encoded else None)"

definition stateWithFailureCheck :: "update_state \<Rightarrow> string \<Rightarrow> int \<Rightarrow> bool \<Rightarrow> update_state" where
  "stateWithFailureCheck s nextCheckAt failures withdrawCandidate =
     s\<lparr>us_nextCheckAt := Some nextCheckAt, us_failures := failures,
       us_candidate := if withdrawCandidate then None else us_candidate s\<rparr>"

definition encodeRecoverableState :: "update_state \<Rightarrow> string option" where
  "encodeRecoverableState s =
     (case encodeBoundedState s of
        None \<Rightarrow> None
      | Some encoded \<Rightarrow>
          if encodeBoundedState (stateWithFailureCheck s LONGEST_ISO_TIMESTAMP 2 False) = None then None
          else Some encoded)"

definition safe_count :: "json \<Rightarrow> bool" where
  "safe_count v = (case v of JNum n \<Rightarrow> 0 \<le> n \<and> n \<le> 2 ^ 53 - 1 | _ \<Rightarrow> False)"

definition null_or_text :: "json \<Rightarrow> bool" where
  "null_or_text v = (case v of JNull \<Rightarrow> True | JStr _ \<Rightarrow> True | _ \<Rightarrow> False)"

definition state_fields_ok :: "(string \<Rightarrow> int option) \<Rightarrow> json \<Rightarrow> string option \<Rightarrow> bool" where
  "state_fields_ok date_parse v installed =
     (plain_object v \<and> js_prop v ''schemaVersion'' = JNum 2 \<and> js_prop v ''skillId'' = JStr SKILL_ID \<and>
      (installed \<noteq> None \<longrightarrow> js_prop v ''installedVersion'' = or_null installed) \<and>
      null_or_text (js_prop v ''installedVersion'') \<and> plain_object (js_prop v ''check'') \<and>
      null_or_text (js_prop (js_prop v ''check'') ''nextCheckAt'') \<and>
      safe_count (js_prop (js_prop v ''check'') ''consecutiveFailures'') \<and>
      (case js_prop v ''preferences'' of
         JArr ps \<Rightarrow> length ps \<le> 32 \<and> list_all (validPreference date_parse) ps
       | _ \<Rightarrow> False))"

definition number_of :: "json \<Rightarrow> int" where
  "number_of v = (case v of JNum n \<Rightarrow> n | _ \<Rightarrow> 0)"

definition items_of :: "json \<Rightarrow> json list" where
  "items_of v = (case v of JArr vs \<Rightarrow> vs | _ \<Rightarrow> [])"

definition normalizeState :: "(string \<Rightarrow> int option) \<Rightarrow> json \<Rightarrow> string option \<Rightarrow> update_state option" where
  "normalizeState date_parse v installed =
     (let effective = first_some installed (text_or_null (js_prop v ''installedVersion'')) in
      if \<not> state_fields_ok date_parse v installed then None
      else if (case effective of Some e \<Rightarrow> (case parseSemver (JStr e) of Inl _ \<Rightarrow> True | Inr _ \<Rightarrow> False) | None \<Rightarrow> False)
      then None
      else
        let s = (emptyUpdateState effective)
          \<lparr>us_nextCheckAt := text_or_null (js_prop (js_prop v ''check'') ''nextCheckAt''),
           us_failures := number_of (js_prop (js_prop v ''check'') ''consecutiveFailures''),
           us_preferences := map preference_of (items_of (js_prop v ''preferences'')),
           us_candidate := validateCachedCandidate date_parse (js_prop v ''candidate'')\<rparr> in
        if has_prop v ''candidate'' \<and> us_candidate s = None then None
        else if encodeRecoverableState s = None then None else Some s)"

section \<open>What a check or a preference changes\<close>

text \<open>\<^verbatim>\<open>toISOString\<close> throws outside the range of \<^verbatim>\<open>Date\<close>.\<close>

definition to_iso :: "(int \<Rightarrow> string) \<Rightarrow> int \<Rightarrow> string result" where
  "to_iso iso_of ms = (if \<bar>ms\<bar> \<le> 8640000000000000 then returns (iso_of ms) else throws ''Invalid time value'')"

definition js_round :: "rat \<Rightarrow> int" where
  "js_round x = floor (x + 1 / 2)"

text \<open>The random number is exact here, \<open>None\<close> when it is not a number.\<close>

definition success_delay :: "rat option \<Rightarrow> int" where
  "success_delay random =
     (let bounded = min 1 (max 0 (or_else random 0)) in js_round (of_int CHECK_TTL_MS * (4 / 5 + bounded * (2 / 5))))"

definition nextSuccessfulCheck :: "(int \<Rightarrow> string) \<Rightarrow> int \<Rightarrow> rat option \<Rightarrow> string result" where
  "nextSuccessfulCheck iso_of nowMs random = to_iso iso_of (nowMs + success_delay random)"

definition nextFailedCheck :: "(int \<Rightarrow> string) \<Rightarrow> int \<Rightarrow> int \<Rightarrow> string result" where
  "nextFailedCheck iso_of nowMs failures =
     to_iso iso_of (nowMs + (if failures \<le> 1 then FIRST_FAILURE_DELAY_MS else LATER_FAILURE_DELAY_MS))"

definition stateAfterFailedCheck :: "(int \<Rightarrow> string) \<Rightarrow> update_state \<Rightarrow> int \<Rightarrow> bool \<Rightarrow> update_state result" where
  "stateAfterFailedCheck iso_of s nowMs withdrawCandidate =
     (let failures = min (us_failures s + 1) 2 in
      res_bind (nextFailedCheck iso_of nowMs failures)
        (\<lambda>moment. returns (stateWithFailureCheck s moment failures withdrawCandidate)))"

definition eventKeyForDigest :: "json \<Rightarrow> string" where
  "eventKeyForDigest d = SKILL_ID @ ''@'' @ js_string d"

definition digestForEventKey :: "json \<Rightarrow> string option" where
  "digestForEventKey v =
     (case v of
        JStr key \<Rightarrow>
          (let p = SKILL_ID @ ''@'' in
           if \<not> starts_with key p then None
           else if digest_text (JStr (drop (length p) key)) then Some (drop (length p) key) else None)
      | _ \<Rightarrow> None)"

section \<open>Answers\<close>

record notice =
  nt_eventKey :: string
  nt_installedVersion :: string
  nt_latestVersion :: string
  nt_targetDigest :: json
  nt_severity :: string
  nt_summary :: string
  nt_releaseNotes :: string
  nt_source :: string
  nt_checkedAt :: string
  nt_required :: bool
  nt_reason :: "string option"
  nt_suppressedUntil :: "string option"

datatype outcome =
    Silent string
  | UpToDate string string string string
  | UpdateAvailable notice
  | Preferred string string "string option"

definition notification :: "string \<Rightarrow> update_candidate \<Rightarrow> string \<Rightarrow> notice" where
  "notification installed c source =
     \<lparr>nt_eventKey = eventKeyForDigest (tg_digest c), nt_installedVersion = installed,
      nt_latestVersion = tg_version c, nt_targetDigest = tg_digest c, nt_severity = tg_severity c,
      nt_summary = ''Archify '' @ tg_version c @ '' is available; see the official release notes for details.'',
      nt_releaseNotes = tg_releaseNotes c, nt_source = source, nt_checkedAt = cd_checkedAt c,
      nt_required = True, nt_reason = None, nt_suppressedUntil = None\<rparr>"

text \<open>Identity of values: two arrays or objects that were read from a file are never the same one.\<close>

definition strictly_equal :: "json \<Rightarrow> json \<Rightarrow> bool" where
  "strictly_equal a b = (a = b \<and> (case a of JArr _ \<Rightarrow> False | JObj _ \<Rightarrow> False | _ \<Rightarrow> True))"

definition preference_for :: "update_state \<Rightarrow> update_candidate \<Rightarrow> preference option" where
  "preference_for s c =
     find (\<lambda>p. strictly_equal (pf_targetDigest p) (tg_digest c) \<and> pf_version p = tg_version c) (us_preferences s)"

definition suppressed :: "(string \<Rightarrow> int option) \<Rightarrow> int \<Rightarrow> preference option \<Rightarrow> notice \<Rightarrow> notice" where
  "suppressed date_parse nowMs preference n =
     (case preference of
        None \<Rightarrow> n
      | Some p \<Rightarrow>
          if pf_mode p = ''ignore'' then n\<lparr>nt_required := False, nt_reason := Some ''ignored''\<rparr>
          else if pf_mode p = ''snooze'' \<and>
                  (case date_parse (or_else (pf_until p) ''null'') of Some t \<Rightarrow> nowMs < t | None \<Rightarrow> False)
          then n\<lparr>nt_required := False, nt_reason := Some ''snoozed'', nt_suppressedUntil := pf_until p\<rparr>
          else n)"

definition resultForCandidate ::
  "(string \<Rightarrow> int option) \<Rightarrow> string \<Rightarrow> update_state \<Rightarrow> string \<Rightarrow> int \<Rightarrow> outcome result" where
  "resultForCandidate date_parse installed s source nowMs =
     (case us_candidate s of
        None \<Rightarrow> returns (Silent ''cache-valid'')
      | Some c \<Rightarrow>
          res_bind (compareSemver (tg_version c) installed) (\<lambda>order.
            returns
              (if order \<le> 0 then UpToDate installed (tg_version c) (cd_checkedAt c) source
               else UpdateAvailable
                 (suppressed date_parse nowMs (preference_for s c) (notification installed c source)))))"

definition freshStateResult ::
  "(string \<Rightarrow> int option) \<Rightarrow> string \<Rightarrow> update_state \<Rightarrow> int \<Rightarrow> outcome option result" where
  "freshStateResult date_parse installed s nowMs =
     (case date_parse (or_else (us_nextCheckAt s) []) of
        Some next \<Rightarrow>
          if nowMs < next \<and> next \<le> nowMs + MAX_CACHE_HORIZON_MS
          then res_bind (resultForCandidate date_parse installed s ''cache'' nowMs) (\<lambda>r. returns (Some r))
          else returns None
      | None \<Rightarrow> returns None)"

section \<open>Decisions\<close>

record cache_decision =
  dn_state :: "update_state option"
  dn_result :: outcome
  dn_fallback :: "(update_state \<times> outcome) option"

definition failedResult ::
  "(string \<Rightarrow> int option) \<Rightarrow> string \<Rightarrow> bool \<Rightarrow> string \<Rightarrow> int \<Rightarrow> update_state \<Rightarrow> outcome result" where
  "failedResult date_parse installed withdrawn reason nowMs known =
     (if \<not> withdrawn \<and> us_candidate known \<noteq> None
      then resultForCandidate date_parse installed known ''cache'' nowMs
      else returns (Silent reason))"

definition failed_decision ::
  "(string \<Rightarrow> int option) \<Rightarrow> (int \<Rightarrow> string) \<Rightarrow> string \<Rightarrow> bool \<Rightarrow> string \<Rightarrow> int \<Rightarrow> update_state \<Rightarrow> cache_decision result" where
  "failed_decision date_parse iso_of installed withdrawn reason nowMs current =
     res_bind (stateAfterFailedCheck iso_of current nowMs withdrawn) (\<lambda>s.
       res_bind (failedResult date_parse installed withdrawn reason nowMs current) (\<lambda>r.
         returns \<lparr>dn_state = Some s, dn_result = r, dn_fallback = None\<rparr>))"

definition success_decision ::
  "(string \<Rightarrow> int option) \<Rightarrow> (int \<Rightarrow> string) \<Rightarrow> string \<Rightarrow> update_candidate \<Rightarrow> rat option \<Rightarrow> int \<Rightarrow> update_state \<Rightarrow> cache_decision result" where
  "success_decision date_parse iso_of installed c random nowMs current =
     res_bind (nextSuccessfulCheck iso_of nowMs random) (\<lambda>moment.
       let nxt = current\<lparr>us_candidate := Some c, us_nextCheckAt := Some moment, us_failures := 0\<rparr> in
       res_bind (resultForCandidate date_parse installed nxt ''network'' nowMs) (\<lambda>r.
         res_bind (stateAfterFailedCheck iso_of current nowMs True) (\<lambda>f.
           returns \<lparr>dn_state = Some nxt, dn_result = r, dn_fallback = Some (f, r)\<rparr>)))"

definition last_items :: "nat \<Rightarrow> 'a list \<Rightarrow> 'a list" where
  "last_items n xs = drop (length xs - n) xs"

definition with_preference :: "preference \<Rightarrow> update_state \<Rightarrow> update_state" where
  "with_preference p s =
     s\<lparr>us_preferences :=
         last_items 30 (filter (\<lambda>e. \<not> strictly_equal (pf_targetDigest e) (pf_targetDigest p)) (us_preferences s)) @ [p]\<rparr>"

definition chosen_candidate :: "string \<Rightarrow> string \<Rightarrow> update_state \<Rightarrow> update_candidate option result" where
  "chosen_candidate targetDigest installed s =
     (case us_candidate s of
        None \<Rightarrow> returns None
      | Some c \<Rightarrow>
          if tg_digest c \<noteq> JStr targetDigest then returns None
          else res_bind (compareSemver (tg_version c) installed)
                 (\<lambda>order. returns (if order \<le> 0 then None else Some c)))"

definition preference_decision ::
  "(int \<Rightarrow> string) \<Rightarrow> string \<Rightarrow> string \<Rightarrow> string \<Rightarrow> string \<Rightarrow> int \<Rightarrow> int \<Rightarrow> update_state \<Rightarrow> cache_decision result" where
  "preference_decision iso_of installed targetDigest eventKey mode days nowMs s =
     res_bind (chosen_candidate targetDigest installed s) (\<lambda>chosen.
       case chosen of
         None \<Rightarrow> returns \<lparr>dn_state = None, dn_result = Silent ''invalid-preference'', dn_fallback = None\<rparr>
       | Some c \<Rightarrow>
           res_bind (if mode = ''snooze''
                     then res_bind (to_iso iso_of (nowMs + days * 24 * 60 * 60 * 1000)) (\<lambda>t. returns (Some t))
                     else returns None) (\<lambda>until.
             returns
               \<lparr>dn_state = Some (with_preference
                    \<lparr>pf_targetDigest = JStr targetDigest, pf_version = tg_version c, pf_mode = mode, pf_until = until\<rparr> s),
                dn_result = Preferred (if mode = ''snooze'' then ''snoozed'' else ''ignored'') eventKey until,
                dn_fallback = None\<rparr>))"

text \<open>What is committed of a decision: its state if that can be recovered from, else the fallback.\<close>

definition settle :: "cache_decision \<Rightarrow> update_state option \<times> outcome" where
  "settle d =
     (case dn_state d of
        None \<Rightarrow> (None, dn_result d)
      | Some s \<Rightarrow>
          if encodeRecoverableState s \<noteq> None then (Some s, dn_result d)
          else (case dn_fallback d of
                  None \<Rightarrow> (None, Silent ''cache-unavailable'')
                | Some (f, r) \<Rightarrow>
                    if encodeRecoverableState f \<noteq> None then (Some f, r) else (None, Silent ''cache-unavailable'')))"

section \<open>Fetching the manifest\<close>

definition MAX_RESPONSE_BYTES :: int where
  "MAX_RESPONSE_BYTES = 32 * 1024"

text \<open>
  An answer of the server: its status, content type, content length (\<open>None\<close> when it is not a finite
  number) and body as chunks of bytes. \<open>decode\<close> is the UTF-8 decoder, \<open>json_parse\<close> is \<^verbatim>\<open>JSON.parse\<close>.
\<close>

record http_answer =
  ha_status :: int
  ha_type :: "string option"
  ha_length :: "int option"
  ha_body :: "string list option"

datatype fetch_event = TimedOut | RequestFails string | Answered http_answer

datatype fetch_error = ManifestWithdrawn string | ContractError string | OtherError string

fun read_chunks :: "int \<Rightarrow> string list \<Rightarrow> string option" where
  "read_chunks used [] = Some []"
| "read_chunks used (c # cs) =
     (if MAX_RESPONSE_BYTES < used + int (length c) then None
      else map_option (\<lambda>rest. c @ rest) (read_chunks (used + int (length c)) cs))"

definition readBoundedBody :: "(string \<Rightarrow> string option) \<Rightarrow> http_answer \<Rightarrow> string result" where
  "readBoundedBody decode a =
     (if (case ha_length a of Some n \<Rightarrow> MAX_RESPONSE_BYTES < n | None \<Rightarrow> False)
      then throws ''manifest response is too large''
      else case ha_body a of
        None \<Rightarrow> throws ''manifest response has no bounded stream''
      | Some chunks \<Rightarrow>
          (case read_chunks 0 chunks of
             None \<Rightarrow> throws ''manifest response is too large''
           | Some bytes \<Rightarrow>
               (case decode bytes of
                  None \<Rightarrow> throws ''manifest is not valid UTF-8''
                | Some text \<Rightarrow> returns text)))"

definition media_type :: "string \<Rightarrow> string" where
  "media_type s = to_lower (js_trim (before_char CHR '';'' s))"

definition contract :: "'a result \<Rightarrow> fetch_error + 'a" where
  "contract r = (case r of Inl e \<Rightarrow> Inl (ContractError e) | Inr x \<Rightarrow> Inr x)"

definition fetchCandidate ::
  "(string \<Rightarrow> bool) \<Rightarrow> (string \<Rightarrow> string option) \<Rightarrow> (string \<Rightarrow> json option) \<Rightarrow> json \<Rightarrow> fetch_event \<Rightarrow>
    fetch_error + target" where
  "fetchCandidate real_instant decode json_parse manifestUrl e =
     (if manifestUrl \<noteq> JStr DEFAULT_MANIFEST_URL then Inl (ContractError ''unexpected manifest URL'')
      else case e of
        TimedOut \<Rightarrow> Inl (OtherError ''update check timed out'')
      | RequestFails m \<Rightarrow> Inl (OtherError m)
      | Answered a \<Rightarrow>
          if ha_status a \<noteq> 200
          then (if ha_status a = 404 \<or> ha_status a = 410 then Inl (ManifestWithdrawn ''manifest was withdrawn'')
                else Inl (OtherError (''manifest returned HTTP '' @ show_int (ha_status a))))
          else if map_option media_type (ha_type a) \<noteq> Some ''application/json''
          then Inl (ContractError ''manifest is not JSON'')
          else contract (res_bind (readBoundedBody decode a) (\<lambda>text.
            case json_parse text of
              None \<Rightarrow> throws ''manifest is not valid bounded JSON''
            | Some v \<Rightarrow> validateManifest real_instant v)))"

section \<open>A check and a preference\<close>

text \<open>
  What a call meets outside: each field is the answer of one call, in the order they are made. A
  commit throws, is fenced by a later operation, or reads the current state; its write may be fenced
  or fail too.
\<close>

datatype write_event = Written | WriteFenced | WriteFails string

datatype commit_event = CommitThrows string | CommitFenced | CommitReads update_state write_event

definition commitOperation :: "commit_event \<Rightarrow> (update_state \<Rightarrow> cache_decision result) \<Rightarrow> outcome option result" where
  "commitOperation e mutate =
     (case e of
        CommitThrows m \<Rightarrow> throws m
      | CommitFenced \<Rightarrow> returns None
      | CommitReads s w \<Rightarrow>
          res_bind (mutate s) (\<lambda>d.
            case settle d of
              (None, r) \<Rightarrow> returns (Some r)
            | (Some _, r) \<Rightarrow>
                (case w of Written \<Rightarrow> returns (Some r) | WriteFenced \<Rightarrow> returns None | WriteFails m \<Rightarrow> throws m)))"

record check_env =
  ce_disabled :: bool
  ce_fetchable :: bool
  ce_release :: "json result"
  ce_now :: "int option"
  ce_cached :: "update_state result"
  ce_acquired :: "bool result"
  ce_again :: "update_state result"
  ce_cancelled :: "unit result"
  ce_owns :: "bool result"
  ce_verified :: "unit result"
  ce_still_owns :: "bool result"
  ce_fetch :: fetch_event
  ce_random :: "rat option"
  ce_commit :: commit_event
  ce_lost :: "update_state result"

definition caught :: "'a result \<Rightarrow> 'a result \<Rightarrow> 'a result" where
  "caught r h = (case r of Inl _ \<Rightarrow> h | Inr x \<Rightarrow> Inr x)"

definition known_or_busy :: "(string \<Rightarrow> int option) \<Rightarrow> string \<Rightarrow> int \<Rightarrow> update_state \<Rightarrow> outcome result" where
  "known_or_busy date_parse installed nowMs s =
     (if us_candidate s \<noteq> None then resultForCandidate date_parse installed s ''cache'' nowMs
      else returns (Silent ''check-in-progress''))"

definition resultAfterLosingOperation ::
  "(string \<Rightarrow> int option) \<Rightarrow> string \<Rightarrow> int \<Rightarrow> check_env \<Rightarrow> outcome result" where
  "resultAfterLosingOperation date_parse installed nowMs env =
     res_bind (ce_cancelled env) (\<lambda>_. res_bind (ce_lost env) (known_or_busy date_parse installed nowMs))"

definition or_lost ::
  "(string \<Rightarrow> int option) \<Rightarrow> string \<Rightarrow> int \<Rightarrow> check_env \<Rightarrow> outcome option result \<Rightarrow> outcome result" where
  "or_lost date_parse installed nowMs env committed =
     res_bind committed (\<lambda>c. case c of
       None \<Rightarrow> resultAfterLosingOperation date_parse installed nowMs env
     | Some r \<Rightarrow> returns r)"

definition failure_reason :: "fetch_error \<Rightarrow> string" where
  "failure_reason e =
     (case e of ManifestWithdrawn _ \<Rightarrow> ''withdrawn'' | ContractError _ \<Rightarrow> ''invalid-manifest'' | OtherError _ \<Rightarrow> ''check-failed'')"

definition is_withdrawn :: "fetch_error \<Rightarrow> bool" where
  "is_withdrawn e = (case e of ManifestWithdrawn _ \<Rightarrow> True | _ \<Rightarrow> False)"

definition after_failed_fetch ::
  "(string \<Rightarrow> int option) \<Rightarrow> (int \<Rightarrow> string) \<Rightarrow> string \<Rightarrow> int \<Rightarrow> check_env \<Rightarrow> update_state \<Rightarrow> fetch_error \<Rightarrow> outcome result" where
  "after_failed_fetch date_parse iso_of installed nowMs env s e =
     (let withdrawn = is_withdrawn e; reason = failure_reason e in
      caught (or_lost date_parse installed nowMs env
               (commitOperation (ce_commit env) (failed_decision date_parse iso_of installed withdrawn reason nowMs)))
        (failedResult date_parse installed withdrawn reason nowMs s))"

definition checked_at :: "string \<Rightarrow> target \<Rightarrow> update_candidate" where
  "checked_at moment t =
     \<lparr>tg_version = tg_version t, tg_digest = tg_digest t, tg_severity = tg_severity t,
      tg_releaseNotes = tg_releaseNotes t, cd_checkedAt = moment\<rparr>"

definition after_fetch ::
  "(string \<Rightarrow> int option) \<Rightarrow> (int \<Rightarrow> string) \<Rightarrow> string \<Rightarrow> int \<Rightarrow> check_env \<Rightarrow> update_state \<Rightarrow> target \<Rightarrow> outcome result" where
  "after_fetch date_parse iso_of installed nowMs env s t =
     res_bind (to_iso iso_of nowMs) (\<lambda>moment.
       let c = checked_at moment t in
       caught (or_lost date_parse installed nowMs env
                (commitOperation (ce_commit env) (success_decision date_parse iso_of installed c (ce_random env) nowMs)))
         (resultForCandidate date_parse installed (s\<lparr>us_candidate := Some c\<rparr>) ''network'' nowMs))"

definition owned_check ::
  "(string \<Rightarrow> int option) \<Rightarrow> (int \<Rightarrow> string) \<Rightarrow> string \<Rightarrow> int \<Rightarrow> check_env \<Rightarrow> update_state \<Rightarrow>
    fetch_error + target \<Rightarrow> outcome result" where
  "owned_check date_parse iso_of installed nowMs env s fetched =
     res_bind (ce_owns env) (\<lambda>owns.
       if \<not> owns then resultAfterLosingOperation date_parse installed nowMs env
       else res_bind (ce_verified env) (\<lambda>_. res_bind (ce_still_owns env) (\<lambda>still.
         if \<not> still then resultAfterLosingOperation date_parse installed nowMs env
         else case fetched of
           Inl e \<Rightarrow> after_failed_fetch date_parse iso_of installed nowMs env s e
         | Inr t \<Rightarrow> after_fetch date_parse iso_of installed nowMs env s t)))"

definition with_operation ::
  "(string \<Rightarrow> int option) \<Rightarrow> (int \<Rightarrow> string) \<Rightarrow> string \<Rightarrow> int \<Rightarrow> check_env \<Rightarrow> fetch_error + target \<Rightarrow> outcome result" where
  "with_operation date_parse iso_of installed nowMs env fetched =
     res_bind (ce_again env) (\<lambda>s.
       res_bind (freshStateResult date_parse installed s nowMs) (\<lambda>raced.
         case raced of
           Some r \<Rightarrow> res_bind (ce_cancelled env) (\<lambda>_. returns r)
         | None \<Rightarrow> owned_check date_parse iso_of installed nowMs env s fetched))"

definition after_cache ::
  "(string \<Rightarrow> int option) \<Rightarrow> (int \<Rightarrow> string) \<Rightarrow> string \<Rightarrow> int \<Rightarrow> check_env \<Rightarrow> fetch_error + target \<Rightarrow> outcome result" where
  "after_cache date_parse iso_of installed nowMs env fetched =
     (case ce_acquired env of
        Inl _ \<Rightarrow> returns (Silent ''cache-unavailable'')
      | Inr acquired \<Rightarrow>
          caught (if acquired then with_operation date_parse iso_of installed nowMs env fetched
                  else res_bind (ce_again env) (known_or_busy date_parse installed nowMs))
            (returns (Silent ''cache-unavailable'')))"

definition checkForUpdate ::
  "(string \<Rightarrow> int option) \<Rightarrow> (int \<Rightarrow> string) \<Rightarrow> (string \<Rightarrow> bool) \<Rightarrow> (string \<Rightarrow> string option) \<Rightarrow>
    (string \<Rightarrow> json option) \<Rightarrow> check_env \<Rightarrow> outcome result" where
  "checkForUpdate date_parse iso_of real_instant decode json_parse env =
     (if ce_disabled env then returns (Silent ''disabled'')
      else if \<not> ce_fetchable env then returns (Silent ''runtime-unavailable'')
      else case res_bind (ce_release env) validateLocalRelease of
        Inl _ \<Rightarrow> returns (Silent ''invalid-local-release'')
      | Inr release \<Rightarrow>
          let installed = text_of (js_prop release ''version'') in
          case ce_now env of
            None \<Rightarrow> returns (Silent ''invalid-clock'')
          | Some nowMs \<Rightarrow>
              (case ce_cached env of
                 Inl _ \<Rightarrow> returns (Silent ''cache-unavailable'')
               | Inr s \<Rightarrow>
                   res_bind (freshStateResult date_parse installed s nowMs) (\<lambda>cached.
                     case cached of
                       Some r \<Rightarrow> returns r
                     | None \<Rightarrow> after_cache date_parse iso_of installed nowMs env
                         (fetchCandidate real_instant decode json_parse (js_prop release ''updateManifestUrl'') (ce_fetch env)))))"

text \<open>
  Setting a preference tries to acquire an operation until the deadline: each attempt says whether it
  was acquired, whether the wait after a miss leaves time, and what the commit met.
\<close>

record attempt =
  at_acquired :: "bool result"
  at_waited :: bool
  at_commit :: commit_event

fun preference_attempts :: "(update_state \<Rightarrow> cache_decision result) \<Rightarrow> attempt list \<Rightarrow> outcome" where
  "preference_attempts mutate [] = Silent ''check-in-progress''"
| "preference_attempts mutate (a # rest) =
     (case at_acquired a of
        Inl _ \<Rightarrow> Silent ''cache-unavailable''
      | Inr False \<Rightarrow>
          if at_waited a then preference_attempts mutate rest else Silent ''check-in-progress''
      | Inr True \<Rightarrow>
          (case commitOperation (at_commit a) mutate of
             Inl _ \<Rightarrow> Silent ''cache-unavailable''
           | Inr (Some r) \<Rightarrow> r
           | Inr None \<Rightarrow> preference_attempts mutate rest))"

definition valid_request :: "json \<Rightarrow> string \<Rightarrow> int \<Rightarrow> bool" where
  "valid_request eventKey mode days =
     (digestForEventKey eventKey \<noteq> None \<and> mode \<in> {''snooze'', ''ignore''} \<and>
      (mode = ''snooze'' \<longrightarrow> 1 \<le> days \<and> days \<le> 365))"

definition setUpdatePreference ::
  "(int \<Rightarrow> string) \<Rightarrow> json \<Rightarrow> string \<Rightarrow> int \<Rightarrow> json result \<Rightarrow> unit result \<Rightarrow> int option \<Rightarrow> attempt list \<Rightarrow> outcome" where
  "setUpdatePreference iso_of eventKey mode days release prepared now_ms attempts =
     (if \<not> valid_request eventKey mode days then Silent ''invalid-preference''
      else case res_bind release validateLocalRelease of
        Inl _ \<Rightarrow> Silent ''invalid-local-release''
      | Inr r \<Rightarrow>
          (case prepared of
             Inl _ \<Rightarrow> Silent ''cache-unavailable''
           | Inr _ \<Rightarrow>
               (case now_ms of
                  None \<Rightarrow> Silent ''invalid-clock''
                | Some nowMs \<Rightarrow>
                    preference_attempts
                      (preference_decision iso_of (text_of (js_prop r ''version'')) (or_else (digestForEventKey eventKey) [])
                        (js_string eventKey) mode days nowMs)
                      attempts)))"

definition runCli :: "bool \<Rightarrow> string list \<Rightarrow> outcome \<Rightarrow> (json \<Rightarrow> string \<Rightarrow> outcome) \<Rightarrow> outcome" where
  "runCli disabled argumentsList check set_preference =
     (if disabled then Silent ''disabled''
      else case argumentsList of
        [] \<Rightarrow> check
      | [flag, key] \<Rightarrow>
          if flag = ''--ack'' then Silent ''legacy-ack-no-op''
          else if flag = ''--snooze'' then set_preference (JStr key) ''snooze''
          else if flag = ''--ignore'' then set_preference (JStr key) ''ignore''
          else Silent ''invalid-arguments''
      | _ \<Rightarrow> Silent ''invalid-arguments'')"

section \<open>Properties\<close>

subsection \<open>Valid states\<close>

definition candidate_ok :: "(string \<Rightarrow> int option) \<Rightarrow> update_candidate \<Rightarrow> bool" where
  "candidate_ok date_parse c = candidate_fields_ok date_parse (candidate_json c)"

definition preference_ok :: "(string \<Rightarrow> int option) \<Rightarrow> preference \<Rightarrow> bool" where
  "preference_ok date_parse p = validPreference date_parse (preference_json p)"

definition state_valid :: "(string \<Rightarrow> int option) \<Rightarrow> string \<Rightarrow> update_state \<Rightarrow> bool" where
  "state_valid date_parse installed s =
     (us_installedVersion s = Some installed \<and>
      (case parseSemver (JStr installed) of Inl _ \<Rightarrow> False | Inr _ \<Rightarrow> True) \<and>
      0 \<le> us_failures s \<and> us_failures s \<le> 2 ^ 53 - 1 \<and> length (us_preferences s) \<le> 32 \<and>
      list_all (preference_ok date_parse) (us_preferences s) \<and>
      (case us_candidate s of Some c \<Rightarrow> candidate_ok date_parse c | None \<Rightarrow> True))"

lemma text_or_null_or_null [simp]: "text_or_null (or_null x) = x" "null_or_text (or_null x)"
  by (cases x; simp add: text_or_null_def or_null_def null_or_text_def)+

lemma text_of_JStr [simp]: "text_of (JStr s) = s"
  by (simp add: text_of_def)

lemma candidate_json_props [simp]:
  "js_prop (candidate_json c) ''version'' = JStr (tg_version c)"
  "js_prop (candidate_json c) ''targetDigest'' = tg_digest c"
  "js_prop (candidate_json c) ''severity'' = JStr (tg_severity c)"
  "js_prop (candidate_json c) ''releaseNotes'' = JStr (tg_releaseNotes c)"
  "js_prop (candidate_json c) ''checkedAt'' = JStr (cd_checkedAt c)"
  "plain_object (candidate_json c)"
  "hasOnlyKeys (candidate_json c) [''version'', ''targetDigest'', ''severity'', ''releaseNotes'', ''checkedAt'']"
  by (simp_all add: candidate_json_def plain_object_def hasOnlyKeys_def)

lemma candidate_read_back: "candidate_ok date_parse c \<Longrightarrow> validateCachedCandidate date_parse (candidate_json c) = Some c"
  by (simp add: candidate_ok_def validateCachedCandidate_def)

lemma preference_json_props [simp]:
  "js_prop (preference_json p) ''targetDigest'' = pf_targetDigest p"
  "js_prop (preference_json p) ''version'' = JStr (pf_version p)"
  "js_prop (preference_json p) ''mode'' = JStr (pf_mode p)"
  "js_prop (preference_json p) ''until'' = or_null (pf_until p)"
  "plain_object (preference_json p)"
  "hasOnlyKeys (preference_json p) [''targetDigest'', ''version'', ''mode'', ''until'']"
  by (simp_all add: preference_json_def plain_object_def hasOnlyKeys_def)

lemma preference_read_back [simp]: "preference_of (preference_json p) = p"
  by (simp add: preference_of_def)

lemma state_json_props [simp]:
  "js_prop (state_json s) ''schemaVersion'' = JNum 2"
  "js_prop (state_json s) ''skillId'' = JStr SKILL_ID"
  "js_prop (state_json s) ''installedVersion'' = or_null (us_installedVersion s)"
  "js_prop (js_prop (state_json s) ''check'') ''nextCheckAt'' = or_null (us_nextCheckAt s)"
  "js_prop (js_prop (state_json s) ''check'') ''consecutiveFailures'' = JNum (us_failures s)"
  "js_prop (state_json s) ''preferences'' = JArr (map preference_json (us_preferences s))"
  "js_prop (state_json s) ''candidate'' = (case us_candidate s of Some c \<Rightarrow> candidate_json c | None \<Rightarrow> JUndef)"
  "has_prop (state_json s) ''candidate'' = (us_candidate s \<noteq> None)"
  "plain_object (state_json s)" "plain_object (js_prop (state_json s) ''check'')"
  by (cases "us_candidate s"; simp add: state_json_def plain_object_def)+

lemma state_valid_fields:
  "state_valid date_parse installed s \<Longrightarrow> state_fields_ok date_parse (state_json s) (Some installed)"
  by (simp add: state_valid_def state_fields_ok_def safe_count_def list_all_iff preference_ok_def)

text \<open>A valid state of bounded size is read back as it was written.\<close>

lemma state_read_back:
  assumes "state_valid date_parse installed s" and "encodeRecoverableState s \<noteq> None"
  shows "normalizeState date_parse (state_json s) (Some installed) = Some s"
proof -
  have cand: "validateCachedCandidate date_parse (js_prop (state_json s) ''candidate'') = us_candidate s"
  proof (cases "us_candidate s")
    case None
    then show ?thesis by (simp add: validateCachedCandidate_def candidate_fields_ok_def plain_object_def)
  next
    case (Some c)
    then have "candidate_ok date_parse c" using assms(1) by (simp add: state_valid_def)
    with Some show ?thesis by (simp add: candidate_read_back)
  qed
  have prefs: "map preference_of (items_of (JArr (map preference_json (us_preferences s)))) = us_preferences s"
    by (simp add: items_of_def comp_def)
  have parsed: "\<not> (case parseSemver (JStr installed) of Inl _ \<Rightarrow> True | Inr _ \<Rightarrow> False)"
    and inst: "us_installedVersion s = Some installed"
    using assms(1) by (auto simp: state_valid_def split: sum.splits)
  have same: "(emptyUpdateState (Some installed))
      \<lparr>us_nextCheckAt := us_nextCheckAt s, us_failures := us_failures s, us_preferences := us_preferences s,
       us_candidate := us_candidate s\<rparr> = s"
    using inst by (simp add: emptyUpdateState_def)
  show ?thesis
    unfolding normalizeState_def Let_def cand first_some_simps
    using state_valid_fields [OF assms(1)] prefs parsed same assms(2)
    by (auto simp: number_of_def)
qed

text \<open>Conversely what is read is valid and can be recovered from.\<close>

lemma plain_objectE: "plain_object v \<Longrightarrow> (\<And>kvs. v = JObj kvs \<Longrightarrow> P) \<Longrightarrow> P"
  by (cases v) (simp_all add: plain_object_def)

lemma isStableCoreVersion_text: "isStableCoreVersion v \<Longrightarrow> v = JStr (text_of v)"
  by (cases v) (simp_all add: isStableCoreVersion_def parseSemver_def)

lemma known_severity_text: "known_severity v \<Longrightarrow> v = JStr (text_of v)"
  by (auto simp: known_severity_def)

lemma releaseNotes_text: "validateReleaseNotesUrl v w = Inr u \<Longrightarrow> v = JStr (text_of v)"
  by (auto simp: validateReleaseNotesUrl_def split: if_splits)

lemma parses_as_date_text: "parses_as_date date_parse v \<Longrightarrow> v = JStr (text_of v)"
  by (cases v) (simp_all add: parses_as_date_def)

lemma validateCachedCandidate_ok:
  assumes "validateCachedCandidate date_parse v = Some c"
  shows "candidate_ok date_parse c"
proof -
  from assms have ok: "candidate_fields_ok date_parse v"
    and c: "c = \<lparr>tg_version = text_of (js_prop v ''version''), tg_digest = js_prop v ''targetDigest'',
      tg_severity = text_of (js_prop v ''severity''), tg_releaseNotes = text_of (js_prop v ''releaseNotes''),
      cd_checkedAt = text_of (js_prop v ''checkedAt'')\<rparr>"
    by (auto simp: validateCachedCandidate_def split: if_splits)
  have texts: "JStr (text_of (js_prop v ''version'')) = js_prop v ''version''"
    "JStr (text_of (js_prop v ''severity'')) = js_prop v ''severity''"
    "JStr (text_of (js_prop v ''releaseNotes'')) = js_prop v ''releaseNotes''"
    "JStr (text_of (js_prop v ''checkedAt'')) = js_prop v ''checkedAt''"
    using ok isStableCoreVersion_text known_severity_text releaseNotes_text parses_as_date_text
    by (simp_all add: candidate_fields_ok_def split: sum.splits)
      (metis Inr_inject isStableCoreVersion_text known_severity_text releaseNotes_text parses_as_date_text)+
  show ?thesis using ok unfolding c candidate_ok_def candidate_fields_ok_def by (simp add: texts)
qed

lemma validPreference_ok:
  assumes "validPreference date_parse v"
  shows "preference_ok date_parse (preference_of v)"
proof -
  have version: "JStr (text_of (js_prop v ''version'')) = js_prop v ''version''"
    using assms isStableCoreVersion_text by (auto simp: validPreference_def)
  have mode: "JStr (text_of (js_prop v ''mode'')) = js_prop v ''mode''"
    using assms by (auto simp: validPreference_def)
  have until: "or_null (text_or_null (js_prop v ''until'')) = js_prop v ''until''"
    using assms
    by (cases "js_prop v ''until''")
      (auto simp: validPreference_def or_null_def text_or_null_def parses_as_date_def split: if_splits)
  show ?thesis
    using assms unfolding preference_ok_def validPreference_def
    by (simp add: preference_of_def version mode until del: text_or_null_or_null)
      (simp add: or_null_def text_or_null_def)
qed

lemma normalizeState_valid:
  assumes "normalizeState date_parse v (Some installed) = Some s"
  shows "state_valid date_parse installed s" and "encodeRecoverableState s \<noteq> None"
proof -
  from assms have fields: "state_fields_ok date_parse v (Some installed)"
    and parsed: "\<not> (case parseSemver (JStr installed) of Inl _ \<Rightarrow> True | Inr _ \<Rightarrow> False)"
    and s: "s = (emptyUpdateState (Some installed))
          \<lparr>us_nextCheckAt := text_or_null (js_prop (js_prop v ''check'') ''nextCheckAt''),
           us_failures := number_of (js_prop (js_prop v ''check'') ''consecutiveFailures''),
           us_preferences := map preference_of (items_of (js_prop v ''preferences'')),
           us_candidate := validateCachedCandidate date_parse (js_prop v ''candidate'')\<rparr>"
    and rec: "encodeRecoverableState s \<noteq> None"
    by (auto simp: normalizeState_def Let_def split: if_splits)
  show "encodeRecoverableState s \<noteq> None" by (rule rec)
  from fields obtain ps where ps: "js_prop v ''preferences'' = JArr ps" "length ps \<le> 32"
    "list_all (validPreference date_parse) ps"
    by (auto simp: state_fields_ok_def split: json.splits)
  from fields obtain n where n: "js_prop (js_prop v ''check'') ''consecutiveFailures'' = JNum n" "0 \<le> n" "n \<le> 2 ^ 53 - 1"
    by (auto simp: state_fields_ok_def safe_count_def split: json.splits)
  have cand: "case validateCachedCandidate date_parse w of Some c \<Rightarrow> candidate_ok date_parse c | None \<Rightarrow> True" for w
    by (simp add: validateCachedCandidate_ok split: option.split)
  show "state_valid date_parse installed s"
    unfolding state_valid_def s
    using parsed ps n cand validPreference_ok
    by (auto simp: emptyUpdateState_def number_of_def items_of_def list_all_iff split: sum.splits)
qed

subsection \<open>Changes keep states valid\<close>

text \<open>The three changes of the cache: a failed fetch, a fetched target, a preference.\<close>

datatype request =
    FetchFailed fetch_error
  | Fetched target "rat option"
  | Prefer string string int

definition mutation ::
  "(string \<Rightarrow> int option) \<Rightarrow> (int \<Rightarrow> string) \<Rightarrow> string \<Rightarrow> int \<Rightarrow> request \<Rightarrow> update_state \<Rightarrow> cache_decision result" where
  "mutation date_parse iso_of installed nowMs r s =
     (case r of
        FetchFailed e \<Rightarrow> failed_decision date_parse iso_of installed (is_withdrawn e) (failure_reason e) nowMs s
      | Fetched t random \<Rightarrow>
          res_bind (to_iso iso_of nowMs)
            (\<lambda>moment. success_decision date_parse iso_of installed (checked_at moment t) random nowMs s)
      | Prefer d mode days \<Rightarrow> preference_decision iso_of installed d (eventKeyForDigest (JStr d)) mode days nowMs s)"

definition target_ok :: "target \<Rightarrow> bool" where
  "target_ok t =
     (isStableCoreVersion (JStr (tg_version t)) \<and> digest_text (tg_digest t) \<and> known_severity (JStr (tg_severity t)) \<and>
      tg_releaseNotes t = release_notes_url (tg_version t))"

definition request_ok :: "request \<Rightarrow> bool" where
  "request_ok r =
     (case r of
        FetchFailed _ \<Rightarrow> True
      | Fetched t _ \<Rightarrow> target_ok t
      | Prefer d mode _ \<Rightarrow> digest_text (JStr d) \<and> mode \<in> {''snooze'', ''ignore''})"

lemma hex_text_string: "hex_text n (JStr (js_string v)) = hex_text n v"
  by (simp add: hex_text_def)

lemma validateManifest_ok:
  assumes "validateManifest real_instant v = Inr t"
  shows "target_ok t"
proof -
  from assms have ok: "stable_identity v" and url: "\<exists>u. validateReleaseNotesUrl (js_prop v ''releaseNotes'') (js_prop v ''version'') = Inr u"
    and sev: "known_severity (js_prop v ''severity'')"
    and t: "t = \<lparr>tg_version = text_of (js_prop v ''version''),
      tg_digest = JStr (''sha256:'' @ js_string (js_prop (js_prop v ''artifact'') ''sha256'')),
      tg_severity = text_of (js_prop v ''severity''), tg_releaseNotes = text_of (js_prop v ''releaseNotes'')\<rparr>"
    unfolding validateManifest_def validateStableUpdateManifest_def
    by (auto simp: res_bind_Inr manifest_of_props known_severity_def split: if_splits)
  have version: "isStableCoreVersion (js_prop v ''version'')" "hex_text 64 (js_prop (js_prop v ''artifact'') ''sha256'')"
    using ok by (simp_all add: stable_identity_def)
  then have vt: "js_prop v ''version'' = JStr (text_of (js_prop v ''version''))" by (intro isStableCoreVersion_text)
  have "digest_text (JStr (''sha256:'' @ js_string (js_prop (js_prop v ''artifact'') ''sha256'')))"
    using version(2) by (simp add: digest_text_def hex_text_string)
  moreover have "text_of (js_prop v ''releaseNotes'') = release_notes_url (text_of (js_prop v ''version''))"
    using url vt by (auto simp: validateReleaseNotesUrl_def split: if_splits) (metis js_string.simps(5) text_of_JStr)
  ultimately show ?thesis
    unfolding t target_ok_def using version(1) vt sev known_severity_text [OF sev] by simp
qed

definition dates_parse :: "(string \<Rightarrow> int option) \<Rightarrow> (int \<Rightarrow> string) \<Rightarrow> bool" where
  "dates_parse date_parse iso_of = (\<forall>t. \<bar>t\<bar> \<le> 8640000000000000 \<longrightarrow> date_parse (iso_of t) = Some t)"

lemma to_iso_Inr: "to_iso iso_of t = Inr m \<longleftrightarrow> \<bar>t\<bar> \<le> 8640000000000000 \<and> m = iso_of t"
  by (auto simp: to_iso_def)

lemma failure_check_valid:
  assumes "state_valid date_parse installed s" and "stateAfterFailedCheck iso_of s nowMs w = Inr f"
  shows "state_valid date_parse installed f"
proof -
  from assms(2) obtain m where
    f: "f = stateWithFailureCheck s m (min (us_failures s + 1) 2) w"
    by (auto simp: stateAfterFailedCheck_def Let_def res_bind_Inr)
  have "0 \<le> min (us_failures s + 1) 2 \<and> min (us_failures s + 1) 2 \<le> 2 ^ 53 - 1"
    using assms(1) by (auto simp: state_valid_def)
  then show ?thesis using assms(1) unfolding f by (simp add: state_valid_def stateWithFailureCheck_def)
qed

lemma checked_candidate_ok:
  "target_ok t \<Longrightarrow> date_parse m \<noteq> None \<Longrightarrow> candidate_ok date_parse (checked_at m t)"
  by (simp add: candidate_ok_def candidate_fields_ok_def checked_at_def target_ok_def validateReleaseNotesUrl_def
      parses_as_date_def)

lemma new_candidate_valid:
  "state_valid date_parse installed s \<Longrightarrow> candidate_ok date_parse c \<Longrightarrow>
    state_valid date_parse installed (s\<lparr>us_candidate := Some c, us_nextCheckAt := n, us_failures := 0\<rparr>)"
  by (simp add: state_valid_def)

lemma find_append_last: "\<forall>x \<in> set xs. \<not> P x \<Longrightarrow> find P (xs @ [y]) = (if P y then Some y else None)"
  by (induction xs) auto

lemma set_last_items: "set (last_items n xs) \<subseteq> set xs"
  by (simp add: last_items_def set_drop_subset)

lemma length_last_items: "length (last_items n xs) \<le> n"
  by (simp add: last_items_def)

lemma preference_valid:
  assumes "state_valid date_parse installed s" and "preference_ok date_parse p"
  shows "state_valid date_parse installed (with_preference p s)"
proof -
  let ?kept = "last_items 30 (filter (\<lambda>e. \<not> strictly_equal (pf_targetDigest e) (pf_targetDigest p)) (us_preferences s))"
  have "set ?kept \<subseteq> set (us_preferences s)" using set_last_items by fastforce
  then have "list_all (preference_ok date_parse) (?kept @ [p])"
    using assms by (auto simp: state_valid_def list_all_iff)
  moreover have "length (?kept @ [p]) \<le> 32" using le_trans [OF length_last_items [of 30], of 31] by simp
  ultimately show ?thesis using assms(1) by (simp add: state_valid_def with_preference_def)
qed

lemma chosen_candidate_Some:
  "chosen_candidate d installed s = Inr (Some c) \<Longrightarrow> us_candidate s = Some c \<and> tg_digest c = JStr d"
  by (auto simp: chosen_candidate_def res_bind_Inr split: option.splits if_splits)

lemma new_preference_ok:
  assumes "candidate_ok date_parse c" and "digest_text (JStr d)"
    and "mode = ''snooze'' \<and> (\<exists>m. until = Some m \<and> date_parse m \<noteq> None) \<or> mode = ''ignore'' \<and> until = None"
  shows "preference_ok date_parse \<lparr>pf_targetDigest = JStr d, pf_version = tg_version c, pf_mode = mode, pf_until = until\<rparr>"
  using assms
  by (auto simp: preference_ok_def validPreference_def candidate_ok_def candidate_fields_ok_def parses_as_date_def or_null_def)

lemma preference_decision_state:
  assumes "preference_decision iso_of installed d key mode days nowMs s = Inr dn" and "dn_state dn = Some s'"
  obtains c until where "chosen_candidate d installed s = Inr (Some c)"
    and "s' = with_preference \<lparr>pf_targetDigest = JStr d, pf_version = tg_version c, pf_mode = mode, pf_until = until\<rparr> s"
    and "if mode = ''snooze'' then \<exists>m. until = Some m \<and> to_iso iso_of (nowMs + days * 24 * 60 * 60 * 1000) = Inr m
         else until = None"
  using assms
  by (auto simp: preference_decision_def res_bind_Inr split: option.splits if_splits)

lemma mutation_valid:
  assumes valid: "state_valid date_parse installed s" and "request_ok r" and dates: "dates_parse date_parse iso_of"
    and d: "mutation date_parse iso_of installed nowMs r s = Inr d"
  shows "dn_state d = Some s' \<Longrightarrow> state_valid date_parse installed s'"
    and "dn_fallback d = Some (f, o') \<Longrightarrow> state_valid date_parse installed f"
proof -
  have parse: "to_iso iso_of t = Inr m \<Longrightarrow> date_parse m \<noteq> None" for t m
    using dates by (simp add: dates_parse_def to_iso_Inr)
  have "(dn_state d = Some s' \<longrightarrow> state_valid date_parse installed s') \<and>
      (dn_fallback d = Some (f, o') \<longrightarrow> state_valid date_parse installed f)"
  proof (cases r)
    case (FetchFailed e)
    then show ?thesis
      using d failure_check_valid [OF valid] by (auto simp: mutation_def failed_decision_def res_bind_Inr)
  next
    case (Fetched t random)
    then have "target_ok t" using \<open>request_ok r\<close> by (simp add: request_ok_def)
    then have "to_iso iso_of nowMs = Inr m \<Longrightarrow> candidate_ok date_parse (checked_at m t)" for m
      using checked_candidate_ok parse by blast
    then show ?thesis
      using d Fetched failure_check_valid [OF valid] new_candidate_valid [OF valid]
      by (auto simp: mutation_def success_decision_def res_bind_Inr Let_def)
  next
    case (Prefer g mode days)
    have "dn_state d = Some s' \<Longrightarrow> state_valid date_parse installed s'"
    proof -
      assume "dn_state d = Some s'"
      with d Prefer obtain c until where c: "chosen_candidate g installed s = Inr (Some c)"
        and s': "s' = with_preference \<lparr>pf_targetDigest = JStr g, pf_version = tg_version c, pf_mode = mode, pf_until = until\<rparr> s"
        and u: "if mode = ''snooze'' then \<exists>m. until = Some m \<and> to_iso iso_of (nowMs + days * 24 * 60 * 60 * 1000) = Inr m
         else until = None"
        by (auto simp: mutation_def elim: preference_decision_state)
      have "candidate_ok date_parse c" using chosen_candidate_Some [OF c] valid by (simp add: state_valid_def)
      then show ?thesis
        unfolding s' using u parse \<open>request_ok r\<close> Prefer
        by (intro preference_valid [OF valid] new_preference_ok) (auto simp: request_ok_def split: if_splits)
    qed
    moreover have "dn_fallback d = None"
      using d Prefer
      by (auto simp: mutation_def preference_decision_def res_bind_Inr split: option.splits)
    ultimately show ?thesis by simp
  qed
  then show "dn_state d = Some s' \<Longrightarrow> state_valid date_parse installed s'"
    and "dn_fallback d = Some (f, o') \<Longrightarrow> state_valid date_parse installed f" by blast+
qed

text \<open>Whatever a check or a preference commits is read back by the next reader exactly as it was.\<close>

theorem committed_reads_back:
  assumes "state_valid date_parse installed s" and "request_ok r" and "dates_parse date_parse iso_of"
    and "mutation date_parse iso_of installed nowMs r s = Inr d" and "settle d = (Some s', answer)"
  shows "normalizeState date_parse (state_json s') (Some installed) = Some s'"
proof -
  from assms(5) have rec: "encodeRecoverableState s' \<noteq> None" and
    src: "dn_state d = Some s' \<or> dn_fallback d = Some (s', answer)"
    by (auto simp: settle_def split: option.splits prod.splits if_splits)
  from src mutation_valid [OF assms(1-4)] have "state_valid date_parse installed s'" by blast
  from state_read_back [OF this rec] show ?thesis .
qed

text \<open>Times written as numbers, for concrete instances.\<close>

definition numeral_date :: "string \<Rightarrow> int option" where
  "numeral_date s =
     (case s of [] \<Rightarrow> None
      | c # t \<Rightarrow> Some (if c = CHR ''-'' then - int (read_nat t) else int (read_nat s)))"

lemma numeral_dates: "dates_parse numeral_date show_int"
proof -
  have "numeral_date (show_nat n) = Some (int n)" for n
  proof (cases "show_nat n")
    case (Cons c t)
    then have "c \<noteq> CHR ''-''" using show_nat_digits [of c n] by auto
    with Cons show ?thesis by (simp add: numeral_date_def) (metis Cons read_show_nat)
  qed simp
  then have "numeral_date (show_int t) = Some t" for t
    by (simp add: show_int_def) (simp add: numeral_date_def)
  then show ?thesis by (simp add: dates_parse_def)
qed

definition example_state :: update_state where
  "example_state = emptyUpdateState (Some ''2.0.0'')"

definition example_target :: target where
  "example_target =
     \<lparr>tg_version = ''2.1.0'', tg_digest = JStr (''sha256:'' @ replicate 64 CHR ''a''), tg_severity = ''normal'',
      tg_releaseNotes = release_notes_url ''2.1.0''\<rparr>"

lemma example_valid: "state_valid numeral_date ''2.0.0'' example_state"
  by code_simp

lemma example_target_ok: "target_ok example_target"
  by code_simp

definition example_failed :: update_state where
  "example_failed = example_state\<lparr>us_nextCheckAt := Some ''21600000'', us_failures := 1\<rparr>"

lemma show_six_hours: "show_int 21600000 = ''21600000''"
  by (simp add: show_int_def show_nat.simps digit_char_def) code_simp

lemma example_failure:
  "mutation numeral_date show_int ''2.0.0'' 0 (FetchFailed (OtherError [])) example_state =
     Inr \<lparr>dn_state = Some example_failed, dn_result = Silent ''check-failed'', dn_fallback = None\<rparr>"
  by (simp add: mutation_def failed_decision_def stateAfterFailedCheck_def nextFailedCheck_def to_iso_def
      FIRST_FAILURE_DELAY_MS_def show_six_hours stateWithFailureCheck_def example_state_def example_failed_def
      emptyUpdateState_def failedResult_def is_withdrawn_def failure_reason_def)

lemma example_recoverable: "encodeRecoverableState example_failed \<noteq> None"
  by code_simp

lemma committed_reads_back_witness:
  "normalizeState numeral_date (state_json example_failed) (Some ''2.0.0'') = Some example_failed"
proof -
  have "request_ok (FetchFailed (OtherError []))" by (simp add: request_ok_def)
  moreover have "settle \<lparr>dn_state = Some example_failed, dn_result = Silent ''check-failed'', dn_fallback = None\<rparr> =
      (Some example_failed, Silent ''check-failed'')"
    using example_recoverable by (auto simp: settle_def)
  ultimately show ?thesis using committed_reads_back [OF example_valid _ numeral_dates example_failure] by blast
qed

subsection \<open>Notices\<close>

text \<open>A preference decides the notices for its target: ignored for ever, snoozed for the given days.\<close>

theorem preference_silences:
  assumes "preference_decision iso_of installed d key mode days nowMs s = Inr dn" and "dn_state dn = Some s'"
    and "mode \<in> {''snooze'', ''ignore''}" and "dates_parse date_parse iso_of"
  shows "\<exists>n. resultForCandidate date_parse installed s' source later = Inr (UpdateAvailable n) \<and>
    nt_targetDigest n = JStr d \<and>
    (nt_required n \<longleftrightarrow> mode = ''snooze'' \<and> nowMs + days * 24 * 60 * 60 * 1000 \<le> later)"
proof -
  from assms(1,2) obtain c until where c: "chosen_candidate d installed s = Inr (Some c)"
    and s': "s' = with_preference \<lparr>pf_targetDigest = JStr d, pf_version = tg_version c, pf_mode = mode, pf_until = until\<rparr> s"
    and u: "if mode = ''snooze'' then \<exists>m. until = Some m \<and> to_iso iso_of (nowMs + days * 24 * 60 * 60 * 1000) = Inr m
         else until = None"
    by (rule preference_decision_state)
  let ?p = "\<lparr>pf_targetDigest = JStr d, pf_version = tg_version c, pf_mode = mode, pf_until = until\<rparr>"
  from c have cand: "us_candidate s = Some c" "tg_digest c = JStr d" by (simp_all add: chosen_candidate_Some)
  obtain order where order: "compareSemver (tg_version c) installed = Inr order" "0 < order"
    using c by (auto simp: chosen_candidate_def res_bind_Inr split: option.splits if_splits)
  let ?kept = "last_items 30 (filter (\<lambda>e. \<not> strictly_equal (pf_targetDigest e) (JStr d)) (us_preferences s))"
  let ?match = "\<lambda>p. strictly_equal (pf_targetDigest p) (tg_digest c) \<and> pf_version p = tg_version c"
  have "\<forall>p \<in> set ?kept. \<not> ?match p" using set_last_items cand(2) by fastforce
  then have "find ?match (?kept @ [?p]) = Some ?p"
    using cand(2) by (simp add: find_append_last strictly_equal_def)
  then have pref: "preference_for s' c = Some ?p" by (simp add: preference_for_def s' with_preference_def)
  have "us_candidate s' = Some c" by (simp add: s' with_preference_def cand(1))
  then have "resultForCandidate date_parse installed s' source later =
      Inr (UpdateAvailable (suppressed date_parse later (Some ?p) (notification installed c source)))"
    using order by (simp add: resultForCandidate_def pref)
  moreover have "mode = ''snooze'' \<Longrightarrow> date_parse (or_else until ''null'') = Some (nowMs + days * 24 * 60 * 60 * 1000)"
    using u assms(4) by (auto simp: dates_parse_def to_iso_Inr)
  then have "nt_required (suppressed date_parse later (Some ?p) (notification installed c source)) \<longleftrightarrow>
      mode = ''snooze'' \<and> nowMs + days * 24 * 60 * 60 * 1000 \<le> later"
    using assms(3) by (auto simp: suppressed_def notification_def)
  moreover have "nt_targetDigest (suppressed date_parse later (Some ?p) (notification installed c source)) = JStr d"
    by (simp add: suppressed_def notification_def cand(2) split: option.split)
  ultimately show ?thesis by blast
qed

definition example_known :: update_state where
  "example_known = example_state\<lparr>us_candidate := Some (checked_at ''0'' example_target)\<rparr>"

lemma preference_silences_witness:
  "\<exists>s' n. resultForCandidate numeral_date ''2.0.0'' s' ''cache'' 5 = Inr (UpdateAvailable n) \<and> \<not> nt_required n"
proof -
  let ?d = "''sha256:'' @ replicate 64 CHR ''a''"
  have order: "compareSemver ''2.1.0'' ''2.0.0'' = Inr 1" by code_simp
  have c: "us_candidate example_known = Some (checked_at ''0'' example_target)"
    "tg_digest (checked_at ''0'' example_target) = JStr ?d" "tg_version (checked_at ''0'' example_target) = ''2.1.0''"
    by (simp_all add: example_known_def checked_at_def example_target_def)
  then have chosen: "chosen_candidate ?d ''2.0.0'' example_known = Inr (Some (checked_at ''0'' example_target))"
    by (simp add: chosen_candidate_def order)
  then obtain dn s' where dn: "preference_decision show_int ''2.0.0'' ?d [] ''snooze'' 7 0 example_known = Inr dn"
    "dn_state dn = Some s'"
    by (simp add: preference_decision_def to_iso_def)
  from preference_silences [OF dn _ numeral_dates, of "''cache''" 5] show ?thesis by auto
qed

text \<open>The versions of a notice: the one announced comes after the installed one.\<close>

definition announces_newer :: "outcome \<Rightarrow> bool" where
  "announces_newer r =
     (case r of
        UpdateAvailable n \<Rightarrow>
          (case (parseSemver (JStr (nt_installedVersion n)), parseSemver (JStr (nt_latestVersion n))) of
             (Inr a, Inr b) \<Rightarrow> precedes a b
           | _ \<Rightarrow> False)
      | _ \<Rightarrow> True)"

definition newer_result :: "outcome result \<Rightarrow> bool" where
  "newer_result r = (case r of Inr x \<Rightarrow> announces_newer x | Inl _ \<Rightarrow> True)"

lemma newer_simps [simp]:
  "newer_result (Inl e)" "newer_result (Inr x) = announces_newer x" "announces_newer (Silent m)"
  "announces_newer (UpToDate a b c d)" "announces_newer (Preferred a b u)"
  by (simp_all add: newer_result_def announces_newer_def)

lemma newer_bind: "(\<And>x. r = Inr x \<Longrightarrow> newer_result (f x)) \<Longrightarrow> newer_result (res_bind r f)"
  by (cases r) simp_all

lemma newer_caught: "newer_result r \<Longrightarrow> newer_result h \<Longrightarrow> newer_result (caught r h)"
  by (cases r) (simp_all add: caught_def)

lemma suppressed_versions [simp]:
  "nt_installedVersion (suppressed date_parse nowMs p n) = nt_installedVersion n"
  "nt_latestVersion (suppressed date_parse nowMs p n) = nt_latestVersion n"
  by (simp_all add: suppressed_def split: option.split)

lemma newer_candidate: "newer_result (resultForCandidate date_parse installed s source nowMs)"
proof (cases "us_candidate s")
  case (Some c)
  have "announces_newer (UpdateAvailable (suppressed date_parse nowMs p (notification installed c source)))"
    if "compareSemver (tg_version c) installed = Inr n" "\<not> n \<le> 0" for n p
  proof -
    from that(1) obtain a b where p: "parseSemver (JStr (tg_version c)) = Inr a" "parseSemver (JStr installed) = Inr b"
      by (auto simp: compareSemver_def res_bind_Inr)
    then have "precedes b a" using compareSemver_precedes [OF p] that by auto
    with p show ?thesis by (simp add: announces_newer_def notification_def)
  qed
  then show ?thesis by (auto simp: resultForCandidate_def Some intro!: newer_bind)
qed (simp add: resultForCandidate_def)

lemma newer_known: "newer_result (known_or_busy date_parse installed nowMs s)"
  by (simp add: known_or_busy_def newer_candidate)

lemma newer_losing: "newer_result (resultAfterLosingOperation date_parse installed nowMs env)"
  by (auto simp: resultAfterLosingOperation_def intro!: newer_bind newer_known)

definition newer_decision :: "cache_decision result \<Rightarrow> bool" where
  "newer_decision r =
     (case r of
        Inl _ \<Rightarrow> True
      | Inr d \<Rightarrow> announces_newer (dn_result d) \<and>
          (case dn_fallback d of Some (_, x) \<Rightarrow> announces_newer x | None \<Rightarrow> True))"

lemma newer_settle: "newer_decision (Inr d) \<Longrightarrow> settle d = (x, r) \<Longrightarrow> announces_newer r"
  by (auto simp: newer_decision_def settle_def split: option.splits prod.splits if_splits)

lemma newer_commit:
  assumes "\<And>s. newer_decision (mutate s)"
  shows "newer_result (or_lost date_parse installed nowMs env (commitOperation e mutate))"
proof (cases e)
  case (CommitReads s w)
  show ?thesis
  proof (cases "mutate s")
    case (Inr d)
    obtain x r where st: "settle d = (x, r)" by (cases "settle d")
    have "announces_newer r" using newer_settle [OF _ st] assms [of s] Inr by simp
    then show ?thesis
      using CommitReads Inr st newer_losing
      by (cases x; cases w) (simp_all add: commitOperation_def or_lost_def)
  qed (simp add: CommitReads commitOperation_def or_lost_def)
qed (simp_all add: commitOperation_def or_lost_def newer_losing)

lemma newer_failed_result: "newer_result (failedResult date_parse installed w reason nowMs s)"
  by (simp add: failedResult_def newer_candidate)

lemma newer_answer: "resultForCandidate date_parse installed s source nowMs = Inr r \<Longrightarrow> announces_newer r"
  by (metis newer_candidate newer_simps(2))

lemma newer_failed_decision: "newer_decision (failed_decision date_parse iso_of installed w reason nowMs s)"
proof -
  have "failedResult date_parse installed w reason nowMs s = Inr r \<Longrightarrow> announces_newer r" for r
    by (metis newer_failed_result newer_simps(2))
  then show ?thesis
    by (auto simp: newer_decision_def failed_decision_def res_bind_Inr split: sum.split)
qed

lemma newer_success_decision: "newer_decision (success_decision date_parse iso_of installed c random nowMs s)"
  using newer_answer
  by (auto simp: newer_decision_def success_decision_def Let_def res_bind_Inr split: sum.split)

lemma newer_after_fetch:
  "newer_result (after_failed_fetch date_parse iso_of installed nowMs env s e)"
  "newer_result (after_fetch date_parse iso_of installed nowMs env s t)"
  unfolding after_failed_fetch_def after_fetch_def Let_def
  by (intro newer_bind newer_caught newer_commit newer_failed_decision newer_success_decision newer_failed_result
      newer_candidate)+

lemma newer_owned: "newer_result (owned_check date_parse iso_of installed nowMs env s fetched)"
  by (auto simp: owned_check_def newer_losing newer_after_fetch split: sum.split intro!: newer_bind)

lemma fresh_newer: "freshStateResult date_parse installed s nowMs = Inr (Some r) \<Longrightarrow> announces_newer r"
  using newer_answer
  by (auto simp: freshStateResult_def res_bind_Inr split: option.splits if_splits)

lemma newer_with_operation: "newer_result (with_operation date_parse iso_of installed nowMs env fetched)"
  using fresh_newer
  by (auto simp: with_operation_def newer_owned split: option.split intro!: newer_bind)

lemma newer_after_cache: "newer_result (after_cache date_parse iso_of installed nowMs env fetched)"
  by (auto simp: after_cache_def newer_with_operation newer_known split: sum.split intro!: newer_bind newer_caught)


lemma max_horizon: "MAX_CACHE_HORIZON_MS = 103680000"
  by (simp add: MAX_CACHE_HORIZON_MS_def CHECK_TTL_MS_def)

definition example_release :: json where
  "example_release =
     JObj [(''schemaVersion'', JNum 1), (''skillId'', JStr SKILL_ID), (''channel'', JStr ''stable''),
           (''version'', JStr ''2.0.0''), (''source'', JObj [(''repository'', JStr EXPECTED_REPOSITORY)]),
           (''updateManifestUrl'', JStr DEFAULT_MANIFEST_URL)]"

definition example_env :: check_env where
  "example_env =
     \<lparr>ce_disabled = False, ce_fetchable = True, ce_release = Inr example_release, ce_now = Some 5,
      ce_cached = Inr (example_known\<lparr>us_nextCheckAt := Some ''9''\<rparr>), ce_acquired = Inl [], ce_again = Inl [],
      ce_cancelled = Inl [], ce_owns = Inl [], ce_verified = Inl [], ce_still_owns = Inl [], ce_fetch = TimedOut,
      ce_random = None, ce_commit = CommitFenced, ce_lost = Inl []\<rparr>"


text \<open>It always answers: only the first look at the cache is outside a handler, and it cannot throw.\<close>

lemma candidate_answers:
  assumes "state_valid date_parse installed s"
  shows "\<exists>r. resultForCandidate date_parse installed s source nowMs = Inr r"
proof (cases "us_candidate s")
  case (Some c)
  then have "isStableCoreVersion (JStr (tg_version c))"
    using assms by (simp add: state_valid_def candidate_ok_def candidate_fields_ok_def)
  then obtain a where "parseSemver (JStr (tg_version c)) = Inr a"
    by (auto simp: isStableCoreVersion_def split: sum.splits)
  moreover obtain b where "parseSemver (JStr installed) = Inr b"
    using assms by (auto simp: state_valid_def split: sum.splits)
  ultimately show ?thesis by (simp add: resultForCandidate_def Some compareSemver_def)
qed (simp add: resultForCandidate_def)

lemma fresh_answers:
  assumes "state_valid date_parse installed s"
  shows "\<exists>r. freshStateResult date_parse installed s nowMs = Inr r"
  using candidate_answers [OF assms, of "''cache''" nowMs]
  by (auto simp: freshStateResult_def split: option.split)

lemma after_cache_answers: "\<exists>r. after_cache date_parse iso_of installed nowMs env fetched = Inr r"
  by (auto simp: after_cache_def caught_def split: sum.split)

lemma check_answers:
  assumes "\<And>r s. ce_release env = Inr r \<Longrightarrow> ce_cached env = Inr s \<Longrightarrow>
      state_valid date_parse (text_of (js_prop r ''version'')) s"
  shows "\<exists>r. checkForUpdate date_parse iso_of real_instant decode json_parse env = Inr r"
proof (cases "res_bind (ce_release env) validateLocalRelease")
  case (Inr release)
  then obtain r where r: "ce_release env = Inr r" "text_of (js_prop release ''version'') = text_of (js_prop r ''version'')"
    by (auto simp: res_bind_Inr validateLocalRelease_def split: if_splits)
  show ?thesis
  proof (cases "ce_cached env")
    case cached: (Inr s)
    from assms [OF r(1) this] obtain f where
      "freshStateResult date_parse (text_of (js_prop release ''version'')) s (the (ce_now env)) = Inr f"
      unfolding r(2) using fresh_answers by blast
    then show ?thesis
      using after_cache_answers
      by (auto simp: checkForUpdate_def Let_def Inr cached split: option.split)
  qed (auto simp: checkForUpdate_def Let_def Inr split: option.split)
qed (auto simp: checkForUpdate_def)

subsection \<open>When the next check is due\<close>

lemma success_delay_bounds:
  "4 * CHECK_TTL_MS div 5 \<le> success_delay random" "success_delay random \<le> MAX_CACHE_HORIZON_MS"
proof -
  let ?b = "min 1 (max 0 (or_else random 0)) :: rat"
  have b: "0 \<le> ?b" "?b \<le> 1" by simp_all
  have d: "success_delay random = floor (86400000 * (4 / 5 + ?b * (2 / 5)) + 1 / 2)"
    by (simp add: success_delay_def js_round_def CHECK_TTL_MS_def Let_def)
  have "(69120000 :: rat) \<le> 86400000 * (4 / 5 + ?b * (2 / 5)) + 1 / 2"
    and "86400000 * (4 / 5 + ?b * (2 / 5)) + 1 / 2 < (103680001 :: rat)"
    using b by (simp_all add: field_simps)
  then have "(69120000 :: int) \<le> success_delay random" and "success_delay random < 103680001"
    unfolding d by (simp_all only: le_floor_iff floor_less_iff of_int_numeral)
  then show "4 * CHECK_TTL_MS div 5 \<le> success_delay random" "success_delay random \<le> MAX_CACHE_HORIZON_MS"
    by (simp_all add: CHECK_TTL_MS_def max_horizon)
qed

text \<open>After a successful check the cache answers for at least four fifths of a day.\<close>

lemma success_stays_fresh:
  assumes "state_valid date_parse installed s" and "dates_parse date_parse iso_of"
    and "nextSuccessfulCheck iso_of nowMs random = Inr m" and "us_nextCheckAt s = Some m"
    and "nowMs \<le> t" and "t < nowMs + 4 * CHECK_TTL_MS div 5"
  shows "\<exists>r. freshStateResult date_parse installed s t = Inr (Some r)"
proof -
  have "date_parse m = Some (nowMs + success_delay random)"
    using assms(2,3) by (auto simp: nextSuccessfulCheck_def to_iso_Inr dates_parse_def)
  moreover have "t < nowMs + success_delay random" "nowMs + success_delay random \<le> t + MAX_CACHE_HORIZON_MS"
    using success_delay_bounds [of random] assms(5,6) by linarith+
  ultimately show ?thesis
    using candidate_answers [OF assms(1), of "''cache''" t] assms(4) by (auto simp: freshStateResult_def)
qed

end
