(* ===== verification/UpdateLock.thy ===== *)
theory UpdateLock
imports UpdateState
begin

text \<open>
  How processes that share the update cache take turns
  (\<^verbatim>\<open>.agents/skills/archify/scripts/check-update.mjs\<close>): generations reserved by directories, the active
  claim with its lease, the fencing of older operations and the commit by renaming. Each step below is
  one call on the file system; steps of different processes interleave in any order. What a lease
  decides, tokens and failures come with the event. A directory of an operation is its kind and
  generation, which is what its name says.
\<close>

section \<open>Names of operations\<close>

datatype op_kind = Reserved | Pending | Committed | Fenced | Cancelled

definition op_kind_name :: "op_kind \<Rightarrow> string" where
  "op_kind_name k =
     (case k of Reserved \<Rightarrow> ''reserved'' | Pending \<Rightarrow> ''pending'' | Committed \<Rightarrow> ''committed''
      | Fenced \<Rightarrow> ''fenced'' | Cancelled \<Rightarrow> ''cancelled'')"

definition MAX_OPERATION_GENERATION :: int where
  "MAX_OPERATION_GENERATION = 10 ^ 20 - 1"

definition operationName :: "op_kind \<Rightarrow> nat \<Rightarrow> string" where
  "operationName k g = op_kind_name k @ ''-'' @ pad_start 20 CHR ''0'' (show_nat g)"

definition match_operation :: "op_kind \<Rightarrow> string \<Rightarrow> (op_kind \<times> nat) option" where
  "match_operation k s =
     (let p = op_kind_name k @ ''-''; digits = drop (length p) s in
      if starts_with s p \<and> numeric_text digits \<and> length digits \<le> 20 then Some (k, read_nat digits) else None)"

definition parseOperationName :: "string \<Rightarrow> (op_kind \<times> nat) option" where
  "parseOperationName s =
     foldr first_some (map (\<lambda>k. match_operation k s) [Reserved, Pending, Committed, Fenced, Cancelled]) None"

section \<open>The cache and its processes\<close>

record operation =
  op_generation :: nat
  op_token :: nat

text \<open>Where a process is in \<^verbatim>\<open>acquireOperation\<close> and \<^verbatim>\<open>commitOperation\<close>: the call it makes next.\<close>

datatype ('j, 's) proc =
    Idle
  | Starting 'j
  | Probing 'j
  | Reserving 'j
  | Choosing "nat list" nat 'j
  | Entering "nat list" nat 'j
  | Signing operation 'j
  | Acquiring operation 'j
  | Promoting operation nat 'j
  | Inspecting operation nat 'j
  | Retiring operation nat operation 'j
  | Claiming operation nat 'j
  | Confirming operation 'j
  | Holding operation 'j
  | Listing operation 'j
  | Fencing operation "nat list" 'j
  | Reading operation 'j
  | Writing operation 'j 's 's
  | Renaming operation 'j 's 's
  | Cancelling operation
  | Finished

record ('j, 's) commit_entry =
  en_generation :: nat
  en_job :: 'j
  en_base :: 's
  en_state :: 's

text \<open>\<open>w_states\<close> is the file \<^verbatim>\<open>state.json\<close> of a generation's directory; \<open>w_log\<close> records the commits.\<close>

record ('j, 's) world =
  w_dirs :: "(op_kind \<times> nat) set"
  w_states :: "nat \<Rightarrow> 's option"
  w_claim :: "operation option"
  w_proc :: "nat \<Rightarrow> ('j, 's) proc"
  w_log :: "('j, 's) commit_entry list"

definition world_init :: "('j, 's) world" where
  "world_init = \<lparr>w_dirs = {}, w_states = (\<lambda>_. None), w_claim = None, w_proc = (\<lambda>_. Idle), w_log = []\<rparr>"

datatype claim_view = Absent | Busy "operation option" | Releasable "operation option"

text \<open>\<open>alive\<close> says whether the lease of the entry that decides is running and its process not gone.\<close>

definition inspectActiveClaim :: "bool \<Rightarrow> ('j, 's) world \<Rightarrow> claim_view" where
  "inspectActiveClaim alive w =
     (case w_claim w of
        None \<Rightarrow> Absent
      | Some c \<Rightarrow>
          let g = op_generation c in
          if (Committed, g) \<in> w_dirs w \<or> (Fenced, g) \<in> w_dirs w \<or> (Cancelled, g) \<in> w_dirs w
          then Releasable (Some c)
          else if (Pending, g) \<in> w_dirs w then (if alive then Busy (Some c) else Releasable (Some c))
          else (if alive then Busy None else Releasable None))"

definition operationOwnsActiveClaim :: "bool \<Rightarrow> operation \<Rightarrow> ('j, 's) world \<Rightarrow> bool" where
  "operationOwnsActiveClaim alive op w = (inspectActiveClaim alive w = Busy (Some op))"

definition operationIsSuperseded :: "operation \<Rightarrow> ('j, 's) world \<Rightarrow> bool" where
  "operationIsSuperseded op w = (\<exists>d \<in> w_dirs w. op_generation op < snd d)"

definition hasActivePendingOperation :: "bool \<Rightarrow> ('j, 's) world \<Rightarrow> bool" where
  "hasActivePendingOperation alive w = (alive \<and> (\<exists>d \<in> w_dirs w. fst d = Pending))"

definition operationIsActive :: "bool \<Rightarrow> operation \<Rightarrow> ('j, 's) world \<Rightarrow> bool" where
  "operationIsActive alive op w = (alive \<and> (Pending, op_generation op) \<in> w_dirs w)"

definition generations :: "op_kind \<Rightarrow> ('j, 's) world \<Rightarrow> nat set" where
  "generations k w = snd ` Set.filter (\<lambda>d. fst d = k) (w_dirs w)"

fun first_state :: "('s \<Rightarrow> 's option) \<Rightarrow> 's \<Rightarrow> (nat \<Rightarrow> 's option) \<Rightarrow> nat list \<Rightarrow> 's" where
  "first_state reread initial states [] = initial"
| "first_state reread initial states (g # gs) =
     (case Option.bind (states g) reread of Some s \<Rightarrow> s | None \<Rightarrow> first_state reread initial states gs)"

definition readState :: "('s \<Rightarrow> 's option) \<Rightarrow> 's \<Rightarrow> ('j, 's) world \<Rightarrow> 's" where
  "readState reread initial w =
     first_state reread initial (w_states w) (rev (sorted_list_of_set (generations Committed w)))"

function next_free :: "nat list \<Rightarrow> nat \<Rightarrow> nat" where
  "next_free occupied g = (if g \<in> set occupied then next_free occupied (g + 1) else g)"
  by pat_completeness auto
termination
proof (relation "measure (\<lambda>(occupied, g). card {x \<in> set occupied. g \<le> x})")
  fix occupied :: "nat list" and g :: nat
  assume "g \<in> set occupied"
  then have "g \<in> {x \<in> set occupied. g \<le> x}" "g \<notin> {x \<in> set occupied. g + 1 \<le> x}"
    and "{x \<in> set occupied. g + 1 \<le> x} \<subseteq> {x \<in> set occupied. g \<le> x}" by simp_all (simp add: Collect_mono)
  then have "{x \<in> set occupied. g + 1 \<le> x} \<subset> {x \<in> set occupied. g \<le> x}" by blast
  then have "card {x \<in> set occupied. g + 1 \<le> x} < card {x \<in> set occupied. g \<le> x}"
    by (intro psubset_card_mono) auto
  then show "((occupied, g + 1), occupied, g) \<in> measure (\<lambda>(occupied, g). card {x \<in> set occupied. g \<le> x})"
    by (simp only: in_measure prod.case)
qed (rule wf_measure)

declare next_free.simps [simp del]

text \<open>Renaming a directory fails with \<^verbatim>\<open>ENOENT\<close>, without an effect, when it is gone.\<close>

definition rename_pending :: "op_kind \<Rightarrow> nat \<Rightarrow> ('j, 's) world \<Rightarrow> ('j, 's) world" where
  "rename_pending k g w =
     (if (Pending, g) \<in> w_dirs w then w\<lparr>w_dirs := insert (k, g) (w_dirs w - {(Pending, g)})\<rparr> else w)"

definition make_dir :: "op_kind \<Rightarrow> nat \<Rightarrow> ('j, 's) world \<Rightarrow> ('j, 's) world" where
  "make_dir k g w = w\<lparr>w_dirs := insert (k, g) (w_dirs w)\<rparr>"

definition goes :: "nat \<Rightarrow> ('j, 's) proc \<Rightarrow> ('j, 's) world \<Rightarrow> ('j, 's) world" where
  "goes p pr w = w\<lparr>w_proc := (w_proc w)(p := pr)\<rparr>"

section \<open>Steps\<close>

text \<open>
  \<open>Begin\<close> starts a process on a job; \<open>Advance\<close> lets its next call return, with what the lease decides
  and the random token; \<open>GiveUp\<close> is a holder that needs no commit any more; \<open>Throw\<close> makes the next
  call fail and \<open>Crash\<close> ends the process.
\<close>

datatype 'j lock_event =
    Begin nat 'j
  | Advance nat bool nat
  | GiveUp nat
  | Throw nat
  | Crash nat

text \<open>\<^verbatim>\<open>reserveOperation\<close>: the first free generation, its reservation, its directory, its owner.\<close>

fun reserve_step :: "nat \<Rightarrow> nat \<Rightarrow> ('j, 's) proc \<Rightarrow> ('j, 's) world \<Rightarrow> ('j, 's) world" where
  "reserve_step p token (Reserving j) w =
     goes p (Choosing (sorted_list_of_set (snd ` w_dirs w)) 1 j) w"
| "reserve_step p token (Choosing occupied g j) w =
     (let n = next_free occupied g in
      if MAX_OPERATION_GENERATION < int n then goes p Finished w
      else if (Reserved, n) \<in> w_dirs w then goes p (Choosing (n # occupied) (n + 1) j) w
      else goes p (Entering occupied n j) (make_dir Reserved n w))"
| "reserve_step p token (Entering occupied g j) w =
     (if (Pending, g) \<in> w_dirs w then goes p (Choosing (g # occupied) (g + 1) j) w
      else goes p (Signing \<lparr>op_generation = g, op_token = token\<rparr> j) (make_dir Pending g w))"
| "reserve_step p token (Signing op j) w =
     goes p (if (Pending, op_generation op) \<in> w_dirs w then Acquiring op j else Finished) w"
| "reserve_step p token pr w = w"

text \<open>\<^verbatim>\<open>promoteOperationClaim\<close>: at most eight attempts to become the active claim.\<close>

fun promote_step :: "nat \<Rightarrow> bool \<Rightarrow> ('j, 's) proc \<Rightarrow> ('j, 's) world \<Rightarrow> ('j, 's) world" where
  "promote_step p alive (Promoting op n j) w =
     goes p (if n = 0 \<or> operationIsSuperseded op w then Cancelling op else Inspecting op (n - 1) j) w"
| "promote_step p alive (Inspecting op n j) w =
     goes p
       (case inspectActiveClaim alive w of
          Busy _ \<Rightarrow> Cancelling op
        | Releasable owner \<Rightarrow>
            if (case owner of Some c \<Rightarrow> op_generation op < op_generation c | None \<Rightarrow> False) then Cancelling op
            else Retiring op n (the (w_claim w)) j
        | Absent \<Rightarrow> Claiming op n j) w"
| "promote_step p alive (Retiring op n c j) w =
     goes p (Promoting op n j) (w\<lparr>w_claim := if w_claim w = Some c then None else w_claim w\<rparr>)"
| "promote_step p alive (Claiming op n j) w =
     (if w_claim w = None then goes p (Confirming op j) (w\<lparr>w_claim := Some op\<rparr>) else goes p (Promoting op n j) w)"
| "promote_step p alive (Confirming op j) w =
     goes p (if operationIsActive alive op w then Holding op j else Cancelling op) w"
| "promote_step p alive pr w = w"

text \<open>\<^verbatim>\<open>acquireOperation\<close>.\<close>

fun acquire_step :: "nat \<Rightarrow> bool \<Rightarrow> nat \<Rightarrow> ('j, 's) proc \<Rightarrow> ('j, 's) world \<Rightarrow> ('j, 's) world" where
  "acquire_step p alive token (Starting j) w =
     goes p (case inspectActiveClaim alive w of Busy _ \<Rightarrow> Finished | _ \<Rightarrow> Probing j) w"
| "acquire_step p alive token (Probing j) w =
     goes p (if hasActivePendingOperation alive w then Finished else Reserving j) w"
| "acquire_step p alive token (Acquiring op j) w =
     goes p (if operationIsSuperseded op w then Cancelling op else Promoting op 8 j) w"
| "acquire_step p alive token pr w = promote_step p alive pr (reserve_step p token pr w)"

text \<open>\<^verbatim>\<open>fenceLowerOperations\<close> and \<^verbatim>\<open>cancelOperation\<close>.\<close>

fun fence_lower_step :: "nat \<Rightarrow> ('j, 's) proc \<Rightarrow> ('j, 's) world \<Rightarrow> ('j, 's) world" where
  "fence_lower_step p (Listing op j) w =
     goes p (Fencing op (sorted_list_of_set {h \<in> generations Pending w. h < op_generation op}) j) w"
| "fence_lower_step p (Fencing op (h # hs) j) w = goes p (Fencing op hs j) (rename_pending Fenced h w)"
| "fence_lower_step p pr w = w"

fun cancel_step :: "nat \<Rightarrow> ('j, 's) proc \<Rightarrow> ('j, 's) world \<Rightarrow> ('j, 's) world" where
  "cancel_step p (Cancelling op) w = goes p Finished (rename_pending Cancelled (op_generation op) w)"
| "cancel_step p pr w = w"

text \<open>\<^verbatim>\<open>commitOperation\<close>.\<close>

fun commit_step ::
  "'s \<Rightarrow> ('j \<Rightarrow> 's \<Rightarrow> 's option) \<Rightarrow> ('s \<Rightarrow> 's option) \<Rightarrow> nat \<Rightarrow> bool \<Rightarrow> ('j, 's) proc \<Rightarrow> ('j, 's) world \<Rightarrow>
    ('j, 's) world" where
  "commit_step initial mutate reread p alive (Holding op j) w =
     goes p (if operationOwnsActiveClaim alive op w then Listing op j else Cancelling op) w"
| "commit_step initial mutate reread p alive (Fencing op [] j) w =
     goes p (if operationOwnsActiveClaim alive op w then Reading op j else Cancelling op) w"
| "commit_step initial mutate reread p alive (Reading op j) w =
     (let base = readState reread initial w in
      goes p (case mutate j base of None \<Rightarrow> Cancelling op | Some s \<Rightarrow> Writing op j base s) w)"
| "commit_step initial mutate reread p alive (Writing op j base s) w =
     (if (Pending, op_generation op) \<in> w_dirs w
      then goes p (Renaming op j base s) (w\<lparr>w_states := (w_states w)(op_generation op := Some s)\<rparr>)
      else goes p (Cancelling op) w)"
| "commit_step initial mutate reread p alive (Renaming op j base s) w =
     (if (Pending, op_generation op) \<in> w_dirs w
      then goes p Finished
        ((rename_pending Committed (op_generation op) w)
          \<lparr>w_log := w_log w @ [\<lparr>en_generation = op_generation op, en_job = j, en_base = base, en_state = s\<rparr>]\<rparr>)
      else goes p (Cancelling op) w)"
| "commit_step initial mutate reread p alive pr w = fence_lower_step p pr (cancel_step p pr w)"

text \<open>
  An error while acquiring leaves the operation to its lease, except that a failed signature cancels
  it; an error afterwards cancels it.
\<close>

fun after_error :: "('j, 's) proc \<Rightarrow> ('j, 's) proc" where
  "after_error (Signing op j) = Cancelling op"
| "after_error (Holding op j) = Cancelling op"
| "after_error (Listing op j) = Cancelling op"
| "after_error (Fencing op hs j) = Cancelling op"
| "after_error (Reading op j) = Cancelling op"
| "after_error (Writing op j base s) = Cancelling op"
| "after_error (Renaming op j base s) = Cancelling op"
| "after_error Idle = Idle"
| "after_error _ = Finished"

fun is_acquiring :: "('j, 's) proc \<Rightarrow> bool" where
  "is_acquiring (Holding op j) = False"
| "is_acquiring (Listing op j) = False"
| "is_acquiring (Fencing op hs j) = False"
| "is_acquiring (Reading op j) = False"
| "is_acquiring (Writing op j base s) = False"
| "is_acquiring (Renaming op j base s) = False"
| "is_acquiring (Cancelling op) = False"
| "is_acquiring _ = True"

definition lock_react ::
  "'s \<Rightarrow> ('j \<Rightarrow> 's \<Rightarrow> 's option) \<Rightarrow> ('s \<Rightarrow> 's option) \<Rightarrow> ('j, 's) world \<Rightarrow> 'j lock_event \<Rightarrow> ('j, 's) world" where
  "lock_react initial mutate reread w e =
     (case e of
        Begin p j \<Rightarrow> (case w_proc w p of Idle \<Rightarrow> goes p (Starting j) w | _ \<Rightarrow> w)
      | Advance p alive token \<Rightarrow>
          if is_acquiring (w_proc w p) then acquire_step p alive token (w_proc w p) w
          else commit_step initial mutate reread p alive (w_proc w p) w
      | GiveUp p \<Rightarrow> (case w_proc w p of Holding op j \<Rightarrow> goes p (Cancelling op) w | _ \<Rightarrow> w)
      | Throw p \<Rightarrow> goes p (after_error (w_proc w p)) w
      | Crash p \<Rightarrow> goes p Finished w)"

section \<open>Commits are serial\<close>

subsection \<open>The invariant\<close>

text \<open>The generation a process has reserved, and the phases of its operation.\<close>

fun gen_of :: "('j, 's) proc \<Rightarrow> nat option" where
  "gen_of (Entering occupied g j) = Some g"
| "gen_of (Signing op j) = Some (op_generation op)"
| "gen_of (Acquiring op j) = Some (op_generation op)"
| "gen_of (Promoting op n j) = Some (op_generation op)"
| "gen_of (Inspecting op n j) = Some (op_generation op)"
| "gen_of (Retiring op n c j) = Some (op_generation op)"
| "gen_of (Claiming op n j) = Some (op_generation op)"
| "gen_of (Confirming op j) = Some (op_generation op)"
| "gen_of (Holding op j) = Some (op_generation op)"
| "gen_of (Listing op j) = Some (op_generation op)"
| "gen_of (Fencing op hs j) = Some (op_generation op)"
| "gen_of (Reading op j) = Some (op_generation op)"
| "gen_of (Writing op j b s) = Some (op_generation op)"
| "gen_of (Renaming op j b s) = Some (op_generation op)"
| "gen_of (Cancelling op) = Some (op_generation op)"
| "gen_of _ = None"

text \<open>Past the last check for a later operation; fencing, with what is left to fence; writing.\<close>

fun past_check :: "('j, 's) proc \<Rightarrow> bool" where
  "past_check (Inspecting op n j) = True"
| "past_check (Claiming op n j) = True"
| "past_check (Confirming op j) = True"
| "past_check (Holding op j) = True"
| "past_check (Listing op j) = True"
| "past_check (Fencing op hs j) = True"
| "past_check (Reading op j) = True"
| "past_check (Writing op j b s) = True"
| "past_check (Renaming op j b s) = True"
| "past_check _ = False"

fun left_to_fence :: "('j, 's) proc \<Rightarrow> nat list option" where
  "left_to_fence (Fencing op hs j) = Some hs"
| "left_to_fence (Reading op j) = Some []"
| "left_to_fence (Writing op j b s) = Some []"
| "left_to_fence (Renaming op j b s) = Some []"
| "left_to_fence _ = None"

fun writes :: "('j, 's) proc \<Rightarrow> ('j \<times> 's \<times> 's) option" where
  "writes (Writing op j b s) = Some (j, b, s)"
| "writes (Renaming op j b s) = Some (j, b, s)"
| "writes _ = None"

fun chain :: "('j \<Rightarrow> 's \<Rightarrow> 's option) \<Rightarrow> 's \<Rightarrow> ('j, 's) commit_entry list \<Rightarrow> bool" where
  "chain mutate b [] = True"
| "chain mutate b (e # es) =
     (en_base e = b \<and> mutate (en_job e) b = Some (en_state e) \<and> chain mutate (en_state e) es)"

definition latest :: "'s \<Rightarrow> ('j, 's) commit_entry list \<Rightarrow> 's" where
  "latest initial es = (if es = [] then initial else en_state (last es))"

definition dirs_good :: "('j, 's) world \<Rightarrow> bool" where
  "dirs_good w =
     (finite (w_dirs w) \<and> (\<forall>k g. (k, g) \<in> w_dirs w \<longrightarrow> (Reserved, g) \<in> w_dirs w) \<and>
      (\<forall>k l g. (k, g) \<in> w_dirs w \<and> (l, g) \<in> w_dirs w \<and> k \<noteq> Reserved \<and> l \<noteq> Reserved \<longrightarrow> k = l))"

definition owners_good :: "('j, 's) world \<Rightarrow> bool" where
  "owners_good w =
     ((\<forall>p g. gen_of (w_proc w p) = Some g \<longrightarrow> (Reserved, g) \<in> w_dirs w) \<and>
      (\<forall>p q g. gen_of (w_proc w p) = Some g \<and> gen_of (w_proc w q) = Some g \<longrightarrow> p = q) \<and>
      (\<forall>p occupied g j k. w_proc w p = Entering occupied g j \<and> (k, g) \<in> w_dirs w \<longrightarrow> k = Reserved))"

definition fence_good :: "('j, 's) world \<Rightarrow> bool" where
  "fence_good w =
     (\<forall>p q g h hs. gen_of (w_proc w p) = Some g \<and> left_to_fence (w_proc w p) = Some hs \<and>
        past_check (w_proc w q) \<and> gen_of (w_proc w q) = Some h \<and> h < g \<and> (Pending, h) \<in> w_dirs w \<longrightarrow> h \<in> set hs)"

definition order_good :: "('j, 's) world \<Rightarrow> bool" where
  "order_good w =
     (\<forall>p g h. past_check (w_proc w p) \<and> gen_of (w_proc w p) = Some g \<and> (Pending, g) \<in> w_dirs w \<and>
        (Committed, h) \<in> w_dirs w \<longrightarrow> h < g)"

definition base_good :: "'s \<Rightarrow> ('j \<Rightarrow> 's \<Rightarrow> 's option) \<Rightarrow> ('j, 's) world \<Rightarrow> bool" where
  "base_good initial mutate w =
     (\<forall>p g j b s. gen_of (w_proc w p) = Some g \<and> writes (w_proc w p) = Some (j, b, s) \<and> (Pending, g) \<in> w_dirs w \<longrightarrow>
        b = latest initial (w_log w) \<and> mutate j b = Some s)"

definition file_good :: "('j, 's) world \<Rightarrow> bool" where
  "file_good w =
     (\<forall>p op j b s. w_proc w p = Renaming op j b s \<and> (Pending, op_generation op) \<in> w_dirs w \<longrightarrow>
        w_states w (op_generation op) = Some s)"

definition log_good :: "'s \<Rightarrow> ('j \<Rightarrow> 's \<Rightarrow> 's option) \<Rightarrow> ('s \<Rightarrow> bool) \<Rightarrow> ('s \<Rightarrow> 's option) \<Rightarrow> ('j, 's) world \<Rightarrow> bool" where
  "log_good initial mutate ok reread w =
     (sorted_wrt (<) (map en_generation (w_log w)) \<and>
      (\<forall>g. (Committed, g) \<in> w_dirs w \<longleftrightarrow> g \<in> en_generation ` set (w_log w)) \<and>
      (\<forall>e \<in> set (w_log w). w_states w (en_generation e) = Some (en_state e) \<and> ok (en_state e) \<and>
         reread (en_state e) = Some (en_state e)) \<and>
      chain mutate initial (w_log w))"

definition lock_good :: "'s \<Rightarrow> ('j \<Rightarrow> 's \<Rightarrow> 's option) \<Rightarrow> ('s \<Rightarrow> bool) \<Rightarrow> ('s \<Rightarrow> 's option) \<Rightarrow> ('j, 's) world \<Rightarrow> bool" where
  "lock_good initial mutate ok reread w =
     (dirs_good w \<and> owners_good w \<and> fence_good w \<and> order_good w \<and> base_good initial mutate w \<and> file_good w \<and>
      log_good initial mutate ok reread w)"

lemmas lock_parts =
  dirs_good_def owners_good_def fence_good_def order_good_def base_good_def file_good_def log_good_def

lemma chain_append:
  "chain mutate b (es @ [e]) \<longleftrightarrow>
     chain mutate b es \<and> en_base e = latest b es \<and> mutate (en_job e) (en_base e) = Some (en_state e)"
  by (induction es arbitrary: b) (auto simp: latest_def)

lemma goes_simps [simp]:
  "w_dirs (goes p pr w) = w_dirs w" "w_states (goes p pr w) = w_states w" "w_claim (goes p pr w) = w_claim w"
  "w_log (goes p pr w) = w_log w" "w_proc (goes p pr w) q = (if q = p then pr else w_proc w q)"
  by (simp_all add: goes_def)

lemma make_dir_simps [simp]:
  "w_dirs (make_dir k g w) = insert (k, g) (w_dirs w)" "w_states (make_dir k g w) = w_states w"
  "w_log (make_dir k g w) = w_log w" "w_proc (make_dir k g w) = w_proc w"
  by (simp_all add: make_dir_def)

lemma rename_pending_simps [simp]:
  "w_states (rename_pending k g w) = w_states w" "w_log (rename_pending k g w) = w_log w"
  "w_proc (rename_pending k g w) = w_proc w"
  by (simp_all add: rename_pending_def)

lemma dirs_goodD:
  assumes "dirs_good w"
  shows "finite (w_dirs w)" "(k, g) \<in> w_dirs w \<Longrightarrow> (Reserved, g) \<in> w_dirs w"
    "(k, g) \<in> w_dirs w \<Longrightarrow> (l, g) \<in> w_dirs w \<Longrightarrow> k \<noteq> Reserved \<Longrightarrow> l \<noteq> Reserved \<Longrightarrow> k = l"
  using assms unfolding dirs_good_def by blast+

lemma owners_goodD:
  assumes "owners_good w"
  shows "gen_of (w_proc w p) = Some g \<Longrightarrow> (Reserved, g) \<in> w_dirs w"
    "gen_of (w_proc w p) = Some g \<Longrightarrow> gen_of (w_proc w q) = Some g \<Longrightarrow> p = q"
    "w_proc w p = Entering occupied g j \<Longrightarrow> (k, g) \<in> w_dirs w \<Longrightarrow> k = Reserved"
  using assms unfolding owners_good_def by blast+

lemma claim_simps:
  "w_dirs (w\<lparr>w_claim := c\<rparr>) = w_dirs w" "w_states (w\<lparr>w_claim := c\<rparr>) = w_states w"
  "w_log (w\<lparr>w_claim := c\<rparr>) = w_log w" "w_proc (w\<lparr>w_claim := c\<rparr>) = w_proc w"
  by simp_all

lemma gen_phases:
  "past_check pr \<Longrightarrow> gen_of pr \<noteq> None" "left_to_fence pr = Some hs \<Longrightarrow> gen_of pr \<noteq> None \<and> past_check pr"
  "writes pr = Some u \<Longrightarrow> left_to_fence pr = Some []"
  by (cases pr; simp)+

subsection \<open>Steps keep it\<close>

text \<open>
  What the cache promises its clients: a change of a good state is good and is read back as it was
  written. Everything below holds for every such cache.
\<close>

locale recoverable =
  fixes initial :: "'s"
    and mutate :: "'j \<Rightarrow> 's \<Rightarrow> 's option"
    and ok :: "'s \<Rightarrow> bool"
    and reread :: "'s \<Rightarrow> 's option"
  assumes initial_ok: "ok initial"
    and mutate_ok: "ok s \<Longrightarrow> mutate j s = Some t \<Longrightarrow> ok t \<and> reread t = Some t"
begin

abbreviation good :: "('j, 's) world \<Rightarrow> bool" where
  "good \<equiv> lock_good initial mutate ok reread"

lemma good_init: "good world_init"
  by (simp add: lock_good_def lock_parts world_init_def)

lemma good_claim: "good w \<Longrightarrow> good (w\<lparr>w_claim := c\<rparr>)"
  unfolding lock_good_def lock_parts claim_simps .

text \<open>A process that goes on without touching the directories.\<close>

lemma good_goes:
  assumes good: "good w" and gen: "gen_of pr = None \<or> gen_of pr = gen_of (w_proc w p)"
    and enter: "\<And>occupied g j. pr \<noteq> Entering occupied g j"
    and past: "past_check pr \<Longrightarrow> past_check (w_proc w p) \<or> (\<forall>g d. gen_of pr = Some g \<and> d \<in> w_dirs w \<longrightarrow> snd d \<le> g)"
    and fence: "\<And>hs g h. left_to_fence pr = Some hs \<Longrightarrow> gen_of pr = Some g \<Longrightarrow> h < g \<Longrightarrow> (Pending, h) \<in> w_dirs w \<Longrightarrow>
      h \<in> set hs \<or> (\<exists>hs'. left_to_fence (w_proc w p) = Some hs' \<and> h \<notin> set hs')"
    and base: "\<And>j b s. writes pr = Some (j, b, s) \<Longrightarrow>
      writes (w_proc w p) = Some (j, b, s) \<or> (b = latest initial (w_log w) \<and> mutate j b = Some s)"
    and stored: "\<And>op j b s. pr = Renaming op j b s \<Longrightarrow> w_states w (op_generation op) = Some s"
  shows "good (goes p pr w)"
proof -
  have parts: "dirs_good w" "owners_good w" "fence_good w" "order_good w" "base_good initial mutate w" "file_good w"
    "log_good initial mutate ok reread w"
    using good by (simp_all add: lock_good_def)
  have own: "gen_of (w_proc w q) = Some g \<Longrightarrow> (Reserved, g) \<in> w_dirs w" for q g
    using parts(2) by (auto simp: owners_good_def)
  have gens: "gen_of pr = Some g \<Longrightarrow> gen_of (w_proc w p) = Some g" for g using gen by auto
  have dirs: "dirs_good (goes p pr w)" using parts(1) by (simp add: dirs_good_def)
  have owners: "owners_good (goes p pr w)"
    using parts(2) gens enter by (auto simp: owners_good_def split: if_splits)
  have log: "log_good initial mutate ok reread (goes p pr w)" using parts(7) by (simp add: log_good_def)
  have nolarger: "\<not> past_check (w_proc w p) \<Longrightarrow> past_check pr \<Longrightarrow> gen_of pr = Some h \<Longrightarrow> gen_of (w_proc w q) = Some g \<Longrightarrow> g \<le> h"
    for q g h using past own [of q g] by fastforce
  have fences: "fence_good (goes p pr w)"
    unfolding fence_good_def goes_simps
  proof (intro allI impI)
    fix q r g h hs
    assume a: "gen_of (if q = p then pr else w_proc w q) = Some g \<and> left_to_fence (if q = p then pr else w_proc w q) = Some hs \<and>
      past_check (if r = p then pr else w_proc w r) \<and> gen_of (if r = p then pr else w_proc w r) = Some h \<and> h < g \<and>
      (Pending, h) \<in> w_dirs w"
    then have gg: "gen_of (w_proc w q) = Some g" "gen_of (w_proc w r) = Some h" using gens by (auto split: if_splits)
    have pr: "past_check (w_proc w r)" using a nolarger gg by (auto split: if_splits dest: leD)
    show "h \<in> set hs"
    proof (cases "q = p")
      case True
      then show ?thesis using a fence [of hs g h] parts(3) gg pr unfolding fence_good_def by auto
    next
      case False
      then show ?thesis using a parts(3) gg pr unfolding fence_good_def by auto
    qed
  qed
  have order: "order_good (goes p pr w)"
    unfolding order_good_def goes_simps
  proof (intro allI impI)
    fix q g h
    assume a: "past_check (if q = p then pr else w_proc w q) \<and> gen_of (if q = p then pr else w_proc w q) = Some g \<and>
      (Pending, g) \<in> w_dirs w \<and> (Committed, h) \<in> w_dirs w"
    then have gg: "gen_of (w_proc w q) = Some g" using gens by (auto split: if_splits)
    show "h < g"
    proof (cases "past_check (w_proc w q)")
      case True
      then show ?thesis using a gg parts(4) unfolding order_good_def by blast
    next
      case False
      then have "h \<le> g" using a past by (auto split: if_splits)
      moreover have "h \<noteq> g" using a parts(1) unfolding dirs_good_def by blast
      ultimately show ?thesis by simp
    qed
  qed
  have bases: "base_good initial mutate (goes p pr w)"
    using parts(5) base gens unfolding base_good_def by (auto split: if_splits)
  have files: "file_good (goes p pr w)"
    using parts(6) stored unfolding file_good_def by (auto split: if_splits)
  show ?thesis using dirs owners fences order bases files log by (simp add: lock_good_def)
qed

lemma good_parts:
  assumes "good w"
  shows "dirs_good w" "owners_good w" "fence_good w" "order_good w" "base_good initial mutate w" "file_good w"
    "log_good initial mutate ok reread w"
  using assms by (simp_all add: lock_good_def)

text \<open>Fencing or cancelling a pending operation.\<close>

lemma good_rename:
  assumes "good w" and k: "k = Fenced \<or> k = Cancelled"
  shows "good (rename_pending k h w)"
proof (cases "(Pending, h) \<in> w_dirs w")
  case False
  then show ?thesis using assms(1) by (simp add: rename_pending_def)
next
  case True
  note parts = good_parts [OF assms(1)]
  have eq: "w_dirs (rename_pending k h w) = insert (k, h) (w_dirs w - {(Pending, h)})"
    using True by (simp add: rename_pending_def)
  have res: "(Reserved, h) \<in> w_dirs w" using True parts(1) by (auto simp: dirs_good_def)
  have mem: "(l, g) \<in> w_dirs (rename_pending k h w) \<longleftrightarrow> (l = k \<and> g = h) \<or> ((l, g) \<in> w_dirs w \<and> (l, g) \<noteq> (Pending, h))" for l g
    unfolding eq by auto
  have pend: "(Pending, g) \<in> w_dirs (rename_pending k h w) \<longleftrightarrow> (Pending, g) \<in> w_dirs w \<and> g \<noteq> h" for g
    unfolding mem using k by auto
  have comm: "(Committed, g) \<in> w_dirs (rename_pending k h w) \<longleftrightarrow> (Committed, g) \<in> w_dirs w" for g
    unfolding mem using k by auto
  have resv: "(Reserved, g) \<in> w_dirs (rename_pending k h w) \<longleftrightarrow> (Reserved, g) \<in> w_dirs w" for g
    unfolding mem using k by auto
  have dirs: "dirs_good (rename_pending k h w)"
  proof -
    have "finite (w_dirs (rename_pending k h w))" unfolding eq using parts(1) by (simp add: dirs_good_def)
    moreover have "(Reserved, g) \<in> w_dirs (rename_pending k h w)" if "(l, g) \<in> w_dirs (rename_pending k h w)" for l g
      using that parts(1) res unfolding resv mem dirs_good_def by blast
    moreover have "l = l'" if "(l, g) \<in> w_dirs (rename_pending k h w)" "(l', g) \<in> w_dirs (rename_pending k h w)"
      "l \<noteq> Reserved" "l' \<noteq> Reserved" for l l' g
      using that parts(1) True unfolding mem dirs_good_def by blast
    ultimately show ?thesis unfolding dirs_good_def by blast
  qed
  have owners: "owners_good (rename_pending k h w)"
  proof -
    have "l = Reserved" if "w_proc w p = Entering occupied g j" "(l, g) \<in> w_dirs (rename_pending k h w)" for p occupied g j l
      using that parts(2) True unfolding mem owners_good_def by blast
    then show ?thesis using parts(2) unfolding owners_good_def rename_pending_simps resv by blast
  qed
  have "fence_good (rename_pending k h w)"
    using parts(3) unfolding fence_good_def rename_pending_simps pend by blast
  moreover have "order_good (rename_pending k h w)"
    using parts(4) unfolding order_good_def rename_pending_simps pend comm by blast
  moreover have "base_good initial mutate (rename_pending k h w)"
    using parts(5) unfolding base_good_def rename_pending_simps pend by blast
  moreover have "file_good (rename_pending k h w)"
    using parts(6) unfolding file_good_def rename_pending_simps pend by blast
  moreover have "log_good initial mutate ok reread (rename_pending k h w)"
    using parts(7) unfolding log_good_def rename_pending_simps comm .
  ultimately show ?thesis using dirs owners by (simp add: lock_good_def)
qed

text \<open>A new generation is reserved, and its operation made.\<close>

lemma good_reserve:
  assumes "good w" and "(Reserved, n) \<notin> w_dirs w"
  shows "good (goes p (Entering occupied n j) (make_dir Reserved n w))"
proof -
  note parts = good_parts [OF assms(1)]
  have new: "(k, n) \<notin> w_dirs w" for k using parts(1) assms(2) by (auto simp: dirs_good_def)
  have nogen: "gen_of (w_proc w q) \<noteq> Some n" for q using parts(2) assms(2) by (auto simp: owners_good_def)
  let ?w = "goes p (Entering occupied n j) (make_dir Reserved n w)"
  have "dirs_good ?w"
    using dirs_goodD [OF parts(1)] unfolding dirs_good_def by auto
  moreover have "owners_good ?w"
    using owners_goodD [OF parts(2)] nogen new unfolding owners_good_def by auto
  moreover have "fence_good ?w" using parts(3) by (auto simp: fence_good_def)
  moreover have "order_good ?w" using parts(4) by (auto simp: order_good_def)
  moreover have "base_good initial mutate ?w" using parts(5) by (auto simp: base_good_def)
  moreover have "file_good ?w" using parts(6) by (auto simp: file_good_def)
  moreover have "log_good initial mutate ok reread ?w" using parts(7) by (auto simp: log_good_def)
  ultimately show ?thesis by (simp add: lock_good_def)
qed

lemma good_enter:
  assumes "good w" and pr: "w_proc w p = Entering occupied g j"
  shows "good (goes p (Signing \<lparr>op_generation = g, op_token = t\<rparr> j) (make_dir Pending g w))"
proof -
  note parts = good_parts [OF assms(1)]
  note own = owners_goodD [OF parts(2)]
  have gen: "gen_of (w_proc w p) = Some g" by (simp add: pr)
  have res: "(Reserved, g) \<in> w_dirs w" by (rule own(1) [OF gen])
  have only: "(k, g) \<in> w_dirs w \<Longrightarrow> k = Reserved" for k by (rule own(3) [OF pr])
  have mine: "gen_of (w_proc w q) = Some g \<Longrightarrow> q = p" for q by (rule own(2) [OF _ gen])
  let ?w = "goes p (Signing \<lparr>op_generation = g, op_token = t\<rparr> j) (make_dir Pending g w)"
  have mem: "(k, h) \<in> w_dirs ?w \<longleftrightarrow> (k = Pending \<and> h = g) \<or> (k, h) \<in> w_dirs w" for k h by auto
  have "finite (w_dirs ?w)" using dirs_goodD(1) [OF parts(1)] by simp
  moreover have "(Reserved, h) \<in> w_dirs ?w" if "(k, h) \<in> w_dirs ?w" for k h
    using that res dirs_goodD(2) [OF parts(1)] unfolding mem by blast
  moreover have "k = l" if "(k, h) \<in> w_dirs ?w" "(l, h) \<in> w_dirs ?w" "k \<noteq> Reserved" "l \<noteq> Reserved" for k l h
    using that only dirs_goodD(3) [OF parts(1)] unfolding mem by blast
  ultimately have "dirs_good ?w" unfolding dirs_good_def by blast
  moreover have "owners_good ?w"
    using own res mine gen unfolding owners_good_def by (auto split: if_splits)
  moreover have "fence_good ?w" using parts(3) mine by (auto simp: fence_good_def)
  moreover have "order_good ?w" using parts(4) mine by (auto simp: order_good_def)
  moreover have "base_good initial mutate ?w" using parts(5) mine by (auto simp: base_good_def)
  moreover have "file_good ?w"
    using parts(6) mine by (auto simp: file_good_def)
  moreover have "log_good initial mutate ok reread ?w" using parts(7) by (auto simp: log_good_def)
  ultimately show ?thesis by (simp add: lock_good_def)
qed

text \<open>The newest commit is what a reader sees.\<close>

lemma read_latest:
  assumes "good w"
  shows "readState reread initial w = latest initial (w_log w)"
proof -
  note lg = good_parts(7) [OF assms]
  let ?gens = "map en_generation (w_log w)"
  have "generations Committed w = set ?gens"
    using lg by (auto simp: generations_def log_good_def image_iff)
  then have sorted: "sorted_list_of_set (generations Committed w) = ?gens"
    using lg sorted_list_of_set.idem_if_sorted_distinct [of ?gens] by (simp add: log_good_def strict_sorted_iff)
  show ?thesis
  proof (cases "w_log w" rule: rev_cases)
    case Nil
    then show ?thesis by (simp add: readState_def sorted latest_def)
  next
    case (snoc es e)
    then have "w_states w (en_generation e) = Some (en_state e)" "reread (en_state e) = Some (en_state e)"
      using lg by (simp_all add: log_good_def)
    then show ?thesis by (simp add: readState_def sorted latest_def snoc)
  qed
qed

lemma latest_ok: "good w \<Longrightarrow> ok (latest initial (w_log w))"
  using good_parts(7) [of w] initial_ok by (auto simp: latest_def log_good_def)

text \<open>The state is written into the directory of the operation, which no one reads yet.\<close>

lemma good_write:
  assumes "good w" and pr: "w_proc w p = Writing op j b s" and "(Pending, op_generation op) \<in> w_dirs w"
  shows "good (goes p (Renaming op j b s) (w\<lparr>w_states := (w_states w)(op_generation op := Some s)\<rparr>))"
proof -
  note parts = good_parts [OF assms(1)]
  let ?g = "op_generation op"
  let ?v = "w\<lparr>w_states := (w_states w)(?g := Some s)\<rparr>"
  have gen: "gen_of (w_proc w p) = Some ?g" by (simp add: pr)
  have notlogged: "?g \<notin> en_generation ` set (w_log w)"
  proof
    assume "?g \<in> en_generation ` set (w_log w)"
    then have "(Committed, ?g) \<in> w_dirs w" using parts(7) by (simp add: log_good_def)
    then show False using dirs_goodD(3) [OF parts(1) _ assms(3)] by auto
  qed
  have other: "w_proc w q = Renaming op' j' b' s' \<Longrightarrow> op_generation op' \<noteq> ?g" for q op' j' b' s'
    using owners_goodD(2) [OF parts(2) gen, of q] pr by auto
  have "dirs_good ?v" using parts(1) by (simp add: dirs_good_def)
  moreover have "owners_good ?v" using parts(2) by (simp add: owners_good_def)
  moreover have "fence_good ?v" using parts(3) by (simp add: fence_good_def)
  moreover have "order_good ?v" using parts(4) by (simp add: order_good_def)
  moreover have "base_good initial mutate ?v" using parts(5) by (simp add: base_good_def)
  moreover have "file_good ?v"
    using parts(6) other unfolding file_good_def by auto
  moreover have "log_good initial mutate ok reread ?v"
  proof -
    have "en_generation e \<noteq> ?g" if "e \<in> set (w_log w)" for e
      using notlogged imageI [OF that, of en_generation] by auto
    then show ?thesis using parts(7) by (simp add: log_good_def)
  qed
  ultimately have "good ?v" by (simp add: lock_good_def)
  moreover have "left_to_fence (w_proc ?v p) = Some []" "past_check (w_proc ?v p)" by (simp_all add: pr)
  moreover have "writes (w_proc ?v p) = Some (j, b, s)" "gen_of (w_proc ?v p) = Some ?g" by (simp_all add: pr)
  ultimately show ?thesis by (intro good_goes) simp_all
qed

text \<open>
  The commit: any other operation that is past its check and pending would have been fenced by this
  one or would have fenced it.
\<close>

lemma commit_alone:
  assumes "good w" and p: "w_proc w p = Renaming op j b s" and pend: "(Pending, op_generation op) \<in> w_dirs w"
    and q: "left_to_fence (w_proc w q) = Some []" "gen_of (w_proc w q) = Some h" "(Pending, h) \<in> w_dirs w"
  shows "q = p"
proof -
  note parts = good_parts [OF assms(1)]
  have pg: "gen_of (w_proc w p) = Some (op_generation op)" "left_to_fence (w_proc w p) = Some []" "past_check (w_proc w p)"
    by (simp_all add: p)
  have qp: "past_check (w_proc w q)" using gen_phases(2) [OF q(1)] by simp
  consider "h < op_generation op" | "op_generation op < h" | "h = op_generation op" by linarith
  then show ?thesis
  proof cases
    case 1
    then have "h \<in> set []" using parts(3) pg qp q unfolding fence_good_def by blast
    then show ?thesis by simp
  next
    case 2
    then have "op_generation op \<in> set []" using parts(3) pg q pend unfolding fence_good_def by blast
    then show ?thesis by simp
  next
    case 3
    then show ?thesis using owners_goodD(2) [OF parts(2) _ pg(1), of q] q by simp
  qed
qed

lemma good_commit:
  assumes "good w" and p: "w_proc w p = Renaming op j b s" and pend: "(Pending, op_generation op) \<in> w_dirs w"
  shows "good (goes p Finished ((rename_pending Committed (op_generation op) w)
    \<lparr>w_log := w_log w @ [\<lparr>en_generation = op_generation op, en_job = j, en_base = b, en_state = s\<rparr>]\<rparr>))"
proof -
  note parts = good_parts [OF assms(1)]
  let ?g = "op_generation op"
  let ?e = "\<lparr>en_generation = ?g, en_job = j, en_base = b, en_state = s\<rparr>"
  let ?w = "goes p Finished ((rename_pending Committed ?g w)\<lparr>w_log := w_log w @ [?e]\<rparr>)"
  have pg: "gen_of (w_proc w p) = Some ?g" "writes (w_proc w p) = Some (j, b, s)" "past_check (w_proc w p)"
    by (simp_all add: p)
  have eq: "w_dirs ?w = insert (Committed, ?g) (w_dirs w - {(Pending, ?g)})"
    using pend by (simp add: rename_pending_def)
  have mem: "(l, h) \<in> w_dirs ?w \<longleftrightarrow> (l = Committed \<and> h = ?g) \<or> ((l, h) \<in> w_dirs w \<and> (l, h) \<noteq> (Pending, ?g))" for l h
    unfolding eq by auto
  have proc: "w_proc ?w q = (if q = p then Finished else w_proc w q)" and states: "w_states ?w = w_states w"
    and logged: "w_log ?w = w_log w @ [?e]" for q by simp_all
  have base: "b = latest initial (w_log w)" "mutate j b = Some s"
    using parts(5) pg pend unfolding base_good_def by blast+
  have s: "ok s" "reread s = Some s" "w_states w ?g = Some s"
    using mutate_ok [OF latest_ok [OF assms(1)], folded base(1), OF base(2)] parts(6) p pend
    unfolding file_good_def by auto
  have lower: "h < ?g" if "h \<in> en_generation ` set (w_log w)" for h
    using that parts(4,7) pg pend unfolding order_good_def log_good_def by blast
  have alone: "q = p" if "left_to_fence (w_proc w q) = Some []" "gen_of (w_proc w q) = Some h" "(Pending, h) \<in> w_dirs w" for q h
    by (rule commit_alone [OF assms that])
  have res: "(Reserved, ?g) \<in> w_dirs w" by (rule dirs_goodD(2) [OF parts(1) pend])
  have "finite (w_dirs ?w)" unfolding eq using dirs_goodD(1) [OF parts(1)] by simp
  moreover have "(Reserved, h) \<in> w_dirs ?w" if "(l, h) \<in> w_dirs ?w" for l h
    using that res dirs_goodD(2) [OF parts(1)] unfolding mem by blast
  moreover have "l = l'" if "(l, h) \<in> w_dirs ?w" "(l', h) \<in> w_dirs ?w" "l \<noteq> Reserved" "l' \<noteq> Reserved" for l l' h
    using that pend dirs_goodD(3) [OF parts(1)] unfolding mem by blast
  ultimately have dirs: "dirs_good ?w" unfolding dirs_good_def by blast
  have "l = Reserved" if "w_proc w q = Entering occupied h i" "(l, h) \<in> w_dirs ?w" for q occupied h i l
    using that pend owners_goodD(3) [OF parts(2)] unfolding mem by blast
  moreover have "(Reserved, h) \<in> w_dirs ?w" if "gen_of (w_proc w q) = Some h" for q h
    using owners_goodD(1) [OF parts(2) that] unfolding mem by blast
  ultimately have owners: "owners_good ?w"
    using owners_goodD(2) [OF parts(2)] unfolding owners_good_def proc by (auto split: if_splits)
  have fences: "fence_good ?w"
    using parts(3) unfolding fence_good_def proc mem by (auto split: if_splits)
  have order: "order_good ?w"
    unfolding order_good_def proc
  proof (intro allI impI)
    fix q h c
    assume a: "past_check (if q = p then Finished else w_proc w q) \<and> gen_of (if q = p then Finished else w_proc w q) = Some h \<and>
      (Pending, h) \<in> w_dirs ?w \<and> (Committed, c) \<in> w_dirs ?w"
    then have q: "q \<noteq> p" "past_check (w_proc w q)" "gen_of (w_proc w q) = Some h" "(Pending, h) \<in> w_dirs w" "h \<noteq> ?g"
      unfolding mem by (auto split: if_splits)
    show "c < h"
    proof (cases "c = ?g")
      case True
      have "\<not> h < ?g"
        using parts(3) pg(1) q p unfolding fence_good_def by fastforce
      then show ?thesis using True q(5) by simp
    next
      case False
      then show ?thesis using a q parts(4) unfolding mem order_good_def by blast
    qed
  qed
  have nowrite: "q = p" if "gen_of (w_proc w q) = Some h" "writes (w_proc w q) = Some u" "(Pending, h) \<in> w_dirs w" for q h u
    using alone [OF gen_phases(3) [OF that(2)] that(1,3)] .
  have bases: "base_good initial mutate ?w"
    unfolding base_good_def proc mem using nowrite by (auto split: if_splits)
  have files: "file_good ?w"
    using parts(6) unfolding file_good_def proc mem states by (auto split: if_splits)
  have "log_good initial mutate ok reread ?w"
    using parts(7) lower s base unfolding log_good_def logged states mem
    by (auto simp: sorted_wrt_append chain_append)
  then show ?thesis using dirs owners fences order bases files by (simp add: lock_good_def)
qed

lemma good_stop: "good w \<Longrightarrow> good (goes p Finished w)"
  by (rule good_goes) simp_all

lemma good_cancel: "good w \<Longrightarrow> gen_of (w_proc w p) = Some (op_generation op) \<Longrightarrow> good (goes p (Cancelling op) w)"
  by (rule good_goes) simp_all

text \<open>Every step of acquiring keeps the invariant.\<close>

lemma good_acquire:
  assumes "good w" and "w_proc w p = pr"
  shows "good (acquire_step p alive token pr w)"
  using assms(2)
proof (cases pr)
  case (Starting j)
  then show ?thesis using assms by (auto intro!: good_goes split: claim_view.split)
next
  case (Probing j)
  then show ?thesis using assms by (auto intro!: good_goes)
next
  case (Reserving j)
  then show ?thesis using assms by (auto intro!: good_goes)
next
  case (Choosing occupied g j)
  then show ?thesis using assms good_reserve by (auto simp: Let_def intro!: good_goes)
next
  case (Entering occupied g j)
  then show ?thesis using assms good_enter by (auto intro!: good_goes)
next
  case (Signing op j)
  then show ?thesis using assms by (auto intro!: good_goes)
next
  case (Acquiring op j)
  then show ?thesis using assms by (auto intro!: good_goes)
next
  case (Promoting op n j)
  then show ?thesis
    using assms by (auto simp: operationIsSuperseded_def not_less intro!: good_goes)
next
  case (Inspecting op n j)
  then show ?thesis
    using assms by (auto split: claim_view.split option.split intro!: good_goes)
next
  case (Retiring op n c j)
  then show ?thesis
    using assms good_claim [OF assms(1), of "if w_claim w = Some c then None else w_claim w"] by (auto intro!: good_goes)
next
  case (Claiming op n j)
  then show ?thesis
    using assms good_claim [OF assms(1), of "Some op"] by (auto intro!: good_goes)
next
  case (Confirming op j)
  then show ?thesis using assms by (auto intro!: good_goes)
qed (use assms in simp_all)

lemma fence_step:
  assumes "good w" and pr: "w_proc w p = Fencing op (h # hs) j"
  shows "good (goes p (Fencing op hs j) (rename_pending Fenced h w))"
proof (rule good_goes)
  show "good (rename_pending Fenced h w)" by (rule good_rename [OF assms(1)]) simp
  show "x \<in> set ys \<or> (\<exists>zs. left_to_fence (w_proc (rename_pending Fenced h w) p) = Some zs \<and> x \<notin> set zs)"
    if "left_to_fence (Fencing op hs j) = Some ys" "(Pending, x) \<in> w_dirs (rename_pending Fenced h w)" for ys x
  proof -
    have "x \<noteq> h" using that(2) by (auto simp: rename_pending_def split: if_splits)
    then show ?thesis using that(1) by (simp add: pr)
  qed
qed (simp_all add: pr)

lemma good_commit_step:
  assumes "good w" and "w_proc w p = pr"
  shows "good (commit_step initial mutate reread p alive pr w)"
  using assms(2)
proof (cases pr)
  case (Holding op j)
  then show ?thesis using assms by (auto intro!: good_goes)
next
  case (Listing op j)
  have "finite {h \<in> generations Pending w. h < op_generation op}" by (rule finite_subset [of _ "{..<op_generation op}"]) auto
  then have "set (sorted_list_of_set {h \<in> generations Pending w. h < op_generation op}) =
      {h \<in> generations Pending w. h < op_generation op}"
    by simp
  then show ?thesis
    using Listing assms by (auto simp: generations_def image_iff intro!: good_goes)
next
  case (Fencing op hs j)
  then show ?thesis using assms fence_step by (cases hs) (auto intro!: good_goes)
next
  case (Reading op j)
  then show ?thesis
    using assms read_latest [OF assms(1)] by (auto simp: Let_def split: option.split intro!: good_goes)
next
  case (Writing op j b s)
  then show ?thesis using assms good_write by (auto intro!: good_goes)
next
  case (Renaming op j b s)
  then show ?thesis using assms good_commit by (auto intro!: good_goes)
next
  case (Cancelling op)
  then show ?thesis using assms good_rename [OF assms(1), of Cancelled] by (auto intro!: good_stop)
qed (use assms in simp_all)

lemma good_react:
  assumes "good w"
  shows "good (lock_react initial mutate reread w e)"
proof (cases e)
  case (Begin p j)
  then show ?thesis
    using assms by (auto simp: lock_react_def split: proc.split intro!: good_goes)
next
  case (Advance p alive token)
  then show ?thesis
    using assms good_acquire good_commit_step by (simp add: lock_react_def)
next
  case (GiveUp p)
  then show ?thesis
    using assms by (auto simp: lock_react_def split: proc.split intro!: good_goes)
next
  case (Throw p)
  then show ?thesis
    using assms by (cases "w_proc w p") (auto simp: lock_react_def intro!: good_goes)
next
  case (Crash p)
  then show ?thesis using assms good_stop by (simp add: lock_react_def)
qed

end

sublocale recoverable \<subseteq> cache: reducer world_init "lock_react initial mutate reread" "lock_good initial mutate ok reread"
  by unfold_locales (simp_all add: good_init good_react)

subsection \<open>The history\<close>

text \<open>A change that is refused leaves the state as it is.\<close>

definition apply_change :: "('j \<Rightarrow> 's \<Rightarrow> 's option) \<Rightarrow> 's \<Rightarrow> 'j \<Rightarrow> 's" where
  "apply_change mutate s j = or_else (mutate j s) s"

definition run_world ::
  "'s \<Rightarrow> ('j \<Rightarrow> 's \<Rightarrow> 's option) \<Rightarrow> ('s \<Rightarrow> 's option) \<Rightarrow> 'j lock_event list \<Rightarrow> ('j, 's) world" where
  "run_world initial mutate reread es = foldl (lock_react initial mutate reread) world_init es"

definition serial :: "'s \<Rightarrow> ('j \<Rightarrow> 's \<Rightarrow> 's option) \<Rightarrow> ('s \<Rightarrow> 's option) \<Rightarrow> ('j, 's) world \<Rightarrow> bool" where
  "serial initial mutate reread w =
     (sorted_wrt (<) (map en_generation (w_log w)) \<and> chain mutate initial (w_log w) \<and>
      readState reread initial w = foldl (apply_change mutate) initial (map en_job (w_log w)))"

lemma chain_latest: "chain mutate b es \<Longrightarrow> latest b es = foldl (apply_change mutate) b (map en_job es)"
proof (induction es arbitrary: b)
  case (Cons e es)
  then have "latest (en_state e) es = foldl (apply_change mutate) (en_state e) (map en_job es)" by simp
  moreover have "latest b (e # es) = latest (en_state e) es" by (simp add: latest_def)
  moreover have "apply_change mutate b (en_job e) = en_state e" using Cons.prems by (simp add: apply_change_def)
  ultimately show ?case by simp
qed (simp add: latest_def)

context recoverable
begin

lemma good_run: "lock_good initial mutate ok reread (run_world initial mutate reread es)"
  unfolding run_world_def by (rule cache.run_start_good)

lemma run_serial: "serial initial mutate reread (run_world initial mutate reread es)"
proof -
  let ?w = "run_world initial mutate reread es"
  have log: "log_good initial mutate ok reread ?w" by (rule good_parts(7) [OF good_run])
  have "readState reread initial ?w = latest initial (w_log ?w)" by (rule read_latest [OF good_run])
  then show ?thesis using log chain_latest [of mutate initial "w_log ?w"] by (simp add: serial_def log_good_def)
qed

lemma run_reads_ok: "ok (readState reread initial (run_world initial mutate reread es))"
  using latest_ok [OF good_run] read_latest [OF good_run] by simp

end

text \<open>The protocol itself, for any change whose states are read as they were written.\<close>

interpretation as_written: recoverable initial mutate "\<lambda>_. True" Some for initial mutate
  by unfold_locales simp_all

text \<open>
  Whatever the interleaving, the leases, failures and crashes: commits happen in the order of their
  generations, each from the state of the one before, and a reader sees the last. No update is lost.
\<close>

theorem commits_serial: "serial initial mutate Some (run_world initial mutate Some es)"
  by (rule as_written.run_serial)

text \<open>One process with a running lease commits; one that stalls is fenced by the next.\<close>

lemma solo_commits:
  "w_log (run_world 0 (\<lambda>j s. Some (s + j)) Some (Begin 0 5 # replicate 17 (Advance 0 True 3))) =
     [\<lparr>en_generation = 1, en_job = 5, en_base = 0, en_state = 5 :: int\<rparr>]"
  by code_simp

lemma stalled_is_fenced:
  "map en_job (w_log (run_world 0 (\<lambda>j s. Some (s + j)) Some
     (Begin 0 5 # replicate 15 (Advance 0 True 3) @ Begin 1 (7 :: int) # replicate 9 (Advance 1 False 4) @
      replicate 20 (Advance 1 True 4) @ replicate 5 (Advance 0 True 3)))) = [7]"
  by code_simp

subsection \<open>The update cache\<close>

text \<open>The jobs of \<^verbatim>\<open>checkForUpdate\<close> and \<^verbatim>\<open>setUpdatePreference\<close> and what each commits.\<close>

datatype update_job =
    CheckJob fetch_event "rat option" int
  | PreferenceJob json string int int

definition committed_state :: "cache_decision result \<Rightarrow> update_state option" where
  "committed_state r = (case r of Inl _ \<Rightarrow> None | Inr d \<Rightarrow> fst (settle d))"

definition request_of :: "fetch_error + target \<Rightarrow> rat option \<Rightarrow> request" where
  "request_of f random = (case f of Inl e \<Rightarrow> FetchFailed e | Inr t \<Rightarrow> Fetched t random)"

definition job_change ::
  "(string \<Rightarrow> int option) \<Rightarrow> (int \<Rightarrow> string) \<Rightarrow> (string \<Rightarrow> bool) \<Rightarrow> (string \<Rightarrow> string option) \<Rightarrow>
    (string \<Rightarrow> json option) \<Rightarrow> string \<Rightarrow> update_job \<Rightarrow> update_state \<Rightarrow> update_state option" where
  "job_change date_parse iso_of real_instant decode json_parse installed job s =
     (case job of
        CheckJob e random nowMs \<Rightarrow>
          committed_state (mutation date_parse iso_of installed nowMs
            (request_of (fetchCandidate real_instant decode json_parse (JStr DEFAULT_MANIFEST_URL) e) random) s)
      | PreferenceJob eventKey mode days nowMs \<Rightarrow>
          if valid_request eventKey mode days
          then committed_state (mutation date_parse iso_of installed nowMs
            (Prefer (or_else (digestForEventKey eventKey) []) mode days) s)
          else None)"

definition stored_state :: "(string \<Rightarrow> int option) \<Rightarrow> string \<Rightarrow> update_state \<Rightarrow> update_state option" where
  "stored_state date_parse installed s = normalizeState date_parse (state_json s) (Some installed)"

lemma fetched_ok:
  assumes "fetchCandidate real_instant decode json_parse u e = Inr t"
  shows "target_ok t"
proof -
  from assms obtain v where "validateManifest real_instant v = Inr t"
    by (auto simp: fetchCandidate_def contract_def res_bind_Inr split: if_splits fetch_event.splits sum.splits option.splits)
  then show ?thesis by (rule validateManifest_ok)
qed

lemma committed_change:
  assumes "state_valid date_parse installed s" and "request_ok r" and "dates_parse date_parse iso_of"
    and "committed_state (mutation date_parse iso_of installed nowMs r s) = Some t"
  shows "state_valid date_parse installed t \<and> stored_state date_parse installed t = Some t"
proof -
  from assms(4) obtain d a where d: "mutation date_parse iso_of installed nowMs r s = Inr d" "settle d = (Some t, a)"
    by (auto simp: committed_state_def split: sum.splits) (metis prod.collapse)
  then have rec: "encodeRecoverableState t \<noteq> None" and src: "dn_state d = Some t \<or> dn_fallback d = Some (t, a)"
    by (auto simp: settle_def split: option.splits prod.splits if_splits)
  have "state_valid date_parse installed t" using src mutation_valid [OF assms(1-3) d(1)] by blast
  with state_read_back [OF this rec] show ?thesis by (simp add: stored_state_def)
qed

lemma job_change_ok:
  assumes "state_valid date_parse installed s" and "dates_parse date_parse iso_of"
    and "job_change date_parse iso_of real_instant decode json_parse installed job s = Some t"
  shows "state_valid date_parse installed t \<and> stored_state date_parse installed t = Some t"
proof (cases job)
  case (CheckJob e random nowMs)
  have "request_ok (request_of (fetchCandidate real_instant decode json_parse (JStr DEFAULT_MANIFEST_URL) e) random)"
    using fetched_ok by (auto simp: request_ok_def request_of_def split: sum.split)
  then show ?thesis
    using committed_change [OF assms(1) _ assms(2)] assms(3) CheckJob by (simp add: job_change_def)
next
  case (PreferenceJob eventKey mode days nowMs)
  then have "valid_request eventKey mode days" using assms(3) by (auto simp: job_change_def split: if_splits)
  then have "request_ok (Prefer (or_else (digestForEventKey eventKey) []) mode days)"
    by (auto simp: valid_request_def request_ok_def digestForEventKey_def Let_def split: json.splits if_splits)
  then show ?thesis
    using committed_change [OF assms(1) _ assms(2)] assms(3) PreferenceJob
    by (auto simp: job_change_def split: if_splits)
qed

lemma update_cache_recoverable:
  assumes "parseSemver (JStr installed) = Inr v" and "dates_parse date_parse iso_of"
  shows "recoverable (emptyUpdateState (Some installed))
    (job_change date_parse iso_of real_instant decode json_parse installed)
    (state_valid date_parse installed) (stored_state date_parse installed)"
proof
  show "state_valid date_parse installed (emptyUpdateState (Some installed))"
    using assms(1) by (simp add: state_valid_def emptyUpdateState_def)
  show "state_valid date_parse installed t \<and> stored_state date_parse installed t = Some t"
    if "state_valid date_parse installed s" "job_change date_parse iso_of real_instant decode json_parse installed j s = Some t"
    for s j t
    using job_change_ok [OF that(1) assms(2) that(2)] .
qed

text \<open>C37: 
  The cache of an installed version under any interleaving of checks and preferences holds exactly
  what they commit one after another, and what is read from it is a valid state.
\<close>

theorem update_cache_serial:
  assumes "parseSemver (JStr installed) = Inr v" and "dates_parse date_parse iso_of"
  shows "serial (emptyUpdateState (Some installed)) (job_change date_parse iso_of real_instant decode json_parse installed)
      (stored_state date_parse installed)
      (run_world (emptyUpdateState (Some installed)) (job_change date_parse iso_of real_instant decode json_parse installed)
        (stored_state date_parse installed) es) \<and>
    state_valid date_parse installed
      (readState (stored_state date_parse installed) (emptyUpdateState (Some installed))
        (run_world (emptyUpdateState (Some installed)) (job_change date_parse iso_of real_instant decode json_parse installed)
          (stored_state date_parse installed) es))"
  using recoverable.run_serial [OF update_cache_recoverable [OF assms]]
    recoverable.run_reads_ok [OF update_cache_recoverable [OF assms]] by blast

lemma update_cache_serial_witness:
  "state_valid numeral_date ''2.0.0''
     (readState (stored_state numeral_date ''2.0.0'') (emptyUpdateState (Some ''2.0.0''))
       (run_world (emptyUpdateState (Some ''2.0.0'')) (job_change numeral_date show_int (\<lambda>_. True) Some (\<lambda>_. None) ''2.0.0'')
         (stored_state numeral_date ''2.0.0'') (Begin 0 (CheckJob TimedOut None 0) # replicate 17 (Advance 0 True 3))))"
proof -
  have "parseSemver (JStr ''2.0.0'') = Inr \<lparr>sv_core = [''2'', ''0'', ''0''], sv_prerelease = None, sv_build = None\<rparr>"
    by code_simp
  from update_cache_serial [OF this numeral_dates] show ?thesis by blast
qed

subsection \<open>Names\<close>

text \<open>The directory of an operation says its kind and generation.\<close>

lemma match_operation_other:
  "k \<noteq> l \<Longrightarrow> match_operation l (operationName k g) = None"
  by (cases k; cases l) (simp_all add: match_operation_def operationName_def op_kind_name_def Let_def)

lemma match_operation_same:
  assumes "g < 10 ^ 20"
  shows "match_operation k (operationName k g) = Some (k, g)"
proof -
  have "length (show_nat g) \<le> 20" by (rule length_show_nat [OF assms]) simp
  moreover have "is_digit CHR ''0''" by (simp add: is_digit_def)
  moreover have "starts_with (operationName k g) (op_kind_name k @ ''-'')"
    unfolding operationName_def append_assoc [symmetric] by (rule starts_with_append)
  ultimately show ?thesis
    using show_nat_all_digits [of g]
    by (auto simp: match_operation_def operationName_def pad_start_def numeric_text_def all_digits_def read_nat_zeros
        Let_def set_replicate_conv_if split: if_splits)
qed

theorem operation_names:
  assumes "int g \<le> MAX_OPERATION_GENERATION"
  shows "parseOperationName (operationName k g) = Some (k, g)"
proof -
  have "g < 10 ^ 20" using assms by (simp add: MAX_OPERATION_GENERATION_def)
  then show ?thesis
    using match_operation_same [of g k] match_operation_other [of k _ g]
    by (cases k) (simp_all add: parseOperationName_def)
qed

lemma operation_names_witness: "parseOperationName (operationName Pending 12) = Some (Pending, 12)"
  by (rule operation_names) (simp add: MAX_OPERATION_GENERATION_def)

end
