(* ===== verification/MinHeap.thy ===== *)
theory MinHeap
imports Prelude Complex_Main
begin

text \<open>
  The binary heap of \<^verbatim>\<open>renderers/shared/route-quality.mjs\<close> (class \<^verbatim>\<open>MinHeap\<close>), which orders the
  frontier of the route search. The array is a list; an entry is a key with its distance. Both
  sifts move a hole, as the code does, and write the entry once, where the hole stops.
  Distances are exact rationals.

  What is shown is the priority queue it implements (locale \<^verbatim>\<open>priority_queue\<close>): a push adds one
  entry, a pop removes one whose distance is least, and neither loses nor invents any other.
\<close>

section \<open>The priority queue the search relies on\<close>

record 'k heap_entry =
  he_key :: 'k
  he_distance :: rat

abbreviation entry_of :: "'k \<Rightarrow> rat \<Rightarrow> 'k heap_entry" where
  "entry_of k d \<equiv> \<lparr>he_key = k, he_distance = d\<rparr>"

locale priority_queue =
  fixes nil :: 'q
    and push :: "'k \<Rightarrow> rat \<Rightarrow> 'q \<Rightarrow> 'q"
    and pop :: "'q \<Rightarrow> ('k heap_entry \<times> 'q) option"
    and contents :: "'q \<Rightarrow> 'k heap_entry multiset"
    and ok :: "'q \<Rightarrow> bool"
  assumes ok_nil: "ok nil"
    and contents_nil: "contents nil = {#}"
    and ok_push: "ok q \<Longrightarrow> ok (push k d q)"
    and contents_push: "contents (push k d q) = add_mset (entry_of k d) (contents q)"
    and pop_None: "pop q = None \<longleftrightarrow> contents q = {#}"
    and ok_pop: "ok q \<Longrightarrow> pop q = Some (e, q') \<Longrightarrow> ok q'"
    and contents_pop: "pop q = Some (e, q') \<Longrightarrow> contents q = add_mset e (contents q')"
    and pop_least: "ok q \<Longrightarrow> pop q = Some (e, q') \<Longrightarrow> f \<in># contents q \<Longrightarrow>
      he_distance e \<le> he_distance f"
begin

lemma push_member: "f \<in># contents (push k d q) \<longleftrightarrow> f = entry_of k d \<or> f \<in># contents q"
  by (auto simp: contents_push)

lemma pop_member: "pop q = Some (e, q') \<Longrightarrow> f \<in># contents q \<longleftrightarrow> f = e \<or> f \<in># contents q'"
  by (auto simp: contents_pop)

lemma pop_size: "pop q = Some (e, q') \<Longrightarrow> size (contents q') < size (contents q)"
  by (simp add: contents_pop)

lemma pop_once:
  "pop q = Some (e, q') \<Longrightarrow> count (contents q) e \<le> 1 \<Longrightarrow> e \<notin># contents q'"
  by (simp add: contents_pop not_in_iff)

lemma pop_count: "pop q = Some (e, q') \<Longrightarrow> count (contents q') f \<le> count (contents q) f"
  by (simp add: contents_pop)

lemma pop_rest: "ok q \<Longrightarrow> pop q = Some (e, q') \<Longrightarrow> f \<in># contents q' \<Longrightarrow>
  he_distance e \<le> he_distance f"
  using pop_least pop_member by blast

lemma push_fresh:
  "entry_of k d \<notin># contents q \<Longrightarrow> count (contents (push k d q)) (entry_of k d) = 1"
  by (simp add: contents_push not_in_iff)

end

section \<open>The heap\<close>

fun sift_up :: "'k heap_entry list \<Rightarrow> 'k heap_entry \<Rightarrow> nat \<Rightarrow> 'k heap_entry list" where
  "sift_up es e i =
    (if i = 0 then es[i := e]
     else let parent = (i - 1) div 2
       in if he_distance (es ! parent) \<le> he_distance e then es[i := e]
          else sift_up (es[i := es ! parent]) e parent)"

definition heap_push :: "'k \<Rightarrow> rat \<Rightarrow> 'k heap_entry list \<Rightarrow> 'k heap_entry list" where
  "heap_push k d es =
    (let e = entry_of k d in sift_up (es @ [e]) e (length es))"

definition smaller_child :: "'k heap_entry list \<Rightarrow> nat \<Rightarrow> nat" where
  "smaller_child es i =
    (if 2 * i + 2 < length es \<and> he_distance (es ! (2 * i + 2)) < he_distance (es ! (2 * i + 1))
     then 2 * i + 2 else 2 * i + 1)"

function sift_down :: "'k heap_entry list \<Rightarrow> 'k heap_entry \<Rightarrow> nat \<Rightarrow> 'k heap_entry list" where
  "sift_down es e i =
    (if length es \<le> 2 * i + 1 then es[i := e]
     else let child = smaller_child es i
       in if he_distance e \<le> he_distance (es ! child) then es[i := e]
          else sift_down (es[i := es ! child]) e child)"
  by pat_completeness auto

termination sift_down
  by (relation "measure (\<lambda>(es, e, i). length es - i)") (auto simp: smaller_child_def)

definition heap_pop :: "'k heap_entry list \<Rightarrow> ('k heap_entry \<times> 'k heap_entry list) option" where
  "heap_pop es =
    (case es of
       [] \<Rightarrow> None
     | first # rest \<Rightarrow>
         if rest = [] then Some (first, [])
         else Some (first, sift_down (butlast es) (last es) 0))"

declare sift_up.simps [simp del] sift_down.simps [simp del]

section \<open>The heap order and the sifts\<close>

definition heap_ok :: "'k heap_entry list \<Rightarrow> bool" where
  "heap_ok es \<longleftrightarrow>
    (\<forall>j < length es. 0 < j \<longrightarrow> he_distance (es ! ((j - 1) div 2)) \<le> he_distance (es ! j))"

text \<open>The order with the entry in the hole, except above the hole; what is below the hole
  already fits under what is above it.\<close>

definition above_open :: "'k heap_entry list \<Rightarrow> nat \<Rightarrow> bool" where
  "above_open es i \<longleftrightarrow>
    (\<forall>j < length es. 0 < j \<longrightarrow> j \<noteq> i \<longrightarrow>
       he_distance (es ! ((j - 1) div 2)) \<le> he_distance (es ! j)) \<and>
    (\<forall>j < length es. 0 < i \<longrightarrow> 0 < j \<longrightarrow> (j - 1) div 2 = i \<longrightarrow>
       he_distance (es ! ((i - 1) div 2)) \<le> he_distance (es ! j))"

definition below_open :: "'k heap_entry list \<Rightarrow> nat \<Rightarrow> bool" where
  "below_open es i \<longleftrightarrow>
    (\<forall>j < length es. 0 < j \<longrightarrow> (j - 1) div 2 \<noteq> i \<longrightarrow>
       he_distance (es ! ((j - 1) div 2)) \<le> he_distance (es ! j)) \<and>
    (\<forall>j < length es. 0 < i \<longrightarrow> 0 < j \<longrightarrow> (j - 1) div 2 = i \<longrightarrow>
       he_distance (es ! ((i - 1) div 2)) \<le> he_distance (es ! j))"

lemma above_open_order:
  "above_open es i \<Longrightarrow> j < length es \<Longrightarrow> 0 < j \<Longrightarrow> j \<noteq> i \<Longrightarrow>
    he_distance (es ! ((j - 1) div 2)) \<le> he_distance (es ! j)"
  by (simp add: above_open_def)

lemma above_open_skip:
  "above_open es i \<Longrightarrow> j < length es \<Longrightarrow> 0 < i \<Longrightarrow> 0 < j \<Longrightarrow> (j - 1) div 2 = i \<Longrightarrow>
    he_distance (es ! ((i - 1) div 2)) \<le> he_distance (es ! j)"
  by (simp add: above_open_def)

lemma below_open_order:
  "below_open es i \<Longrightarrow> j < length es \<Longrightarrow> 0 < j \<Longrightarrow> (j - 1) div 2 \<noteq> i \<Longrightarrow>
    he_distance (es ! ((j - 1) div 2)) \<le> he_distance (es ! j)"
  by (simp add: below_open_def)

lemma below_open_skip:
  "below_open es i \<Longrightarrow> j < length es \<Longrightarrow> 0 < i \<Longrightarrow> 0 < j \<Longrightarrow> (j - 1) div 2 = i \<Longrightarrow>
    he_distance (es ! ((i - 1) div 2)) \<le> he_distance (es ! j)"
  by (simp add: below_open_def)

lemma above_open_closed:
  assumes "above_open es i" "i < length es"
    and "0 < i \<Longrightarrow> he_distance (es ! ((i - 1) div 2)) \<le> he_distance (es ! i)"
  shows "heap_ok es"
  using assms unfolding heap_ok_def above_open_def by metis

lemma below_open_closed:
  assumes "below_open es i"
    and "\<And>j. j < length es \<Longrightarrow> 0 < j \<Longrightarrow> (j - 1) div 2 = i \<Longrightarrow>
      he_distance (es ! i) \<le> he_distance (es ! j)"
  shows "heap_ok es"
  using assms unfolding heap_ok_def below_open_def by metis

lemma parent_less: "0 < (i::nat) \<Longrightarrow> (i - 1) div 2 < i"
  by linarith

text \<open>Moving the hole from \<^verbatim>\<open>i\<close> to \<^verbatim>\<open>p\<close> swaps the two entries once the hole is filled.\<close>

lemma hole_swap:
  assumes "i < length es" "p < length es" "p \<noteq> i"
  shows "(es[i := es ! p])[p := e] = (es[i := e])[i := (es[i := e]) ! p, p := (es[i := e]) ! i]"
  using assms by (simp add: list_update_swap)

lemma mset_hole:
  assumes "i < length es" "p < length es"
  shows "mset ((es[i := es ! p])[p := e]) = mset (es[i := e])"
proof (cases "p = i")
  case False
  have "mset (es[i := e]) = mset ((es[i := e])[i := (es[i := e]) ! p, p := (es[i := e]) ! i])"
    using assms by (intro mset_swap [symmetric]) simp_all
  then show ?thesis using hole_swap[OF assms False, of e] by (simp only:)
qed simp

lemma sift_up_mset:
  "i < length es \<Longrightarrow> mset (sift_up es e i) = mset (es[i := e])"
proof (induction es e i rule: sift_up.induct)
  case (1 es e i)
  then show ?case
    using mset_hole[of i es "(i - 1) div 2" e] parent_less[of i]
    by (subst sift_up.simps) (simp add: Let_def)
qed

lemma sift_up_ok:
  "i < length es \<Longrightarrow> above_open (es[i := e]) i \<Longrightarrow> heap_ok (sift_up es e i)"
proof (induction es e i rule: sift_up.induct)
  case (1 es e i)
  let ?p = "(i - 1) div 2"
  let ?H = "es[i := e]"
  let ?H' = "(es[i := es ! ?p])[?p := e]"
  show ?case
  proof (cases "i = 0 \<or> he_distance (es ! ?p) \<le> he_distance e")
    case True
    then have "heap_ok ?H"
      using "1.prems" parent_less[of i] by (intro above_open_closed[of _ i]) auto
    then show ?thesis using True by (subst sift_up.simps) (auto simp: Let_def)
  next
    case False
    then have i: "0 < i" and lt: "he_distance e < he_distance (es ! ?p)" by auto
    have p: "?p < i" using i by (rule parent_less)
    have val: "?H' ! j = (if j = ?p then e else if j = i then es ! ?p else ?H ! j)"
      if "j < length es" for j
      using that p "1.prems"(1) by (simp add: nth_list_update)
    have valH: "?H ! j = (if j = i then e else es ! j)" if "j < length es" for j
      using that by (simp add: nth_list_update)
    have order: "he_distance (?H' ! ((j - 1) div 2)) \<le> he_distance (?H' ! j)"
      if j: "j < length es" "0 < j" "j \<noteq> ?p" for j
    proof -
      have pj: "(j - 1) div 2 < length es" using j by linarith
      consider "j = i" | "j \<noteq> i" "(j - 1) div 2 = i" | "j \<noteq> i" "(j - 1) div 2 = ?p"
        | "j \<noteq> i" "(j - 1) div 2 \<noteq> i" "(j - 1) div 2 \<noteq> ?p" by blast
      then show ?thesis
      proof cases
        case 1 then show ?thesis using lt j p val by auto
      next
        case 2
        then show ?thesis
          using above_open_skip[OF "1.prems"(2), of j] i j p pj by (simp add: val valH)
      next
        case 3
        then show ?thesis
          using above_open_order[OF "1.prems"(2), of j] lt j p pj by (simp add: val valH)
      next
        case 4
        then show ?thesis
          using above_open_order[OF "1.prems"(2), of j] j pj by (simp add: val)
      qed
    qed
    have skip: "he_distance (?H' ! ((?p - 1) div 2)) \<le> he_distance (?H' ! j)"
      if j: "j < length es" "0 < ?p" "0 < j" "(j - 1) div 2 = ?p" for j
    proof -
      have pp: "(?p - 1) div 2 < ?p" using j(2) by (rule parent_less)
      have up: "he_distance (?H ! ((?p - 1) div 2)) \<le> he_distance (?H ! ?p)"
        using above_open_order[OF "1.prems"(2), of ?p] j p "1.prems"(1) by simp
      have "?H' ! ((?p - 1) div 2) = ?H ! ((?p - 1) div 2)" using pp p "1.prems"(1) by (simp add: val)
      moreover have "j \<noteq> ?p" using j parent_less[of j] by linarith
      moreover have "he_distance (?H ! ?p) \<le> he_distance (?H' ! j)"
      proof (cases "j = i")
        case True
        then show ?thesis using j p \<open>j \<noteq> ?p\<close> "1.prems"(1) by (simp add: val)
      next
        case False
        then show ?thesis
          using above_open_order[OF "1.prems"(2), of j] j \<open>j \<noteq> ?p\<close> by (simp add: val)
      qed
      ultimately show ?thesis using up by simp
    qed
    have "above_open ?H' ?p" using order skip by (simp add: above_open_def)
    then have "heap_ok (sift_up (es[i := es ! ?p]) e ?p)"
      using "1.IH"[of ?p] False "1.prems"(1) p by simp
    then show ?thesis using False by (subst sift_up.simps) (simp add: Let_def)
  qed
qed

lemma child_parent:
  "smaller_child es i = 2 * i + 1 \<or> smaller_child es i = 2 * i + 2"
  "(smaller_child es i - 1) div 2 = i"
  by (auto simp: smaller_child_def)

lemma child_less: "2 * i + 1 < length es \<Longrightarrow> smaller_child es i < length es"
  by (auto simp: smaller_child_def)

lemma child_of: "0 < j \<Longrightarrow> (j - 1) div 2 = i \<Longrightarrow> j = 2 * i + 1 \<or> j = 2 * i + (2::nat)"
  by linarith

lemma child_smallest:
  assumes "j < length es" "0 < j" "(j - 1) div 2 = i"
  shows "he_distance (es ! smaller_child es i) \<le> he_distance (es ! j)"
  using child_of[OF assms(2,3)] assms(1) by (auto simp: smaller_child_def)

lemma sift_down_mset:
  "i < length es \<Longrightarrow> mset (sift_down es e i) = mset (es[i := e])"
proof (induction es e i rule: sift_down.induct)
  case (1 es e i)
  show ?case
  proof (cases "length es \<le> 2 * i + 1")
    case True
    then show ?thesis by (subst sift_down.simps) simp
  next
    case False
    then have c: "smaller_child es i < length es" by (simp add: child_less)
    then show ?thesis
      using "1.IH"[OF False refl] "1.prems" False mset_hole[of i es "smaller_child es i" e]
      by (subst sift_down.simps) (simp add: Let_def)
  qed
qed

lemma sift_down_ok:
  "i < length es \<Longrightarrow> below_open (es[i := e]) i \<Longrightarrow> heap_ok (sift_down es e i)"
proof (induction es e i rule: sift_down.induct)
  case (1 es e i)
  let ?c = "smaller_child es i"
  let ?H = "es[i := e]"
  let ?H' = "(es[i := es ! ?c])[?c := e]"
  have valH: "?H ! j = (if j = i then e else es ! j)" if "j < length es" for j
    using that by (simp add: nth_list_update)
  have below: "i < j" if "0 < j" "(j - 1) div 2 = i" for j :: nat using that by linarith
  show ?case
  proof (cases "length es \<le> 2 * i + 1")
    case True
    have "heap_ok ?H"
    proof (rule below_open_closed[OF "1.prems"(2)])
      fix j assume "j < length ?H" "0 < j" "(j - 1) div 2 = i"
      then show "he_distance (?H ! i) \<le> he_distance (?H ! j)" using True by (auto dest!: child_of)
    qed
    then show ?thesis using True by (subst sift_down.simps) simp
  next
    case False
    then have c: "?c < length es" "0 < ?c" "i < ?c"
      using child_less[of i es] child_parent(1)[of es i] by auto
    show ?thesis
    proof (cases "he_distance e \<le> he_distance (es ! ?c)")
      case True
      have "heap_ok ?H"
      proof (rule below_open_closed[OF "1.prems"(2)])
        fix j assume j: "j < length ?H" "0 < j" "(j - 1) div 2 = i"
        then show "he_distance (?H ! i) \<le> he_distance (?H ! j)"
          using child_smallest[of j es i] True below[OF j(2,3)] "1.prems"(1) by simp
      qed
      then show ?thesis using True False by (subst sift_down.simps) (simp add: Let_def)
    next
      case gt: False
      have val: "?H' ! j = (if j = ?c then e else if j = i then es ! ?c else ?H ! j)"
        if "j < length es" for j
        using that c "1.prems"(1) by (simp add: nth_list_update)
      have order: "he_distance (?H' ! ((j - 1) div 2)) \<le> he_distance (?H' ! j)"
        if j: "j < length es" "0 < j" "(j - 1) div 2 \<noteq> ?c" for j
      proof -
        have pj: "(j - 1) div 2 < length es" using j by linarith
        consider "j = ?c" | "j \<noteq> ?c" "(j - 1) div 2 = i" | "j = i"
          | "j \<noteq> ?c" "j \<noteq> i" "(j - 1) div 2 \<noteq> i" by blast
        then show ?thesis
        proof cases
          case 1 then show ?thesis using gt c child_parent(2)[of es i] "1.prems"(1) by (simp add: val)
        next
          case 2
          then show ?thesis
            using child_smallest[of j es i] j pj below[of j] c by (simp add: val valH)
        next
          case 3
          have "(?c - 1) div 2 = i" by (rule child_parent(2))
          then have "he_distance (?H ! ((i - 1) div 2)) \<le> he_distance (?H ! ?c)"
            using below_open_skip[OF "1.prems"(2), of ?c] 3 j c by simp
          moreover have "(i - 1) div 2 < i" using 3 j by (intro parent_less) simp
          ultimately show ?thesis using 3 j c by (simp add: val valH)
        next
          case 4
          then show ?thesis
            using below_open_order[OF "1.prems"(2), of j] j pj by (simp add: val)
        qed
      qed
      have skip: "he_distance (?H' ! ((?c - 1) div 2)) \<le> he_distance (?H' ! j)"
        if j: "j < length es" "0 < j" "(j - 1) div 2 = ?c" for j
      proof -
        have "he_distance (?H ! ((j - 1) div 2)) \<le> he_distance (?H ! j)"
          using below_open_order[OF "1.prems"(2), of j] j c by simp
        moreover have "?c < j" using j by linarith
        moreover have "(?c - 1) div 2 = i" by (rule child_parent(2))
        ultimately show ?thesis using j c by (simp add: val valH)
      qed
      have "below_open ?H' ?c" unfolding below_open_def
        by (intro conjI allI; intro impI; (rule order | rule skip); simp only: length_list_update not_False_eq_True)
      then have "heap_ok (sift_down (es[i := es ! ?c]) e ?c)"
        using "1.IH"[OF False refl gt] c by simp
      then show ?thesis using False gt by (subst sift_down.simps) (simp add: Let_def)
    qed
  qed
qed

section \<open>The queue the heap implements\<close>

lemma heap_ok_Nil [simp]: "heap_ok []"
  by (simp add: heap_ok_def)

lemma heap_ok_prefix: "heap_ok (xs @ ys) \<Longrightarrow> heap_ok xs"
proof -
  assume ok: "heap_ok (xs @ ys)"
  show "heap_ok xs"
    unfolding heap_ok_def
  proof (intro allI impI)
    fix j assume j: "j < length xs" "0 < j"
    then have "he_distance ((xs @ ys) ! ((j - 1) div 2)) \<le> he_distance ((xs @ ys) ! j)"
      using ok by (simp add: heap_ok_def)
    then show "he_distance (xs ! ((j - 1) div 2)) \<le> he_distance (xs ! j)"
      using j parent_less[of j] by (simp add: nth_append)
  qed
qed

lemma heap_first_least:
  assumes "heap_ok es" "i < length es"
  shows "he_distance (es ! 0) \<le> he_distance (es ! i)"
  using assms(2)
proof (induction i rule: less_induct)
  case (less i)
  show ?case
  proof (cases "i = 0")
    case False
    then have p: "(i - 1) div 2 < i" by (simp add: parent_less)
    then have "he_distance (es ! 0) \<le> he_distance (es ! ((i - 1) div 2))"
      using less.IH[OF p] less.prems by simp
    also have "\<dots> \<le> he_distance (es ! i)"
      using assms(1) less.prems False by (simp add: heap_ok_def)
    finally show ?thesis .
  qed simp
qed

lemma heap_push_ok:
  assumes "heap_ok es"
  shows "heap_ok (heap_push k d es)"
proof -
  let ?e = "\<lparr>he_key = k, he_distance = d\<rparr>"
  have "above_open (es @ [?e]) (length es)"
    unfolding above_open_def
  proof (intro conjI allI impI)
    fix j assume j: "j < length (es @ [?e])" "0 < j" "j \<noteq> length es"
    then show "he_distance ((es @ [?e]) ! ((j - 1) div 2)) \<le> he_distance ((es @ [?e]) ! j)"
      using assms parent_less[of j] by (simp add: nth_append heap_ok_def)
  next
    fix j assume "j < length (es @ [?e])" "0 < j" "(j - 1) div 2 = length es"
    then show "he_distance ((es @ [?e]) ! ((length es - 1) div 2)) \<le> he_distance ((es @ [?e]) ! j)"
      using parent_less[of j] by simp
  qed
  then show ?thesis
    unfolding heap_push_def Let_def by (intro sift_up_ok) simp_all
qed

lemma heap_push_mset:
  "mset (heap_push k d es) = add_mset \<lparr>he_key = k, he_distance = d\<rparr> (mset es)"
  unfolding heap_push_def Let_def by (subst sift_up_mset) simp_all

lemma heap_pop_None: "heap_pop es = None \<longleftrightarrow> es = []"
  by (auto simp: heap_pop_def split: list.splits)

lemma heap_pop_cases:
  assumes "heap_pop es = Some (e, es')"
  obtains "es = [e]" "es' = []"
  | ms l where "es = e # ms @ [l]" "es' = sift_down (e # ms) l 0"
proof (cases es)
  case (Cons x rest)
  show ?thesis
  proof (cases rest rule: rev_cases)
    case Nil
    then show ?thesis using assms Cons that(1) by (simp add: heap_pop_def)
  next
    case (snoc ms l)
    then show ?thesis using assms Cons that(2)[of ms l] by (auto simp: heap_pop_def)
  qed
qed (use assms in \<open>simp add: heap_pop_def\<close>)

lemma heap_pop_mset:
  assumes "heap_pop es = Some (e, es')"
  shows "mset es = add_mset e (mset es')"
  using assms by (cases rule: heap_pop_cases) (simp_all add: sift_down_mset)

lemma heap_pop_ok:
  assumes "heap_ok es" "heap_pop es = Some (e, es')"
  shows "heap_ok es'"
  using assms(2)
proof (cases rule: heap_pop_cases)
  case (2 ms l)
  have pre: "heap_ok (e # ms)" using assms(1) 2 heap_ok_prefix[of "e # ms" "[l]"] by simp
  have "below_open (l # ms) 0"
    unfolding below_open_def
  proof (intro conjI allI impI)
    fix j assume "j < length (l # ms)" "0 < j" "(j - 1) div 2 \<noteq> 0"
    then show "he_distance ((l # ms) ! ((j - 1) div 2)) \<le> he_distance ((l # ms) ! j)"
      using pre by (auto simp: heap_ok_def nth_Cons')
  qed simp
  then have "heap_ok (sift_down (e # ms) l 0)"
    by (intro sift_down_ok) simp_all
  then show ?thesis using 2 by simp
qed simp

lemma heap_pop_least:
  assumes "heap_ok es" "heap_pop es = Some (e, es')" "f \<in> set es"
  shows "he_distance e \<le> he_distance f"
proof -
  obtain i where "i < length es" "f = es ! i" using assms(3) by (auto simp: in_set_conv_nth)
  moreover have "es ! 0 = e" using assms(2) by (cases rule: heap_pop_cases) simp_all
  ultimately show ?thesis using heap_first_least[OF assms(1)] by metis
qed

interpretation heap: priority_queue "[]" heap_push heap_pop mset heap_ok
  by unfold_locales
    (simp_all add: heap_push_ok heap_push_mset heap_pop_None,
     (blast intro: heap_pop_ok heap_pop_mset heap_pop_least)+)

end
