(* ===== verification/GridSearch.thy ===== *)
theory GridSearch
imports MinHeap
begin

text \<open>
  The search of \<^verbatim>\<open>shortestOrthogonalGridRoute\<close> (\<^verbatim>\<open>renderers/shared/route-quality.mjs\<close>): Dijkstra's
  algorithm over states that carry the heading of the last stroke, so that a turn costs a bend
  penalty and a reversal is never taken; with lazy deletion in the queue, a separate best arrival
  at the target, and two early exits. The graph is an adjacency function, as the code reads its
  \<^verbatim>\<open>Map\<close>; the keys of the code, strings made of a node key and a heading, are the pairs.

  The lemmas keep an invariant over the set of finalised states: distances are those of walks,
  the queue holds every distance not yet finalised, finalised states are relaxed. With it the
  loop ends, the route it returns is a walk, and no walk is cheaper.
\<close>

section \<open>The search\<close>

datatype heading = HeadR | HeadL | HeadD | HeadU

fun opposite_heading :: "heading \<Rightarrow> heading" where
  "opposite_heading HeadR = HeadL"
| "opposite_heading HeadL = HeadR"
| "opposite_heading HeadD = HeadU"
| "opposite_heading HeadU = HeadD"

type_synonym 'n visit = "'n \<times> heading"

record 'n search_setup =
  su_adjacency :: "'n \<Rightarrow> ('n \<times> rat \<times> heading) list"
  su_source :: "'n visit"
  su_target :: 'n
  su_targetAxis :: heading
  su_bendPenalty :: rat

record 'n search_state =
  ss_distances :: "'n visit \<Rightarrow> rat option"
  ss_previous :: "'n visit \<Rightarrow> 'n visit option"
  ss_queue :: "'n visit heap_entry list"
  ss_visited :: nat
  ss_target :: "('n visit \<times> rat) option"

datatype 's search_progress = Stop_loop 's | Continue_loop 's

definition turn_cost :: "'n search_setup \<Rightarrow> heading \<Rightarrow> heading \<Rightarrow> rat" where
  "turn_cost p a b = (if b = a then 0 else su_bendPenalty p)"

definition start_search :: "'n search_setup \<Rightarrow> 'n search_state" where
  "start_search p =
    \<lparr>ss_distances = (\<lambda>u. None)(su_source p := Some 0), ss_previous = (\<lambda>u. None),
     ss_queue = heap_push (su_source p) 0 [], ss_visited = 0, ss_target = None\<rparr>"

definition relax_edge ::
  "'n search_setup \<Rightarrow> 'n visit \<Rightarrow> rat \<Rightarrow> 'n \<times> rat \<times> heading \<Rightarrow> 'n search_state \<Rightarrow> 'n search_state" where
  "relax_edge p current currentDistance edge s =
    (case edge of (neighbor, weight, axis) \<Rightarrow>
      if axis = opposite_heading (snd current) then s
      else let candidate = currentDistance + weight + turn_cost p (snd current) axis;
               neighborState = (neighbor, axis)
        in if (case ss_distances s neighborState of None \<Rightarrow> False | Some old \<Rightarrow> old \<le> candidate)
           then s
           else s\<lparr>ss_distances := (ss_distances s)(neighborState := Some candidate),
                  ss_previous := (ss_previous s)(neighborState := Some current),
                  ss_queue := heap_push neighborState candidate (ss_queue s)\<rparr>)"

definition arrive ::
  "'n search_setup \<Rightarrow> 'n visit \<Rightarrow> rat \<Rightarrow> 'n search_state \<Rightarrow> 'n search_state" where
  "arrive p current currentDistance s =
    (let arrival = currentDistance + (if snd current = su_targetAxis p then 0 else su_bendPenalty p)
     in if (case ss_target s of None \<Rightarrow> True | Some t \<Rightarrow> arrival < snd t)
        then s\<lparr>ss_target := Some (current, arrival)\<rparr> else s)"

definition search_step ::
  "'n search_setup \<Rightarrow> 'n visit heap_entry \<Rightarrow> 'n search_state \<Rightarrow> 'n search_state search_progress" where
  "search_step p nxt s =
    (let current = he_key nxt; currentDistance = he_distance nxt in
     if ss_distances s current \<noteq> Some currentDistance then Continue_loop s
     else let s1 = s\<lparr>ss_visited := ss_visited s + 1\<rparr> in
       if fst current = su_target p
       then let s2 = arrive p current currentDistance s1 in
         if snd current = su_targetAxis p \<or> su_bendPenalty p = 0
         then Stop_loop s2 else Continue_loop s2
       else if (case ss_target s1 of None \<Rightarrow> False | Some t \<Rightarrow> snd t \<le> currentDistance)
       then Stop_loop s1
       else Continue_loop
         (fold (relax_edge p current currentDistance) (su_adjacency p (fst current)) s1))"

partial_function (option) search_loop ::
  "'n search_setup \<Rightarrow> 'n search_state \<Rightarrow> 'n search_state option" where
  "search_loop p s =
    (case heap_pop (ss_queue s) of
       None \<Rightarrow> Some s
     | Some r \<Rightarrow>
         (case search_step p (fst r) (s\<lparr>ss_queue := snd r\<rparr>) of
            Stop_loop s' \<Rightarrow> Some s'
          | Continue_loop s' \<Rightarrow> search_loop p s'))"

text \<open>The states from the arrival back to the source, as the code collects them.\<close>

partial_function (option) trace_back ::
  "('n visit \<Rightarrow> 'n visit option) \<Rightarrow> 'n visit \<Rightarrow> 'n visit \<Rightarrow> 'n visit list option" where
  "trace_back previous source key =
    (if key = source then Some [key]
     else case previous key of
       None \<Rightarrow> Some [key]
     | Some k \<Rightarrow> Option.bind (trace_back previous source k) (\<lambda>ks. Some (key # ks)))"

declare search_loop.simps [code] trace_back.simps [code]

text \<open>States are pairs that are never taken apart by a quantifier.\<close>

declare split_paired_All [simp del] split_paired_Ex [simp del]

section \<open>Walks\<close>

inductive walk :: "'n search_setup \<Rightarrow> 'n visit \<Rightarrow> rat \<Rightarrow> bool" for p where
  walk_start: "walk p (su_source p) 0"
| walk_edge: "walk p u d \<Longrightarrow> (m, w, b) \<in> set (su_adjacency p (fst u)) \<Longrightarrow>
    b \<noteq> opposite_heading (snd u) \<Longrightarrow> walk p (m, b) (d + w + turn_cost p (snd u) b)"

definition arrival_cost :: "'n search_setup \<Rightarrow> 'n visit \<Rightarrow> rat \<Rightarrow> rat" where
  "arrival_cost p u d = d + (if snd u = su_targetAxis p then 0 else su_bendPenalty p)"

definition positive_setup :: "'n search_setup \<Rightarrow> bool" where
  "positive_setup p \<longleftrightarrow>
    0 \<le> su_bendPenalty p \<and> (\<forall>n. \<forall>(m, w, b) \<in> set (su_adjacency p n). 0 < w)"

lemma positive_weight: "positive_setup p \<Longrightarrow> (m, w, b) \<in> set (su_adjacency p n) \<Longrightarrow> 0 < w"
  by (auto simp: positive_setup_def)

lemma turn_cost_nonneg: "positive_setup p \<Longrightarrow> 0 \<le> turn_cost p a b"
  by (simp add: turn_cost_def positive_setup_def)

lemma walk_nonneg: "walk p u d \<Longrightarrow> positive_setup p \<Longrightarrow> 0 \<le> d"
proof (induction rule: walk.induct)
  case (walk_edge u d m w b)
  then show ?case
    using positive_weight[OF walk_edge.prems walk_edge.hyps(2)] turn_cost_nonneg[OF walk_edge.prems, of "snd u" b]
    by simp
qed simp

section \<open>The invariant\<close>

text \<open>One conjunct each: distances are those of walks; entries in the queue are at least the
  distance; the distance of a state is in the queue as long as the state is not finalised,
  and at most once; finalised states are below the queue; a predecessor is finalised and accounts
  for the distance.\<close>

definition inv_reach :: "'n search_setup \<Rightarrow> 'n search_state \<Rightarrow> bool" where
  "inv_reach p s \<longleftrightarrow> ss_distances s (su_source p) = Some 0 \<and>
    (\<forall>u d. ss_distances s u = Some d \<longrightarrow> walk p u d)"

definition inv_known :: "'n search_state \<Rightarrow> bool" where
  "inv_known s \<longleftrightarrow>
    (\<forall>u e. entry_of u e \<in># mset (ss_queue s) \<longrightarrow> (\<exists>d. ss_distances s u = Some d \<and> d \<le> e))"

definition inv_open :: "'n visit set \<Rightarrow> 'n search_state \<Rightarrow> bool" where
  "inv_open F s \<longleftrightarrow>
    (\<forall>u d. ss_distances s u = Some d \<longrightarrow> (entry_of u d \<in># mset (ss_queue s) \<longleftrightarrow> u \<notin> F))"

definition inv_once :: "'n search_state \<Rightarrow> bool" where
  "inv_once s \<longleftrightarrow>
    (\<forall>u d. ss_distances s u = Some d \<longrightarrow> count (mset (ss_queue s)) (entry_of u d) \<le> 1)"

definition inv_done :: "'n visit set \<Rightarrow> 'n search_state \<Rightarrow> bool" where
  "inv_done F s \<longleftrightarrow>
    (\<forall>u \<in> F. \<exists>d. ss_distances s u = Some d \<and> (\<forall>v e. entry_of v e \<in># mset (ss_queue s) \<longrightarrow> d \<le> e))"

definition inv_pred :: "'n search_setup \<Rightarrow> 'n visit set \<Rightarrow> 'n search_state \<Rightarrow> bool" where
  "inv_pred p F s \<longleftrightarrow>
    (\<forall>u d. ss_distances s u = Some d \<longrightarrow> u \<noteq> su_source p \<longrightarrow>
      (\<exists>v x w. ss_previous s u = Some v \<and> v \<in> F \<and> ss_distances s v = Some x \<and>
        (fst u, w, snd u) \<in> set (su_adjacency p (fst v)) \<and> snd u \<noteq> opposite_heading (snd v) \<and>
        d = x + w + turn_cost p (snd v) (snd u)))"

definition search_core :: "'n search_setup \<Rightarrow> 'n visit set \<Rightarrow> 'n search_state \<Rightarrow> bool" where
  "search_core p F s \<longleftrightarrow> heap_ok (ss_queue s) \<and> inv_reach p s \<and> inv_known s \<and> inv_open F s \<and>
    inv_once s \<and> inv_done F s \<and> inv_pred p F s"

definition relaxed_to ::
  "'n search_setup \<Rightarrow> 'n search_state \<Rightarrow> 'n visit \<Rightarrow> rat \<Rightarrow> 'n \<times> rat \<times> heading \<Rightarrow> bool" where
  "relaxed_to p s u d edge \<longleftrightarrow> (case edge of (m, w, b) \<Rightarrow>
    b \<noteq> opposite_heading (snd u) \<longrightarrow>
    (\<exists>e. ss_distances s (m, b) = Some e \<and> e \<le> d + w + turn_cost p (snd u) b))"

definition inv_relaxed :: "'n search_setup \<Rightarrow> 'n visit set \<Rightarrow> 'n search_state \<Rightarrow> bool" where
  "inv_relaxed p F s \<longleftrightarrow>
    (\<forall>u \<in> F. \<forall>d. fst u \<noteq> su_target p \<longrightarrow> ss_distances s u = Some d \<longrightarrow>
      (\<forall>edge \<in> set (su_adjacency p (fst u)). relaxed_to p s u d edge))"

definition inv_target :: "'n search_setup \<Rightarrow> 'n visit set \<Rightarrow> 'n search_state \<Rightarrow> bool" where
  "inv_target p F s \<longleftrightarrow>
    (\<forall>u \<in> F. \<forall>d. fst u = su_target p \<longrightarrow> ss_distances s u = Some d \<longrightarrow>
      (\<exists>t c. ss_target s = Some (t, c) \<and> c \<le> arrival_cost p u d)) \<and>
    (\<forall>t c. ss_target s = Some (t, c) \<longrightarrow> t \<in> F \<and> fst t = su_target p \<and>
      (\<exists>d. ss_distances s t = Some d \<and> c = arrival_cost p t d))"

lemma core_parts:
  assumes "search_core p F s"
  shows "heap_ok (ss_queue s)" "inv_reach p s" "inv_known s" "inv_open F s" "inv_once s"
    "inv_done F s" "inv_pred p F s"
  using assms by (simp_all add: search_core_def)

lemma inv_pred_mono: "inv_pred p F s \<Longrightarrow> inv_pred p (insert x F) s"
  unfolding inv_pred_def by (metis insertCI)

text \<open>Taking an entry off the queue.\<close>

lemma pop_stale:
  assumes core: "search_core p F s" and pop: "heap_pop (ss_queue s) = Some (e, q)"
    and stale: "ss_distances s (he_key e) \<noteq> Some (he_distance e)"
  shows "search_core p F (s\<lparr>ss_queue := q\<rparr>)"
proof -
  note parts = core_parts[OF core]
  have keep: "entry_of u d \<in># mset q \<longleftrightarrow> entry_of u d \<in># mset (ss_queue s)"
    if "ss_distances s u = Some d" for u d
    using heap.pop_member[OF pop, of "entry_of u d"] stale that by auto
  have less: "f \<in># mset (ss_queue s)" if "f \<in># mset q" for f
    using heap.pop_member[OF pop] that by blast
  have "heap_ok q" using heap.ok_pop[OF parts(1) pop] .
  moreover have "inv_open F (s\<lparr>ss_queue := q\<rparr>)" using parts(4) keep by (simp add: inv_open_def)
  moreover have "inv_once (s\<lparr>ss_queue := q\<rparr>)"
    using parts(5) heap.pop_count[OF pop] le_trans unfolding inv_once_def by fastforce
  moreover have "inv_known (s\<lparr>ss_queue := q\<rparr>)"
    using parts(3) less unfolding inv_known_def by auto
  moreover have "inv_done F (s\<lparr>ss_queue := q\<rparr>)"
    using parts(6) less unfolding inv_done_def by simp meson
  ultimately show ?thesis
    using parts(2,7) by (simp add: search_core_def inv_reach_def inv_pred_def)
qed

lemma pop_final:
  assumes core: "search_core p F s" and pop: "heap_pop (ss_queue s) = Some (e, q)"
    and live: "ss_distances s (he_key e) = Some (he_distance e)"
  shows "he_key e \<notin> F"
    and "search_core p (insert (he_key e) F) (s\<lparr>ss_queue := q\<rparr>)"
    and "\<forall>u \<in> F. \<exists>d. ss_distances s u = Some d \<and> d \<le> he_distance e"
    and "\<forall>u d. u \<notin> F \<longrightarrow> ss_distances s u = Some d \<longrightarrow> he_distance e \<le> d"
proof -
  note parts = core_parts[OF core]
  have e: "entry_of (he_key e) (he_distance e) = e" by simp
  have mem: "e \<in># mset (ss_queue s)" using heap.pop_member[OF pop] by blast
  show fresh: "he_key e \<notin> F" using parts(4) live mem e unfolding inv_open_def by metis
  have gone: "e \<notin># mset q"
  proof (rule heap.pop_once[OF pop])
    show "count (mset (ss_queue s)) e \<le> 1" using parts(5) live e unfolding inv_once_def by metis
  qed
  have least: "he_distance e \<le> d" if "entry_of v d \<in># mset (ss_queue s)" for v d
    using heap.pop_least[OF parts(1) pop that] by simp
  have less: "f \<in># mset (ss_queue s)" if "f \<in># mset q" for f
    using heap.pop_member[OF pop] that by blast
  show "\<forall>u \<in> F. \<exists>d. ss_distances s u = Some d \<and> d \<le> he_distance e"
    using parts(6) mem e unfolding inv_done_def by metis
  show "\<forall>u d. u \<notin> F \<longrightarrow> ss_distances s u = Some d \<longrightarrow> he_distance e \<le> d"
    using parts(4) least unfolding inv_open_def by blast
  have "inv_open (insert (he_key e) F) (s\<lparr>ss_queue := q\<rparr>)"
    unfolding inv_open_def
  proof (intro allI impI)
    fix u d assume d: "ss_distances (s\<lparr>ss_queue := q\<rparr>) u = Some d"
    show "(entry_of u d \<in># mset (ss_queue (s\<lparr>ss_queue := q\<rparr>))) = (u \<notin> insert (he_key e) F)"
    proof (cases "u = he_key e")
      case True
      then have "entry_of u d = e" using d live e by simp
      then show ?thesis using True gone by simp
    next
      case False
      then have "entry_of u d \<noteq> e" by (metis e heap_entry.ext_inject)
      moreover have "entry_of u d \<in># mset (ss_queue s) \<longleftrightarrow> u \<notin> F"
        using parts(4) d unfolding inv_open_def by auto
      ultimately show ?thesis
        using False heap.pop_member[OF pop, of "entry_of u d"] by simp
    qed
  qed
  moreover have "inv_once (s\<lparr>ss_queue := q\<rparr>)"
    using parts(5) heap.pop_count[OF pop] le_trans unfolding inv_once_def by fastforce
  moreover have "inv_known (s\<lparr>ss_queue := q\<rparr>)"
    using parts(3) less unfolding inv_known_def by auto
  moreover have "inv_done (insert (he_key e) F) (s\<lparr>ss_queue := q\<rparr>)"
    unfolding inv_done_def
  proof
    fix u assume "u \<in> insert (he_key e) F"
    then consider "u = he_key e" | "u \<in> F" by blast
    then show "\<exists>d. ss_distances (s\<lparr>ss_queue := q\<rparr>) u = Some d \<and>
        (\<forall>v x. entry_of v x \<in># mset (ss_queue (s\<lparr>ss_queue := q\<rparr>)) \<longrightarrow> d \<le> x)"
    proof cases
      case 1
      have "he_distance e \<le> x" if "entry_of v x \<in># mset q" for v x
        using least less that by blast
      then show ?thesis using 1 live by simp
    next
      case 2
      then obtain d where "ss_distances s u = Some d"
          "\<forall>v x. entry_of v x \<in># mset (ss_queue s) \<longrightarrow> d \<le> x"
        using parts(6) unfolding inv_done_def by blast
      then show ?thesis using less by auto
    qed
  qed
  moreover have "inv_pred p (insert (he_key e) F) (s\<lparr>ss_queue := q\<rparr>)"
    using inv_pred_mono[OF parts(7)] by (simp add: inv_pred_def)
  ultimately show "search_core p (insert (he_key e) F) (s\<lparr>ss_queue := q\<rparr>)"
    using parts(2) heap.ok_pop[OF parts(1) pop] by (simp add: search_core_def inv_reach_def)
qed

text \<open>Relaxing one edge out of a state just finalised.\<close>

lemma relax_edge_cases:
  obtains "relax_edge p u d (m, w, b) s = s" "relaxed_to p s u d (m, w, b)"
  | "b \<noteq> opposite_heading (snd u)"
    "\<forall>old. ss_distances s (m, b) = Some old \<longrightarrow> d + w + turn_cost p (snd u) b < old"
    "relax_edge p u d (m, w, b) s =
      s\<lparr>ss_distances := (ss_distances s)((m, b) := Some (d + w + turn_cost p (snd u) b)),
        ss_previous := (ss_previous s)((m, b) := Some u),
        ss_queue := heap_push (m, b) (d + w + turn_cost p (snd u) b) (ss_queue s)\<rparr>"
proof (cases "b = opposite_heading (snd u)")
  case True
  then show ?thesis using that(1) by (simp add: relax_edge_def relaxed_to_def)
next
  case False
  show ?thesis
  proof (cases "\<exists>old. ss_distances s (m, b) = Some old \<and> old \<le> d + w + turn_cost p (snd u) b")
    case True
    then show ?thesis using that(1) False by (auto simp: relax_edge_def relaxed_to_def Let_def)
  next
    case worse: False
    then have "\<forall>old. ss_distances s (m, b) = Some old \<longrightarrow> d + w + turn_cost p (snd u) b < old" by auto
    then show ?thesis
      using that(2)[OF False] worse False
      by (cases "ss_distances s (m, b)") (auto simp: relax_edge_def Let_def)
  qed
qed

definition below :: "'n visit set \<Rightarrow> rat \<Rightarrow> 'n search_state \<Rightarrow> bool" where
  "below F d s \<longleftrightarrow> (\<forall>u \<in> F. \<exists>e. ss_distances s u = Some e \<and> e \<le> d)"

definition closer :: "'n visit set \<Rightarrow> 'n search_state \<Rightarrow> 'n search_state \<Rightarrow> bool" where
  "closer F s s' \<longleftrightarrow> ss_target s' = ss_target s \<and> ss_visited s' = ss_visited s \<and>
    (\<forall>u \<in> F. ss_distances s' u = ss_distances s u) \<and>
    (\<forall>u e. ss_distances s u = Some e \<longrightarrow> (\<exists>e'. ss_distances s' u = Some e' \<and> e' \<le> e))"

lemma closer_refl: "closer F s s"
  by (auto simp: closer_def)

lemma closer_trans: "closer F s s' \<Longrightarrow> closer F s' s'' \<Longrightarrow> closer F s s''"
  unfolding closer_def by (metis order_trans)

lemma closer_final: "closer F s s' \<Longrightarrow> u \<in> F \<Longrightarrow> ss_distances s' u = ss_distances s u"
  by (simp add: closer_def)

lemma closer_le:
  "closer F s s' \<Longrightarrow> ss_distances s u = Some e \<Longrightarrow> \<exists>e'. ss_distances s' u = Some e' \<and> e' \<le> e"
  by (simp add: closer_def)

lemma closer_relaxed:
  "closer F s s' \<Longrightarrow> relaxed_to p s u d edge \<Longrightarrow> relaxed_to p s' u d edge"
  unfolding relaxed_to_def using closer_le order_trans by (fastforce split: prod.splits)

lemma relax_edge_core:
  assumes core: "search_core p F s" and pos: "positive_setup p"
    and u: "u \<in> F" "ss_distances s u = Some d" "fst u \<noteq> su_target p" and below: "below F d s"
    and edge: "(m, w, b) \<in> set (su_adjacency p (fst u))"
  shows "search_core p F (relax_edge p u d (m, w, b) s) \<and>
    closer F s (relax_edge p u d (m, w, b) s) \<and>
    relaxed_to p (relax_edge p u d (m, w, b) s) u d (m, w, b)"
proof (cases rule: relax_edge_cases[of p u d m w b s])
  case 1
  then show ?thesis using core closer_refl by metis
next
  case 2
  note parts = core_parts[OF core]
  define c where "c = d + w + turn_cost p (snd u) b"
  define v where "v = (m, b)"
  define s' where "s' = s\<lparr>ss_distances := (ss_distances s)(v := Some c),
    ss_previous := (ss_previous s)(v := Some u), ss_queue := heap_push v c (ss_queue s)\<rparr>"
  have eq: "relax_edge p u d (m, w, b) s = s'" using 2(3) by (simp add: s'_def c_def v_def)
  have worse: "c < old" if "ss_distances s v = Some old" for old
    using 2(2) that by (simp add: c_def v_def)
  have w: "0 < w" using positive_weight[OF pos edge] .
  have cd: "d < c" using w turn_cost_nonneg[OF pos, of "snd u" b] by (simp add: c_def)
  have vF: "v \<notin> F" using below worse cd unfolding below_def by (metis less_trans not_le)
  have walk: "walk p v c"
    using walk_edge[OF _ edge 2(1)] parts(2) u(2) unfolding inv_reach_def c_def v_def by blast
  have vs: "v \<noteq> su_source p"
    using worse walk_nonneg[OF walk pos] parts(2) unfolding inv_reach_def by fastforce
  have D: "ss_distances s' x = (if x = v then Some c else ss_distances s x)" for x
    by (simp add: s'_def)
  have Q: "f \<in> set (ss_queue s') \<longleftrightarrow> f = entry_of v c \<or> f \<in> set (ss_queue s)" for f
    unfolding s'_def using heap.push_member[of f v c "ss_queue s"] by simp
  have new: "entry_of v c \<notin># mset (ss_queue s)"
  proof
    assume "entry_of v c \<in># mset (ss_queue s)"
    then obtain e where "ss_distances s v = Some e" "e \<le> c"
      using parts(3) unfolding inv_known_def by blast
    then show False using worse by fastforce
  qed
  have "heap_ok (ss_queue s')" unfolding s'_def using heap.ok_push[OF parts(1)] by simp
  moreover have "inv_reach p s'" using parts(2) vs walk by (simp add: inv_reach_def D)
  moreover have "inv_known s'"
    unfolding inv_known_def
  proof (intro allI impI)
    fix x e assume "entry_of x e \<in># mset (ss_queue s')"
    then consider "x = v" "e = c" | "entry_of x e \<in># mset (ss_queue s)"
      using Q[of "entry_of x e"] by auto
    then show "\<exists>d. ss_distances s' x = Some d \<and> d \<le> e"
    proof cases
      case 2
      then obtain d0 where "ss_distances s x = Some d0" "d0 \<le> e"
        using parts(3) unfolding inv_known_def by blast
      then show ?thesis using worse[of d0] by (auto simp: D)
    qed (simp add: D)
  qed
  moreover have "inv_open F s'"
    using parts(4) vF by (auto simp: inv_open_def D Q)
  moreover have "inv_once s'"
    unfolding inv_once_def
  proof (intro allI impI)
    fix x e assume e: "ss_distances s' x = Some e"
    have "count (mset (ss_queue s')) (entry_of x e) =
        (if entry_of x e = entry_of v c then 1 else count (mset (ss_queue s)) (entry_of x e))"
      unfolding s'_def using heap.push_fresh[OF new] by (simp add: heap_push_mset)
    then show "count (mset (ss_queue s')) (entry_of x e) \<le> 1"
      using parts(5) e unfolding inv_once_def by (auto simp: D split: if_splits)
  qed
  moreover have "inv_done F s'"
    unfolding inv_done_def
  proof
    fix x assume x: "x \<in> F"
    then obtain e where e: "ss_distances s x = Some e"
        "\<forall>y f. entry_of y f \<in># mset (ss_queue s) \<longrightarrow> e \<le> f"
      using parts(6) unfolding inv_done_def by blast
    have "e \<le> c" using below x e(1) cd unfolding below_def by fastforce
    then show "\<exists>e. ss_distances s' x = Some e \<and> (\<forall>y f. entry_of y f \<in># mset (ss_queue s') \<longrightarrow> e \<le> f)"
      using e x vF by (auto simp: D Q)
  qed
  moreover have "inv_pred p F s'"
    unfolding inv_pred_def
  proof (intro allI impI)
    fix x e assume x: "ss_distances s' x = Some e" "x \<noteq> su_source p"
    show "\<exists>y z k. ss_previous s' x = Some y \<and> y \<in> F \<and> ss_distances s' y = Some z \<and>
        (fst x, k, snd x) \<in> set (su_adjacency p (fst y)) \<and> snd x \<noteq> opposite_heading (snd y) \<and>
        e = z + k + turn_cost p (snd y) (snd x)"
    proof (cases "x = v")
      case True
      have "ss_distances s' u = Some d" using u vF by (auto simp: D)
      moreover have "ss_previous s' x = Some u" using True by (simp add: s'_def)
      moreover have "e = d + w + turn_cost p (snd u) (snd x)"
        using x True by (simp add: D v_def c_def)
      moreover have "(fst x, w, snd x) \<in> set (su_adjacency p (fst u))"
          "snd x \<noteq> opposite_heading (snd u)"
        using True edge 2(1) by (simp_all add: v_def)
      ultimately show ?thesis using u(1) by blast
    next
      case False
      then obtain y z k where y: "ss_previous s x = Some y" "y \<in> F" "ss_distances s y = Some z"
          "(fst x, k, snd x) \<in> set (su_adjacency p (fst y))" "snd x \<noteq> opposite_heading (snd y)"
          "e = z + k + turn_cost p (snd y) (snd x)"
        using parts(7) x unfolding inv_pred_def D by (metis (full_types))
      moreover have "ss_distances s' y = Some z" using y vF by (auto simp: D)
      moreover have "ss_previous s' x = Some y" using y False by (simp add: s'_def)
      ultimately show ?thesis by blast
    qed
  qed
  ultimately have "search_core p F s'" by (simp add: search_core_def)
  moreover have "closer F s s'"
    using vF worse unfolding closer_def by (auto simp: D s'_def less_imp_le)
  moreover have "relaxed_to p s' u d (m, w, b)"
    by (simp add: relaxed_to_def D v_def c_def)
  ultimately show ?thesis using eq by simp
qed

lemma below_closer: "below F d s \<Longrightarrow> closer F s s' \<Longrightarrow> below F d s'"
  by (simp add: below_def closer_def)

lemma relax_all:
  assumes pos: "positive_setup p" and u: "u \<in> F" "fst u \<noteq> su_target p"
  shows "set es \<subseteq> set (su_adjacency p (fst u)) \<Longrightarrow> search_core p F s \<Longrightarrow>
    ss_distances s u = Some d \<Longrightarrow> below F d s \<Longrightarrow>
    search_core p F (fold (relax_edge p u d) es s) \<and> closer F s (fold (relax_edge p u d) es s) \<and>
    (\<forall>edge \<in> set es. relaxed_to p (fold (relax_edge p u d) es s) u d edge)"
proof (induction es arbitrary: s)
  case Nil
  then show ?case by (simp add: closer_refl)
next
  case (Cons edge es)
  obtain m w b where edge: "edge = (m, w, b)" by (cases edge)
  let ?s1 = "relax_edge p u d edge s"
  have "(m, w, b) \<in> set (su_adjacency p (fst u))" using Cons.prems(1) edge by simp
  then have one: "search_core p F ?s1" "closer F s ?s1" "relaxed_to p ?s1 u d edge"
    using relax_edge_core[OF Cons.prems(2) pos u(1) Cons.prems(3) u(2) Cons.prems(4)] edge by blast+
  have "ss_distances ?s1 u = Some d" using closer_final[OF one(2) u(1)] Cons.prems(3) by simp
  then have "search_core p F (fold (relax_edge p u d) es ?s1)"
      "closer F ?s1 (fold (relax_edge p u d) es ?s1)"
      "\<forall>edge \<in> set es. relaxed_to p (fold (relax_edge p u d) es ?s1) u d edge"
    using Cons.IH[OF _ one(1) _ below_closer[OF Cons.prems(4) one(2)]] Cons.prems(1) by simp_all
  then show ?case using closer_trans[OF one(2)] closer_relaxed one(3) by fastforce
qed

text \<open>Every walk is accounted for: by a finalised state, by one still in the queue, or by an
  arrival at the target that it runs through.\<close>

definition search_ok :: "'n search_setup \<Rightarrow> 'n visit set \<Rightarrow> 'n search_state \<Rightarrow> bool" where
  "search_ok p F s \<longleftrightarrow> search_core p F s \<and> inv_relaxed p F s \<and> inv_target p F s"

lemma walk_cover:
  assumes "search_core p F s" "inv_relaxed p F s" "positive_setup p"
  shows "walk p u d \<Longrightarrow>
    (u \<in> F \<and> (\<exists>e. ss_distances s u = Some e \<and> e \<le> d)) \<or>
    (\<exists>v e. v \<notin> F \<and> ss_distances s v = Some e \<and> e \<le> d) \<or>
    (\<exists>t e. t \<in> F \<and> fst t = su_target p \<and> ss_distances s t = Some e \<and> e \<le> d \<and>
      (snd t = snd u \<or> e + su_bendPenalty p \<le> d))"
proof (induction rule: walk.induct)
  case walk_start
  then show ?case using core_parts(2)[OF assms(1)] unfolding inv_reach_def by auto
next
  case (walk_edge u d m w b)
  let ?d = "d + w + turn_cost p (snd u) b"
  have w: "0 < w" using positive_weight[OF assms(3) walk_edge.hyps(2)] .
  have t: "0 \<le> turn_cost p (snd u) b" using turn_cost_nonneg[OF assms(3)] .
  from walk_edge.IH consider (final) e where "u \<in> F" "ss_distances s u = Some e" "e \<le> d"
    | (queued) v e where "v \<notin> F" "ss_distances s v = Some e" "e \<le> d"
    | (through) t e where "t \<in> F" "fst t = su_target p" "ss_distances s t = Some e" "e \<le> d"
        "snd t = snd u \<or> e + su_bendPenalty p \<le> d" by blast
  then show ?case
  proof cases
    case final
    show ?thesis
    proof (cases "fst u = su_target p")
      case True
      then show ?thesis
        using final w t by (intro disjI2 exI[of _ u] exI[of _ e]) (auto simp: turn_cost_def)
    next
      case False
      then have "relaxed_to p s u e (m, w, b)"
        using assms(2) final walk_edge.hyps(2) unfolding inv_relaxed_def by blast
      then obtain x where "ss_distances s (m, b) = Some x" "x \<le> e + w + turn_cost p (snd u) b"
        using walk_edge.hyps(3) by (auto simp: relaxed_to_def)
      then show ?thesis using final(3) by (cases "(m, b) \<in> F") force+
    qed
  next
    case queued
    moreover have "e \<le> ?d" using queued(3) w t by simp
    ultimately show ?thesis by blast
  next
    case through
    moreover have "e \<le> ?d" using through(4) w t by simp
    moreover have "snd t = b \<or> e + su_bendPenalty p \<le> ?d"
      using through(4,5) w t by (auto simp: turn_cost_def)
    ultimately show ?thesis by (metis snd_conv)
  qed
qed

lemma arrival_mono: "d \<le> e \<Longrightarrow> arrival_cost p u d \<le> arrival_cost p u e"
  by (simp add: arrival_cost_def)

lemma best_covers:
  assumes ok: "search_ok p F s" and pos: "positive_setup p"
    and walk: "walk p u e" "fst u = su_target p"
  shows "(\<exists>t c. ss_target s = Some (t, c) \<and> c \<le> arrival_cost p u e) \<or>
    (\<exists>v x. v \<notin> F \<and> ss_distances s v = Some x \<and> x \<le> e)"
proof -
  have best: "\<exists>t c. ss_target s = Some (t, c) \<and> c \<le> arrival_cost p v d"
    if "v \<in> F" "fst v = su_target p" "ss_distances s v = Some d" for v d
    using ok that unfolding search_ok_def inv_target_def by blast
  from ok have "search_core p F s" "inv_relaxed p F s" by (simp_all add: search_ok_def)
  from walk_cover[OF this pos walk(1)]
  consider (final) x where "u \<in> F" "ss_distances s u = Some x" "x \<le> e"
    | (queued) v x where "v \<notin> F" "ss_distances s v = Some x" "x \<le> e"
    | (through) t x where "t \<in> F" "fst t = su_target p" "ss_distances s t = Some x" "x \<le> e"
        "snd t = snd u \<or> x + su_bendPenalty p \<le> e" by blast
  then show ?thesis
  proof cases
    case final
    then show ?thesis using best[of u x] walk(2) arrival_mono[of x e p u] order_trans by blast
  next
    case queued
    then show ?thesis by blast
  next
    case through
    have "0 \<le> su_bendPenalty p" using pos by (simp add: positive_setup_def)
    then have "arrival_cost p t x \<le> arrival_cost p u e"
      using through(4,5) by (auto simp: arrival_cost_def)
    then show ?thesis using best[OF through(1,2,3)] order_trans by blast
  qed
qed

section \<open>What the loop returns\<close>

text \<open>The distances are those of walks, every state but the source has a predecessor that
  accounts for its distance, the best arrival is one of them, and no walk arrives cheaper.\<close>

definition search_answer :: "'n search_setup \<Rightarrow> 'n search_state \<Rightarrow> bool" where
  "search_answer p s \<longleftrightarrow>
    inv_reach p s \<and> inv_pred p UNIV s \<and>
    (\<forall>t c. ss_target s = Some (t, c) \<longrightarrow> fst t = su_target p \<and>
      (\<exists>d. ss_distances s t = Some d \<and> c = arrival_cost p t d)) \<and>
    (\<forall>u e. walk p u e \<longrightarrow> fst u = su_target p \<longrightarrow>
      (\<exists>t c. ss_target s = Some (t, c) \<and> c \<le> arrival_cost p u e))"

lemma search_ok_answer:
  assumes ok: "search_ok p F s"
    and all: "\<And>u e. walk p u e \<Longrightarrow> fst u = su_target p \<Longrightarrow>
      \<exists>t c. ss_target s = Some (t, c) \<and> c \<le> arrival_cost p u e"
  shows "search_answer p s"
proof -
  have parts: "inv_reach p s" "inv_pred p F s" "inv_target p F s"
    using ok by (simp_all add: search_ok_def search_core_def)
  have "inv_pred p UNIV s" using parts(2) unfolding inv_pred_def by (metis UNIV_I)
  then show ?thesis
    using parts(1,3) all unfolding search_answer_def inv_target_def by blast
qed

lemma core_visited [simp]:
  "search_core p F (s\<lparr>ss_visited := n\<rparr>) = search_core p F s"
  "search_core p F (s\<lparr>ss_target := t\<rparr>) = search_core p F s"
  by (simp_all add: search_core_def inv_reach_def inv_known_def inv_open_def inv_once_def
      inv_done_def inv_pred_def)

lemma relaxed_visited [simp]:
  "inv_relaxed p F (s\<lparr>ss_visited := n\<rparr>) = inv_relaxed p F s"
  "inv_relaxed p F (s\<lparr>ss_target := t\<rparr>) = inv_relaxed p F s"
  "inv_relaxed p F (s\<lparr>ss_queue := q\<rparr>) = inv_relaxed p F s"
  by (simp_all add: inv_relaxed_def relaxed_to_def)

lemma target_visited [simp]:
  "inv_target p F (s\<lparr>ss_visited := n\<rparr>) = inv_target p F s"
  "inv_target p F (s\<lparr>ss_queue := q\<rparr>) = inv_target p F s"
  by (simp_all add: inv_target_def)

lemma arrive_simps [simp]:
  "ss_distances (arrive p u d s) = ss_distances s"
  "ss_queue (arrive p u d s) = ss_queue s"
  "search_core p F (arrive p u d s) = search_core p F s"
  "inv_relaxed p F (arrive p u d s) = inv_relaxed p F s"
  by (simp_all add: arrive_def Let_def)

lemma arrive_target:
  assumes "inv_target p F s" "ss_distances s u = Some d" "fst u = su_target p"
  shows "inv_target p (insert u F) (arrive p u d s)"
    and "\<exists>t c. ss_target (arrive p u d s) = Some (t, c) \<and> c \<le> arrival_cost p u d"
proof -
  let ?T = "ss_target (arrive p u d s)"
  have T: "?T = (case ss_target s of None \<Rightarrow> Some (u, arrival_cost p u d)
      | Some t \<Rightarrow> if arrival_cost p u d < snd t then Some (u, arrival_cost p u d) else Some t)"
    by (auto simp: arrive_def Let_def arrival_cost_def split: option.splits)
  then show new: "\<exists>t c. ?T = Some (t, c) \<and> c \<le> arrival_cost p u d"
    by (cases "ss_target s") (auto simp: not_less)
  have old: "\<exists>t c. ?T = Some (t, c) \<and> c \<le> arrival_cost p v e"
    if v: "v \<in> F" "fst v = su_target p" "ss_distances s v = Some e" for v e
  proof -
    obtain t c where "ss_target s = Some (t, c)" "c \<le> arrival_cost p v e"
      using assms(1) v unfolding inv_target_def by blast
    then show ?thesis by (auto simp: T)
  qed
  have kept: "t \<in> insert u F \<and> fst t = su_target p \<and>
      (\<exists>e. ss_distances s t = Some e \<and> c = arrival_cost p t e)"
    if "?T = Some (t, c)" for t c
  proof (cases "ss_target s = Some (t, c)")
    case True
    then show ?thesis using assms(1) unfolding inv_target_def by blast
  next
    case False
    then have "t = u" "c = arrival_cost p u d"
      using that by (auto simp: T split: option.splits if_splits)
    then show ?thesis using assms by auto
  qed
  show "inv_target p (insert u F) (arrive p u d s)"
    unfolding inv_target_def arrive_simps
  proof (intro conjI ballI allI impI)
    fix v e assume "v \<in> insert u F" "fst v = su_target p" "ss_distances s v = Some e"
    then show "\<exists>t c. ?T = Some (t, c) \<and> c \<le> arrival_cost p v e"
      using new old assms(2) by (cases "v = u") auto
  qed (use kept in blast)+
qed

lemma relaxed_insert_target:
  "inv_relaxed p F s \<Longrightarrow> fst u = su_target p \<Longrightarrow> inv_relaxed p (insert u F) s"
  by (auto simp: inv_relaxed_def)

lemma target_insert_other:
  "inv_target p F s \<Longrightarrow> fst u \<noteq> su_target p \<Longrightarrow> inv_target p (insert u F) s"
  unfolding inv_target_def by (metis insert_iff)

lemma relaxed_closer:
  assumes "inv_relaxed p F s" "closer (insert u F) s s'"
    and "ss_distances s u = Some d" "\<forall>edge \<in> set (su_adjacency p (fst u)). relaxed_to p s' u d edge"
  shows "inv_relaxed p (insert u F) s'"
  unfolding inv_relaxed_def
proof (intro ballI allI impI)
  fix v e edge
  assume v: "v \<in> insert u F" "fst v \<noteq> su_target p" "ss_distances s' v = Some e"
    "edge \<in> set (su_adjacency p (fst v))"
  have e: "ss_distances s v = Some e" using closer_final[OF assms(2) v(1)] v(3) by simp
  show "relaxed_to p s' v e edge"
  proof (cases "v = u")
    case True
    then show ?thesis using e assms(3,4) v(4) by simp
  next
    case False
    then have "relaxed_to p s v e edge"
      using assms(1) v e unfolding inv_relaxed_def by blast
    then show ?thesis by (rule closer_relaxed[OF assms(2)])
  qed
qed

lemma target_closer:
  assumes "inv_target p F s" "closer F s s'"
  shows "inv_target p F s'"
  using assms unfolding inv_target_def closer_def by metis

lemma search_step_ok:
  assumes ok: "search_ok p F s" and pos: "positive_setup p"
    and pop: "heap_pop (ss_queue s) = Some (e, q)"
  shows "(\<exists>s'. search_step p e (s\<lparr>ss_queue := q\<rparr>) = Stop_loop s' \<and> search_answer p s') \<or>
    (\<exists>s' F'. search_step p e (s\<lparr>ss_queue := q\<rparr>) = Continue_loop s' \<and> search_ok p F' s' \<and>
      (F' = F \<and> size (mset (ss_queue s')) < size (mset (ss_queue s)) \<or>
       he_key e \<notin> F \<and> F' = insert (he_key e) F))"
proof (cases "ss_distances s (he_key e) = Some (he_distance e)")
  case False
  have "search_ok p F (s\<lparr>ss_queue := q\<rparr>)"
    using ok pop_stale[OF _ pop False] by (simp add: search_ok_def)
  moreover have "search_step p e (s\<lparr>ss_queue := q\<rparr>) = Continue_loop (s\<lparr>ss_queue := q\<rparr>)"
    using False by (simp add: search_step_def Let_def)
  ultimately show ?thesis using heap.pop_size[OF pop] by fastforce
next
  case True
  let ?u = "he_key e" and ?d = "he_distance e"
  let ?F = "insert ?u F"
  let ?s1 = "s\<lparr>ss_queue := q, ss_visited := ss_visited s + 1\<rparr>"
  have parts: "search_core p F s" "inv_relaxed p F s" "inv_target p F s"
    using ok by (simp_all add: search_ok_def)
  note final = pop_final[OF parts(1) pop True]
  have core: "search_core p ?F ?s1" using final(2) by simp
  have live: "ss_distances ?s1 ?u = Some ?d" using True by simp
  show ?thesis
  proof (cases "fst ?u = su_target p")
    case tgt: True
    let ?s2 = "arrive p ?u ?d ?s1"
    have T: "inv_target p ?F ?s2" "\<exists>t c. ss_target ?s2 = Some (t, c) \<and> c \<le> arrival_cost p ?u ?d"
      using arrive_target[OF _ live tgt, of F] parts(3) by simp_all
    have R: "inv_relaxed p ?F ?s2" using relaxed_insert_target[OF parts(2) tgt] by simp
    have ok2: "search_ok p ?F ?s2" using core R T(1) by (simp add: search_ok_def)
    show ?thesis
    proof (cases "snd ?u = su_targetAxis p \<or> su_bendPenalty p = 0")
      case True
      have "search_answer p ?s2"
      proof (rule search_ok_answer[OF ok2])
        fix v x assume v: "walk p v x" "fst v = su_target p"
        have c: "arrival_cost p ?u ?d = ?d" using True by (auto simp: arrival_cost_def)
        have "x \<le> arrival_cost p v x" using pos by (simp add: arrival_cost_def positive_setup_def)
        moreover have "(\<exists>t c. ss_target ?s2 = Some (t, c) \<and> c \<le> arrival_cost p v x) \<or> ?d \<le> x"
          using best_covers[OF ok2 pos v] final(4) True by force
        ultimately show "\<exists>t c. ss_target ?s2 = Some (t, c) \<and> c \<le> arrival_cost p v x"
          using T(2) c by fastforce
      qed
      then show ?thesis using live tgt True by (simp add: search_step_def Let_def)
    next
      case False
      then have "search_step p e (s\<lparr>ss_queue := q\<rparr>) = Continue_loop ?s2"
        using live tgt by (simp add: search_step_def Let_def)
      then show ?thesis using ok2 final(1) by blast
    qed
  next
    case other: False
    have T1: "inv_target p ?F ?s1" using target_insert_other[OF parts(3) other] by simp
    show ?thesis
    proof (cases "\<exists>t c. ss_target s = Some (t, c) \<and> c \<le> ?d")
      case True
      then obtain t c where t: "ss_target s = Some (t, c)" "c \<le> ?d" by blast
      have "search_answer p s"
      proof (rule search_ok_answer[OF ok])
        fix v x assume v: "walk p v x" "fst v = su_target p"
        have "x \<le> arrival_cost p v x" using pos by (simp add: arrival_cost_def positive_setup_def)
        then show "\<exists>t c. ss_target s = Some (t, c) \<and> c \<le> arrival_cost p v x"
          using best_covers[OF ok pos v] final(4) t by fastforce
      qed
      then have "search_answer p ?s1" by (simp add: search_answer_def inv_pred_def inv_reach_def)
      moreover have "search_step p e (s\<lparr>ss_queue := q\<rparr>) = Stop_loop ?s1"
        using live other t by (simp add: search_step_def Let_def)
      ultimately show ?thesis by blast
    next
      case False
      let ?s2 = "fold (relax_edge p ?u ?d) (su_adjacency p (fst ?u)) ?s1"
      have "below ?F ?d ?s1" using final(3) live by (simp add: below_def)
      then have rel: "search_core p ?F ?s2" "closer ?F ?s1 ?s2"
          "\<forall>edge \<in> set (su_adjacency p (fst ?u)). relaxed_to p ?s2 ?u ?d edge"
        using relax_all[OF pos _ other _ core live, of "su_adjacency p (fst ?u)"] by simp_all
      have "inv_relaxed p ?F ?s2"
        using relaxed_closer[OF _ rel(2) live rel(3)] parts(2) by simp
      then have "search_ok p ?F ?s2"
        using rel(1) target_closer[OF T1 rel(2)] by (simp add: search_ok_def)
      moreover have "search_step p e (s\<lparr>ss_queue := q\<rparr>) = Continue_loop ?s2"
        using live other False by (auto simp: search_step_def Let_def split: option.splits)
      ultimately show ?thesis using final(1) by blast
    qed
  qed
qed

text \<open>The loop ends: each pass drops a stale entry or finalises one more of the states a walk
  reaches.\<close>

definition reachable :: "'n search_setup \<Rightarrow> 'n visit set" where
  "reachable p = {u. \<exists>d. walk p u d}"

lemma finalised_reachable:
  assumes "search_core p F s"
  shows "F \<subseteq> reachable p"
proof
  fix u assume "u \<in> F"
  then obtain d where "ss_distances s u = Some d"
    using core_parts(6)[OF assms] unfolding inv_done_def by blast
  then show "u \<in> reachable p"
    using core_parts(2)[OF assms] unfolding inv_reach_def reachable_def by blast
qed

lemma search_loop_answers:
  assumes fin: "finite (reachable p)" and pos: "positive_setup p"
  shows "search_ok p F s \<Longrightarrow> \<exists>s'. search_loop p s = Some s' \<and> search_answer p s'"
proof (induction "(card (reachable p - F), size (mset (ss_queue s)))" arbitrary: F s
    rule: wf_induct_rule[OF wf_lex_prod[OF wf_less wf_less]])
  case (1 F s)
  show ?case
  proof (cases "heap_pop (ss_queue s)")
    case None
    have "search_answer p s"
    proof (rule search_ok_answer[OF "1.prems"])
      fix u e assume u: "walk p u e" "fst u = su_target p"
      have "search_core p F s" using "1.prems" by (simp add: search_ok_def)
      moreover have "mset (ss_queue s) = {#}" using None heap.pop_None by blast
      ultimately have "v \<in> F" if "ss_distances s v = Some x" for v x
        using core_parts(4) that unfolding inv_open_def by force
      then show "\<exists>t c. ss_target s = Some (t, c) \<and> c \<le> arrival_cost p u e"
        using best_covers[OF "1.prems" pos u] by blast
    qed
    then show ?thesis using None by (simp add: search_loop.simps)
  next
    case (Some r)
    obtain e q where r: "r = (e, q)" by (cases r)
    have pop: "heap_pop (ss_queue s) = Some (e, q)" using Some r by simp
    from search_step_ok[OF "1.prems" pos pop] show ?thesis
    proof (elim disjE exE conjE)
      fix s' assume "search_step p e (s\<lparr>ss_queue := q\<rparr>) = Stop_loop s'" "search_answer p s'"
      then show ?thesis using pop by (simp add: search_loop.simps)
    next
      fix s' F'
      assume step: "search_step p e (s\<lparr>ss_queue := q\<rparr>) = Continue_loop s'" "search_ok p F' s'"
        and "F' = F" "size (mset (ss_queue s')) < size (mset (ss_queue s))"
      then have "\<exists>s''. search_loop p s' = Some s'' \<and> search_answer p s''" by (intro "1.hyps") simp_all
      then show ?thesis using pop step by (simp add: search_loop.simps)
    next
      fix s' F'
      assume step: "search_step p e (s\<lparr>ss_queue := q\<rparr>) = Continue_loop s'" "search_ok p F' s'"
        and new: "he_key e \<notin> F" "F' = insert (he_key e) F"
      have "F' \<subseteq> reachable p" using step(2) finalised_reachable by (auto simp: search_ok_def)
      then have "reachable p - F' \<subset> reachable p - F" using new by blast
      then have "card (reachable p - F') < card (reachable p - F)"
        using fin by (intro psubset_card_mono) simp_all
      then have "\<exists>s''. search_loop p s' = Some s'' \<and> search_answer p s''"
        using step(2) by (intro "1.hyps") simp_all
      then show ?thesis using pop step by (simp add: search_loop.simps)
    qed
  qed
qed

lemma heap_push_Nil: "heap_push k d [] = [entry_of k d]"
  by (simp add: heap_push_def sift_up.simps)

lemma start_search_ok: "search_ok p {} (start_search p)"
  by (auto simp: search_ok_def search_core_def start_search_def heap_push_Nil heap_ok_def
      inv_reach_def inv_known_def inv_open_def inv_once_def inv_done_def inv_pred_def
      inv_relaxed_def inv_target_def intro: walk_start)

lemma search_answers:
  assumes "finite (reachable p)" "positive_setup p"
  obtains s where "search_loop p (start_search p) = Some s" "search_answer p s"
  using search_loop_answers[OF assms start_search_ok] by blast

section \<open>The route read back\<close>

text \<open>A chain of states from the source, each reached from the one before by an edge, with the
  cost of its edges and turns.\<close>

fun chain_cost :: "'n search_setup \<Rightarrow> 'n visit list \<Rightarrow> rat \<Rightarrow> bool" where
  "chain_cost p [] c \<longleftrightarrow> False"
| "chain_cost p [u] c \<longleftrightarrow> u = su_source p \<and> c = 0"
| "chain_cost p (u # v # us) c \<longleftrightarrow>
    (\<exists>w x. (fst u, w, snd u) \<in> set (su_adjacency p (fst v)) \<and> snd u \<noteq> opposite_heading (snd v) \<and>
      c = x + w + turn_cost p (snd v) (snd u) \<and> chain_cost p (v # us) x)"

lemma chain_walk: "chain_cost p us c \<Longrightarrow> walk p (hd us) c"
proof (induction p us c rule: chain_cost.induct)
  case (3 p u v us c)
  then obtain w x where "(fst u, w, snd u) \<in> set (su_adjacency p (fst v))"
      "snd u \<noteq> opposite_heading (snd v)" "c = x + w + turn_cost p (snd v) (snd u)" "walk p v x"
    by auto
  then show ?case using walk_edge[of p v x "fst u" w "snd u"] by simp
qed (auto intro: walk_start)

lemma trace_back_chain:
  assumes fin: "finite (reachable p)" and pos: "positive_setup p" and ans: "search_answer p s"
  shows "ss_distances s u = Some d \<Longrightarrow>
    \<exists>us. trace_back (ss_previous s) (su_source p) u = Some (u # us) \<and> chain_cost p (u # us) d"
proof (induction "card {v \<in> reachable p. \<exists>e. ss_distances s v = Some e \<and> e < d}" arbitrary: u d
    rule: less_induct)
  case less
  show ?case
  proof (cases "u = su_source p")
    case True
    then have "d = 0" using ans less.prems by (simp add: search_answer_def inv_reach_def)
    then show ?thesis using True by (simp add: trace_back.simps)
  next
    case False
    then obtain v x w where v: "ss_previous s u = Some v" "ss_distances s v = Some x"
        "(fst u, w, snd u) \<in> set (su_adjacency p (fst v))" "snd u \<noteq> opposite_heading (snd v)"
        "d = x + w + turn_cost p (snd v) (snd u)"
      using ans less.prems unfolding search_answer_def inv_pred_def by blast
    have "x < d" using v(5) positive_weight[OF pos v(3)] turn_cost_nonneg[OF pos, of "snd v" "snd u"] by simp
    let ?A = "\<lambda>d. {v \<in> reachable p. \<exists>e. ss_distances s v = Some e \<and> e < d}"
    have "v \<in> reachable p" using ans v(2) unfolding search_answer_def inv_reach_def reachable_def by blast
    then have "v \<in> ?A d" "v \<notin> ?A x" using v(2) \<open>x < d\<close> by auto
    moreover have "?A x \<subseteq> ?A d" using \<open>x < d\<close> by force
    ultimately have "?A x \<subset> ?A d" by blast
    then have "card (?A x) < card (?A d)" using fin by (intro psubset_card_mono) simp_all
    from less.hyps[OF this v(2)] obtain us where
        "trace_back (ss_previous s) (su_source p) v = Some (v # us)"
        "chain_cost p (v # us) x" by blast
    then show ?thesis
      using False v by (intro exI[of _ "v # us"]) (auto simp: trace_back.simps)
  qed
qed

end
