(* ===== verification/DiagramGeometry.thy ===== *)
theory DiagramGeometry
imports Prelude Complex_Main
begin

text \<open>
  The geometry all diagram renderers share (\<^verbatim>\<open>renderers/shared/geometry.mjs\<close>): boxes and anchors,
  the segment predicates, and the normalisation of a route's points. Coordinates are exact
  rationals, and a box or point whose numbers are not finite is \<^verbatim>\<open>None\<close> where the code tests for
  it.

  The code compares with a tolerance of 0.0001. On coordinates that are multiples of 1/64
  (predicate \<^verbatim>\<open>fine\<close>; in binary floating point these add and multiply exactly, too) no
  product of two differences lies strictly between 0 and the tolerance, so the tolerant
  predicates decide exactly what they are named after: two segments meet, a segment meets a box,
  three points continue forward. From this the main lemma on routes: normalising the points
  of a route keeps the set of points it runs through.
\<close>

declare split_paired_All [simp del] split_paired_Ex [simp del]

type_synonym point = "rat \<times> rat"

record diagram_rect =
  dr_x :: rat
  dr_y :: rat
  dr_width :: rat
  dr_height :: rat

record diagram_segment =
  sg_start :: point
  sg_end :: point

definition tolerance :: rat where
  "tolerance = 1 / 10000"

section \<open>Boxes\<close>

definition rectsOverlap :: "diagram_rect option \<Rightarrow> diagram_rect option \<Rightarrow> rat \<Rightarrow> bool" where
  "rectsOverlap ra rb gap =
    (case ra of None \<Rightarrow> False | Some a \<Rightarrow> case rb of None \<Rightarrow> False | Some b \<Rightarrow>
      \<not> (dr_x a + dr_width a + gap \<le> dr_x b + tolerance \<or>
         dr_x b + dr_width b + gap \<le> dr_x a + tolerance \<or>
         dr_y a + dr_height a + gap \<le> dr_y b + tolerance \<or>
         dr_y b + dr_height b + gap \<le> dr_y a + tolerance))"

record diagram_box =
  bx_x1 :: rat
  bx_y1 :: rat
  bx_x2 :: rat
  bx_y2 :: rat

definition pointInBox :: "point \<Rightarrow> diagram_box \<Rightarrow> bool" where
  "pointInBox p b \<longleftrightarrow> bx_x1 b \<le> fst p \<and> fst p \<le> bx_x2 b \<and> bx_y1 b \<le> snd p \<and> snd p \<le> bx_y2 b"

section \<open>Segments\<close>

definition crossProduct :: "point \<Rightarrow> point \<Rightarrow> point \<Rightarrow> rat" where
  "crossProduct a b c =
    (fst b - fst a) * (snd c - snd a) - (snd b - snd a) * (fst c - fst a)"

definition orientation_value :: "point \<Rightarrow> point \<Rightarrow> point \<Rightarrow> rat" where
  "orientation_value a b c =
    (snd b - snd a) * (fst c - fst b) - (fst b - fst a) * (snd c - snd b)"

definition orientation :: "point \<Rightarrow> point \<Rightarrow> point \<Rightarrow> nat" where
  "orientation a b c =
    (let v = orientation_value a b c in
     if \<bar>v\<bar> < tolerance then 0 else if 0 < v then 1 else 2)"

definition onSegment :: "point \<Rightarrow> point \<Rightarrow> point \<Rightarrow> bool" where
  "onSegment a b c \<longleftrightarrow>
    fst b \<le> max (fst a) (fst c) \<and> min (fst a) (fst c) \<le> fst b \<and>
    snd b \<le> max (snd a) (snd c) \<and> min (snd a) (snd c) \<le> snd b"

definition segmentsIntersect :: "point \<Rightarrow> point \<Rightarrow> point \<Rightarrow> point \<Rightarrow> bool" where
  "segmentsIntersect a b c d =
    (let o1 = orientation a b c; o2 = orientation a b d;
         o3 = orientation c d a; o4 = orientation c d b in
     if o1 = 0 \<and> onSegment a c b then True
     else if o2 = 0 \<and> onSegment a d b then True
     else if o3 = 0 \<and> onSegment c a d then True
     else if o4 = 0 \<and> onSegment c b d then True
     else o1 \<noteq> o2 \<and> o3 \<noteq> o4)"

definition segmentIntersectsRect :: "diagram_segment \<Rightarrow> diagram_rect \<Rightarrow> rat \<Rightarrow> bool" where
  "segmentIntersectsRect sg r gap =
    (let b = \<lparr>bx_x1 = dr_x r - gap, bx_y1 = dr_y r - gap,
              bx_x2 = dr_x r + dr_width r + gap, bx_y2 = dr_y r + dr_height r + gap\<rparr>;
         p = sg_start sg; q = sg_end sg in
     if pointInBox p b \<or> pointInBox q b then True
     else segmentsIntersect p q (bx_x1 b, bx_y1 b) (bx_x2 b, bx_y1 b) \<or>
       segmentsIntersect p q (bx_x2 b, bx_y1 b) (bx_x2 b, bx_y2 b) \<or>
       segmentsIntersect p q (bx_x2 b, bx_y2 b) (bx_x1 b, bx_y2 b) \<or>
       segmentsIntersect p q (bx_x1 b, bx_y2 b) (bx_x1 b, bx_y1 b))"

definition properSegmentIntersection :: "point \<Rightarrow> point \<Rightarrow> point \<Rightarrow> point \<Rightarrow> point option" where
  "properSegmentIntersection a b c d =
    (let opposite = (\<lambda>l r. (tolerance < l \<and> r < - tolerance) \<or> (l < - tolerance \<and> tolerance < r)) in
     if \<not> opposite (crossProduct a b c) (crossProduct a b d) \<or>
        \<not> opposite (crossProduct c d a) (crossProduct c d b) then None
     else let denominator = (fst a - fst b) * (snd c - snd d) - (snd a - snd b) * (fst c - fst d) in
       if \<bar>denominator\<bar> < tolerance then None
       else let ab = fst a * snd b - snd a * fst b; cd = fst c * snd d - snd c * fst d in
         Some ((ab * (fst c - fst d) - (fst a - fst b) * cd) / denominator,
               (ab * (snd c - snd d) - (snd a - snd b) * cd) / denominator))"

section \<open>Route points\<close>

definition collinearForward :: "point \<Rightarrow> point \<Rightarrow> point \<Rightarrow> bool" where
  "collinearForward a b c =
    (if tolerance < \<bar>crossProduct a b c\<bar> then False
     else - tolerance \<le> (fst b - fst a) * (fst c - fst b) + (snd b - snd a) * (snd c - snd b))"

text \<open>The list under construction is kept with its last point first.\<close>

fun drop_collinear :: "point \<Rightarrow> point list \<Rightarrow> point list" where
  "drop_collinear p (b # a # ps) =
    (if collinearForward a b p then drop_collinear p (a # ps) else b # a # ps)"
| "drop_collinear p ps = ps"

definition near_point :: "point \<Rightarrow> point \<Rightarrow> bool" where
  "near_point p q \<longleftrightarrow> \<bar>fst p - fst q\<bar> \<le> tolerance \<and> \<bar>snd p - snd q\<bar> \<le> tolerance"

definition accept_point :: "point option \<Rightarrow> point list \<Rightarrow> point list" where
  "accept_point po ps =
    (case po of None \<Rightarrow> ps
     | Some p \<Rightarrow> if ps \<noteq> [] \<and> near_point p (hd ps) then ps else p # drop_collinear p ps)"

definition normalizeRoutePoints :: "point option list \<Rightarrow> point list" where
  "normalizeRoutePoints points = rev (fold accept_point points [])"

definition joinRoutePoints :: "point option \<Rightarrow> point option list \<Rightarrow> point option \<Rightarrow> point list" where
  "joinRoutePoints start via finish = rev (accept_point finish (fold accept_point via (accept_point start [])))"

section \<open>Fine coordinates\<close>

definition fine :: "rat \<Rightarrow> bool" where
  "fine x \<longleftrightarrow> x * 64 \<in> \<int>"

definition fine_point :: "point \<Rightarrow> bool" where
  "fine_point p \<longleftrightarrow> fine (fst p) \<and> fine (snd p)"

named_theorems fine_intros \<open>closure of the fine coordinates\<close>

lemma fine_add [fine_intros]: "fine x \<Longrightarrow> fine y \<Longrightarrow> fine (x + y)"
  by (simp add: fine_def distrib_right)

lemma fine_diff [fine_intros]: "fine x \<Longrightarrow> fine y \<Longrightarrow> fine (x - y)"
  by (simp add: fine_def left_diff_distrib)

lemma fine_of_int [fine_intros]: "fine (of_int k)"
  by (simp add: fine_def)

lemma fine_numeral [fine_intros]: "fine 0" "fine 1" "fine (numeral k)"
  by (simp_all add: fine_def)

lemma fine_minus [fine_intros]: "fine x \<Longrightarrow> fine (- x)"
  by (simp add: fine_def)

lemma fine_mult_int [fine_intros]: "fine x \<Longrightarrow> y \<in> \<int> \<Longrightarrow> fine (y * x)"
  by (simp add: fine_def mult.assoc)

lemma small_integer: "(x::rat) \<in> \<int> \<Longrightarrow> \<bar>x\<bar> < 1 \<Longrightarrow> x = 0"
  by (auto elim!: Ints_cases)

text \<open>A product of fine numbers, or a difference of two, is zero or above the tolerance.\<close>

lemma fine_value:
  assumes "fine a" "fine b" "fine c" "fine d" "\<bar>a * b - c * d\<bar> < 1 / 4096"
  shows "a * b = c * d"
proof -
  have "(a * 64) * (b * 64) - (c * 64) * (d * 64) \<in> \<int>"
    using assms(1-4) unfolding fine_def by (metis Ints_diff Ints_mult)
  moreover have "(a * 64) * (b * 64) - (c * 64) * (d * 64) = (a * b - c * d) * 4096"
    by (simp add: algebra_simps)
  moreover have "\<bar>(a * b - c * d) * 4096\<bar> < 1"
    using assms(5) by (simp only: abs_mult) simp
  ultimately have "(a * b - c * d) * 4096 = 0" using small_integer by metis
  then show ?thesis by simp
qed

lemma fine_eq: "fine x \<Longrightarrow> fine y \<Longrightarrow> \<bar>x - y\<bar> < 1 / 64 \<Longrightarrow> x = y"
proof -
  assume "fine x" "fine y" "\<bar>x - y\<bar> < 1 / 64"
  then have "(x - y) * 64 \<in> \<int>" "\<bar>(x - y) * 64\<bar> < 1"
    by (simp add: fine_def left_diff_distrib, simp only: abs_mult, simp)
  then show "x = y" using small_integer[of "(x - y) * 64"] by simp
qed

lemma orientation_cross: "orientation_value a b c = - crossProduct a b c"
  by (simp add: orientation_value_def crossProduct_def algebra_simps)

lemma fine_cross_zero:
  assumes "fine_point a" "fine_point b" "fine_point c" "\<bar>crossProduct a b c\<bar> < 1 / 4096"
  shows "crossProduct a b c = 0"
  using fine_value[of "fst b - fst a" "snd c - snd a" "snd b - snd a" "fst c - fst a"] assms
  by (simp add: crossProduct_def fine_point_def fine_diff)

lemma fine_orientation:
  assumes "fine_point a" "fine_point b" "fine_point c"
  shows "orientation a b c =
    (if crossProduct a b c = 0 then 0 else if crossProduct a b c < 0 then 1 else 2)"
  using fine_cross_zero[OF assms]
  by (auto simp: orientation_def orientation_cross Let_def tolerance_def)

lemma fine_near:
  assumes "fine_point p" "fine_point q"
  shows "near_point p q \<longleftrightarrow> p = q"
  using assms fine_eq[of "fst p" "fst q"] fine_eq[of "snd p" "snd q"]
  by (auto simp: near_point_def fine_point_def tolerance_def prod_eq_iff)

section \<open>Points of a segment\<close>

definition between :: "point \<Rightarrow> point \<Rightarrow> point \<Rightarrow> bool" where
  "between a b x \<longleftrightarrow> (\<exists>t. 0 \<le> t \<and> t \<le> 1 \<and>
    fst x = fst a + t * (fst b - fst a) \<and> snd x = snd a + t * (snd b - snd a))"

lemma betweenI:
  "0 \<le> t \<Longrightarrow> t \<le> 1 \<Longrightarrow> fst x = fst a + t * (fst b - fst a) \<Longrightarrow>
    snd x = snd a + t * (snd b - snd a) \<Longrightarrow> between a b x"
  by (auto simp: between_def)

lemma betweenE:
  assumes "between a b x"
  obtains t where "0 \<le> t" "t \<le> 1"
    "fst x = fst a + t * (fst b - fst a)" "snd x = snd a + t * (snd b - snd a)"
  using assms by (auto simp: between_def)

lemma between_ends [simp]: "between a b a" "between a b b"
  by (rule betweenI[of 0], simp_all, rule betweenI[of 1], simp_all)

lemma between_sym: "between a b x \<Longrightarrow> between b a x"
proof (elim betweenE)
  fix t assume "0 \<le> t" "t \<le> 1"
    "fst x = fst a + t * (fst b - fst a)" "snd x = snd a + t * (snd b - snd a)"
  then show ?thesis by (intro betweenI[of "1 - t"]) (simp_all add: algebra_simps)
qed

lemma between_same: "between a a x \<longleftrightarrow> x = a"
  by (auto simp: between_def prod_eq_iff intro: exI[of _ 0])

lemma weighted_mean:
  fixes u v t :: rat
  assumes "0 \<le> t" "t \<le> 1"
  shows "min u v \<le> u + t * (v - u)" "u + t * (v - u) \<le> max u v"
proof -
  have "0 \<le> t * \<bar>v - u\<bar>" "t * \<bar>v - u\<bar> \<le> \<bar>v - u\<bar>"
    using assms by (simp_all add: mult_left_le_one_le)
  then show "min u v \<le> u + t * (v - u)" "u + t * (v - u) \<le> max u v"
    by (auto simp: min_def max_def abs_if algebra_simps split: if_splits)
qed

lemma mean_coefficient:
  fixes u v x :: rat
  assumes "u \<noteq> v" "min u v \<le> x" "x \<le> max u v"
  shows "0 \<le> (x - u) / (v - u)" "(x - u) / (v - u) \<le> 1"
  using assms by (auto simp: min_def max_def divide_simps split: if_splits)

lemma between_iff: "between a b x \<longleftrightarrow> crossProduct a b x = 0 \<and> onSegment a x b"
proof
  assume "between a b x"
  then show "crossProduct a b x = 0 \<and> onSegment a x b"
  proof (elim betweenE)
    fix t assume t: "0 \<le> t" "t \<le> 1"
      "fst x = fst a + t * (fst b - fst a)" "snd x = snd a + t * (snd b - snd a)"
    have "crossProduct a b x = 0"
      unfolding crossProduct_def t(3,4) by (simp add: algebra_simps)
    moreover have "onSegment a x b"
      unfolding onSegment_def t(3,4) using weighted_mean[OF t(1,2)] by simp
    ultimately show ?thesis ..
  qed
next
  assume "crossProduct a b x = 0 \<and> onSegment a x b"
  then have cross: "(fst b - fst a) * (snd x - snd a) = (snd b - snd a) * (fst x - fst a)"
    and box: "min (fst a) (fst b) \<le> fst x" "fst x \<le> max (fst a) (fst b)"
      "min (snd a) (snd b) \<le> snd x" "snd x \<le> max (snd a) (snd b)"
    by (simp_all add: crossProduct_def onSegment_def)
  show "between a b x"
  proof (cases "fst a = fst b")
    case True
    show ?thesis
    proof (cases "snd a = snd b")
      case False
      have "fst x = fst a" using box(1,2) True by simp
      then show ?thesis
        using mean_coefficient[OF False box(3,4)] False True
        by (intro betweenI[of "(snd x - snd a) / (snd b - snd a)"]) simp_all
    next
      case same: True
      then have "x = a" using box True by (simp add: prod_eq_iff)
      then show ?thesis by simp
    qed
  next
    case False
    have "snd x = snd a + (fst x - fst a) / (fst b - fst a) * (snd b - snd a)"
      using cross False by (simp add: field_simps)
    then show ?thesis
      using mean_coefficient[OF False box(1,2)] False
      by (intro betweenI[of "(fst x - fst a) / (fst b - fst a)"]) simp_all
  qed
qed

section \<open>Two segments meet\<close>

lemma cross_difference:
  "crossProduct a b c - crossProduct a b d = - (crossProduct c d a - crossProduct c d b)"
  by (simp add: crossProduct_def algebra_simps)

lemma cross_mean:
  assumes "fst x = fst c + u * (fst d - fst c)" "snd x = snd c + u * (snd d - snd c)"
  shows "crossProduct a b x = (1 - u) * crossProduct a b c + u * crossProduct a b d"
  unfolding crossProduct_def assms by (simp add: algebra_simps)

text \<open>Opposite sides, weakly, of both segments: the point where the lines cross is on both.\<close>

lemma crossing_point:
  assumes pq: "crossProduct a b c \<noteq> crossProduct a b d"
    and ab: "crossProduct a b c * crossProduct a b d \<le> 0"
    and cd: "crossProduct c d a * crossProduct c d b \<le> 0"
  shows "\<exists>x. between a b x \<and> between c d x"
proof -
  let ?p = "crossProduct a b c" and ?q = "crossProduct a b d"
  let ?r = "crossProduct c d a" and ?s = "crossProduct c d b"
  have rs: "?p - ?q = ?s - ?r" using cross_difference[of a b c d] by simp
  have coeff: "0 \<le> y / (y - z) \<and> y / (y - z) \<le> 1" if "y * z \<le> 0" "y \<noteq> z" for y z :: rat
    using that by (auto simp: mult_le_0_iff divide_simps)
  define t where "t = ?r / (?r - ?s)"
  define u where "u = ?p / (?p - ?q)"
  have t: "0 \<le> t" "t \<le> 1" using coeff[OF cd] rs pq by (simp_all add: t_def)
  have u: "0 \<le> u" "u \<le> 1" using coeff[OF ab pq] by (simp_all add: u_def)
  define D where "D = ?p - ?q"
  have D: "D \<noteq> 0" using pq by (simp add: D_def)
  have "D = - (?r - ?s)" "?r - ?s \<noteq> 0" using rs pq by (simp_all add: D_def)
  moreover from this have "t * (?r - ?s) = ?r" by (simp add: t_def)
  ultimately have tD: "t * D = - ?r" by (simp only: mult_minus_right)
  have uD: "u * D = ?p" using pq by (simp add: u_def D_def)
  have "D * (fst a + t * (fst b - fst a)) = D * fst a + (t * D) * (fst b - fst a)"
    by (simp add: algebra_simps)
  also have "\<dots> = D * fst a - ?r * (fst b - fst a)" unfolding tD by simp
  also have "\<dots> = D * fst c + ?p * (fst d - fst c)"
    by (simp add: D_def crossProduct_def algebra_simps)
  also have "\<dots> = D * (fst c + u * (fst d - fst c))"
    unfolding uD [symmetric] by (simp add: algebra_simps)
  finally have x: "fst a + t * (fst b - fst a) = fst c + u * (fst d - fst c)" using D by simp
  have "D * (snd a + t * (snd b - snd a)) = D * snd a + (t * D) * (snd b - snd a)"
    by (simp add: algebra_simps)
  also have "\<dots> = D * snd a - ?r * (snd b - snd a)" unfolding tD by simp
  also have "\<dots> = D * snd c + ?p * (snd d - snd c)"
    by (simp add: D_def crossProduct_def algebra_simps)
  also have "\<dots> = D * (snd c + u * (snd d - snd c))"
    unfolding uD [symmetric] by (simp add: algebra_simps)
  finally have y: "snd a + t * (snd b - snd a) = snd c + u * (snd d - snd c)" using D by simp
  let ?x = "(fst a + t * (fst b - fst a), snd a + t * (snd b - snd a))"
  have "between a b ?x" using t by (intro betweenI[of t]) simp_all
  moreover have "between c d ?x" using u x y by (intro betweenI[of u]) simp_all
  ultimately show ?thesis by blast
qed

text \<open>Four points on one line.\<close>

lemma line_param:
  assumes "crossProduct a b c = 0" "a \<noteq> b"
  obtains t where "fst c = fst a + t * (fst b - fst a)" "snd c = snd a + t * (snd b - snd a)"
proof (cases "fst a = fst b")
  case True
  then have "snd a \<noteq> snd b" "fst c = fst a" using assms by (auto simp: prod_eq_iff crossProduct_def)
  then show ?thesis using that[of "(snd c - snd a) / (snd b - snd a)"] True by simp
next
  case False
  then have "snd c = snd a + (fst c - fst a) / (fst b - fst a) * (snd b - snd a)"
    using assms(1) by (simp add: crossProduct_def field_simps)
  then show ?thesis using that[of "(fst c - fst a) / (fst b - fst a)"] False by simp
qed

lemma line_param_eq:
  fixes a b :: point
  assumes "a \<noteq> b" "fst a + t * (fst b - fst a) = fst a + s * (fst b - fst a)"
    "snd a + t * (snd b - snd a) = snd a + s * (snd b - snd a)"
  shows "t = s"
proof -
  have "t * (fst b - fst a) = s * (fst b - fst a)" "t * (snd b - snd a) = s * (snd b - snd a)"
    by (rule add_left_imp_eq[OF assms(2)], rule add_left_imp_eq[OF assms(3)])
  moreover have "fst b - fst a \<noteq> 0 \<or> snd b - snd a \<noteq> 0" using assms(1) by (auto simp: prod_eq_iff)
  ultimately show ?thesis by (metis mult_right_cancel)
qed

lemma collinear_meet:
  assumes c: "crossProduct a b c = 0" and d: "crossProduct a b d = 0"
    and x: "between a b x" "between c d x"
  shows "between a b c \<or> between a b d \<or> between c d a \<or> between c d b"
proof (cases "a = b")
  case True
  then show ?thesis using x by (simp add: between_same)
next
  case False
  obtain tc where tc: "fst c = fst a + tc * (fst b - fst a)" "snd c = snd a + tc * (snd b - snd a)"
    using line_param[OF c False] .
  obtain td where td: "fst d = fst a + td * (fst b - fst a)" "snd d = snd a + td * (snd b - snd a)"
    using line_param[OF d False] .
  obtain t where t: "0 \<le> t" "t \<le> 1" "fst x = fst a + t * (fst b - fst a)"
    "snd x = snd a + t * (snd b - snd a)" using x(1) by (rule betweenE)
  obtain u where u: "0 \<le> u" "u \<le> 1" "fst x = fst c + u * (fst d - fst c)"
    "snd x = snd c + u * (snd d - snd c)" using x(2) by (rule betweenE)
  have "fst c + u * (fst d - fst c) = fst a + (tc + u * (td - tc)) * (fst b - fst a)"
    "snd c + u * (snd d - snd c) = snd a + (tc + u * (td - tc)) * (snd b - snd a)"
    unfolding tc td by (simp_all add: algebra_simps)
  then have "fst a + t * (fst b - fst a) = fst a + (tc + u * (td - tc)) * (fst b - fst a)"
    "snd a + t * (snd b - snd a) = snd a + (tc + u * (td - tc)) * (snd b - snd a)"
    using trans[OF sym[OF t(3)] u(3)] trans[OF sym[OF t(4)] u(4)] by (simp_all only:)
  then have "t = tc + u * (td - tc)" by (rule line_param_eq[OF False])
  then have mid: "min tc td \<le> t" "t \<le> max tc td" using weighted_mean[OF u(1,2), of tc td] by simp_all
  have ends: "between c d y" if y: "fst y = fst a + k * (fst b - fst a)" "snd y = snd a + k * (snd b - snd a)"
      "min tc td \<le> k" "k \<le> max tc td" "tc \<noteq> td" for y k
  proof (rule betweenI[OF mean_coefficient[OF y(5,3,4)]])
    define s where "s = (k - tc) / (td - tc)"
    have k: "k = tc + s * (td - tc)" using y(5) by (simp add: s_def)
    show "fst y = fst c + (k - tc) / (td - tc) * (fst d - fst c)"
      unfolding y(1) tc td s_def [symmetric] by (subst k) (simp add: algebra_simps)
    show "snd y = snd c + (k - tc) / (td - tc) * (snd d - snd c)"
      unfolding y(2) tc td s_def [symmetric] by (subst k) (simp add: algebra_simps)
  qed
  consider "0 \<le> tc" "tc \<le> 1" | "0 \<le> td" "td \<le> 1" | "min tc td \<le> 0" "1 \<le> max tc td"
  proof -
    have "0 \<le> tc \<and> tc \<le> 1 \<or> 0 \<le> td \<and> td \<le> 1 \<or> min tc td \<le> 0 \<and> 1 \<le> max tc td"
      using mid t(1,2) by (cases "tc \<le> td") (simp_all, linarith+)
    then show thesis using that by blast
  qed
  then show ?thesis
  proof cases
    case 1 then show ?thesis using tc by (intro disjI1 betweenI[of tc]) simp_all
  next
    case 2 then show ?thesis using td by (intro disjI2 disjI1 betweenI[of td]) simp_all
  next
    case 3
    then have "between c d a" by (intro ends[of a 0]) auto
    then show ?thesis by blast
  qed
qed

lemma mean_zero:
  fixes p q u :: rat
  assumes "(1 - u) * p + u * q = 0" "0 \<le> u" "u \<le> 1"
  shows "p = 0 \<and> q = 0 \<or> p = 0 \<and> u = 0 \<or> q = 0 \<and> u = 1 \<or> p < 0 \<and> 0 < q \<or> 0 < p \<and> q < 0"
proof -
  have eq: "(1 - u) * p = - (u * q)" using assms(1) by simp
  consider "u = 0" | "u = 1" | "0 < u" "u < 1" using assms(2,3) by linarith
  then show ?thesis
  proof cases
    case 3
    then have u: "0 < 1 - u" by simp
    consider "q = 0" | "0 < q" | "q < 0" by linarith
    then show ?thesis
    proof cases
      case 1 then show ?thesis using eq u by simp
    next
      case 2
      then have "(1 - u) * p < 0" using eq 3 by simp
      then show ?thesis using 2 u by (simp add: mult_less_0_iff)
    next
      case q: 3
      then have "0 < (1 - u) * p" using eq 3 by (simp add: mult_pos_neg)
      then show ?thesis using q u by (simp add: zero_less_mult_iff)
    qed
  qed (use eq in simp_all)
qed

lemma segments_meet_cases:
  assumes x: "between a b x" "between c d x"
  shows "between a b c \<or> between a b d \<or> between c d a \<or> between c d b \<or>
    (crossProduct a b c < 0 \<and> 0 < crossProduct a b d \<or> 0 < crossProduct a b c \<and> crossProduct a b d < 0) \<and>
    (crossProduct c d a < 0 \<and> 0 < crossProduct c d b \<or> 0 < crossProduct c d a \<and> crossProduct c d b < 0)"
proof -
  have half: "crossProduct a b c = 0 \<and> crossProduct a b d = 0 \<or> between a b c \<or> between a b d \<or>
      (crossProduct a b c < 0 \<and> 0 < crossProduct a b d \<or> 0 < crossProduct a b c \<and> crossProduct a b d < 0)"
    if x: "between a b x" "between c d x" for a b c d x
  proof -
    obtain u where u: "0 \<le> u" "u \<le> 1" "fst x = fst c + u * (fst d - fst c)"
      "snd x = snd c + u * (snd d - snd c)" using x(2) by (rule betweenE)
    have "(1 - u) * crossProduct a b c + u * crossProduct a b d = 0"
      using cross_mean[OF u(3,4), of a b] x(1) by (simp add: between_iff)
    from mean_zero[OF this u(1,2)] show ?thesis
    proof (elim disjE conjE)
      assume "u = 0"
      then have "x = c" using u by (simp add: prod_eq_iff)
      then show ?thesis using x(1) by blast
    next
      assume "u = 1"
      then have "x = d" using u by (simp add: prod_eq_iff)
      then show ?thesis using x(1) by blast
    qed blast+
  qed
  show ?thesis
  proof (cases "crossProduct a b c = 0 \<and> crossProduct a b d = 0")
    case True
    then show ?thesis using collinear_meet[OF _ _ x] by blast
  next
    case False
    moreover have "\<not> (crossProduct c d a = 0 \<and> crossProduct c d b = 0)"
      if "crossProduct a b c < 0 \<and> 0 < crossProduct a b d \<or> 0 < crossProduct a b c \<and> crossProduct a b d < 0"
      using cross_difference[of a b c d] that by auto
    ultimately show ?thesis using half[OF x] half[OF x(2,1)] by blast
  qed
qed

text \<open>On fine points the test decides whether the segments have a point in common.\<close>

lemma segmentsIntersect_exact:
  assumes "fine_point a" "fine_point b" "fine_point c" "fine_point d"
  shows "segmentsIntersect a b c d \<longleftrightarrow> (\<exists>x. between a b x \<and> between c d x)"
proof
  note o = fine_orientation[OF assms(1,2,3)] fine_orientation[OF assms(1,2,4)]
    fine_orientation[OF assms(3,4,1)] fine_orientation[OF assms(3,4,2)]
  assume "segmentsIntersect a b c d"
  then consider "between a b c \<or> between a b d \<or> between c d a \<or> between c d b"
    | "orientation a b c \<noteq> orientation a b d" "orientation c d a \<noteq> orientation c d b"
    by (auto simp: segmentsIntersect_def Let_def between_iff o split: if_splits)
  then show "\<exists>x. between a b x \<and> between c d x"
  proof cases
    case 1
    then show ?thesis using between_ends by blast
  next
    case 2
    then have "crossProduct a b c \<noteq> crossProduct a b d" "crossProduct a b c * crossProduct a b d \<le> 0"
      "crossProduct c d a * crossProduct c d b \<le> 0"
      by (auto simp: o mult_le_0_iff split: if_splits)
    then show ?thesis by (rule crossing_point)
  qed
next
  note o = fine_orientation[OF assms(1,2,3)] fine_orientation[OF assms(1,2,4)]
    fine_orientation[OF assms(3,4,1)] fine_orientation[OF assms(3,4,2)]
  assume "\<exists>x. between a b x \<and> between c d x"
  then obtain x where "between a b x" "between c d x" by blast
  from segments_meet_cases[OF this] show "segmentsIntersect a b c d"
    by (auto simp: segmentsIntersect_def Let_def between_iff o)
qed

section \<open>A segment meets a box\<close>

lemma stays_in_range:
  fixes x a l h :: rat
  assumes "l \<le> x" "x \<le> h"
  shows "\<exists>t. 0 \<le> t \<and> t \<le> 1 \<and> (\<forall>s. 0 \<le> s \<longrightarrow> s \<le> t \<longrightarrow> l \<le> x + s * (a - x) \<and> x + s * (a - x) \<le> h) \<and>
    (t = 1 \<or> x + t * (a - x) = l \<or> x + t * (a - x) = h)"
proof -
  consider "l \<le> a" "a \<le> h" | "a < l" | "h < a" by linarith
  then show ?thesis
  proof cases
    case 1
    have "l \<le> x + s * (a - x) \<and> x + s * (a - x) \<le> h" if "0 \<le> s" "s \<le> 1" for s
      using weighted_mean[OF that, of x a] 1 assms by (auto simp: min_def max_def split: if_splits)
    then show ?thesis by (intro exI[of _ 1]) simp
  next
    case 2
    let ?t = "(x - l) / (x - a)"
    have d: "0 < x - a" using 2 assms by simp
    have "l \<le> x + s * (a - x) \<and> x + s * (a - x) \<le> h" if s: "0 \<le> s" "s \<le> ?t" for s
    proof
      have "s * (x - a) \<le> x - l" using s(2) d by (simp add: pos_le_divide_eq)
      then show "l \<le> x + s * (a - x)" by (simp add: algebra_simps)
      have "0 \<le> s * (x - a)" using s(1) d by simp
      then show "x + s * (a - x) \<le> h" using assms(2) by (simp add: algebra_simps)
    qed
    moreover have "x + ?t * (a - x) = l"
    proof -
      have "?t * (a - x) = - (?t * (x - a))" by (metis minus_diff_eq mult_minus_right)
      also have "\<dots> = - (x - l)" using d by simp
      finally show ?thesis by simp
    qed
    moreover have "0 \<le> ?t" "?t \<le> 1" using d 2 assms by (simp_all add: divide_simps)
    ultimately show ?thesis by blast
  next
    case 3
    let ?t = "(h - x) / (a - x)"
    have d: "0 < a - x" using 3 assms by simp
    have "l \<le> x + s * (a - x) \<and> x + s * (a - x) \<le> h" if s: "0 \<le> s" "s \<le> ?t" for s
    proof
      have "s * (a - x) \<le> h - x" using s(2) d by (simp add: pos_le_divide_eq)
      then show "x + s * (a - x) \<le> h" by simp
      have "0 \<le> s * (a - x)" using s(1) d by simp
      then show "l \<le> x + s * (a - x)" using assms(1) by simp
    qed
    moreover have "x + ?t * (a - x) = h" using d by simp
    moreover have "0 \<le> ?t" "?t \<le> 1" using d 3 assms by (simp_all add: divide_simps)
    ultimately show ?thesis by blast
  qed
qed

definition in_rect :: "diagram_rect \<Rightarrow> point \<Rightarrow> bool" where
  "in_rect r p \<longleftrightarrow> dr_x r \<le> fst p \<and> fst p \<le> dr_x r + dr_width r \<and>
    dr_y r \<le> snd p \<and> snd p \<le> dr_y r + dr_height r"

lemma between_part:
  assumes "between a b x" "0 \<le> t" "t \<le> 1"
  shows "between a b (fst x + t * (fst a - fst x), snd x + t * (snd a - snd x))"
proof -
  obtain u where u: "0 \<le> u" "u \<le> 1" "fst x = fst a + u * (fst b - fst a)"
    "snd x = snd a + u * (snd b - snd a)" using assms(1) by (rule betweenE)
  have "0 \<le> u * (1 - t)" "u * (1 - t) \<le> 1" using u assms by (simp_all add: mult_le_one)
  then show ?thesis unfolding u(3,4)
    by (intro betweenI[of "u * (1 - t)"]) (simp_all add: algebra_simps)
qed

text \<open>From a point in the box towards an end outside of it, the segment leaves through a side.\<close>

lemma leaves_through_side:
  assumes x: "between a b x" "in_rect r x"
  shows "in_rect r a \<or> (\<exists>y. between a b y \<and> in_rect r y \<and>
    (fst y = dr_x r \<or> fst y = dr_x r + dr_width r \<or> snd y = dr_y r \<or> snd y = dr_y r + dr_height r))"
proof -
  obtain t where t: "0 \<le> t" "t \<le> 1"
      "\<And>s. 0 \<le> s \<Longrightarrow> s \<le> t \<Longrightarrow> dr_x r \<le> fst x + s * (fst a - fst x) \<and>
        fst x + s * (fst a - fst x) \<le> dr_x r + dr_width r"
      "t = 1 \<or> fst x + t * (fst a - fst x) = dr_x r \<or> fst x + t * (fst a - fst x) = dr_x r + dr_width r"
    using stays_in_range[of "dr_x r" "fst x" "dr_x r + dr_width r" "fst a"] x(2)
    unfolding in_rect_def by blast
  obtain u where u: "0 \<le> u" "u \<le> 1"
      "\<And>s. 0 \<le> s \<Longrightarrow> s \<le> u \<Longrightarrow> dr_y r \<le> snd x + s * (snd a - snd x) \<and>
        snd x + s * (snd a - snd x) \<le> dr_y r + dr_height r"
      "u = 1 \<or> snd x + u * (snd a - snd x) = dr_y r \<or> snd x + u * (snd a - snd x) = dr_y r + dr_height r"
    using stays_in_range[of "dr_y r" "snd x" "dr_y r + dr_height r" "snd a"] x(2)
    unfolding in_rect_def by blast
  define k where "k = min t u"
  have k: "0 \<le> k" "k \<le> t" "k \<le> u" "k \<le> 1" using t u by (auto simp: k_def)
  let ?y = "(fst x + k * (fst a - fst x), snd x + k * (snd a - snd x))"
  have y: "between a b ?y" "in_rect r ?y"
    using between_part[OF x(1) k(1,4)] t(3)[OF k(1,2)] u(3)[OF k(1,3)]
    by (simp_all add: in_rect_def)
  show ?thesis
  proof (cases "t = 1 \<and> u = 1")
    case True
    then have "?y = a" by (simp add: k_def prod_eq_iff)
    then show ?thesis using y by simp
  next
    case False
    then have "k = t \<and> t \<noteq> 1 \<or> k = u \<and> u \<noteq> 1" using t u by (auto simp: k_def min_def)
    then have "fst ?y = dr_x r \<or> fst ?y = dr_x r + dr_width r \<or> snd ?y = dr_y r \<or>
        snd ?y = dr_y r + dr_height r"
      using t(4) u(4) by auto
    then show ?thesis using y by blast
  qed
qed

lemma between_level:
  "fst a = fst b \<Longrightarrow> between a b x \<longleftrightarrow>
    fst x = fst a \<and> min (snd a) (snd b) \<le> snd x \<and> snd x \<le> max (snd a) (snd b)"
  "snd a = snd b \<Longrightarrow> between a b x \<longleftrightarrow>
    snd x = snd a \<and> min (fst a) (fst b) \<le> fst x \<and> fst x \<le> max (fst a) (fst b)"
  by (auto simp: between_iff crossProduct_def onSegment_def)

definition fine_rect :: "diagram_rect \<Rightarrow> bool" where
  "fine_rect r \<longleftrightarrow> fine (dr_x r) \<and> fine (dr_y r) \<and> fine (dr_width r) \<and> fine (dr_height r) \<and>
    0 \<le> dr_width r \<and> 0 \<le> dr_height r"

text \<open>On fine coordinates the test decides whether the segment has a point in the box.\<close>

lemma segmentIntersectsRect_exact:
  assumes a: "fine_point a" and b: "fine_point b" and r: "fine_rect r"
  shows "segmentIntersectsRect \<lparr>sg_start = a, sg_end = b\<rparr> r 0 \<longleftrightarrow>
    (\<exists>x. between a b x \<and> in_rect r x)"
proof -
  let ?x1 = "dr_x r" and ?x2 = "dr_x r + dr_width r"
  let ?y1 = "dr_y r" and ?y2 = "dr_y r + dr_height r"
  have le: "?x1 \<le> ?x2" "?y1 \<le> ?y2" using r by (simp_all add: fine_rect_def)
  have corners: "fine_point (?x1, ?y1)" "fine_point (?x2, ?y1)" "fine_point (?x1, ?y2)" "fine_point (?x2, ?y2)"
    using r by (simp_all add: fine_point_def fine_rect_def fine_add)
  note meets = segmentsIntersect_exact[OF a b]
  have code: "segmentIntersectsRect \<lparr>sg_start = a, sg_end = b\<rparr> r 0 \<longleftrightarrow>
      in_rect r a \<or> in_rect r b \<or>
      (\<exists>x. between a b x \<and> between (?x1, ?y1) (?x2, ?y1) x) \<or>
      (\<exists>x. between a b x \<and> between (?x2, ?y1) (?x2, ?y2) x) \<or>
      (\<exists>x. between a b x \<and> between (?x2, ?y2) (?x1, ?y2) x) \<or>
      (\<exists>x. between a b x \<and> between (?x1, ?y2) (?x1, ?y1) x)"
    by (simp add: segmentIntersectsRect_def pointInBox_def in_rect_def Let_def meets corners) blast
  have edges: "between (?x1, ?y1) (?x2, ?y1) x \<Longrightarrow> in_rect r x" "between (?x2, ?y1) (?x2, ?y2) x \<Longrightarrow> in_rect r x"
    "between (?x2, ?y2) (?x1, ?y2) x \<Longrightarrow> in_rect r x" "between (?x1, ?y2) (?x1, ?y1) x \<Longrightarrow> in_rect r x" for x
    using le by (auto simp: between_level in_rect_def)
  show ?thesis
  proof
    assume "segmentIntersectsRect \<lparr>sg_start = a, sg_end = b\<rparr> r 0"
    then show "\<exists>x. between a b x \<and> in_rect r x"
      unfolding code using between_ends edges by blast
  next
    assume "\<exists>x. between a b x \<and> in_rect r x"
    then obtain x where "between a b x" "in_rect r x" by blast
    from leaves_through_side[OF this] show "segmentIntersectsRect \<lparr>sg_start = a, sg_end = b\<rparr> r 0"
    proof (elim disjE exE conjE)
      assume "in_rect r a"
      then show ?thesis unfolding code by blast
    next
      fix y assume y: "between a b y" "in_rect r y" "fst y = ?x1"
      then have "between (?x1, ?y2) (?x1, ?y1) y" using le by (simp add: between_level in_rect_def)
      then show ?thesis unfolding code using y(1) by blast
    next
      fix y assume y: "between a b y" "in_rect r y" "fst y = ?x2"
      then have "between (?x2, ?y1) (?x2, ?y2) y" using le by (simp add: between_level in_rect_def)
      then show ?thesis unfolding code using y(1) by blast
    next
      fix y assume y: "between a b y" "in_rect r y" "snd y = ?y1"
      then have "between (?x1, ?y1) (?x2, ?y1) y" using le by (simp add: between_level in_rect_def)
      then show ?thesis unfolding code using y(1) by blast
    next
      fix y assume y: "between a b y" "in_rect r y" "snd y = ?y2"
      then have "between (?x2, ?y2) (?x1, ?y2) y" using le by (simp add: between_level in_rect_def)
      then show ?thesis unfolding code using y(1) by blast
    qed
  qed
qed

section \<open>What normalising a route keeps\<close>

fun polyline :: "point list \<Rightarrow> point \<Rightarrow> bool" where
  "polyline [] x = False"
| "polyline [a] x \<longleftrightarrow> x = a"
| "polyline (a # b # ps) x \<longleftrightarrow> between a b x \<or> polyline (b # ps) x"

lemma polyline_Cons: "ps \<noteq> [] \<Longrightarrow> polyline (a # ps) x \<longleftrightarrow> between a (hd ps) x \<or> polyline ps x"
  by (cases ps) simp_all

lemma polyline_hd: "ps \<noteq> [] \<Longrightarrow> polyline ps (hd ps)"
  by (induction ps rule: induct_list012) simp_all

lemma polyline_append:
  "ps \<noteq> [] \<Longrightarrow> qs \<noteq> [] \<Longrightarrow>
    polyline (ps @ qs) x \<longleftrightarrow> polyline ps x \<or> between (last ps) (hd qs) x \<or> polyline qs x"
proof (induction ps x rule: polyline.induct)
  case (2 a x)
  then show ?case using polyline_Cons[of qs a x] by auto
qed simp_all

lemma between_commute: "between a b x \<longleftrightarrow> between b a x"
  using between_sym by blast

lemma polyline_rev: "polyline (rev ps) x \<longleftrightarrow> polyline ps x"
proof (induction ps x rule: polyline.induct)
  case (3 a b ps x)
  have "polyline (rev (b # ps) @ [a]) x \<longleftrightarrow>
      polyline (rev (b # ps)) x \<or> between (last (rev (b # ps))) a x \<or> x = a"
    by (subst polyline_append) simp_all
  then show ?case using "3.IH" by (auto simp: between_commute)
qed simp_all

lemma between_split:
  assumes "between a c b"
  shows "between a c x \<longleftrightarrow> between a b x \<or> between b c x"
proof -
  obtain t where t: "0 \<le> t" "t \<le> 1" "fst b = fst a + t * (fst c - fst a)"
    "snd b = snd a + t * (snd c - snd a)" using assms by (rule betweenE)
  show ?thesis
  proof
    assume "between a c x"
    then obtain k where k: "0 \<le> k" "k \<le> 1" "fst x = fst a + k * (fst c - fst a)"
      "snd x = snd a + k * (snd c - snd a)" by (rule betweenE)
    show "between a b x \<or> between b c x"
    proof (cases "k \<le> t")
      case True
      show ?thesis
      proof (cases "t = 0")
        case True
        then have "x = a" using k \<open>k \<le> t\<close> by (simp add: prod_eq_iff)
        then show ?thesis by simp
      next
        case False
        define m where "m = k / t"
        have m: "0 \<le> m" "m \<le> 1" "k = m * t"
          using False True k(1) t(1) by (simp_all add: m_def divide_simps)
        have "between a b x" unfolding between_def k(3,4) t(3,4) m(3)
          using m by (intro exI[of _ m]) simp
        then show ?thesis ..
      qed
    next
      case False
      define m where "m = (k - t) / (1 - t)"
      have m: "0 \<le> m" "m \<le> 1" "m * (1 - t) = k - t"
        using False k(2) by (simp_all add: m_def divide_simps)
      have k': "k = t + m * (1 - t)" using m(3) by simp
      have "between b c x"
        using m(1,2) unfolding between_def k(3,4) t(3,4) k'
        by (intro exI[of _ m]) (simp add: algebra_simps)
      then show ?thesis ..
    qed
  next
    assume "between a b x \<or> between b c x"
    then show "between a c x"
    proof
      assume "between a b x"
      then obtain m where m: "0 \<le> m" "m \<le> 1" "fst x = fst a + m * (fst b - fst a)"
        "snd x = snd a + m * (snd b - snd a)" by (rule betweenE)
      have "0 \<le> m * t" "m * t \<le> 1" using m t by (simp_all add: mult_le_one)
      then show ?thesis
        unfolding between_def m(3,4) t(3,4) by (intro exI[of _ "m * t"]) simp
    next
      assume "between b c x"
      then obtain m where m: "0 \<le> m" "m \<le> 1" "fst x = fst b + m * (fst c - fst b)"
        "snd x = snd b + m * (snd c - snd b)" by (rule betweenE)
      have "0 \<le> t + m * (1 - t)" "t + m * (1 - t) \<le> 1"
        using m t mult_right_mono[of m 1 "1 - t"] by simp_all
      then show ?thesis
        unfolding between_def m(3,4) t(3,4)
        by (intro exI[of _ "t + m * (1 - t)"]) (simp add: algebra_simps)
    qed
  qed
qed

definition forward_dot :: "point \<Rightarrow> point \<Rightarrow> point \<Rightarrow> rat" where
  "forward_dot a b c = (fst b - fst a) * (fst c - fst b) + (snd b - snd a) * (snd c - snd b)"

lemma fine_collinearForward:
  assumes "fine_point a" "fine_point b" "fine_point c"
  shows "collinearForward a b c \<longleftrightarrow> crossProduct a b c = 0 \<and> 0 \<le> forward_dot a b c"
proof -
  have "forward_dot a b c = 0" if "\<bar>forward_dot a b c\<bar> < 1 / 4096"
    using that fine_value[of "fst b - fst a" "fst c - fst b" "snd a - snd b" "snd c - snd b"] assms
    by (simp add: forward_dot_def fine_point_def fine_diff algebra_simps)
  then have "0 \<le> forward_dot a b c" if "- (1 / 10000) \<le> forward_dot a b c"
    using that by (cases "forward_dot a b c < 0") auto
  then show ?thesis
    using fine_cross_zero[OF assms]
    by (auto simp: collinearForward_def forward_dot_def [symmetric] tolerance_def)
qed

lemma forward_between:
  assumes cross: "crossProduct a b c = 0" and dot: "0 \<le> forward_dot a b c" and "a \<noteq> b"
  shows "between a c b"
proof -
  obtain s where s: "fst c = fst a + s * (fst b - fst a)" "snd c = snd a + s * (snd b - snd a)"
    using line_param[OF cross assms(3)] .
  let ?n = "(fst b - fst a) * (fst b - fst a) + (snd b - snd a) * (snd b - snd a)"
  have "forward_dot a b c = (s - 1) * ?n"
    unfolding forward_dot_def s by (simp add: algebra_simps)
  moreover have "0 < ?n" using assms(3) by (auto simp: prod_eq_iff sum_squares_gt_zero_iff)
  ultimately have "1 \<le> s" using dot by (simp add: zero_le_mult_iff)
  then show ?thesis
    unfolding between_def s by (intro exI[of _ "1 / s"]) simp
qed

text \<open>A list being built: last point first, neighbours distinct, no point straight between its
  neighbours.\<close>

fun settled :: "point list \<Rightarrow> bool" where
  "settled (c # b # a # ps) \<longleftrightarrow> b \<noteq> c \<and> \<not> collinearForward a b c \<and> settled (b # a # ps)"
| "settled [b, a] \<longleftrightarrow> a \<noteq> b"
| "settled ps \<longleftrightarrow> True"

lemma settled_tl: "settled (a # ps) \<Longrightarrow> settled ps"
  by (cases ps; cases "tl ps") auto

lemma settled_neq: "settled (b # a # ps) \<Longrightarrow> a \<noteq> b"
  by (cases ps) auto

lemma drop_collinear_settled:
  "fine_point p \<Longrightarrow> settled ps \<Longrightarrow> ps \<noteq> [] \<Longrightarrow> p \<noteq> hd ps \<Longrightarrow> (\<forall>q \<in> set ps. fine_point q) \<Longrightarrow>
    drop_collinear p ps \<noteq> [] \<and> settled (p # drop_collinear p ps) \<and>
    (\<forall>q \<in> set (drop_collinear p ps). fine_point q) \<and> last (drop_collinear p ps) = last ps \<and>
    (\<forall>x. polyline (p # drop_collinear p ps) x \<longleftrightarrow> polyline (p # ps) x)"
proof (induction p ps rule: drop_collinear.induct)
  case (1 p b a ps)
  have ab: "a \<noteq> b" using settled_neq[OF "1.prems"(2)] .
  show ?case
  proof (cases "collinearForward a b p")
    case True
    then have fwd: "crossProduct a b p = 0" "0 \<le> forward_dot a b p"
      using fine_collinearForward[of a b p] True "1.prems"(1,5) by simp_all
    have btw: "between a p b" using forward_between[OF fwd ab] .
    have "p \<noteq> a"
    proof
      assume "p = a"
      then show False using btw ab by (simp add: between_same)
    qed
    then have IH: "drop_collinear p (a # ps) \<noteq> [] \<and> settled (p # drop_collinear p (a # ps)) \<and>
        (\<forall>q \<in> set (drop_collinear p (a # ps)). fine_point q) \<and>
        last (drop_collinear p (a # ps)) = last (a # ps) \<and>
        (\<forall>x. polyline (p # drop_collinear p (a # ps)) x \<longleftrightarrow> polyline (p # a # ps) x)"
      using "1.IH"[OF True] settled_tl[OF "1.prems"(2)] "1.prems" by simp
    have "polyline (p # a # ps) x \<longleftrightarrow> polyline (p # b # a # ps) x" for x
      using between_split[OF btw, of x] by (simp add: between_commute disj_ac)
    then show ?thesis using IH True by simp
  next
    case False
    then show ?thesis using "1.prems" by simp
  qed
qed auto

definition pending_ok :: "point list \<Rightarrow> point list \<Rightarrow> bool" where
  "pending_ok points ps \<longleftrightarrow> settled ps \<and> (\<forall>q \<in> set ps. fine_point q) \<and> (ps = [] \<longleftrightarrow> points = []) \<and>
    (points \<noteq> [] \<longrightarrow> hd ps = last points \<and> last ps = hd points) \<and>
    (\<forall>x. polyline ps x \<longleftrightarrow> polyline (rev points) x)"

lemma accept_point_ok:
  assumes ok: "pending_ok points ps" and p: "fine_point p"
  shows "pending_ok (points @ [p]) (accept_point (Some p) ps)"
proof (cases "ps = []")
  case True
  then show ?thesis using ok p by (simp add: pending_ok_def accept_point_def)
next
  case False
  then have ne: "points \<noteq> []" and hd: "hd ps = last points" "last ps = hd points"
    and fine: "\<forall>q \<in> set ps. fine_point q" and st: "settled ps"
    and same: "polyline ps x \<longleftrightarrow> polyline (rev points) x" for x
    using ok by (simp_all add: pending_ok_def)
  have near: "near_point p (hd ps) \<longleftrightarrow> p = hd ps" using fine_near p fine False by simp
  have "hd (rev points) = last points" using ne by (simp add: hd_rev)
  then have ext: "polyline (p # rev points) x \<longleftrightarrow> between p (hd ps) x \<or> polyline (rev points) x" for x
    using polyline_Cons[of "rev points" p x] ne hd by simp
  show ?thesis
  proof (cases "p = hd ps")
    case True
    then have "polyline (p # rev points) x \<longleftrightarrow> polyline ps x" for x
      using ext[of x] same[of x] polyline_hd[OF False] by (auto simp: between_same)
    then show ?thesis
      using True near st fine ne hd False by (simp add: pending_ok_def accept_point_def)
  next
    case new: False
    have ext': "polyline (p # ps) x \<longleftrightarrow> polyline (p # rev points) x" for x
      using polyline_Cons[OF False, of p x] ext[of x] same[of x] by simp
    from drop_collinear_settled[OF p st False new fine] have
      "drop_collinear p ps \<noteq> []" "settled (p # drop_collinear p ps)"
      "\<forall>q \<in> set (drop_collinear p ps). fine_point q" "last (drop_collinear p ps) = last ps"
      "\<And>x. polyline (p # drop_collinear p ps) x \<longleftrightarrow> polyline (p # ps) x" by blast+
    then show ?thesis
      using new near ne hd False p by (simp add: pending_ok_def accept_point_def ext')
  qed
qed

definition finite_points :: "point option list \<Rightarrow> point list" where
  "finite_points points = concat (map (\<lambda>po. case po of None \<Rightarrow> [] | Some p \<Rightarrow> [p]) points)"

lemma finite_points_Some [simp]: "finite_points (map Some ps) = ps"
  by (induction ps) (simp_all add: finite_points_def)

lemma normalize_pending:
  assumes "\<forall>p \<in> set (finite_points points). fine_point p"
  shows "pending_ok (finite_points points) (fold accept_point points [])"
  using assms
proof (induction points rule: rev_induct)
  case Nil
  then show ?case by (simp add: pending_ok_def finite_points_def)
next
  case (snoc po points)
  then have IH: "pending_ok (finite_points points) (fold accept_point points [])"
    by (simp add: finite_points_def)
  show ?case
  proof (cases po)
    case None
    have "accept_point None qs = qs" for qs by (simp add: accept_point_def)
    then show ?thesis using IH None by (simp add: finite_points_def)
  next
    case (Some p)
    then have "fine_point p" using snoc.prems by (simp add: finite_points_def)
    then show ?thesis using accept_point_ok[OF IH] Some by (simp add: finite_points_def)
  qed
qed

lemma normalize_same_points:
  assumes "\<forall>p \<in> set (finite_points points). fine_point p"
  shows "polyline (normalizeRoutePoints points) x \<longleftrightarrow> polyline (finite_points points) x"
  using normalize_pending[OF assms]
  by (simp add: normalizeRoutePoints_def polyline_rev pending_ok_def)

lemma normalize_ends:
  assumes "\<forall>p \<in> set (finite_points points). fine_point p" "finite_points points \<noteq> []"
  shows "normalizeRoutePoints points \<noteq> []"
    "hd (normalizeRoutePoints points) = hd (finite_points points)"
    "last (normalizeRoutePoints points) = last (finite_points points)"
  using normalize_pending[OF assms(1)] assms(2)
  by (simp_all add: normalizeRoutePoints_def pending_ok_def hd_rev last_rev)

lemma settled_fixed:
  "settled ps \<Longrightarrow> (\<forall>q \<in> set ps. fine_point q) \<Longrightarrow> fold accept_point (map Some (rev ps)) [] = ps"
proof (induction ps rule: settled.induct)
  case (1 c b a ps)
  then have "\<not> near_point c b" using fine_near[of c b] by auto
  then show ?case using 1 by (simp add: accept_point_def)
next
  case (2 b a)
  then have "\<not> near_point b a" using fine_near[of b a] by auto
  then show ?case by (simp add: accept_point_def)
qed (simp_all add: accept_point_def)

lemma normalize_again:
  assumes "\<forall>p \<in> set (finite_points points). fine_point p"
  shows "normalizeRoutePoints (map Some (normalizeRoutePoints points)) = normalizeRoutePoints points"
  using normalize_pending[OF assms]
  by (simp add: normalizeRoutePoints_def pending_ok_def settled_fixed)

lemma joinRoutePoints_normalizes:
  "joinRoutePoints start via finish = normalizeRoutePoints (start # via @ [finish])"
  by (simp add: joinRoutePoints_def normalizeRoutePoints_def)

section \<open>What the geometry guarantees\<close>

text \<open>C31: Normalising a route keeps what it draws: on fine coordinates the normalised points run
  through exactly the same points, with the same first and last one, no two neighbours are
  equal, no point is left straight between its neighbours, and normalising again changes
  nothing.\<close>

theorem normalize_traces:
  assumes "\<forall>p \<in> set (finite_points points). fine_point p" "finite_points points \<noteq> []"
  shows "(\<forall>x. polyline (normalizeRoutePoints points) x \<longleftrightarrow> polyline (finite_points points) x) \<and>
    hd (normalizeRoutePoints points) = hd (finite_points points) \<and>
    last (normalizeRoutePoints points) = last (finite_points points) \<and>
    settled (rev (normalizeRoutePoints points)) \<and>
    normalizeRoutePoints (map Some (normalizeRoutePoints points)) = normalizeRoutePoints points"
proof -
  have "settled (rev (normalizeRoutePoints points))"
    using normalize_pending[OF assms(1)] by (simp add: normalizeRoutePoints_def pending_ok_def)
  then show ?thesis
    using normalize_same_points[OF assms(1)] normalize_ends[OF assms] normalize_again[OF assms(1)]
    by blast
qed

theorem normalize_traces_witness:
  "polyline (normalizeRoutePoints [Some (0, 0), None, Some (4, 0), Some (8, 0), Some (8, 3)]) (3, 0)"
proof -
  have "\<forall>p \<in> set (finite_points [Some (0, 0), None, Some (4, 0), Some (8, 0), Some (8, 3)]). fine_point p"
    "finite_points [Some (0, 0), None, Some (4, 0), Some (8, 0), Some (8, 3)] \<noteq> []"
    by (simp_all add: finite_points_def fine_point_def fine_intros)
  from normalize_traces[OF this] show ?thesis by (simp add: finite_points_def between_level)
qed

text \<open>C32: The collision test is exact: on fine coordinates a segment is reported to meet a box
  precisely when some point of it lies in the box, and two segments are reported to intersect
  precisely when they have a point in common.\<close>

theorem collision_exact:
  assumes "fine_point a" "fine_point b" "fine_point c" "fine_point d" "fine_rect r"
  shows "(segmentIntersectsRect \<lparr>sg_start = a, sg_end = b\<rparr> r 0 \<longleftrightarrow> (\<exists>x. between a b x \<and> in_rect r x)) \<and>
    (segmentsIntersect a b c d \<longleftrightarrow> (\<exists>x. between a b x \<and> between c d x))"
  using segmentIntersectsRect_exact[OF assms(1,2,5)] segmentsIntersect_exact[OF assms(1-4)] by blast

theorem collision_exact_witness:
  "\<exists>x. between (0, 0) (9, 6) x \<and> in_rect \<lparr>dr_x = 2, dr_y = 1, dr_width = 4, dr_height = 3\<rparr> x"
proof -
  let ?r = "\<lparr>dr_x = 2, dr_y = 1, dr_width = 4, dr_height = 3\<rparr>"
  have "segmentIntersectsRect \<lparr>sg_start = (0, 0), sg_end = (9, 6)\<rparr> ?r 0" by code_simp
  moreover have "fine_point (0, 0)" "fine_point (9, 6)" "fine_rect ?r"
    by (simp_all add: fine_point_def fine_rect_def fine_intros)
  ultimately show ?thesis using collision_exact[of "(0, 0)" "(9, 6)" "(0, 0)" "(9, 6)" ?r] by blast
qed

end
