(* ===== verification/RouteGrid.thy ===== *)
theory RouteGrid
imports GridSearch DiagramGeometry
begin

text \<open>
  The orthogonal router of the diagram renderers: \<^verbatim>\<open>shortestOrthogonalGridRoute\<close> of
  \<^verbatim>\<open>renderers/shared/route-quality.mjs\<close>. From the end points, the obstacles and the segments to
  keep away from it builds grid lines, the usable nodes on them and the adjacency of neighbours
  whose segment is free, searches it with the theory \<^verbatim>\<open>GridSearch\<close>, reads the route back and
  normalises it with the theory \<^verbatim>\<open>DiagramGeometry\<close>. Points serve as their own keys. Obstacles,
  avoided segments and borders that are missing or not finite are \<^verbatim>\<open>None\<close>; a missing node budget
  is \<^verbatim>\<open>None\<close>, too. The outer option of the result is the loop's ending; the metrics object is
  returned beside the route.
\<close>

section \<open>Sides and obstacles\<close>

definition outward :: "string \<Rightarrow> (rat \<times> rat) option" where
  "outward side =
    (if side = ''left'' then Some (-1, 0) else if side = ''right'' then Some (1, 0)
     else if side = ''top'' then Some (0, -1) else if side = ''bottom'' then Some (0, 1) else None)"

definition moveOutward :: "point \<Rightarrow> string \<Rightarrow> rat \<Rightarrow> point" where
  "moveOutward p side distance =
    (let v = or_else (outward side) (0, 0)
     in (fst p + fst v * distance, snd p + snd v * distance))"

definition expandedRect :: "diagram_rect \<Rightarrow> rat \<Rightarrow> diagram_rect" where
  "expandedRect r clearance =
    \<lparr>dr_x = dr_x r - clearance, dr_y = dr_y r - clearance,
     dr_width = dr_width r + clearance * 2, dr_height = dr_height r + clearance * 2\<rparr>"

definition pointBlocked :: "point \<Rightarrow> diagram_rect list \<Rightarrow> bool" where
  "pointBlocked p obstacles =
    list_ex (\<lambda>r. dr_x r \<le> fst p \<and> fst p \<le> dr_x r + dr_width r \<and>
      dr_y r \<le> snd p \<and> snd p \<le> dr_y r + dr_height r) obstacles"

definition segmentBlocked :: "point \<Rightarrow> point \<Rightarrow> diagram_rect list \<Rightarrow> bool" where
  "segmentBlocked p q obstacles =
    list_ex (\<lambda>r. segmentIntersectsRect \<lparr>sg_start = p, sg_end = q\<rparr> r 0) obstacles"

section \<open>Segments to keep away from\<close>

definition orthogonalTouchOnAvoidedInterior :: "point \<Rightarrow> point \<Rightarrow> point \<Rightarrow> point \<Rightarrow> bool" where
  "orthogonalTouchOnAvoidedInterior a b c d =
    (let candidateHorizontal = \<bar>snd a - snd b\<bar> \<le> tolerance;
         candidateVertical = \<bar>fst a - fst b\<bar> \<le> tolerance;
         avoidedHorizontal = \<bar>snd c - snd d\<bar> \<le> tolerance;
         avoidedVertical = \<bar>fst c - fst d\<bar> \<le> tolerance in
     if candidateHorizontal \<and> avoidedVertical
     then min (fst a) (fst b) - tolerance \<le> fst c \<and> fst c \<le> max (fst a) (fst b) + tolerance \<and>
       min (snd c) (snd d) + tolerance < snd a \<and> snd a < max (snd c) (snd d) - tolerance
     else if candidateVertical \<and> avoidedHorizontal
     then min (snd a) (snd b) - tolerance \<le> snd c \<and> snd c \<le> max (snd a) (snd b) + tolerance \<and>
       min (fst c) (fst d) + tolerance < fst a \<and> fst a < max (fst c) (fst d) - tolerance
     else False)"

definition pointOnSegmentInterior :: "point \<Rightarrow> point \<Rightarrow> point \<Rightarrow> bool" where
  "pointOnSegmentInterior p a b =
    (if tolerance < \<bar>(fst b - fst a) * (snd p - snd a) - (snd b - snd a) * (fst p - fst a)\<bar> then False
     else (fst p - fst a) * (fst p - fst b) + (snd p - snd a) * (snd p - snd b) < - tolerance)"

definition pointOnAvoidedInterior :: "point \<Rightarrow> diagram_segment list \<Rightarrow> bool" where
  "pointOnAvoidedInterior p avoided =
    list_ex (\<lambda>sg. pointOnSegmentInterior p (sg_start sg) (sg_end sg)) avoided"

definition collinearOverlap :: "point \<Rightarrow> point \<Rightarrow> point \<Rightarrow> point \<Rightarrow> rat" where
  "collinearOverlap a b c d =
    (if fst a = fst b \<and> fst c = fst d \<and> fst a = fst c
     then max 0 (min (max (snd a) (snd b)) (max (snd c) (snd d))
       - max (min (snd a) (snd b)) (min (snd c) (snd d)))
     else if snd a = snd b \<and> snd c = snd d \<and> snd a = snd c
     then max 0 (min (max (fst a) (fst b)) (max (fst c) (fst d))
       - max (min (fst a) (fst b)) (min (fst c) (fst d)))
     else 0)"

definition segmentConflictsWithAvoided ::
  "point \<Rightarrow> point \<Rightarrow> diagram_segment list \<Rightarrow> rat \<Rightarrow> bool \<Rightarrow> bool" where
  "segmentConflictsWithAvoided p q avoided minimumOverlapPx allowCrossings =
    list_ex (\<lambda>sg.
      \<not> allowCrossings \<and> (properSegmentIntersection p q (sg_start sg) (sg_end sg) \<noteq> None \<or>
        orthogonalTouchOnAvoidedInterior p q (sg_start sg) (sg_end sg)) \<or>
      minimumOverlapPx \<le> collinearOverlap p q (sg_start sg) (sg_end sg)) avoided"

fun orthogonalLength :: "point list \<Rightarrow> rat option" where
  "orthogonalLength (p # q # ps) =
    (if fst p \<noteq> fst q \<and> snd p \<noteq> snd q then None
     else case orthogonalLength (q # ps) of None \<Rightarrow> None
       | Some l \<Rightarrow> Some (\<bar>fst q - fst p\<bar> + \<bar>snd q - snd p\<bar> + l))"
| "orthogonalLength ps = Some 0"

section \<open>The request and its grid lines\<close>

record grid_request =
  gr_start :: point
  gr_end :: point
  gr_points :: "point list"
  gr_obstacles :: "diagram_rect option list"
  gr_fromSide :: string
  gr_toSide :: string
  gr_clearance :: rat
  gr_maximumObstacleCount :: nat
  gr_endpointStubPx :: rat
  gr_maximumGridNodes :: "nat option"
  gr_avoidedSegments :: "diagram_segment option list"
  gr_allowAvoidedCrossings :: bool
  gr_minimumAvoidedOverlapPx :: rat
  gr_routeSeparationPx :: rat
  gr_minimumSegmentPx :: rat
  gr_borderSegments :: "diagram_segment option list"
  gr_bendPenaltyPx :: rat

definition present :: "'a option list \<Rightarrow> 'a list" where
  "present xs = concat (map (\<lambda>x. case x of None \<Rightarrow> [] | Some y \<Rightarrow> [y]) xs)"

definition grid_expanded :: "grid_request \<Rightarrow> diagram_rect list" where
  "grid_expanded g = map (\<lambda>r. expandedRect r (gr_clearance g)) (present (gr_obstacles g))"

definition grid_startStub :: "grid_request \<Rightarrow> point" where
  "grid_startStub g = moveOutward (gr_start g) (gr_fromSide g) (gr_endpointStubPx g)"

definition grid_endStub :: "grid_request \<Rightarrow> point" where
  "grid_endStub g = moveOutward (gr_end g) (gr_toSide g) (gr_endpointStubPx g)"

text \<open>The coordinates of one axis: \<^verbatim>\<open>along\<close> reads that coordinate of a point, \<^verbatim>\<open>side\<close> the extent
  of a box on it; a segment perpendicular to the axis also contributes the lanes beside it.\<close>

definition segment_lanes :: "grid_request \<Rightarrow> (point \<Rightarrow> rat) \<Rightarrow> diagram_segment \<Rightarrow> rat list" where
  "segment_lanes g along sg =
    (if \<bar>along (sg_start sg) - along (sg_end sg)\<bar> \<le> tolerance
     then [along (sg_start sg) - gr_routeSeparationPx g, along (sg_start sg) + gr_routeSeparationPx g]
     else [])"

definition axis_values :: "grid_request \<Rightarrow> (point \<Rightarrow> rat) \<Rightarrow> (diagram_rect \<Rightarrow> rat) \<Rightarrow>
    (diagram_rect \<Rightarrow> rat) \<Rightarrow> rat list" where
  "axis_values g along low extent =
    [along (grid_startStub g), along (grid_endStub g)] @ map along (gr_points g) @
    concat (map (\<lambda>r. [low r - 1, low r + extent r + 1]) (grid_expanded g)) @
    concat (map (\<lambda>sg. [along (sg_start sg), along (sg_end sg)] @ segment_lanes g along sg)
      (present (gr_avoidedSegments g))) @
    concat (map (segment_lanes g along) (present (gr_borderSegments g)))"

fun coalesce_after :: "rat \<Rightarrow> rat list \<Rightarrow> rat \<Rightarrow> rat list \<Rightarrow> rat list" where
  "coalesce_after m keep previous [] = []"
| "coalesce_after m keep previous (v # vs) =
    (if v \<in> set keep \<or> m \<le> v - previous then v # coalesce_after m keep v vs
     else coalesce_after m keep v vs)"

definition coalesce :: "rat \<Rightarrow> rat list \<Rightarrow> rat list \<Rightarrow> rat list" where
  "coalesce m values keep =
    (case sort (remdups values) of [] \<Rightarrow> [] | v # vs \<Rightarrow> v # coalesce_after m keep v vs)"

definition orderedX :: "grid_request \<Rightarrow> rat list" where
  "orderedX g = coalesce (gr_minimumSegmentPx g) (axis_values g fst dr_x dr_width)
    [fst (grid_startStub g), fst (grid_endStub g)]"

definition orderedY :: "grid_request \<Rightarrow> rat list" where
  "orderedY g = coalesce (gr_minimumSegmentPx g) (axis_values g snd dr_y dr_height)
    [snd (grid_startStub g), snd (grid_endStub g)]"

section \<open>Nodes and edges\<close>

definition grid_nodes :: "grid_request \<Rightarrow> point list" where
  "grid_nodes g =
    filter (\<lambda>p. \<not> pointBlocked p (grid_expanded g) \<and>
        (gr_allowAvoidedCrossings g \<or> \<not> pointOnAvoidedInterior p (present (gr_avoidedSegments g))))
      (concat (map (\<lambda>x. map (\<lambda>y. (x, y)) (orderedY g)) (orderedX g)))"

definition edge_free :: "grid_request \<Rightarrow> point \<Rightarrow> point \<Rightarrow> bool" where
  "edge_free g l r \<longleftrightarrow> \<not> segmentBlocked l r (grid_expanded g) \<and>
    \<not> segmentConflictsWithAvoided l r (present (gr_avoidedSegments g))
        (gr_minimumAvoidedOverlapPx g) (gr_allowAvoidedCrossings g) \<and>
    \<not> list_ex (\<lambda>sg. tolerance < collinearOverlap l r (sg_start sg) (sg_end sg))
        (present (gr_borderSegments g))"

type_synonym grid_graph = "(point \<Rightarrow> (point \<times> rat \<times> heading) list) \<times> nat"

definition connect_pair ::
  "grid_request \<Rightarrow> heading \<Rightarrow> point \<times> point \<Rightarrow> grid_graph \<Rightarrow> grid_graph" where
  "connect_pair g axis lr graph =
    (let l = fst lr; r = snd lr; adj = fst graph in
     if \<not> edge_free g l r then graph
     else let distance = \<bar>fst r - fst l\<bar> + \<bar>snd r - snd l\<bar>;
              adj1 = adj(l := adj l @ [(r, distance, axis)])
       in (adj1(r := adj1 r @ [(l, distance, opposite_heading axis)]), snd graph + 1))"

definition connectLine :: "grid_request \<Rightarrow> heading \<Rightarrow> point list \<Rightarrow> grid_graph \<Rightarrow> grid_graph" where
  "connectLine g axis line graph = fold (connect_pair g axis) (zip line (tl line)) graph"

definition grid_row :: "grid_request \<Rightarrow> rat \<Rightarrow> point list" where
  "grid_row g y = filter (\<lambda>p. p \<in> set (grid_nodes g)) (map (\<lambda>x. (x, y)) (orderedX g))"

definition grid_column :: "grid_request \<Rightarrow> rat \<Rightarrow> point list" where
  "grid_column g x = filter (\<lambda>p. p \<in> set (grid_nodes g)) (map (\<lambda>y. (x, y)) (orderedY g))"

definition grid_adjacency :: "grid_request \<Rightarrow> grid_graph" where
  "grid_adjacency g =
    fold (\<lambda>x. connectLine g HeadD (grid_column g x)) (orderedX g)
      (fold (\<lambda>y. connectLine g HeadR (grid_row g y)) (orderedY g) ((\<lambda>p. []), 0))"

section \<open>The route\<close>

definition directionOf :: "rat \<times> rat \<Rightarrow> heading" where
  "directionOf v =
    (if 0 < fst v then HeadR else if fst v < 0 then HeadL else if 0 < snd v then HeadD else HeadU)"

record grid_metrics =
  gm_status :: string
  gm_obstacleCount :: nat
  gm_avoidedSegmentCount :: nat
  gm_coordinateCount :: nat
  gm_candidateNodeCount :: nat
  gm_usableNodeCount :: nat
  gm_graphEdgeCount :: nat
  gm_visitedNodeCount :: nat

record grid_route =
  rt_points :: "point list"
  rt_length :: "rat option"
  rt_obstacleCount :: nat

definition grid_setup :: "grid_request \<Rightarrow> rat \<times> rat \<Rightarrow> rat \<times> rat \<Rightarrow> point search_setup" where
  "grid_setup g from to =
    \<lparr>su_adjacency = fst (grid_adjacency g), su_source = (grid_startStub g, directionOf from),
     su_target = grid_endStub g, su_targetAxis = opposite_heading (directionOf to),
     su_bendPenalty = gr_bendPenaltyPx g\<rparr>"

text \<open>The end of the function, once the loop has stopped.\<close>

definition read_route ::
  "grid_request \<Rightarrow> point search_setup \<Rightarrow> grid_metrics \<Rightarrow> point search_state \<Rightarrow>
    (grid_metrics \<times> grid_route option) option" where
  "read_route g p m s =
    (let m1 = m\<lparr>gm_visitedNodeCount := ss_visited s\<rparr> in
     case ss_target s of
       None \<Rightarrow> Some (m1\<lparr>gm_status := ''no-route''\<rparr>, None)
     | Some t \<Rightarrow>
         Option.bind (trace_back (ss_previous s) (su_source p) (fst t)) (\<lambda>ks.
           let reversed = map fst ks in
           if last reversed \<noteq> fst (su_source p)
           then Some (m1\<lparr>gm_status := ''broken-predecessor-chain''\<rparr>, None)
           else let shortestPoints =
               normalizeRoutePoints (map Some ([gr_start g] @ rev reversed @ [gr_end g]))
             in Some (m1\<lparr>gm_status := ''routed''\<rparr>,
                 Some \<lparr>rt_points = shortestPoints, rt_length = orthogonalLength shortestPoints,
                       rt_obstacleCount = length (grid_expanded g)\<rparr>)))"

definition shortestOrthogonalGridRoute ::
  "grid_request \<Rightarrow> (grid_metrics \<times> grid_route option) option" where
  "shortestOrthogonalGridRoute g =
    (let m0 = \<lparr>gm_status = ''initializing'', gm_obstacleCount = 0, gm_avoidedSegmentCount = 0,
               gm_coordinateCount = 0, gm_candidateNodeCount = 0, gm_usableNodeCount = 0,
               gm_graphEdgeCount = 0, gm_visitedNodeCount = 0\<rparr> in
     case outward (gr_fromSide g) of
       None \<Rightarrow> Some (m0\<lparr>gm_status := ''unsupported-endpoint-side''\<rparr>, None)
     | Some from \<Rightarrow>
     (case outward (gr_toSide g) of
       None \<Rightarrow> Some (m0\<lparr>gm_status := ''unsupported-endpoint-side''\<rparr>, None)
     | Some to \<Rightarrow>
       let m1 = m0\<lparr>gm_obstacleCount := length (grid_expanded g),
                   gm_avoidedSegmentCount := length (present (gr_avoidedSegments g))\<rparr> in
       if gr_maximumObstacleCount g < length (grid_expanded g)
       then Some (m1\<lparr>gm_status := ''obstacle-budget-exceeded''\<rparr>, None)
       else let candidates = length (orderedX g) * length (orderedY g);
                m2 = m1\<lparr>gm_coordinateCount := length (orderedX g) + length (orderedY g),
                        gm_candidateNodeCount := candidates\<rparr> in
       if (case gr_maximumGridNodes g of None \<Rightarrow> False | Some b \<Rightarrow> b < candidates)
       then Some (m2\<lparr>gm_status := ''node-budget-exceeded''\<rparr>, None)
       else let m3 = m2\<lparr>gm_usableNodeCount := length (grid_nodes g)\<rparr> in
       if grid_startStub g \<notin> set (grid_nodes g) \<or> grid_endStub g \<notin> set (grid_nodes g)
       then Some (m3\<lparr>gm_status := ''endpoint-blocked''\<rparr>, None)
       else let m4 = m3\<lparr>gm_graphEdgeCount := snd (grid_adjacency g)\<rparr>;
                p = grid_setup g from to in
         Option.bind (search_loop p (start_search p)) (read_route g p m4)))"

section \<open>Lemmas: the grid lines and the graph\<close>

lemma coalesce_after_sorted:
  "sorted_wrt (<) vs \<Longrightarrow> sorted_wrt (<) (coalesce_after m keep p vs) \<and>
    set (coalesce_after m keep p vs) \<subseteq> set vs"
  by (induction vs arbitrary: p) (auto simp: subset_iff)

lemma coalesce_sorted: "sorted_wrt (<) (coalesce m values keep)"
  and coalesce_subset: "set (coalesce m values keep) \<subseteq> set values"
proof -
  define vs where "vs = sort (remdups values)"
  have vs: "sorted_wrt (<) vs" "set vs = set values" by (simp_all add: vs_def strict_sorted_iff)
  have "sorted_wrt (<) (coalesce m values keep) \<and> set (coalesce m values keep) \<subseteq> set vs"
  proof (cases vs)
    case Nil
    then show ?thesis unfolding coalesce_def vs_def [symmetric] by simp
  next
    case (Cons v us)
    then show ?thesis
      using vs(1) coalesce_after_sorted[of us m keep v]
      unfolding coalesce_def vs_def [symmetric] by auto
  qed
  then show "sorted_wrt (<) (coalesce m values keep)" "set (coalesce m values keep) \<subseteq> set values"
    using vs(2) by simp_all
qed

fun stroke :: "heading \<Rightarrow> point \<Rightarrow> point \<Rightarrow> bool" where
  "stroke HeadR p q \<longleftrightarrow> snd p = snd q \<and> fst p < fst q"
| "stroke HeadL p q \<longleftrightarrow> snd p = snd q \<and> fst q < fst p"
| "stroke HeadD p q \<longleftrightarrow> fst p = fst q \<and> snd p < snd q"
| "stroke HeadU p q \<longleftrightarrow> fst p = fst q \<and> snd q < snd p"

lemma stroke_opposite: "stroke (opposite_heading b) q p \<longleftrightarrow> stroke b p q"
  by (cases b) auto

lemma stroke_length: "stroke b p q \<Longrightarrow> 0 < \<bar>fst q - fst p\<bar> + \<bar>snd q - snd p\<bar>"
  by (cases b) auto

lemma sorted_wrt_neighbours: "sorted_wrt R xs \<Longrightarrow> (a, b) \<in> set (zip xs (tl xs)) \<Longrightarrow> R a b"
  by (induction xs rule: induct_list012) auto

lemma neighbours_in: "(a, b) \<in> set (zip xs (tl xs)) \<Longrightarrow> a \<in> set xs \<and> b \<in> set xs"
  by (cases xs) (auto dest: set_zip_leftD set_zip_rightD)

lemma row_strokes:
  assumes "(l, r) \<in> set (zip (grid_row g y) (tl (grid_row g y)))"
  shows "stroke HeadR l r" "l \<in> set (grid_nodes g)" "r \<in> set (grid_nodes g)"
proof -
  have "sorted_wrt (stroke HeadR) (map (\<lambda>x. (x, y)) (orderedX g))"
    using coalesce_sorted by (simp add: sorted_wrt_map orderedX_def)
  then have "sorted_wrt (stroke HeadR) (grid_row g y)"
    unfolding grid_row_def by (rule sorted_wrt_filter)
  then show "stroke HeadR l r" using assms by (rule sorted_wrt_neighbours)
  show "l \<in> set (grid_nodes g)" "r \<in> set (grid_nodes g)"
    using neighbours_in[OF assms] by (auto simp: grid_row_def)
qed

lemma column_strokes:
  assumes "(l, r) \<in> set (zip (grid_column g x) (tl (grid_column g x)))"
  shows "stroke HeadD l r" "l \<in> set (grid_nodes g)" "r \<in> set (grid_nodes g)"
proof -
  have "sorted_wrt (stroke HeadD) (map (\<lambda>y. (x, y)) (orderedY g))"
    using coalesce_sorted by (simp add: sorted_wrt_map orderedY_def)
  then have "sorted_wrt (stroke HeadD) (grid_column g x)"
    unfolding grid_column_def by (rule sorted_wrt_filter)
  then show "stroke HeadD l r" using assms by (rule sorted_wrt_neighbours)
  show "l \<in> set (grid_nodes g)" "r \<in> set (grid_nodes g)"
    using neighbours_in[OF assms] by (auto simp: grid_column_def)
qed

text \<open>Every adjacency entry is a free segment between two usable nodes, along its heading, with
  its length as weight.\<close>

definition grid_edge :: "grid_request \<Rightarrow> point \<Rightarrow> point \<times> rat \<times> heading \<Rightarrow> bool" where
  "grid_edge g n e \<longleftrightarrow> (case e of (m, w, b) \<Rightarrow>
    n \<in> set (grid_nodes g) \<and> m \<in> set (grid_nodes g) \<and> stroke b n m \<and>
    w = \<bar>fst m - fst n\<bar> + \<bar>snd m - snd n\<bar> \<and> (edge_free g n m \<or> edge_free g m n))"

definition sound_graph :: "grid_request \<Rightarrow> grid_graph \<Rightarrow> bool" where
  "sound_graph g graph \<longleftrightarrow> (\<forall>n. \<forall>e \<in> set (fst graph n). grid_edge g n e)"

lemma connect_pair_sound:
  assumes "sound_graph g graph" "stroke b l r" "l \<in> set (grid_nodes g)" "r \<in> set (grid_nodes g)"
  shows "sound_graph g (connect_pair g b (l, r) graph)"
proof (cases "edge_free g l r")
  case True
  have "grid_edge g l (r, \<bar>fst r - fst l\<bar> + \<bar>snd r - snd l\<bar>, b)"
    "grid_edge g r (l, \<bar>fst r - fst l\<bar> + \<bar>snd r - snd l\<bar>, opposite_heading b)"
    using assms(2-4) True by (auto simp: grid_edge_def stroke_opposite abs_minus_commute)
  then show ?thesis
    using assms(1) True by (auto simp: sound_graph_def connect_pair_def Let_def)
next
  case False
  then show ?thesis using assms(1) by (simp add: connect_pair_def)
qed

lemma connectLine_sound:
  assumes "\<And>l r. (l, r) \<in> set (zip line (tl line)) \<Longrightarrow>
      stroke b l r \<and> l \<in> set (grid_nodes g) \<and> r \<in> set (grid_nodes g)"
  shows "sound_graph g graph \<Longrightarrow> sound_graph g (connectLine g b line graph)"
proof -
  have "sound_graph g graph \<Longrightarrow> sound_graph g (fold (connect_pair g b) prs graph)"
    if "set prs \<subseteq> set (zip line (tl line))" for prs
    using that
  proof (induction prs arbitrary: graph)
    case (Cons lr prs)
    obtain l r where lr: "lr = (l, r)" by (cases lr)
    have "sound_graph g (connect_pair g b (l, r) graph)"
      using Cons.prems assms[of l r] lr by (intro connect_pair_sound) auto
    then show ?case using Cons.IH Cons.prems lr by simp
  qed simp
  then show "sound_graph g graph \<Longrightarrow> sound_graph g (connectLine g b line graph)"
    unfolding connectLine_def by blast
qed

lemma fold_sound:
  assumes "\<And>z graph. sound_graph g graph \<Longrightarrow> sound_graph g (f z graph)"
  shows "sound_graph g graph \<Longrightarrow> sound_graph g (fold f zs graph)"
  by (induction zs arbitrary: graph) (simp_all add: assms)

lemma grid_adjacency_sound: "sound_graph g (grid_adjacency g)"
  unfolding grid_adjacency_def
proof (rule fold_sound)
  fix x graph assume "sound_graph g graph"
  then show "sound_graph g (connectLine g HeadD (grid_column g x) graph)"
    using column_strokes by (intro connectLine_sound) blast+
next
  have "sound_graph g ((\<lambda>p. []), 0)" by (simp add: sound_graph_def)
  then show "sound_graph g (fold (\<lambda>y. connectLine g HeadR (grid_row g y)) (orderedY g) ((\<lambda>p. []), 0))"
    by (rule fold_sound[rotated]) (intro connectLine_sound, use row_strokes in blast)
qed

lemma grid_adjacency_edge:
  "(m, w, b) \<in> set (fst (grid_adjacency g) n) \<Longrightarrow>
    n \<in> set (grid_nodes g) \<and> m \<in> set (grid_nodes g) \<and> stroke b n m \<and>
    w = \<bar>fst m - fst n\<bar> + \<bar>snd m - snd n\<bar> \<and> (edge_free g n m \<or> edge_free g m n)"
  using grid_adjacency_sound[of g] unfolding sound_graph_def grid_edge_def by fastforce

lemma grid_setup_positive:
  assumes "0 \<le> gr_bendPenaltyPx g"
  shows "positive_setup (grid_setup g from to)"
  using assms by (auto simp: positive_setup_def grid_setup_def dest!: grid_adjacency_edge intro: stroke_length)

lemma heading_UNIV: "(UNIV :: heading set) = {HeadR, HeadL, HeadD, HeadU}"
  by (auto intro: heading.exhaust)

lemma grid_setup_finite: "finite (reachable (grid_setup g from to))"
proof -
  let ?p = "grid_setup g from to"
  have "walk ?p u d \<Longrightarrow> u \<in> insert (su_source ?p) (set (grid_nodes g) \<times> UNIV)" for u d
    by (induction rule: walk.induct) (auto simp: grid_setup_def dest!: grid_adjacency_edge)
  then have "reachable ?p \<subseteq> insert (su_source ?p) (set (grid_nodes g) \<times> UNIV)"
    unfolding reachable_def by blast
  moreover have "finite (insert (su_source ?p) (set (grid_nodes g) \<times> (UNIV :: heading set)))"
    by (simp add: heading_UNIV)
  ultimately show ?thesis by (rule finite_subset)
qed

section \<open>Lemmas: the route\<close>

text \<open>A chain in the grid, last point first: strokes along free segments.\<close>

fun grid_path :: "grid_request \<Rightarrow> point list \<Rightarrow> bool" where
  "grid_path g (q # p # ps) \<longleftrightarrow>
    (\<exists>b. stroke b p q) \<and> p \<in> set (grid_nodes g) \<and> q \<in> set (grid_nodes g) \<and>
    (edge_free g p q \<or> edge_free g q p) \<and> grid_path g (p # ps)"
| "grid_path g [p] \<longleftrightarrow> p = grid_startStub g"
| "grid_path g [] \<longleftrightarrow> False"

lemma chain_grid_path:
  "chain_cost p us c \<Longrightarrow> p = grid_setup g vf vt \<Longrightarrow> grid_path g (map fst us)"
proof (induction p us c rule: chain_cost.induct)
  case (3 p u v us c)
  then obtain w x where "(fst u, w, snd u) \<in> set (fst (grid_adjacency g) (fst v))"
      "chain_cost p (v # us) x" by (auto simp: grid_setup_def)
  then show ?case
    using grid_adjacency_edge[of "fst u" w "snd u" g "fst v"] "3.IH" "3.prems"(2) by auto
qed (simp_all add: grid_setup_def)

lemma grid_path_last: "grid_path g ps \<Longrightarrow> last ps = grid_startStub g"
  by (induction g ps rule: grid_path.induct) auto

lemma chain_last: "chain_cost p us c \<Longrightarrow> last us = su_source p"
  by (induction p us c rule: chain_cost.induct) auto

text \<open>What the search finds, in the form the reading back needs.\<close>

lemma search_finds:
  assumes pos: "positive_setup p" and fin: "finite (reachable p)"
  obtains s where "search_loop p (start_search p) = Some s"
    "ss_target s = None" "\<forall>u d. walk p u d \<longrightarrow> fst u \<noteq> su_target p"
  | s t c ks d where "search_loop p (start_search p) = Some s" "ss_target s = Some (t, c)"
    "trace_back (ss_previous s) (su_source p) t = Some (t # ks)"
    "fst t = su_target p" "chain_cost p (t # ks) d" "c = arrival_cost p t d"
    "\<forall>u e. walk p u e \<longrightarrow> fst u = su_target p \<longrightarrow> c \<le> arrival_cost p u e"
proof -
  obtain s where s: "search_loop p (start_search p) = Some s" "search_answer p s"
    using search_answers[OF fin pos] .
  have best: "\<exists>t c. ss_target s = Some (t, c) \<and> c \<le> arrival_cost p u e"
    if "walk p u e" "fst u = su_target p" for u e
    using s(2) that unfolding search_answer_def by blast
  show thesis
  proof (cases "ss_target s")
    case None
    then show ?thesis using that(1)[OF s(1)] best by fastforce
  next
    case (Some tc)
    obtain t c where tc: "tc = (t, c)" by (cases tc)
    then obtain d where d: "fst t = su_target p" "ss_distances s t = Some d" "c = arrival_cost p t d"
      using s(2) Some unfolding search_answer_def by blast
    obtain ks where ks: "trace_back (ss_previous s) (su_source p) t = Some (t # ks)"
        "chain_cost p (t # ks) d"
      using trace_back_chain[OF fin pos s(2) d(2)] by blast
    have "\<forall>u e. walk p u e \<longrightarrow> fst u = su_target p \<longrightarrow> c \<le> arrival_cost p u e"
      using best Some tc by fastforce
    then show ?thesis using that(2)[OF s(1) _ ks(1) d(1) ks(2) d(3)] Some tc by blast
  qed
qed

text \<open>The cases of the whole function.\<close>

definition grid_open :: "grid_request \<Rightarrow> rat \<times> rat \<Rightarrow> rat \<times> rat \<Rightarrow> bool" where
  "grid_open g vf vt \<longleftrightarrow>
    outward (gr_fromSide g) = Some vf \<and> outward (gr_toSide g) = Some vt \<and>
    length (grid_expanded g) \<le> gr_maximumObstacleCount g \<and>
    (\<forall>b. gr_maximumGridNodes g = Some b \<longrightarrow> length (orderedX g) * length (orderedY g) \<le> b) \<and>
    grid_startStub g \<in> set (grid_nodes g) \<and> grid_endStub g \<in> set (grid_nodes g)"

lemma grid_closed_cases:
  assumes "\<And>vf vt. \<not> grid_open g vf vt"
  obtains m where "shortestOrthogonalGridRoute g = Some (m, None)"
    "gm_status m \<in> {''unsupported-endpoint-side'', ''obstacle-budget-exceeded'',
      ''node-budget-exceeded'', ''endpoint-blocked''}"
  using assms that unfolding grid_open_def shortestOrthogonalGridRoute_def
  by (fastforce simp: Let_def split: option.splits if_splits)

lemma grid_open_search:
  assumes "grid_open g vf vt"
  shows "shortestOrthogonalGridRoute g =
    Option.bind (search_loop (grid_setup g vf vt) (start_search (grid_setup g vf vt)))
      (read_route g (grid_setup g vf vt)
        \<lparr>gm_status = ''initializing'', gm_obstacleCount = length (grid_expanded g),
         gm_avoidedSegmentCount = length (present (gr_avoidedSegments g)),
         gm_coordinateCount = length (orderedX g) + length (orderedY g),
         gm_candidateNodeCount = length (orderedX g) * length (orderedY g),
         gm_usableNodeCount = length (grid_nodes g),
         gm_graphEdgeCount = snd (grid_adjacency g), gm_visitedNodeCount = 0\<rparr>)"
  using assms unfolding grid_open_def
  by (cases "gr_maximumGridNodes g") (simp_all add: shortestOrthogonalGridRoute_def Let_def)

text \<open>The function returns, and what it returns.\<close>

definition routed_by ::
  "grid_request \<Rightarrow> point search_setup \<Rightarrow> point visit list \<Rightarrow> rat \<Rightarrow> grid_route \<Rightarrow> bool" where
  "routed_by g p us d r \<longleftrightarrow>
    us \<noteq> [] \<and> chain_cost p us d \<and> fst (hd us) = grid_endStub g \<and>
    rt_points r = normalizeRoutePoints (map Some ([gr_start g] @ rev (map fst us) @ [gr_end g])) \<and>
    rt_length r = orthogonalLength (rt_points r) \<and>
    rt_obstacleCount r = length (grid_expanded g) \<and>
    (\<forall>u e. walk p u e \<longrightarrow> fst u = grid_endStub g \<longrightarrow>
      arrival_cost p (hd us) d \<le> arrival_cost p u e)"

lemma grid_route_returns:
  assumes "0 \<le> gr_bendPenaltyPx g"
  shows "\<exists>m r. shortestOrthogonalGridRoute g = Some (m, r) \<and>
    (case r of
       None \<Rightarrow> (\<forall>vf vt. \<not> grid_open g vf vt) \<or>
         (\<exists>vf vt. grid_open g vf vt \<and>
           (\<forall>u d. walk (grid_setup g vf vt) u d \<longrightarrow> fst u \<noteq> grid_endStub g))
     | Some r \<Rightarrow> \<exists>vf vt us d. grid_open g vf vt \<and> routed_by g (grid_setup g vf vt) us d r)"
proof (cases "\<exists>vf vt. grid_open g vf vt")
  case False
  then obtain m where "shortestOrthogonalGridRoute g = Some (m, None)"
    using grid_closed_cases by metis
  then show ?thesis using False by (intro exI[of _ m] exI[of _ None]) simp
next
  case True
  then obtain vf vt where op: "grid_open g vf vt" by blast
  let ?p = "grid_setup g vf vt"
  have src: "su_source ?p = (grid_startStub g, directionOf vf)" and tgt: "su_target ?p = grid_endStub g"
    by (simp_all add: grid_setup_def)
  show ?thesis
  proof (rule search_finds[OF grid_setup_positive[OF assms] grid_setup_finite, of vf vt])
    fix s assume s: "search_loop ?p (start_search ?p) = Some s" "ss_target s = None"
      "\<forall>u d. walk ?p u d \<longrightarrow> fst u \<noteq> su_target ?p"
    then have "\<exists>m. shortestOrthogonalGridRoute g = Some (m, None)"
      by (simp add: grid_open_search[OF op] read_route_def Let_def)
    then show ?thesis using op s(3) tgt by fastforce
  next
    fix s t c ks d
    assume s: "search_loop ?p (start_search ?p) = Some s" "ss_target s = Some (t, c)"
      "trace_back (ss_previous s) (su_source ?p) t = Some (t # ks)" "fst t = su_target ?p"
      "chain_cost ?p (t # ks) d" "c = arrival_cost ?p t d"
      "\<forall>u e. walk ?p u e \<longrightarrow> fst u = su_target ?p \<longrightarrow> c \<le> arrival_cost ?p u e"
    let ?r = "\<lparr>rt_points = normalizeRoutePoints (map Some ([gr_start g] @ rev (map fst (t # ks)) @ [gr_end g])),
      rt_length = orthogonalLength (normalizeRoutePoints (map Some ([gr_start g] @ rev (map fst (t # ks)) @ [gr_end g]))),
      rt_obstacleCount = length (grid_expanded g)\<rparr>"
    have "last (map fst (t # ks)) = fst (su_source ?p)"
      by (metis chain_last last_map list.distinct(1) s(5))
    then have "\<exists>m. shortestOrthogonalGridRoute g = Some (m, Some ?r)"
      using s(1,2,3) by (simp add: grid_open_search[OF op] read_route_def Let_def)
    moreover have "routed_by g ?p (t # ks) d ?r"
      using s(4-7) tgt by (simp add: routed_by_def)
    ultimately show ?thesis using op by fastforce
  qed
qed

section \<open>Lemmas: the route keeps clear\<close>

definition fine_segment :: "diagram_segment \<Rightarrow> bool" where
  "fine_segment sg \<longleftrightarrow> fine_point (sg_start sg) \<and> fine_point (sg_end sg)"

definition fine_request :: "grid_request \<Rightarrow> bool" where
  "fine_request g \<longleftrightarrow>
    fine_point (gr_start g) \<and> fine_point (gr_end g) \<and> (\<forall>p \<in> set (gr_points g). fine_point p) \<and>
    (\<forall>r \<in> set (present (gr_obstacles g)). fine_rect r) \<and>
    (\<forall>sg \<in> set (present (gr_avoidedSegments g)). fine_segment sg) \<and>
    (\<forall>sg \<in> set (present (gr_borderSegments g)). fine_segment sg) \<and>
    fine (gr_clearance g) \<and> 0 \<le> gr_clearance g \<and>
    fine (gr_endpointStubPx g) \<and> fine (gr_routeSeparationPx g)"

lemma fine_expanded:
  assumes "fine_request g" "r \<in> set (grid_expanded g)"
  shows "fine_rect r"
proof -
  obtain r0 where r0: "r0 \<in> set (present (gr_obstacles g))" "r = expandedRect r0 (gr_clearance g)"
    using assms(2) by (auto simp: grid_expanded_def)
  have "fine_rect r0" "fine (gr_clearance g)" "0 \<le> gr_clearance g"
    using assms(1) r0(1) by (auto simp: fine_request_def)
  moreover from this(2) have "fine (gr_clearance g * 2)"
    using fine_mult_int[of "gr_clearance g" 2] by (simp add: mult.commute)
  ultimately show ?thesis by (simp add: r0(2) expandedRect_def fine_rect_def fine_add fine_diff)
qed

lemma fine_moveOutward:
  assumes "fine_point p" "fine d"
  shows "fine_point (moveOutward p side d)"
  using assms fine_add[of _ "- d"]
  by (auto simp: moveOutward_def outward_def fine_point_def Let_def fine_add fine_diff fine_minus)

lemma fine_axis:
  assumes req: "fine_request g" and along: "\<And>p. fine_point p \<Longrightarrow> fine (along p)"
    and box: "\<And>r. fine_rect r \<Longrightarrow> fine (low r) \<and> fine (extent r)"
    and v: "v \<in> set (axis_values g along low extent)"
  shows "fine v"
proof -
  have stubs: "fine_point (grid_startStub g)" "fine_point (grid_endStub g)"
    using req by (simp_all add: grid_startStub_def grid_endStub_def fine_request_def fine_moveOutward)
  have lanes: "fine w" if "fine_segment sg" "w \<in> set (segment_lanes g along sg)" for w sg
    using that req along[of "sg_start sg"]
    by (auto simp: segment_lanes_def fine_segment_def fine_request_def fine_add fine_diff split: if_splits)
  have one: "fine 1" by (rule fine_numeral)
  from v consider "v = along (grid_startStub g)" | "v = along (grid_endStub g)"
    | p where "p \<in> set (gr_points g)" "v = along p"
    | r where "r \<in> set (grid_expanded g)" "v = low r - 1 \<or> v = low r + extent r + 1"
    | sg where "sg \<in> set (present (gr_avoidedSegments g))"
        "v = along (sg_start sg) \<or> v = along (sg_end sg) \<or> v \<in> set (segment_lanes g along sg)"
    | sg where "sg \<in> set (present (gr_borderSegments g))" "v \<in> set (segment_lanes g along sg)"
    by (auto simp: axis_values_def)
  then show ?thesis
  proof cases
    case 4
    then show ?thesis
      using box[OF fine_expanded[OF req 4(1)]] one by (auto intro!: fine_add fine_diff)
  next
    case 5
    then have "fine_segment sg" using req by (simp add: fine_request_def)
    then show ?thesis
      using 5(2) along[of "sg_start sg"] along[of "sg_end sg"] lanes[of sg]
      unfolding fine_segment_def by blast
  next
    case 6
    then have "fine_segment sg" using req by (simp add: fine_request_def)
    then show ?thesis using lanes 6(2) by blast
  qed (use stubs along req in \<open>auto simp: fine_request_def\<close>)
qed

lemma fine_node:
  assumes "fine_request g" "p \<in> set (grid_nodes g)"
  shows "fine_point p"
proof -
  have "fst p \<in> set (orderedX g)" "snd p \<in> set (orderedY g)"
    using assms(2) by (auto simp: grid_nodes_def)
  then have "fst p \<in> set (axis_values g fst dr_x dr_width)" "snd p \<in> set (axis_values g snd dr_y dr_height)"
    using coalesce_subset unfolding orderedX_def orderedY_def by blast+
  then show ?thesis
    using fine_axis[OF assms(1), of fst dr_x dr_width] fine_axis[OF assms(1), of snd dr_y dr_height]
    by (simp add: fine_point_def fine_rect_def)
qed

lemma free_edge_clear:
  assumes "fine_request g" "fine_point p" "fine_point q" "edge_free g p q" "between p q x"
    "r \<in> set (grid_expanded g)"
  shows "\<not> in_rect r x"
proof
  assume "in_rect r x"
  then have "segmentIntersectsRect \<lparr>sg_start = p, sg_end = q\<rparr> r 0"
    using segmentIntersectsRect_exact[OF assms(2,3) fine_expanded[OF assms(1,6)]] assms(5) by blast
  then show False using assms(4,6) by (auto simp: edge_free_def segmentBlocked_def list_ex_iff)
qed

lemma grid_path_clear:
  assumes req: "fine_request g" and start: "grid_startStub g \<in> set (grid_nodes g)"
    and r: "r \<in> set (grid_expanded g)"
  shows "grid_path g ps \<Longrightarrow> polyline ps x \<Longrightarrow> \<not> in_rect r x"
proof (induction ps rule: induct_list012)
  case (2 p)
  then have "x \<in> set (grid_nodes g)" using start by simp
  then show ?case using r by (auto simp: grid_nodes_def pointBlocked_def list_ex_iff in_rect_def)
next
  case (3 q p ps)
  have pq: "fine_point p" "fine_point q" using "3.prems"(1) fine_node[OF req] by simp_all
  have free: "edge_free g p q \<or> edge_free g q p" and rest: "grid_path g (p # ps)"
    using "3.prems"(1) by simp_all
  show ?case
  proof (cases "between q p x")
    case True
    then have "between p q x" by (rule between_sym)
    then show ?thesis
      using free free_edge_clear[OF req pq(1,2) _ _ r] free_edge_clear[OF req pq(2,1) _ _ r] True by blast
  next
    case False
    then show ?thesis using "3.IH"(2)[OF rest] "3.prems"(2) by simp
  qed
qed simp

lemma chain_ends:
  assumes "routed_by g (grid_setup g vf vt) us d r"
  shows "grid_path g (map fst us)" "hd (rev (map fst us)) = grid_startStub g"
    "last (rev (map fst us)) = grid_endStub g" "us \<noteq> []"
proof -
  have us: "us \<noteq> []" "chain_cost (grid_setup g vf vt) us d" "fst (hd us) = grid_endStub g"
    using assms by (auto simp: routed_by_def)
  show "grid_path g (map fst us)" using chain_grid_path[OF us(2) refl] .
  show "us \<noteq> []" by (rule us(1))
  show "hd (rev (map fst us)) = grid_startStub g"
    using chain_last[OF us(2)] us(1) by (simp add: hd_rev last_map grid_setup_def)
  show "last (rev (map fst us)) = grid_endStub g" using us by (simp add: last_rev hd_map)
qed

lemma grid_path_nodes:
  "grid_path g ps \<Longrightarrow> grid_startStub g \<in> set (grid_nodes g) \<Longrightarrow> set ps \<subseteq> set (grid_nodes g)"
  by (induction ps rule: induct_list012) auto

text \<open>The points of the route: the two stubs and the path, which keeps off every obstacle.\<close>

lemma routed_points:
  assumes req: "fine_request g" and op: "grid_open g vf vt"
    and r: "routed_by g (grid_setup g vf vt) us d r"
  shows "polyline (rt_points r) x \<longleftrightarrow>
    between (gr_start g) (grid_startStub g) x \<or> polyline (rev (map fst us)) x \<or>
    between (grid_endStub g) (gr_end g) x"
proof -
  let ?ps = "rev (map fst us)"
  note ends = chain_ends[OF r]
  have "grid_startStub g \<in> set (grid_nodes g)" using op by (simp add: grid_open_def)
  then have "set ?ps \<subseteq> set (grid_nodes g)" using grid_path_nodes[OF ends(1)] by simp
  then have "\<forall>p \<in> set ?ps. fine_point p" using fine_node[OF req] by blast
  moreover have "fine_point (gr_start g)" "fine_point (gr_end g)" using req by (simp_all add: fine_request_def)
  ultimately have "\<forall>p \<in> set (finite_points (map Some ([gr_start g] @ ?ps @ [gr_end g]))). fine_point p"
    unfolding finite_points_Some by auto
  from normalize_same_points[OF this, of x]
  have "polyline (rt_points r) x \<longleftrightarrow> polyline ([gr_start g] @ ?ps @ [gr_end g]) x"
    using r by (simp only: routed_by_def finite_points_Some)
  also have "\<dots> \<longleftrightarrow> x = gr_start g \<or> between (gr_start g) (hd (?ps @ [gr_end g])) x \<or>
      polyline (?ps @ [gr_end g]) x"
    by (subst polyline_append) simp_all
  also have "polyline (?ps @ [gr_end g]) x \<longleftrightarrow>
      polyline ?ps x \<or> between (last ?ps) (gr_end g) x \<or> x = gr_end g"
    using ends(4) by (subst polyline_append) simp_all
  also have "hd (?ps @ [gr_end g]) = grid_startStub g" using ends(2,4) by simp
  finally show ?thesis using ends(3) between_ends by (auto simp: disj_ac)
qed

lemma routed_path_clear:
  assumes req: "fine_request g" and op: "grid_open g vf vt"
    and r: "routed_by g (grid_setup g vf vt) us d r"
    and x: "polyline (rt_points r) x" "rect \<in> set (grid_expanded g)" "in_rect rect x"
  shows "between (gr_start g) (grid_startStub g) x \<or> between (grid_endStub g) (gr_end g) x"
proof -
  have "\<not> polyline (rev (map fst us)) x"
  proof
    assume "polyline (rev (map fst us)) x"
    then have "polyline (map fst us) x" by (simp only: polyline_rev)
    then show False
      using grid_path_clear[OF req _ x(2) chain_ends(1)[OF r]] op x(3) by (simp add: grid_open_def)
  qed
  then show ?thesis using routed_points[OF req op r] x(1) by blast
qed

lemma grid_route_some:
  assumes "0 \<le> gr_bendPenaltyPx g" "shortestOrthogonalGridRoute g = Some (m, Some r)"
  obtains vf vt us d where "grid_open g vf vt" "routed_by g (grid_setup g vf vt) us d r"
  using grid_route_returns[OF assms(1)] assms(2) that by auto

section \<open>Lemmas: the length of the route\<close>

definition stroke_size :: "point \<Rightarrow> point \<Rightarrow> rat" where
  "stroke_size p q = \<bar>fst q - fst p\<bar> + \<bar>snd q - snd p\<bar>"

definition axis_parallel :: "point \<Rightarrow> point \<Rightarrow> bool" where
  "axis_parallel p q \<longleftrightarrow> fst p = fst q \<or> snd p = snd q"

lemma orthogonalLength_Cons:
  "ps \<noteq> [] \<Longrightarrow> orthogonalLength (p # ps) = Some l \<longleftrightarrow>
    axis_parallel p (hd ps) \<and> (\<exists>k. orthogonalLength ps = Some k \<and> l = stroke_size p (hd ps) + k)"
  by (cases ps) (auto simp: axis_parallel_def stroke_size_def split: option.splits)

lemma orthogonalLength_append:
  "ps \<noteq> [] \<Longrightarrow> qs \<noteq> [] \<Longrightarrow> orthogonalLength ps = Some k \<Longrightarrow> orthogonalLength qs = Some l \<Longrightarrow>
    axis_parallel (last ps) (hd qs) \<Longrightarrow>
    orthogonalLength (ps @ qs) = Some (k + stroke_size (last ps) (hd qs) + l)"
proof (induction ps arbitrary: k)
  case (Cons p ps)
  show ?case
  proof (cases "ps = []")
    case True
    then show ?thesis using Cons.prems orthogonalLength_Cons[of qs p] by simp
  next
    case False
    then obtain k' where "axis_parallel p (hd ps)" "orthogonalLength ps = Some k'" "k = stroke_size p (hd ps) + k'"
      using Cons.prems(3) orthogonalLength_Cons by blast
    then show ?thesis
      using Cons.IH[of k'] Cons.prems False orthogonalLength_Cons[of "ps @ qs" p] by simp
  qed
qed simp

lemma stroke_size_commute: "stroke_size p q = stroke_size q p"
  by (simp add: stroke_size_def abs_minus_commute)

lemma axis_parallel_commute: "axis_parallel p q \<longleftrightarrow> axis_parallel q p"
  by (auto simp: axis_parallel_def)

lemma orthogonalLength_rev: "orthogonalLength ps = Some l \<Longrightarrow> orthogonalLength (rev ps) = Some l"
proof (induction ps arbitrary: l)
  case (Cons p ps)
  show ?case
  proof (cases "ps = []")
    case False
    then obtain k where "axis_parallel p (hd ps)" "orthogonalLength ps = Some k" "l = stroke_size p (hd ps) + k"
      using Cons.prems orthogonalLength_Cons by blast
    moreover from this have "orthogonalLength (rev ps) = Some k" using Cons.IH by blast
    ultimately show ?thesis
      using orthogonalLength_append[of "rev ps" "[p]" k 0] False
      by (simp add: last_rev stroke_size_commute axis_parallel_commute)
  qed (use Cons.prems in simp)
qed simp

text \<open>A point dropped straight between its neighbours leaves the length as it was.\<close>

lemma straight_through:
  assumes "crossProduct a b c = 0" "0 \<le> forward_dot a b c" "a \<noteq> b" "b \<noteq> c"
    and "axis_parallel b a" "axis_parallel c b"
  shows "axis_parallel c a \<and> stroke_size c a = stroke_size c b + stroke_size b a"
proof -
  have btw: "between a c b" using forward_between[OF assms(1-3)] .
  have box: "min (fst a) (fst c) \<le> fst b" "fst b \<le> max (fst a) (fst c)"
    "min (snd a) (snd c) \<le> snd b" "snd b \<le> max (snd a) (snd c)"
    using btw by (simp_all add: between_iff onSegment_def)
  have "axis_parallel c a"
    using assms by (auto simp: axis_parallel_def crossProduct_def prod_eq_iff)
  moreover have "stroke_size c a = stroke_size c b + stroke_size b a"
    using box by (auto simp: stroke_size_def abs_if min_def max_def split: if_splits)
  ultimately show ?thesis ..
qed

lemma drop_collinear_length:
  "fine_point p \<Longrightarrow> settled ps \<Longrightarrow> ps \<noteq> [] \<Longrightarrow> p \<noteq> hd ps \<Longrightarrow> (\<forall>q \<in> set ps. fine_point q) \<Longrightarrow>
    orthogonalLength (p # ps) = Some l \<Longrightarrow> orthogonalLength (p # drop_collinear p ps) = Some l"
proof (induction p ps arbitrary: l rule: drop_collinear.induct)
  case (1 p b a ps)
  show ?case
  proof (cases "collinearForward a b p")
    case True
    then have fwd: "crossProduct a b p = 0" "0 \<le> forward_dot a b p"
      using fine_collinearForward[of a b p] "1.prems"(1,5) by simp_all
    have ab: "a \<noteq> b" using settled_neq[OF "1.prems"(2)] .
    obtain k where k: "axis_parallel p b" "axis_parallel b a" "orthogonalLength (a # ps) = Some k"
        "l = stroke_size p b + (stroke_size b a + k)"
      using "1.prems"(6) orthogonalLength_Cons[of "b # a # ps" p l] orthogonalLength_Cons[of "a # ps" b]
      by auto
    have "p \<noteq> a" using forward_between[OF fwd ab] ab by (auto simp: between_same)
    moreover have "orthogonalLength (p # a # ps) = Some l"
      using straight_through[OF fwd ab _ k(2,1)] "1.prems"(4) k
      by (subst orthogonalLength_Cons) (auto simp: add.assoc)
    ultimately show ?thesis
      using "1.IH"[OF True, of l] "1.prems"(1,5) settled_tl[OF "1.prems"(2)] True by simp
  next
    case False
    then show ?thesis using "1.prems"(6) by simp
  qed
qed auto

lemma normalize_length:
  assumes "\<forall>p \<in> set points. fine_point p"
  shows "orthogonalLength (rev points) = Some l \<Longrightarrow>
    orthogonalLength (fold accept_point (map Some points) []) = Some l"
  using assms
proof (induction points arbitrary: l rule: rev_induct)
  case (snoc p points)
  let ?ps = "fold accept_point (map Some points) []"
  have ok: "pending_ok points ?ps" using normalize_pending[of "map Some points"] snoc.prems(2) by simp
  have p: "fine_point p" using snoc.prems(2) by simp
  show ?case
  proof (cases "points = []")
    case True
    then show ?thesis using snoc.prems(1) by (simp add: accept_point_def)
  next
    case False
    then have ps: "?ps \<noteq> []" "settled ?ps" "\<forall>q \<in> set ?ps. fine_point q" "hd ?ps = hd (rev points)"
      using ok by (simp_all add: pending_ok_def hd_rev)
    obtain k where k: "axis_parallel p (hd ?ps)" "orthogonalLength (rev points) = Some k"
        "l = stroke_size p (hd ?ps) + k"
      using snoc.prems(1) orthogonalLength_Cons[of "rev points" p l] False ps(4) by auto
    then have IH: "orthogonalLength ?ps = Some k" using snoc.IH snoc.prems(2) by simp
    have near: "near_point p (hd ?ps) \<longleftrightarrow> p = hd ?ps"
      using fine_near[OF p] ps(3) hd_in_set[OF ps(1)] by blast
    show ?thesis
    proof (cases "p = hd ?ps")
      case True
      then have "l = k" using k(3) by (simp add: stroke_size_def)
      moreover have "accept_point (Some p) ?ps = ?ps" using True near ps(1) by (simp add: accept_point_def)
      ultimately show ?thesis using IH by simp
    next
      case new: False
      have "orthogonalLength (p # ?ps) = Some l" using orthogonalLength_Cons[OF ps(1)] k IH by blast
      from drop_collinear_length[OF p ps(2,1) new ps(3) this]
      have "orthogonalLength (p # drop_collinear p ?ps) = Some l" .
      moreover have "accept_point (Some p) ?ps = p # drop_collinear p ?ps"
        using new near by (simp add: accept_point_def)
      ultimately show ?thesis by simp
    qed
  qed
qed simp

fun turns :: "'n visit list \<Rightarrow> nat" where
  "turns (u # v # us) = (if snd u = snd v then 0 else 1) + turns (v # us)"
| "turns us = 0"

lemma chain_length:
  "chain_cost p us d \<Longrightarrow> p = grid_setup g vf vt \<Longrightarrow>
    orthogonalLength (map fst us) = Some (d - gr_bendPenaltyPx g * of_nat (turns us))"
proof (induction p us d rule: chain_cost.induct)
  case (3 p u v us c)
  then obtain w x where wx: "(fst u, w, snd u) \<in> set (fst (grid_adjacency g) (fst v))"
      "c = x + w + turn_cost p (snd v) (snd u)" "chain_cost p (v # us) x" by (auto simp: grid_setup_def)
  have IH: "orthogonalLength (map fst (v # us)) = Some (x - gr_bendPenaltyPx g * of_nat (turns (v # us)))"
    using "3.IH" wx(3) "3.prems"(2) by blast
  have e: "stroke (snd u) (fst v) (fst u)" "w = stroke_size (fst u) (fst v)"
    using grid_adjacency_edge[OF wx(1)] by (auto simp: stroke_size_def abs_minus_commute)
  then have "axis_parallel (fst u) (fst v)" by (cases "snd u") (auto simp: axis_parallel_def)
  moreover have "c - gr_bendPenaltyPx g * of_nat (turns (u # v # us)) =
      w + (x - gr_bendPenaltyPx g * of_nat (turns (v # us)))"
    using wx(2) "3.prems"(2) by (simp add: turn_cost_def grid_setup_def algebra_simps)
  ultimately show ?case
    using orthogonalLength_Cons[of "map fst (v # us)" "fst u"] IH e(2) by auto
qed simp_all

lemma outward_unit:
  "outward side = Some v \<Longrightarrow> (fst v = 0 \<or> snd v = 0) \<and> \<bar>fst v\<bar> + \<bar>snd v\<bar> = 1"
  by (auto simp: outward_def split: if_splits)

lemma stub_stroke:
  assumes "outward side = Some v"
  shows "axis_parallel p (moveOutward p side d)" "stroke_size p (moveOutward p side d) = \<bar>d\<bar>"
  using outward_unit[OF assms] assms
  by (auto simp: moveOutward_def axis_parallel_def stroke_size_def abs_mult Let_def)

text \<open>The length of a route: both stubs and the path, whose cost without its turns it is.\<close>

lemma routed_length:
  assumes req: "fine_request g" and op: "grid_open g vf vt"
    and r: "routed_by g (grid_setup g vf vt) us d r"
  shows "rt_length r = Some (2 * \<bar>gr_endpointStubPx g\<bar> + d - gr_bendPenaltyPx g * of_nat (turns us))"
proof -
  let ?ps = "map fst us" and ?k = "d - gr_bendPenaltyPx g * of_nat (turns us)"
    and ?e = "\<bar>gr_endpointStubPx g\<bar>"
  note ends = chain_ends[OF r]
  have dirs: "outward (gr_fromSide g) = Some vf" "outward (gr_toSide g) = Some vt"
    and start: "grid_startStub g \<in> set (grid_nodes g)" using op by (simp_all add: grid_open_def)
  have "chain_cost (grid_setup g vf vt) us d" using r by (simp add: routed_by_def)
  then have path: "orthogonalLength ?ps = Some ?k" by (rule chain_length) simp
  have hd: "hd ?ps = grid_endStub g" "last ?ps = grid_startStub g" and ne: "?ps \<noteq> []"
    using ends(2,3,4) by (simp_all add: hd_rev last_rev)
  have a: "axis_parallel (gr_end g) (grid_endStub g)" "stroke_size (gr_end g) (grid_endStub g) = ?e"
    unfolding grid_endStub_def using stub_stroke[OF dirs(2)] by simp_all
  have b: "axis_parallel (grid_startStub g) (gr_start g)" "stroke_size (grid_startStub g) (gr_start g) = ?e"
    unfolding grid_startStub_def
    using stub_stroke[OF dirs(1), of "gr_start g" "gr_endpointStubPx g"]
    by (simp_all add: axis_parallel_commute stroke_size_commute)
  have "orthogonalLength (?ps @ [gr_start g]) = Some (?k + ?e + 0)"
    using orthogonalLength_append[OF ne _ path, of "[gr_start g]" 0] b hd(2) by simp
  then have "orthogonalLength ([gr_end g] @ ?ps @ [gr_start g]) = Some (0 + ?e + (?k + ?e + 0))"
    using orthogonalLength_append[of "[gr_end g]" "?ps @ [gr_start g]" 0] a hd(1) ne by simp
  then have raw: "orthogonalLength (rev ([gr_start g] @ rev ?ps @ [gr_end g])) =
      Some (2 * ?e + d - gr_bendPenaltyPx g * of_nat (turns us))" by simp
  have "set ?ps \<subseteq> set (grid_nodes g)" using grid_path_nodes[OF ends(1) start] .
  then have "\<forall>p \<in> set ?ps. fine_point p" using fine_node[OF req] by blast
  then have "\<forall>p \<in> set ([gr_start g] @ rev ?ps @ [gr_end g]). fine_point p"
    using req by (auto simp: fine_request_def)
  from normalize_length[OF this raw] show ?thesis
    using r orthogonalLength_rev unfolding routed_by_def normalizeRoutePoints_def by simp
qed

section \<open>An example\<close>

text \<open>A box below the straight line from one end to the other: grid lines, nodes and edges, and
  the route found.\<close>

definition route_example :: grid_request where
  "route_example =
    \<lparr>gr_start = (0, 0), gr_end = (32, 0), gr_points = [],
     gr_obstacles = [Some \<lparr>dr_x = 11, dr_y = 5, dr_width = 10, dr_height = 8\<rparr>, None],
     gr_fromSide = ''right'', gr_toSide = ''left'', gr_clearance = 2, gr_maximumObstacleCount = 80,
     gr_endpointStubPx = 8, gr_maximumGridNodes = Some 100, gr_avoidedSegments = [],
     gr_allowAvoidedCrossings = False, gr_minimumAvoidedOverlapPx = 8, gr_routeSeparationPx = 8,
     gr_minimumSegmentPx = 8, gr_borderSegments = [], gr_bendPenaltyPx = 10\<rparr>"

lemma route_example_x: "orderedX route_example = [8, 24]"
  by code_simp

lemma route_example_y: "orderedY route_example = [0, 16]"
  by code_simp

lemma route_example_nodes: "grid_nodes route_example = [(8, 0), (8, 16), (24, 0), (24, 16)]"
  unfolding grid_nodes_def route_example_x route_example_y by code_simp

lemma route_example_adj: "fst (grid_adjacency route_example) (8,0) = [((24,0),16,HeadR),((8,16),16,HeadD)]"
  "fst (grid_adjacency route_example) (24,0) = [((8,0),16,HeadL),((24,16),16,HeadD)]"
  "fst (grid_adjacency route_example) (8,16) = [((24,16),16,HeadR),((8,0),16,HeadU)]"
  "fst (grid_adjacency route_example) (24,16) = [((8,16),16,HeadL),((24,0),16,HeadU)]"
  unfolding grid_adjacency_def grid_row_def grid_column_def route_example_x route_example_y
    route_example_nodes
  by (code_simp, code_simp, code_simp, code_simp)

lemma route_example_stubs: "grid_startStub route_example = (8,0)" "grid_endStub route_example = (24,0)"
  by code_simp+

lemma route_example_open: "grid_open route_example (1, 0) (- 1, 0)"
  unfolding grid_open_def route_example_x route_example_y route_example_stubs route_example_nodes
  by (simp add: route_example_def outward_def grid_expanded_def present_def)

lemma route_example_route: "\<exists>m. shortestOrthogonalGridRoute route_example =
    Some (m, Some \<lparr>rt_points = [(0, 0), (32, 0)], rt_length = Some 32, rt_obstacleCount = 1\<rparr>)"
proof -
  have "length (grid_expanded route_example) = 1" "gr_start route_example = (0, 0)" "gr_end route_example = (32, 0)"
    "gr_bendPenaltyPx route_example = 10"
    by (simp_all add: route_example_def grid_expanded_def present_def)
  then show ?thesis
    unfolding grid_open_search[OF route_example_open]
    by (simp add: search_loop.simps start_search_def heap_push_Nil heap_push_def sift_up.simps
        sift_down.simps heap_pop_def search_step_def grid_setup_def route_example_stubs route_example_adj directionOf_def
        relax_edge_def turn_cost_def arrive_def smaller_child_def Let_def read_route_def
        trace_back.simps normalizeRoutePoints_def accept_point_def near_point_def tolerance_def
        collinearForward_def crossProduct_def)
qed

lemma route_example_fine: "fine_request route_example"
  by (simp add: fine_request_def route_example_def present_def fine_point_def fine_rect_def fine_intros)

section \<open>What the router guarantees\<close>

text \<open>C14: A route of the grid router keeps off every obstacle by the clearance: outside of the
  two stubs that leave its ends, no point of the returned polyline lies in an obstacle widened by
  the clearance.\<close>

theorem grid_route_clear:
  assumes "fine_request g" "0 \<le> gr_bendPenaltyPx g"
    and "shortestOrthogonalGridRoute g = Some (m, Some r)" "polyline (rt_points r) x"
    and "\<not> between (gr_start g) (grid_startStub g) x" "\<not> between (grid_endStub g) (gr_end g) x"
    and "rect \<in> set (grid_expanded g)"
  shows "\<not> in_rect rect x"
proof -
  obtain vf vt us d where op: "grid_open g vf vt" and r: "routed_by g (grid_setup g vf vt) us d r"
    using grid_route_some[OF assms(2,3)] .
  show ?thesis using routed_path_clear[OF assms(1) op r assms(4,7)] assms(5,6) by blast
qed

theorem grid_route_clear_witness:
  "\<exists>m r. shortestOrthogonalGridRoute route_example = Some (m, Some r) \<and> polyline (rt_points r) (16, 0) \<and>
    \<not> in_rect \<lparr>dr_x = 9, dr_y = 3, dr_width = 14, dr_height = 12\<rparr> (16, 0)"
proof -
  obtain m where m: "shortestOrthogonalGridRoute route_example =
      Some (m, Some \<lparr>rt_points = [(0, 0), (32, 0)], rt_length = Some 32, rt_obstacleCount = 1\<rparr>)"
    using route_example_route by blast
  have on: "polyline [(0, 0), (32, 0)] (16, 0)"
    by (simp add: between_level)
  have "\<not> in_rect \<lparr>dr_x = 9, dr_y = 3, dr_width = 14, dr_height = 12\<rparr> (16, 0)"
    by (rule grid_route_clear[OF route_example_fine _ m])
      (simp_all add: on route_example_stubs between_level,
       simp_all add: route_example_def grid_expanded_def present_def expandedRect_def between_level)
  then show ?thesis using m on by auto
qed



text \<open>C34: The router always returns, whatever the obstacles: with no route exactly when a side is
  unknown, a budget is exceeded, an end is blocked, or no walk along free segments joins the
  stubs.\<close>

theorem grid_route_total:
  assumes "0 \<le> gr_bendPenaltyPx g"
  shows "\<exists>m r. shortestOrthogonalGridRoute g = Some (m, r) \<and>
    (r \<noteq> None \<longleftrightarrow> (\<exists>vf vt u d. grid_open g vf vt \<and> walk (grid_setup g vf vt) u d \<and>
      fst u = grid_endStub g))"
proof -
  obtain m r where mr: "shortestOrthogonalGridRoute g = Some (m, r)" and
    cases: "case r of
       None \<Rightarrow> (\<forall>vf vt. \<not> grid_open g vf vt) \<or>
         (\<exists>vf vt. grid_open g vf vt \<and>
           (\<forall>u d. walk (grid_setup g vf vt) u d \<longrightarrow> fst u \<noteq> grid_endStub g))
     | Some r \<Rightarrow> \<exists>vf vt us d. grid_open g vf vt \<and> routed_by g (grid_setup g vf vt) us d r"
    using grid_route_returns[OF assms] by blast
  have unique: "vf = vf' \<and> vt = vt'" if "grid_open g vf vt" "grid_open g vf' vt'" for vf vt vf' vt'
    using that by (auto simp: grid_open_def)
  show ?thesis
  proof (cases r)
    case None
    then show ?thesis using mr cases unique by (intro exI[of _ m] exI[of _ r]) (simp, blast)
  next
    case (Some q)
    then obtain vf vt us d where "grid_open g vf vt" "routed_by g (grid_setup g vf vt) us d q"
      using cases by auto
    then have "\<exists>vf vt u d. grid_open g vf vt \<and> walk (grid_setup g vf vt) u d \<and> fst u = grid_endStub g"
      using chain_walk unfolding routed_by_def by blast
    then show ?thesis using mr Some by blast
  qed
qed

theorem grid_route_total_witness:
  "\<exists>vf vt u d. grid_open route_example vf vt \<and> walk (grid_setup route_example vf vt) u d \<and>
    fst u = grid_endStub route_example"
proof -
  have "0 \<le> gr_bendPenaltyPx route_example" by (simp add: route_example_def)
  from grid_route_total[OF this] show ?thesis using route_example_route by fastforce
qed

end
