(* ===== verification/JsonText.thy ===== *)
theory JsonText
imports Prelude
begin

text \<open>
  The compact text of a value, \<^verbatim>\<open>JSON.stringify(v)\<close>, determines the value: two values
  without \<^verbatim>\<open>undefined\<close> inside that have the same text are the same. Every text is read off
  from the left without looking further than the next comma or closing bracket.
\<close>

text \<open>No \<^verbatim>\<open>undefined\<close> anywhere, as for every value a JSON parser returns.\<close>

fun defined_json :: "json \<Rightarrow> bool" where
  "defined_json JUndef = False"
| "defined_json (JArr vs) = (\<forall>v \<in> set vs. defined_json v)"
| "defined_json (JObj kvs) = (\<forall>kv \<in> set kvs. defined_json (snd kv))"
| "defined_json _ = True"

abbreviation json_text_of :: "json \<Rightarrow> string" where
  "json_text_of \<equiv> json_render [] []"

definition text_stop :: "string \<Rightarrow> bool" where
  "text_stop s \<longleftrightarrow> s = [] \<or> hd s \<in> {CHR '','', CHR '']'', CHR ''}''}"

lemma text_stop_simps [simp]: "text_stop []" "text_stop (CHR '','' # s)" "text_stop (CHR '']'' # s)"
  "text_stop (CHR ''}'' # s)"
  by (simp_all add: text_stop_def)

section \<open>Strings\<close>

definition hex_value :: "char \<Rightarrow> nat" where
  "hex_value c = (let n = of_char c in if n < 58 then n - 48 else n - 87)"

lemma hex_value_digit: "n < 16 \<Longrightarrow> hex_value (hex_digit n) = n"
  by (simp add: hex_value_def hex_digit_def take_bit_eq_mod)

text \<open>Reading back one quoted character.\<close>

fun unquote_char :: "string \<Rightarrow> (char \<times> string) option" where
  "unquote_char (c # s) =
    (if c \<noteq> CHR 0x5C then Some (c, s)
     else case s of
       d # t \<Rightarrow>
         if d = CHR ''u'' then
           (case t of _ # _ # a # b # u \<Rightarrow> Some (char_of (hex_value a * 16 + hex_value b), u) | _ \<Rightarrow> None)
         else if d = CHR 0x62 then Some (CHR 0x08, t)
         else if d = CHR 0x74 then Some (CHR 0x09, t)
         else if d = CHR 0x6E then Some (CHR 0x0A, t)
         else if d = CHR 0x66 then Some (CHR 0x0C, t)
         else if d = CHR 0x72 then Some (CHR 0x0D, t)
         else Some (d, t)
     | [] \<Rightarrow> None)"
| "unquote_char [] = None"

lemma same_code: "(of_char c :: nat) = of_char d \<Longrightarrow> c = d"
  by simp

lemma unquote_escape:
  assumes "c \<in> {CHR 0x22, CHR 0x5C, CHR 0x08, CHR 0x09, CHR 0x0A, CHR 0x0C, CHR 0x0D}"
  shows "unquote_char (quote_char c @ s) = Some (c, s)"
  using assms by (elim insertE emptyE) (simp_all add: quote_char_def)

lemma unquote_control:
  assumes "(of_char c :: nat) < 32" "(of_char c :: nat) \<notin> {8, 9, 10, 12, 13}"
  shows "unquote_char (quote_char c @ s) = Some (c, s)"
proof -
  define n where "n = (of_char c :: nat)"
  have "n div 16 < 16" "n mod 16 < 16" using assms(1) by (simp_all add: n_def)
  then have "hex_value (hex_digit (n div 16)) * 16 + hex_value (hex_digit (n mod 16)) = n"
    by (simp add: hex_value_digit)
  moreover have "char_of n = c" by (simp add: n_def)
  moreover have "quote_char c = CHR 0x5C # ''u00'' @ [hex_digit (n div 16), hex_digit (n mod 16)]"
    using assms by (simp add: quote_char_def Let_def n_def)
  ultimately show ?thesis by simp
qed

lemma unquote_plain:
  assumes "32 \<le> (of_char c :: nat)" "c \<noteq> CHR 0x22" "c \<noteq> CHR 0x5C"
  shows "unquote_char (quote_char c @ s) = Some (c, s)"
proof -
  have "(of_char c :: nat) \<noteq> 34" "(of_char c :: nat) \<noteq> 92"
    using assms(2,3) same_code[of c "CHR 0x22"] same_code[of c "CHR 0x5C"] by auto
  then have "quote_char c = [c]" using assms(1) by (simp add: quote_char_def Let_def)
  then show ?thesis using assms(3) by simp
qed

lemma escape_codes:
  "(of_char c :: nat) = 8 \<Longrightarrow> c = CHR 0x08" "(of_char c :: nat) = 9 \<Longrightarrow> c = CHR 0x09"
  "(of_char c :: nat) = 10 \<Longrightarrow> c = CHR 0x0A" "(of_char c :: nat) = 12 \<Longrightarrow> c = CHR 0x0C"
  "(of_char c :: nat) = 13 \<Longrightarrow> c = CHR 0x0D"
  by (rule same_code, simp)+

lemma unquote_quote: "unquote_char (quote_char c @ s) = Some (c, s)"
proof (cases "c \<in> {CHR 0x22, CHR 0x5C, CHR 0x08, CHR 0x09, CHR 0x0A, CHR 0x0C, CHR 0x0D}")
  case True
  then show ?thesis by (rule unquote_escape)
next
  case False
  then have "(of_char c :: nat) \<noteq> 8" "(of_char c :: nat) \<noteq> 9" "(of_char c :: nat) \<noteq> 10"
    "(of_char c :: nat) \<noteq> 12" "(of_char c :: nat) \<noteq> 13"
    using escape_codes by (metis insertCI)+
  then have codes: "(of_char c :: nat) \<notin> {8, 9, 10, 12, 13}" by (simp only: insert_iff empty_iff simp_thms)
  have plain: "c \<noteq> CHR 0x22" "c \<noteq> CHR 0x5C" using False by (metis insertCI)+
  show ?thesis
  proof (cases "(of_char c :: nat) < 32")
    case True
    then show ?thesis using codes by (rule unquote_control)
  next
    case False
    then have "32 \<le> (of_char c :: nat)" by (rule leI)
    then show ?thesis using plain by (rule unquote_plain)
  qed
qed

lemma quote_char_inj: "quote_char c @ s = quote_char d @ t \<Longrightarrow> c = d \<and> s = t"
  by (metis unquote_quote option.inject prod.inject)

lemma quote_char_start: "quote_char c @ s \<noteq> CHR 0x22 # t"
proof
  assume eq: "quote_char c @ s = CHR 0x22 # t"
  have "unquote_char (CHR 0x22 # t) = Some (CHR 0x22, t)" by simp
  then have "c = CHR 0x22" by (metis eq unquote_quote option.inject prod.inject)
  then show False using eq by (simp add: quote_char_def)
qed

lemma quote_str_inj: "quote_str s @ u = quote_str t @ v \<Longrightarrow> s = t \<and> u = v"
proof -
  have "concat (map quote_char s) @ CHR 0x22 # u = concat (map quote_char t) @ CHR 0x22 # v \<Longrightarrow>
      s = t \<and> u = v"
  proof (induction s arbitrary: t)
    case Nil
    show ?case
    proof (cases t)
      case (Cons d t')
      then show ?thesis
        using Nil.prems quote_char_start[of d "concat (map quote_char t') @ CHR 0x22 # v" u] by simp
    qed (use Nil.prems in simp)
  next
    case (Cons c s)
    show ?case
    proof (cases t)
      case Nil
      then show ?thesis
        using Cons.prems quote_char_start[of c "concat (map quote_char s) @ CHR 0x22 # u" v] by simp
    next
      case (Cons d t')
      then show ?thesis
        using Cons.prems Cons.IH[of t'] quote_char_inj[of c "concat (map quote_char s) @ CHR 0x22 # u"
          d "concat (map quote_char t') @ CHR 0x22 # v"] by simp
    qed
  qed
  moreover assume "quote_str s @ u = quote_str t @ v"
  ultimately show "s = t \<and> u = v" by (simp add: quote_str_def)
qed

section \<open>Numbers\<close>

definition digit_like :: "char \<Rightarrow> bool" where
  "digit_like c \<longleftrightarrow> 48 \<le> (of_char c :: nat) \<and> (of_char c :: nat) \<le> 57"

lemma show_nat_split:
  assumes "show_nat m @ s = show_nat n @ t"
    and "s = [] \<or> \<not> digit_like (hd s)" "t = [] \<or> \<not> digit_like (hd t)"
  shows "m = n \<and> s = t"
proof -
  have "takeWhile digit_like (show_nat k @ r) = show_nat k" if "r = [] \<or> \<not> digit_like (hd r)" for k r
  proof -
    have "takeWhile digit_like (show_nat k @ r) = show_nat k @ takeWhile digit_like r"
      by (intro takeWhile_append2) (simp add: digit_like_def show_nat_digits)
    then show ?thesis using that by (cases r) auto
  qed
  then have "show_nat m = show_nat n" using assms by metis
  then show ?thesis using assms(1) by simp
qed

lemma stop_not_digit: "text_stop s \<Longrightarrow> s = [] \<or> \<not> digit_like (hd s)"
  by (auto simp: text_stop_def digit_like_def)

lemma show_nat_hd: "digit_like (hd (show_nat n))" "show_nat n \<noteq> []"
  using show_nat_digits[of "hd (show_nat n)" n] by (simp_all add: digit_like_def)

lemma show_int_inj:
  assumes "show_int i @ s = show_int j @ t" "text_stop s" "text_stop t"
  shows "i = j \<and> s = t"
proof -
  have minus: "\<not> digit_like (CHR ''-'')" by (simp add: digit_like_def)
  have hd: "hd (show_nat n @ r) \<noteq> CHR ''-''" for n r
    using show_nat_hd[of n] minus by (cases "show_nat n") auto
  show ?thesis
  proof (cases "(i < 0) = (j < 0)")
    case True
    then have "show_nat (nat \<bar>i\<bar>) @ s = show_nat (nat \<bar>j\<bar>) @ t"
      using assms(1) by (auto simp: show_int_def split: if_splits)
    then have "nat \<bar>i\<bar> = nat \<bar>j\<bar> \<and> s = t"
      using show_nat_split stop_not_digit assms(2,3) by blast
    then show ?thesis using True by auto
  next
    case False
    then show ?thesis
      using assms(1) hd[of "nat i" s] hd[of "nat j" t]
      by (cases "i < 0") (auto simp: show_int_def dest: sym[of "CHR ''-'' # _"] arg_cong[where f = hd])
  qed
qed

section \<open>Values\<close>

lemma json_items_map: "json_items [] [] vs = map json_text_of vs"
  by (induction vs) simp_all

definition member_text :: "string \<times> json \<Rightarrow> string" where
  "member_text kv = quote_str (fst kv) @ CHR '':'' # json_text_of (snd kv)"

lemma json_members_map:
  "\<forall>kv \<in> set kvs. defined_json (snd kv) \<Longrightarrow> json_members [] [] kvs = map member_text kvs"
  by (induction kvs) (auto simp: member_text_def)

definition comma_list :: "string list \<Rightarrow> string" where
  "comma_list items = join_with '','' items"

lemma json_text_simps:
  "json_text_of (JArr vs) = CHR ''['' # comma_list (map json_text_of vs) @ '']''"
  "defined_json (JObj kvs) \<Longrightarrow>
    json_text_of (JObj kvs) = CHR ''{'' # comma_list (map member_text kvs) @ ''}''"
  by (simp_all add: wrap_items_def json_items_map json_members_map comma_list_def)

text \<open>The first character tells which kind of value follows.\<close>

fun json_kind :: "json \<Rightarrow> nat" where
  "json_kind JUndef = 0"
| "json_kind JNull = 1"
| "json_kind (JBool b) = (if b then 2 else 3)"
| "json_kind (JNum i) = 4"
| "json_kind (JStr s) = 5"
| "json_kind (JArr vs) = 6"
| "json_kind (JObj kvs) = 7"

definition kind_start :: "char \<Rightarrow> nat" where
  "kind_start c =
    (if c = CHR ''n'' then 1 else if c = CHR ''t'' then 2 else if c = CHR ''f'' then 3
     else if c = CHR 0x22 then 5 else if c = CHR ''['' then 6 else if c = CHR ''{'' then 7
     else if c = CHR ''-'' \<or> digit_like c then 4 else 0)"

lemma digit_like_kind: "digit_like c \<Longrightarrow> kind_start c = 4"
  by (auto simp: kind_start_def digit_like_def)

lemma show_int_start: "kind_start (hd (show_int i)) = 4"
proof (cases "i < 0")
  case True
  then show ?thesis by (simp add: show_int_def kind_start_def)
next
  case False
  then show ?thesis using digit_like_kind[OF show_nat_hd(1)] by (simp add: show_int_def)
qed

lemma json_text_start:
  assumes "defined_json v"
  shows "json_text_of v \<noteq> []" "kind_start (hd (json_text_of v)) = json_kind v"
proof -
  show "json_text_of v \<noteq> []" by simp
  show "kind_start (hd (json_text_of v)) = json_kind v"
  proof (cases v)
    case (JObj kvs)
    then show ?thesis using assms by (simp only: json_text_simps) (simp add: kind_start_def)
  next
    case (JArr vs)
    then show ?thesis by (simp only: json_text_simps) (simp add: kind_start_def)
  qed (use assms in \<open>simp_all add: kind_start_def quote_str_def show_int_start[unfolded kind_start_def]\<close>)
qed

lemma json_kind_defined: "defined_json v \<Longrightarrow> json_kind v \<noteq> 0"
  by (cases v) simp_all

lemma same_kind:
  assumes "defined_json v" "defined_json w" "json_text_of v @ s = json_text_of w @ t"
  shows "json_kind v = json_kind w"
  using json_text_start[OF assms(1)] json_text_start[OF assms(2)] assms(3) by (metis hd_append2)

definition reads_off :: "'a set \<Rightarrow> ('a \<Rightarrow> string) \<Rightarrow> 'a \<Rightarrow> bool" where
  "reads_off A f v \<longleftrightarrow> (\<forall>w s t. w \<in> A \<longrightarrow> text_stop s \<longrightarrow> text_stop t \<longrightarrow>
    f v @ s = f w @ t \<longrightarrow> v = w \<and> s = t)"

lemma reads_offD:
  "reads_off A f v \<Longrightarrow> w \<in> A \<Longrightarrow> text_stop s \<Longrightarrow> text_stop t \<Longrightarrow> f v @ s = f w @ t \<Longrightarrow> v = w \<and> s = t"
  unfolding reads_off_def by blast

text \<open>A list between commas and a closing bracket, when its items read off.\<close>

lemma comma_list_Cons:
  "comma_list (x # xs) @ e # s = x @ (if xs = [] then e # s else CHR '','' # comma_list xs @ e # s)"
  by (cases xs) (simp_all add: comma_list_def)

lemma comma_list_reads:
  assumes e: "e \<in> {CHR '']'', CHR ''}''}" and A: "\<And>w. w \<in> A \<Longrightarrow> f w \<noteq> [] \<and> hd (f w) \<noteq> e"
  shows "\<forall>v \<in> set vs. v \<in> A \<and> reads_off A f v \<Longrightarrow> set ws \<subseteq> A \<Longrightarrow>
    comma_list (map f vs) @ e # s = comma_list (map f ws) @ e # t \<Longrightarrow> vs = ws \<and> s = t"
proof (induction vs arbitrary: ws)
  case Nil
  show ?case
  proof (cases ws)
    case (Cons w ws')
    then have "e # s = f w @ (if ws' = [] then e # t else CHR '','' # comma_list (map f ws') @ e # t)"
      using Nil.prems(3) comma_list_Cons[of "f w" "map f ws'" e t] by (simp add: comma_list_def)
    moreover have "f w \<noteq> []" "hd (f w) \<noteq> e" using A Nil.prems(2) Cons by simp_all
    ultimately show ?thesis by (cases "f w") auto
  qed (use Nil.prems in \<open>simp add: comma_list_def\<close>)
next
  case (Cons v vs)
  let ?r = "if vs = [] then e # s else CHR '','' # comma_list (map f vs) @ e # s"
  have left: "comma_list (map f (v # vs)) @ e # s = f v @ ?r"
    using comma_list_Cons[of "f v" "map f vs" e s] by simp
  show ?case
  proof (cases ws)
    case Nil
    then have "f v @ ?r = e # t" using Cons.prems(3) left by (simp add: comma_list_def)
    moreover have "f v \<noteq> []" "hd (f v) \<noteq> e" using A Cons.prems(1) by simp_all
    ultimately show ?thesis by (cases "f v") auto
  next
    case (Cons w ws')
    let ?q = "if ws' = [] then e # t else CHR '','' # comma_list (map f ws') @ e # t"
    have eq: "f v @ ?r = f w @ ?q"
      using Cons.prems(3) left Cons comma_list_Cons[of "f w" "map f ws'" e t] by simp
    have stop: "text_stop ?r" "text_stop ?q" using e by auto
    have "reads_off A f v" "w \<in> A" using Cons.prems(1,2) Cons by simp_all
    from reads_offD[OF this stop eq] have vw: "v = w" "?r = ?q" by (rule conjunct1, rule conjunct2)
    have comma: "e \<noteq> CHR '',''" using e by auto
    show ?thesis
    proof (cases "vs = [] \<or> ws' = []")
      case True
      then show ?thesis using vw comma Cons by (auto split: if_splits)
    next
      case False
      then have "comma_list (map f vs) @ e # s = comma_list (map f ws') @ e # t" using vw(2) by simp
      then have "vs = ws' \<and> s = t" using Cons.IH[of ws'] Cons.prems(1,2) Cons by simp
      then show ?thesis using vw(1) Cons by simp
    qed
  qed
qed

lemma json_text_reads: "defined_json v \<Longrightarrow> reads_off {w. defined_json w} json_text_of v"
proof (induction v)
  case (JArr vs)
  show ?case
    unfolding reads_off_def
  proof (intro allI impI)
    fix w s t assume w: "w \<in> {w. defined_json w}" and "text_stop s" "text_stop t"
      and eq: "json_text_of (JArr vs) @ s = json_text_of w @ t"
    have "json_kind w = 6" using same_kind[of "JArr vs" w s t] JArr.prems w eq by simp
    then obtain ws where ws: "w = JArr ws" by (cases w) (auto split: if_splits)
    have "comma_list (map json_text_of vs) @ CHR '']'' # s = comma_list (map json_text_of ws) @ CHR '']'' # t"
      using eq unfolding ws json_text_simps by simp
    moreover have "json_text_of u \<noteq> [] \<and> hd (json_text_of u) \<noteq> CHR '']''" if "u \<in> {w. defined_json w}" for u
    proof -
      have "kind_start (CHR '']'') = 0" by (simp add: kind_start_def digit_like_def)
      then show ?thesis
        using json_text_start[of u] json_kind_defined[of u] that by (metis mem_Collect_eq)
    qed
    moreover have "\<forall>v \<in> set vs. v \<in> {w. defined_json w} \<and> reads_off {w. defined_json w} json_text_of v"
      using JArr by simp
    moreover have "set ws \<subseteq> {w. defined_json w}" using w ws by auto
    ultimately have "vs = ws \<and> s = t"
      using comma_list_reads[of "CHR '']''" "{w. defined_json w}" json_text_of vs ws s t] by blast
    then show "JArr vs = w \<and> s = t" using ws by simp
  qed
next
  case (JObj kvs)
  let ?A = "{kv :: string \<times> json. defined_json (snd kv)}"
  have member: "reads_off ?A member_text kv" if kv: "kv \<in> set kvs" for kv
    unfolding reads_off_def
  proof (intro allI impI)
    fix kw s t assume kw: "kw \<in> ?A" "text_stop s" "text_stop t" "member_text kv @ s = member_text kw @ t"
    then have q: "quote_str (fst kv) @ CHR '':'' # json_text_of (snd kv) @ s =
        quote_str (fst kw) @ CHR '':'' # json_text_of (snd kw) @ t"
      by (simp add: member_text_def)
    then have "fst kv = fst kw" "json_text_of (snd kv) @ s = json_text_of (snd kw) @ t"
      using quote_str_inj by blast+
    moreover have "reads_off {w. defined_json w} json_text_of (snd kv)"
      using JObj kv by (metis defined_json.simps(3) prod_set_simps(2) snds.simps surjective_pairing)
    ultimately show "kv = kw \<and> s = t"
      using kw reads_offD[of "{w. defined_json w}" json_text_of "snd kv" "snd kw" s t]
      by (simp add: prod_eq_iff)
  qed
  show ?case
    unfolding reads_off_def
  proof (intro allI impI)
    fix w s t assume w: "w \<in> {w. defined_json w}" and "text_stop s" "text_stop t"
      and eq: "json_text_of (JObj kvs) @ s = json_text_of w @ t"
    have "json_kind w = 7" using same_kind[of "JObj kvs" w s t] JObj.prems w eq by simp
    then obtain kws where kws: "w = JObj kws" by (cases w) (auto split: if_splits)
    have "defined_json (JObj kws)" using w kws by simp
    then have "comma_list (map member_text kvs) @ CHR ''}'' # s = comma_list (map member_text kws) @ CHR ''}'' # t"
      using eq JObj.prems unfolding kws by (simp only: json_text_simps) simp
    moreover have "member_text u \<noteq> [] \<and> hd (member_text u) \<noteq> CHR ''}''" for u
      by (simp add: member_text_def quote_str_def)
    moreover have "set kvs \<subseteq> ?A" "set kws \<subseteq> ?A" using JObj.prems w kws by auto
    ultimately have "kvs = kws \<and> s = t"
      using comma_list_reads[of "CHR ''}''" ?A member_text kvs kws s t] member by blast
    then show "JObj kvs = w \<and> s = t" using kws by simp
  qed
next
  case (JNum i)
  show ?case
    unfolding reads_off_def
  proof (intro allI impI)
    fix w s t assume w: "w \<in> {w. defined_json w}" "text_stop s" "text_stop t"
      and eq: "json_text_of (JNum i) @ s = json_text_of w @ t"
    have "json_kind w = 4" using same_kind[of "JNum i" w s t] w eq by simp
    then obtain j where "w = JNum j" by (cases w) (auto split: if_splits)
    then show "JNum i = w \<and> s = t" using show_int_inj[of i s j t] eq w by simp
  qed
next
  case (JStr x)
  show ?case
    unfolding reads_off_def
  proof (intro allI impI)
    fix w s t assume w: "w \<in> {w. defined_json w}"
      and eq: "json_text_of (JStr x) @ s = json_text_of w @ t"
    have "json_kind w = 5" using same_kind[of "JStr x" w s t] w eq by simp
    then obtain y where "w = JStr y" by (cases w) (auto split: if_splits)
    then show "JStr x = w \<and> s = t" using quote_str_inj[of x s y t] eq by simp
  qed
next
  case (JBool b)
  show ?case
    unfolding reads_off_def
  proof (intro allI impI)
    fix w s t assume w: "w \<in> {w. defined_json w}"
      and eq: "json_text_of (JBool b) @ s = json_text_of w @ t"
    have "json_kind w = (if b then 2 else 3)" using same_kind[of "JBool b" w s t] w eq by simp
    then have "w = JBool b" by (cases w) (auto split: if_splits)
    then show "JBool b = w \<and> s = t" using eq by simp
  qed
next
  case JNull
  show ?case
    unfolding reads_off_def
  proof (intro allI impI)
    fix w s t assume w: "w \<in> {w. defined_json w}"
      and eq: "json_text_of JNull @ s = json_text_of w @ t"
    have "json_kind w = 1" using same_kind[of JNull w s t] w eq by simp
    then have "w = JNull" by (cases w) (auto split: if_splits)
    then show "JNull = w \<and> s = t" using eq by simp
  qed
qed simp

lemma json_text_inj:
  assumes "defined_json v" "defined_json w"
  shows "json_text_of v = json_text_of w \<longleftrightarrow> v = w"
  using reads_offD[OF json_text_reads[OF assms(1)], of w "[]" "[]"] assms(2) by auto

end
