(* ===== verification/RepositoryLocation.thy ===== *)
theory RepositoryLocation
imports UpdateContract JsonText
begin

text \<open>
  Where a repository lives: \<^verbatim>\<open>renderers/shared/repository-location.mjs\<close> of the diagram tool.
  A remote in scp or URL form is taken apart into provider, canonical URL and identity; the
  identity joins the transports of the forges it knows. The platform's URL parser and
  \<^verbatim>\<open>decodeURIComponent\<close> are the arguments \<^verbatim>\<open>parse_url\<close> and \<^verbatim>\<open>decode\<close>, both of which may fail.
\<close>

record platform_url =
  pu_protocol :: string
  pu_username :: string
  pu_password :: string
  pu_hostname :: string
  pu_host :: string
  pu_port :: string

record remote_location =
  rl_identity :: string
  rl_url :: string
  rl_provider :: "string option"
  rl_protocol :: string
  rl_path :: string
  rl_endpoint :: string

definition control_code :: "char \<Rightarrow> bool" where
  "control_code c \<longleftrightarrow> (of_char c :: nat) < 32 \<or> (of_char c :: nat) = 127"

definition remote_forbidden :: "char \<Rightarrow> bool" where
  "remote_forbidden c \<longleftrightarrow>
    is_space c \<or> c = CHR 0x5C \<or> control_code c \<or> c = CHR 0x3F \<or> c = CHR 0x23"

definition scp_match :: "string \<Rightarrow> (string \<times> string) option" where
  "scp_match raw =
    (if starts_with raw ''git@''
     then let r = drop 4 raw; h = takeWhile (\<lambda>c. c \<noteq> CHR ''/'' \<and> c \<noteq> CHR '':'') r; t = drop (length h) r
       in if h \<noteq> [] \<and> starts_with t '':'' \<and> tl t \<noteq> [] then Some (h, tl t) else None
     else None)"

text \<open>The path of a URL with one of the schemes, case ignored.\<close>

definition remote_scheme :: "string \<Rightarrow> string option" where
  "remote_scheme s =
    List.find (\<lambda>p. starts_with (to_lower s) p) [''https://'', ''http://'', ''ssh://'']"

definition remote_path_text :: "string \<Rightarrow> string option" where
  "remote_path_text s =
    (case remote_scheme s of None \<Rightarrow> None
     | Some p \<Rightarrow>
         let r = drop (length p) s; h = takeWhile (\<lambda>c. c \<noteq> CHR ''/'') r; t = drop (length h) r
         in if h \<noteq> [] \<and> length t \<ge> 2 then Some (tl t) else None)"

fun decode_all :: "(string \<Rightarrow> string option) \<Rightarrow> string list \<Rightarrow> string list option" where
  "decode_all decode [] = Some []"
| "decode_all decode (s # ss) =
    (case decode s of None \<Rightarrow> None
     | Some t \<Rightarrow> (case decode_all decode ss of None \<Rightarrow> None | Some ts \<Rightarrow> Some (t # ts)))"

definition bad_segment :: "string \<Rightarrow> bool" where
  "bad_segment p \<longleftrightarrow> p = [] \<or> p = ''.'' \<or> p = ''..'' \<or>
    list_ex (\<lambda>c. c = CHR ''/'' \<or> remote_forbidden c) p"

definition path_segments ::
  "(string \<Rightarrow> string option) \<Rightarrow> bool \<Rightarrow> string \<Rightarrow> string list option" where
  "path_segments decode scp text =
    (let trimmed = (if ends_with text ''/'' then butlast text else text);
         parts = split_on (CHR ''/'') trimmed
     in case (if scp then Some parts else decode_all decode parts) of
          None \<Rightarrow> None
        | Some segments \<Rightarrow> if list_ex bad_segment segments then None else Some segments)"

definition forge_of :: "string \<Rightarrow> string option" where
  "forge_of hostname =
    (if hostname = ''github.com'' then Some ''github''
     else if hostname = ''gitee.com'' then Some ''gitee'' else None)"

definition strip_git :: "string option \<Rightarrow> string \<Rightarrow> string" where
  "strip_git provider s =
    (case provider of None \<Rightarrow> s
     | Some p \<Rightarrow>
         if ends_with (if p = ''github'' then to_lower s else s) ''.git''
         then take (length s - 4) s else s)"

definition remote_of ::
  "bool \<Rightarrow> bool \<Rightarrow> platform_url \<Rightarrow> string option \<Rightarrow> string list \<Rightarrow> remote_location" where
  "remote_of scp scpAbsolute url provider segments =
    (let hostname = to_lower (pu_hostname url);
         repositoryPath = join_with ''/'' segments;
         protocol = pu_protocol url;
         port = (if pu_port url \<noteq> [] then pu_port url
                 else if protocol = ''ssh:'' then ''22''
                 else if protocol = ''https:'' then ''443'' else ''80'');
         endpoint = (if provider \<noteq> None \<and>
             (protocol = ''https:'' \<and> port = ''443'' \<or> protocol = ''ssh:'' \<and> port = ''22'')
           then ''standard'' else protocol @ port);
         pathKind = (if provider \<noteq> None then ''repository''
           else if scp \<and> \<not> scpAbsolute then ''relative'' else ''absolute'');
         identityPath = (if provider = Some ''github'' then to_lower repositoryPath
           else repositoryPath);
         encodedPath = join_with ''/'' (map encodeURIComponent segments);
         canonicalUrl = (if scp
           then ''git@'' @ hostname @ '':'' @ (if scpAbsolute then ''/'' else []) @ repositoryPath
           else protocol @ ''//'' @ (if protocol = ''ssh:'' then ''git@'' else []) @ pu_host url @
             ''/'' @ encodedPath)
     in \<lparr>rl_identity = json_render [] [] (JArr (map JStr [hostname, endpoint, pathKind, identityPath])),
         rl_url = canonicalUrl, rl_provider = provider, rl_protocol = protocol,
         rl_path = repositoryPath, rl_endpoint = endpoint\<rparr>)"

definition locate_remote ::
  "bool \<Rightarrow> bool \<Rightarrow> platform_url \<Rightarrow> string list \<Rightarrow> remote_location option" where
  "locate_remote scp scpAbsolute url parsed =
    (let hostname = to_lower (pu_hostname url); provider = forge_of hostname;
         final = strip_git provider (last parsed)
     in if hostname = [] \<or> final = [] \<or> final = ''.'' \<or> final = ''..'' then None
        else Some (remote_of scp scpAbsolute url provider (butlast parsed @ [final])))"

text \<open>From the expanded form on: path, URL and credentials.\<close>

definition expanded_remote ::
  "(string \<Rightarrow> platform_url option) \<Rightarrow> (string \<Rightarrow> string option) \<Rightarrow> bool \<Rightarrow> bool \<Rightarrow> bool \<Rightarrow> string \<Rightarrow>
    remote_location option" where
  "expanded_remote parse_url decode authored scp scpAbsolute expanded =
    (case remote_path_text expanded of None \<Rightarrow> None
     | Some text \<Rightarrow>
     (case path_segments decode scp text of None \<Rightarrow> None
      | Some segments \<Rightarrow>
      (case parse_url expanded of None \<Rightarrow> None
       | Some url \<Rightarrow>
           if pu_protocol url = ''ssh:'' \<and> (pu_username url \<noteq> ''git'' \<or> pu_password url \<noteq> []) then None
           else if authored \<and> pu_protocol url \<noteq> ''ssh:'' \<and>
             (pu_username url \<noteq> [] \<or> pu_password url \<noteq> []) then None
           else locate_remote scp scpAbsolute url segments)))"

definition parseRepositoryRemote ::
  "(string \<Rightarrow> platform_url option) \<Rightarrow> (string \<Rightarrow> string option) \<Rightarrow> bool \<Rightarrow> json \<Rightarrow>
    remote_location option" where
  "parseRepositoryRemote parse_url decode authored v =
    (case v of JStr s \<Rightarrow>
       let raw = (if authored then s else js_trim s) in
       if raw = [] \<or> list_ex remote_forbidden raw then None
       else let scp = scp_match raw;
                scpAbsolute = (case scp of None \<Rightarrow> False | Some m \<Rightarrow> starts_with (snd m) ''/'');
                expanded = (case scp of None \<Rightarrow> raw
                  | Some m \<Rightarrow> ''ssh://git@'' @ fst m @ ''/'' @ (if scpAbsolute then tl (snd m) else snd m))
         in expanded_remote parse_url decode authored (scp \<noteq> None) scpAbsolute expanded
     | _ \<Rightarrow> None)"

definition redactRepositoryRemote :: "json \<Rightarrow> string" where
  "redactRepositoryRemote v =
    (let s = (if truthy v then js_string v else []);
         redacted = (case remote_scheme s of None \<Rightarrow> s
           | Some p \<Rightarrow>
               let r = drop (length p) s; h = takeWhile (\<lambda>c. c \<noteq> CHR ''/'') r
               in case last_index_of (CHR ''@'') h of None \<Rightarrow> s
                  | Some i \<Rightarrow> take (length p) s @ ''REDACTED@'' @ drop (Suc i) r);
         keep = takeWhile (\<lambda>c. c \<noteq> CHR 0x3F \<and> c \<noteq> CHR 0x23) redacted
     in if length keep < length redacted then keep @ (CHR 0x3F) # ''REDACTED'' else redacted)"

record source_reference =
  sr_path :: string
  sr_line :: json
  sr_endLine :: json

definition repositorySourceHref :: "string option \<Rightarrow> string \<Rightarrow> string \<Rightarrow> source_reference \<Rightarrow> string" where
  "repositorySourceHref provider url revision src =
    (let encodedPath = join_with ''/'' (map encodeURIComponent (split_on (CHR ''/'') (sr_path src)));
         finish = (if truthy (sr_endLine src) \<and> sr_endLine src \<noteq> sr_line src
           then ''-'' @ (if provider = Some ''github'' then ''L'' else []) @ js_string (sr_endLine src) else []);
         fragment = (if truthy (sr_line src)
           then (CHR 0x23) # ''L'' @ js_string (sr_line src) @ finish else [])
     in url @ ''/blob/'' @ revision @ ''/'' @ encodedPath @ fragment)"

section \<open>Lemmas\<close>

lemma decode_all_length: "decode_all decode ss = Some ts \<Longrightarrow> length ts = length ss"
  by (induction ss arbitrary: ts) (auto split: option.splits)

lemma path_segments_ok:
  assumes "path_segments decode scp text = Some segments"
  shows "segments \<noteq> []" "\<forall>p \<in> set segments. \<not> bad_segment p"
proof -
  let ?parts = "split_on (CHR ''/'') (if ends_with text ''/'' then butlast text else text)"
  have "length segments = length ?parts" "\<not> list_ex bad_segment segments"
    using assms decode_all_length
    by (auto simp: path_segments_def Let_def split: option.splits if_splits)
  then show "segments \<noteq> []" "\<forall>p \<in> set segments. \<not> bad_segment p"
    using split_on_not_Nil by (auto simp: list_ex_iff simp flip: length_greater_0_conv simp del: length_greater_0_conv)
qed

lemma strip_git_chars: "set (strip_git provider s) \<subseteq> set s"
  by (auto simp: strip_git_def set_take_subset[THEN subsetD] split: option.splits if_splits dest: in_set_takeD)

lemma bad_segment_sub:
  "\<not> bad_segment s \<Longrightarrow> set t \<subseteq> set s \<Longrightarrow> t \<noteq> [] \<Longrightarrow> t \<noteq> ''.'' \<Longrightarrow> t \<noteq> ''..'' \<Longrightarrow> \<not> bad_segment t"
  by (auto simp: bad_segment_def list_ex_iff)

lemma located_path:
  assumes "locate_remote scp absolute url parsed = Some loc" "parsed \<noteq> []"
    and "\<forall>p \<in> set parsed. \<not> bad_segment p"
  obtains segments where "rl_path loc = join_with ''/'' segments" "segments \<noteq> []"
    "\<forall>p \<in> set segments. \<not> bad_segment p"
proof
  let ?final = "strip_git (forge_of (to_lower (pu_hostname url))) (last parsed)"
  show "rl_path loc = join_with ''/'' (butlast parsed @ [?final])"
    using assms(1) by (auto simp: locate_remote_def remote_of_def Let_def split: if_split_asm)
  have "?final \<noteq> []" "?final \<noteq> ''.''" "?final \<noteq> ''..''"
    using assms(1) by (auto simp: locate_remote_def Let_def split: if_splits)
  then have "\<not> bad_segment ?final"
    using bad_segment_sub[OF _ strip_git_chars] assms(2,3) by simp
  then show "\<forall>p \<in> set (butlast parsed @ [?final]). \<not> bad_segment p"
    using assms(3) by (auto dest: in_set_butlastD)
qed simp

lemma expanded_located:
  assumes "expanded_remote parse_url decode authored scp absolute expanded = Some loc"
  shows "\<exists>url parsed. locate_remote scp absolute url parsed = Some loc \<and> parsed \<noteq> [] \<and>
    (\<forall>p \<in> set parsed. \<not> bad_segment p)"
  using assms path_segments_ok unfolding expanded_remote_def
  by (fastforce split: if_split_asm option.split_asm)

lemma remote_located:
  assumes "parseRepositoryRemote parse_url decode authored v = Some loc"
  obtains scp absolute url parsed where "locate_remote scp absolute url parsed = Some loc"
    "parsed \<noteq> []" "\<forall>p \<in> set parsed. \<not> bad_segment p"
proof -
  obtain scp absolute expanded where
      "expanded_remote parse_url decode authored scp absolute expanded = Some loc"
    using assms unfolding parseRepositoryRemote_def
    by (cases v) (simp_all only: json.case Let_def option.distinct split: if_split_asm)
  then show ?thesis using expanded_located that by blast
qed

lemma remote_path_parts:
  assumes "parseRepositoryRemote parse_url decode authored v = Some loc"
  shows "\<forall>p \<in> set (split_on (CHR ''/'') (rl_path loc)). \<not> bad_segment p"
proof -
  obtain scp absolute url parsed where "locate_remote scp absolute url parsed = Some loc"
    "parsed \<noteq> []" "\<forall>p \<in> set parsed. \<not> bad_segment p" using remote_located[OF assms] .
  then obtain segments where s: "rl_path loc = join_with ''/'' segments" "segments \<noteq> []"
    "\<forall>p \<in> set segments. \<not> bad_segment p" by (rule located_path)
  have "\<forall>p \<in> set segments. CHR ''/'' \<notin> set p"
    using s(3) by (auto simp: bad_segment_def list_ex_iff)
  then show ?thesis using s by (simp add: split_join)
qed

text \<open>What two locations with the same identity have in common.\<close>

lemma remote_of_identity:
  "\<exists>kind. rl_identity (remote_of scp absolute url provider segments) = json_text_of (JArr (map JStr
      [to_lower (pu_hostname url), rl_endpoint (remote_of scp absolute url provider segments), kind,
       if provider = Some ''github'' then to_lower (rl_path (remote_of scp absolute url provider segments))
       else rl_path (remote_of scp absolute url provider segments)]))"
  unfolding remote_of_def Let_def remote_location.select_convs by (rule exI) (rule refl)

lemma remote_of_provider: "rl_provider (remote_of scp absolute url provider segments) = provider"
  by (simp only: remote_of_def Let_def remote_location.select_convs)

lemma located_identity:
  assumes "locate_remote scp absolute url parsed = Some loc"
  shows "\<exists>kind. rl_identity loc = json_text_of (JArr (map JStr
      [to_lower (pu_hostname url), rl_endpoint loc, kind,
       if rl_provider loc = Some ''github'' then to_lower (rl_path loc) else rl_path loc])) \<and>
    rl_provider loc = forge_of (to_lower (pu_hostname url))"
proof -
  let ?p = "forge_of (to_lower (pu_hostname url))"
  obtain segments where loc: "loc = remote_of scp absolute url ?p segments"
    using assms unfolding locate_remote_def Let_def by (metis option.distinct(1) option.inject)
  show ?thesis
    using remote_of_identity[of scp absolute url ?p segments]
    unfolding loc remote_of_provider by blast
qed

lemma strings_text_inj:
  "json_text_of (JArr (map JStr ss)) = json_text_of (JArr (map JStr ts)) \<longleftrightarrow> ss = ts"
proof -
  have "defined_json (JArr (map JStr us))" for us by auto
  then have "json_text_of (JArr (map JStr ss)) = json_text_of (JArr (map JStr ts)) \<longleftrightarrow>
      JArr (map JStr ss) = JArr (map JStr ts)"
    by (rule json_text_inj) (rule \<open>\<And>us. defined_json (JArr (map JStr us))\<close>)
  also have "\<dots> \<longleftrightarrow> ss = ts" by (simp add: inj_map_eq_map inj_on_def)
  finally show ?thesis .
qed

section \<open>What a parsed remote guarantees\<close>



end
