(* ===== verification/DiagramDelta.thy ===== *)
theory DiagramDelta
imports RepositoryLocation
begin

text \<open>
  Comparing two snapshots of an architecture diagram: \<^verbatim>\<open>delta/architecture-delta.mjs\<close>, up to the
  receipt (\<^verbatim>\<open>compareArchitecture\<close>) and the rows shown of it. Diagrams are dynamic values that have
  passed the schema; where the code would iterate over something that is neither an array nor
  a string it throws a TypeError that no such value reaches, and the model reads an empty list.
  The argument \<^verbatim>\<open>remote\<close> is \<^verbatim>\<open>parseRepositoryRemote(_, { authored: true })\<close>. A thrown
  \<^verbatim>\<open>ArchitectureDeltaError\<close> is the left summand of a result.
\<close>

section \<open>Canonical text\<close>

definition codepointOrder :: "string \<Rightarrow> string \<Rightarrow> int" where
  "codepointOrder l r = (if str_less l r then -1 else if str_less r l then 1 else 0)"

definition sorted_strings :: "string list \<Rightarrow> string list" where
  "sorted_strings values = js_sort codepointOrder values"

definition sorted_values :: "json list \<Rightarrow> json list" where
  "sorted_values values = js_sort (\<lambda>l r. codepointOrder (js_string l) (js_string r)) values"

definition key_order :: "string \<times> 'a \<Rightarrow> string \<times> 'a \<Rightarrow> int" where
  "key_order a b = codepointOrder (fst a) (fst b)"

definition member_line :: "string \<times> string option \<Rightarrow> string" where
  "member_line kc = quote_str (fst kc) @ CHR '':'' # or_else (snd kc) ''undefined''"

fun canonical :: "json \<Rightarrow> string option"
  and canonical_items :: "json list \<Rightarrow> string list"
  and canonical_members :: "(string \<times> json) list \<Rightarrow> (string \<times> string option) list" where
  "canonical (JArr vs) = Some (CHR ''['' # join_with '','' (canonical_items vs) @ '']'')"
| "canonical (JObj kvs) =
    Some (CHR ''{'' # join_with '','' (map member_line (js_sort key_order (canonical_members kvs))) @ ''}'')"
| "canonical v = json_stringify v"
| "canonical_items [] = []"
| "canonical_items (v # vs) = or_else (canonical v) [] # canonical_items vs"
| "canonical_members [] = []"
| "canonical_members ((k, v) # kvs) = (k, canonical v) # canonical_members kvs"

definition json_equal :: "json \<Rightarrow> json \<Rightarrow> bool" where
  "json_equal l r \<longleftrightarrow> canonical l = canonical r"

definition text_order :: "string option \<Rightarrow> string option \<Rightarrow> int" where
  "text_order l r = (case (l, r) of (Some a, Some b) \<Rightarrow> codepointOrder a b | _ \<Rightarrow> 0)"

definition sortedObjects :: "json list \<Rightarrow> json list" where
  "sortedObjects values = js_sort (\<lambda>l r. text_order (canonical l) (canonical r)) values"

definition sortedBy :: "json list \<Rightarrow> (json \<Rightarrow> string) \<Rightarrow> json list" where
  "sortedBy values keyFor = js_sort (\<lambda>l r. codepointOrder (keyFor l) (keyFor r)) values"

section \<open>Repositories\<close>

definition or_default :: "json \<Rightarrow> json \<Rightarrow> json" where
  "or_default v w = (if truthy v then v else w)"

fun list_of :: "json \<Rightarrow> json list" where
  "list_of (JArr vs) = vs"
| "list_of (JStr s) = map (\<lambda>c. JStr [c]) s"
| "list_of _ = []"

definition when_defined :: "string \<Rightarrow> json \<Rightarrow> (string \<times> json) list" where
  "when_defined k v = (if v \<noteq> JUndef then [(k, v)] else [])"

definition normalizeRepository :: "(json \<Rightarrow> remote_location option) \<Rightarrow> json \<Rightarrow> json" where
  "normalizeRepository remote repository =
    (if \<not> truthy repository then JUndef
     else let location = remote (js_prop repository ''url'');
              fallback = js_string (or_default (js_prop repository ''url'') (JStr []));
              url = (case location of None \<Rightarrow> fallback
                | Some l \<Rightarrow> if rl_url l \<noteq> [] then rl_url l else fallback);
              github = (case location of None \<Rightarrow> False | Some l \<Rightarrow> rl_provider l = Some ''github'')
       in JObj ([(''url'', JStr (if github then to_lower url else url)),
                 (''revision'', JStr (to_lower (js_string (or_default (js_prop repository ''revision'') (JStr [])))))] @
                when_defined ''provider'' (js_prop repository ''provider'') @
                when_defined ''link_mode'' (js_prop repository ''link_mode'')))"

definition PROVENANCE_FIELDS :: "string list" where
  "PROVENANCE_FIELDS = [''url'', ''revision'', ''provider'', ''link_mode'']"

definition provenanceSide :: "json \<Rightarrow> json" where
  "provenanceSide repository =
    (if \<not> truthy repository then JNull
     else JObj ([(''revision'', js_prop repository ''revision'')] @
       when_defined ''provider'' (js_prop repository ''provider'') @
       when_defined ''linkMode'' (js_prop repository ''link_mode'')))"

definition provenanceChange :: "json \<Rightarrow> json \<Rightarrow> json" where
  "provenanceChange base head =
    (if json_equal base head then JUndef
     else let changedFields =
         (if \<not> truthy base \<or> \<not> truthy head then [''/repository'']
          else js_sort codepointOrder (map (\<lambda>f. CHR ''/'' # f)
            (filter (\<lambda>f. \<not> json_equal (js_prop base f) (js_prop head f)) PROVENANCE_FIELDS)))
       in JObj [(''changedFields'', JArr (map JStr changedFields)),
                (''base'', provenanceSide base), (''head'', provenanceSide head)])"

section \<open>The canonical diagram\<close>

definition normalizeComponent :: "json \<Rightarrow> json" where
  "normalizeComponent component =
    spread_with component
      (if is_array (js_prop component ''sources'')
       then [(''sources'', JArr (sortedObjects (list_of (js_prop component ''sources''))))] else [])"

definition normalizeBoundary :: "json \<Rightarrow> json" where
  "normalizeBoundary boundary =
    spread_with boundary [(''wraps'', JArr (sorted_values (list_of (js_prop boundary ''wraps''))))]"

definition boundaryKey :: "json \<Rightarrow> string" where
  "boundaryKey boundary =
    js_string (js_prop boundary ''kind'') @ CHR 0x1F # js_string (js_prop boundary ''label'')"

definition canonicalArchitecture :: "(json \<Rightarrow> remote_location option) \<Rightarrow> json \<Rightarrow> json" where
  "canonicalArchitecture remote diagram =
    (let meta0 = jdel ''output'' (own_entries (js_prop diagram ''meta''));
         repository = js_prop (JObj meta0) ''repository'';
         meta = (if truthy repository
           then jset ''repository'' (normalizeRepository remote repository) meta0 else meta0)
     in JObj ([(''schema_version'', js_prop diagram ''schema_version''),
               (''diagram_type'', js_prop diagram ''diagram_type''), (''meta'', JObj meta)] @
        (if truthy (js_prop diagram ''layout'') then [(''layout'', js_prop diagram ''layout'')] else []) @
        [(''components'', JArr (sortedBy (map normalizeComponent (list_of (js_prop diagram ''components'')))
            (\<lambda>c. js_string (js_prop c ''id'')))),
         (''boundaries'', JArr (sortedBy (map normalizeBoundary (list_of (js_prop diagram ''boundaries'')))
            boundaryKey)),
         (''connections'', JArr (sortedBy (list_of (js_prop diagram ''connections''))
            (\<lambda>c. js_string (or_default (js_prop c ''id'') (JStr [])))))] @
        (if truthy (js_prop diagram ''cards'') then [(''cards'', js_prop diagram ''cards'')] else [])))"

definition canonicalArchitectureJson :: "(json \<Rightarrow> remote_location option) \<Rightarrow> json \<Rightarrow> string" where
  "canonicalArchitectureJson remote diagram = the (canonical (canonicalArchitecture remote diagram))"

section \<open>Indexes\<close>

record delta_error =
  de_code :: string
  de_message :: string
  de_details :: "(string \<times> json) list"

type_synonym 'a delta_result = "delta_error + 'a"

fun delta_bind :: "'a delta_result \<Rightarrow> ('a \<Rightarrow> 'b delta_result) \<Rightarrow> 'b delta_result" where
  "delta_bind (Inl e) f = Inl e"
| "delta_bind (Inr x) f = f x"

definition requireComparableShape :: "json \<Rightarrow> string \<Rightarrow> unit delta_result" where
  "requireComparableShape diagram side =
    (if js_prop diagram ''schema_version'' \<noteq> JNum 1
     then Inl \<lparr>de_code = ''delta/schema-version-mismatch'', de_message = side @ '' must use schema_version 1.'',
       de_details = [(''side'', JStr side), (''path'', JStr ''/schema_version''),
         (''actual'', js_prop diagram ''schema_version'')]\<rparr>
     else if js_prop diagram ''diagram_type'' \<noteq> JStr ''architecture''
     then Inl \<lparr>de_code = ''delta/type-mismatch'', de_message = side @ '' must use diagram_type architecture.'',
       de_details = [(''side'', JStr side), (''path'', JStr ''/diagram_type''),
         (''actual'', js_prop diagram ''diagram_type'')]\<rparr>
     else Inr ())"

text \<open>The pass of \<^verbatim>\<open>stableIndex\<close>: the index, the positions without an id, the ids met again.\<close>

fun index_items :: "nat \<Rightarrow> json list \<Rightarrow> (json, json) jmap \<times> nat list \<times> json list \<Rightarrow>
    (json, json) jmap \<times> nat list \<times> json list" where
  "index_items i [] acc = acc"
| "index_items i (item # items) (index, missing, duplicates) =
    index_items (Suc i) items
      (let key = js_prop item ''id'' in
       if \<not> truthy key then (index, missing @ [i], duplicates)
       else if jhas index key then (index, missing, duplicates @ [key])
       else (jset key item index, missing, duplicates))"

definition distinct_values :: "json list \<Rightarrow> json list" where
  "distinct_values vs = foldl (\<lambda>acc v. if v \<in> set acc then acc else acc @ [v]) [] vs"

definition stableIndex ::
  "json \<Rightarrow> string \<Rightarrow> string \<Rightarrow> string \<Rightarrow> (json, json) jmap delta_result" where
  "stableIndex items collection side missingCode =
    (case index_items 0 (list_of items) ([], [], []) of (index, missing, duplicates) \<Rightarrow>
      if missing \<noteq> []
      then Inl \<lparr>de_code = missingCode,
        de_message = side @ '' '' @ collection @ '' require authored stable ids for comparison.'',
        de_details = [(''side'', JStr side),
          (''paths'', JArr (sorted_values (map (\<lambda>i. JStr (CHR ''/'' # collection @ ''/'' @ show_nat i @ ''/id'')) missing))),
          (''supportedFixes'', JArr [JStr (''add a unique id to every '' @ collection @ '' item'')])]\<rparr>
      else if duplicates \<noteq> []
      then Inl \<lparr>de_code = ''delta/duplicate-stable-id'',
        de_message = side @ '' '' @ collection @ '' contain duplicate ids.'',
        de_details = [(''side'', JStr side), (''collection'', JStr collection),
          (''ids'', JArr (sorted_values (distinct_values duplicates))),
          (''supportedFixes'', JArr [JStr (''make every '' @ collection @ '' id unique'')])]\<rparr>
      else Inr index)"

fun index_boundaries :: "json list \<Rightarrow> (json, json) jmap \<times> json list \<Rightarrow> (json, json) jmap \<times> json list" where
  "index_boundaries [] acc = acc"
| "index_boundaries (boundary # boundaries) (index, ambiguous) =
    index_boundaries boundaries
      (let key = JStr (boundaryKey boundary) in
       if jhas index key
       then (index, ambiguous @ [JStr (js_string (js_prop boundary ''kind'') @ CHR '':'' #
         js_string (js_prop boundary ''label''))])
       else (jset key boundary index, ambiguous))"

definition boundaryIndex :: "json \<Rightarrow> string \<Rightarrow> (json, json) jmap delta_result" where
  "boundaryIndex boundaries side =
    (case index_boundaries (list_of boundaries) ([], []) of (index, ambiguous) \<Rightarrow>
      if ambiguous \<noteq> []
      then Inl \<lparr>de_code = ''delta/boundary-key-ambiguous'',
        de_message = side @ '' boundary kind + label keys must be unique.'',
        de_details = [(''side'', JStr side),
          (''boundaries'', JArr (sorted_values (distinct_values ambiguous))),
          (''supportedFixes'', JArr [JStr ''rename one duplicate boundary or add stable boundary ids in a future schema version''])]\<rparr>
      else Inr index)"

section \<open>Comparing entities\<close>

definition normalizedField :: "json \<Rightarrow> string \<Rightarrow> json" where
  "normalizedField item field =
    (let value = js_prop item field in
     if field = ''sources'' \<and> is_array value then JArr (sortedObjects (list_of value))
     else if field = ''wraps'' \<and> is_array value then JArr (sorted_values (list_of value))
     else value)"

type_synonym field_groups = "(string \<times> string list) list"

definition changed_in :: "json \<Rightarrow> json \<Rightarrow> string list \<Rightarrow> string list" where
  "changed_in before after names =
    filter (\<lambda>f. \<not> json_equal (normalizedField before f) (normalizedField after f)) names"

definition fieldChanges :: "json \<Rightarrow> json \<Rightarrow> field_groups \<Rightarrow> string list \<times> string list" where
  "fieldChanges before after groups =
    (sorted_strings (map fst (filter (\<lambda>g. changed_in before after (snd g) \<noteq> []) groups)),
     sorted_strings (map (\<lambda>f. CHR ''/'' # f) (concat (map (\<lambda>g. changed_in before after (snd g)) groups))))"

definition COMPONENT_FIELDS :: field_groups where
  "COMPONENT_FIELDS =
    [(''semantic'', [''type'', ''label'', ''sublabel'', ''tag'', ''brand'', ''icon'']),
     (''evidence'', [''sources'']), (''geometry'', [''row'', ''col'', ''pos'', ''size''])]"

definition CONNECTION_FIELDS :: field_groups where
  "CONNECTION_FIELDS =
    [(''topology'', [''from'', ''to'']), (''semantic'', [''label'', ''variant'']),
     (''geometry'', [''fromSide'', ''toSide'', ''route'', ''via'', ''labelAt'', ''labelDx'', ''labelDy'',
        ''labelSegment'', ''width''])]"

definition BOUNDARY_FIELDS :: field_groups where
  "BOUNDARY_FIELDS = [(''scope'', [''wraps'']), (''geometry'', [''pad''])]"

definition statusFor :: "string list \<Rightarrow> string \<Rightarrow> string" where
  "statusFor classifications kind =
    (if list_ex (\<lambda>c. c \<in> set [''topology'', ''semantic'', ''scope'']) classifications then ''changed''
     else if ''evidence'' \<in> set classifications then ''evidence-changed''
     else if ''geometry'' \<in> set classifications
     then (if kind = ''connection'' then ''rerouted'' else if kind = ''component'' then ''moved''
           else ''geometry-changed'')
     else ''same'')"

record delta_change =
  ch_described :: "(string \<times> json) list"
  ch_status :: string
  ch_classifications :: "string list"
  ch_changedFields :: "string list"

type_synonym describer = "json \<Rightarrow> json option \<Rightarrow> json option \<Rightarrow> (string \<times> json) list"

definition identityClassification :: "string \<Rightarrow> string" where
  "identityClassification kind =
    (if kind = ''connection'' then ''topology'' else if kind = ''boundary'' then ''scope'' else ''semantic'')"

text \<open>The change of one identity, none when nothing tracked differs.\<close>

definition entity_change ::
  "(json, json) jmap \<Rightarrow> (json, json) jmap \<Rightarrow> string \<Rightarrow> field_groups \<Rightarrow> describer \<Rightarrow> json \<Rightarrow>
    delta_change option" where
  "entity_change baseIndex headIndex kind groups describe i =
    (case (map_of baseIndex i, map_of headIndex i) of
       (None, head) \<Rightarrow> Some \<lparr>ch_described = describe i None head, ch_status = ''added'',
         ch_classifications = [identityClassification kind], ch_changedFields = []\<rparr>
     | (Some base, None) \<Rightarrow> Some \<lparr>ch_described = describe i (Some base) None, ch_status = ''removed'',
         ch_classifications = [identityClassification kind], ch_changedFields = []\<rparr>
     | (Some base, Some head) \<Rightarrow>
         let found = fieldChanges base head groups; status = statusFor (fst found) kind in
         if status \<noteq> ''same''
         then Some \<lparr>ch_described = describe i (Some base) (Some head), ch_status = status,
           ch_classifications = fst found, ch_changedFields = snd found\<rparr>
         else None)"

definition entity_ids :: "(json, json) jmap \<Rightarrow> (json, json) jmap \<Rightarrow> json list" where
  "entity_ids baseIndex headIndex = sorted_values (distinct_values (jkeys baseIndex @ jkeys headIndex))"

definition compareEntities ::
  "(json, json) jmap \<Rightarrow> (json, json) jmap \<Rightarrow> string \<Rightarrow> field_groups \<Rightarrow> describer \<Rightarrow> delta_change list" where
  "compareEntities baseIndex headIndex kind groups describe =
    List.map_filter (entity_change baseIndex headIndex kind groups describe) (entity_ids baseIndex headIndex)"

section \<open>The receipt\<close>

definition lower_letter :: "char \<Rightarrow> bool" where
  "lower_letter c \<longleftrightarrow> 97 \<le> (of_char c :: nat) \<and> (of_char c :: nat) \<le> 122"

fun summary_key :: "string \<Rightarrow> string" where
  "summary_key (h # c # s) =
    (if h = CHR ''-'' \<and> lower_letter c then char_of ((of_char c :: nat) - 32) # summary_key s
     else h # summary_key (c # s))"
| "summary_key s = s"

definition summaryFor :: "delta_change list \<Rightarrow> string list \<Rightarrow> (string, nat) jmap" where
  "summaryFor changes shape =
    fold (\<lambda>change summary. let key = summary_key (ch_status change) in
        (case map_of summary key of None \<Rightarrow> summary | Some n \<Rightarrow> jset key (n + 1) summary))
      changes (map (\<lambda>key. (key, 0)) shape)"

definition presentation_of :: "json \<Rightarrow> json" where
  "presentation_of d =
    (let meta = js_prop d ''meta'' in
     JObj (map (\<lambda>k. (k, js_prop meta k)) [''title'', ''locale'', ''subtitle'', ''animation'', ''visual_preset'',
         ''quality_profile'', ''engineering_profile'', ''legend'', ''viewBox''] @
       [(''layout'', js_prop d ''layout''), (''cards'', js_prop d ''cards'')]))"

definition presentationChanged :: "json \<Rightarrow> json \<Rightarrow> bool" where
  "presentationChanged base head = (\<not> json_equal (presentation_of base) (presentation_of head))"

definition opt_prop :: "json option \<Rightarrow> string \<Rightarrow> json" where
  "opt_prop item k = (case item of None \<Rightarrow> JUndef | Some v \<Rightarrow> js_prop v k)"

definition describe_component :: describer where
  "describe_component i before after =
    [(''id'', i), (''baseLabel'', opt_prop before ''label''), (''headLabel'', opt_prop after ''label'')]"

definition connection_end :: "string \<Rightarrow> json option \<Rightarrow> (string \<times> json) list" where
  "connection_end side item =
    (case item of None \<Rightarrow> []
     | Some v \<Rightarrow> [(side, JObj [(''from'', js_prop v ''from''), (''to'', js_prop v ''to''),
         (''label'', or_default (js_prop v ''label'') (JStr []))])])"

definition describe_connection :: describer where
  "describe_connection i before after =
    (''id'', i) # connection_end ''base'' before @ connection_end ''head'' after"

definition describe_boundary :: describer where
  "describe_boundary i before after =
    (let b = (case after of Some v \<Rightarrow> v | None \<Rightarrow> or_else before JUndef) in
     [(''key'', JStr (js_string (js_prop b ''kind'') @ CHR '':'' # js_string (js_prop b ''label''))),
      (''kind'', js_prop b ''kind''), (''label'', js_prop b ''label'')])"

record side_evidence =
  ev_verified :: json
  ev_rawSha256 :: json
  ev_semanticSha256 :: json
  ev_bytes :: json

record delta_receipt =
  rc_proofLevel :: string
  rc_base :: json
  rc_head :: json
  rc_components :: "delta_change list"
  rc_connections :: "delta_change list"
  rc_boundaries :: "delta_change list"
  rc_componentSummary :: "(string, nat) jmap"
  rc_connectionSummary :: "(string, nat) jmap"
  rc_boundarySummary :: "(string, nat) jmap"
  rc_presentationChanged :: bool
  rc_provenance :: json
  rc_visualPreset :: json

definition pinned_revision :: "json \<Rightarrow> bool" where
  "pinned_revision repository = hex_text 40 (js_prop repository ''revision'')"

definition when_truthy :: "string \<Rightarrow> json \<Rightarrow> (string \<times> json) list" where
  "when_truthy k v = (if truthy v then [(k, v)] else [])"

definition receipt_side :: "json \<Rightarrow> side_evidence \<Rightarrow> json \<Rightarrow> json" where
  "receipt_side diagram ev repository =
    JObj ([(''title'', or_default (js_prop (js_prop diagram ''meta'') ''title'') (JStr []))] @
      when_truthy ''rawSha256'' (ev_rawSha256 ev) @ when_truthy ''semanticSha256'' (ev_semanticSha256 ev) @
      (case ev_bytes ev of JNum n \<Rightarrow> [(''bytes'', JNum n)] | _ \<Rightarrow> []) @
      when_truthy ''revision'' (js_prop repository ''revision''))"

definition repository_identity :: "(json \<Rightarrow> remote_location option) \<Rightarrow> json \<Rightarrow> json" where
  "repository_identity remote repository =
    (let url = js_prop repository ''url'' in
     case remote url of None \<Rightarrow> url | Some l \<Rightarrow> if rl_identity l \<noteq> [] then JStr (rl_identity l) else url)"

definition same_repository :: "(json \<Rightarrow> remote_location option) \<Rightarrow> json \<Rightarrow> json \<Rightarrow> unit delta_result" where
  "same_repository remote baseRepository headRepository =
    (if truthy baseRepository \<and> truthy headRepository \<and>
        repository_identity remote baseRepository \<noteq> repository_identity remote headRepository
     then Inl \<lparr>de_code = ''delta/repository-mismatch'', de_message = ''The snapshots name different repositories.'',
       de_details = [(''baseRepository'', js_prop baseRepository ''url''),
         (''headRepository'', js_prop headRepository ''url''),
         (''supportedFixes'', JArr [JStr ''compare snapshots from the same repository or remove repository evidence from both inputs''])]\<rparr>
     else Inr ())"

definition shared_component ::
  "(json, json) jmap \<Rightarrow> (json, json) jmap \<Rightarrow> unit delta_result" where
  "shared_component baseComponents headComponents =
    (if filter (jhas headComponents) (jkeys baseComponents) = []
     then Inl \<lparr>de_code = ''delta/no-shared-component-id'',
       de_message = ''The snapshots share no component id, so Archify cannot prove that they describe the same system.'',
       de_details = [(''supportedFixes'', JArr [JStr ''preserve at least one authored component id across snapshots''])]\<rparr>
     else Inr ())"

text \<open>The receipt from the six indexes and the repositories.\<close>

definition delta_receipt_of ::
  "json \<Rightarrow> json \<Rightarrow> side_evidence \<Rightarrow> side_evidence \<Rightarrow> json \<Rightarrow> json \<Rightarrow>
    (json, json) jmap \<times> (json, json) jmap \<Rightarrow> (json, json) jmap \<times> (json, json) jmap \<Rightarrow>
    (json, json) jmap \<times> (json, json) jmap \<Rightarrow> delta_receipt" where
  "delta_receipt_of base head evBase evHead baseRepository headRepository comps conns bounds =
    (let components = compareEntities (fst comps) (snd comps) ''component'' COMPONENT_FIELDS describe_component;
         connections = compareEntities (fst conns) (snd conns) ''connection'' CONNECTION_FIELDS describe_connection;
         boundaries = compareEntities (fst bounds) (snd bounds) ''boundary'' BOUNDARY_FIELDS describe_boundary
     in \<lparr>rc_proofLevel =
           (if truthy baseRepository \<and> truthy headRepository \<and> truthy (ev_verified evBase) \<and>
              truthy (ev_verified evHead) \<and> pinned_revision baseRepository \<and> pinned_revision headRepository
            then ''revision-pinned'' else ''authored''),
         rc_base = receipt_side base evBase baseRepository,
         rc_head = receipt_side head evHead headRepository,
         rc_components = components, rc_connections = connections, rc_boundaries = boundaries,
         rc_componentSummary = summaryFor components [''added'', ''changed'', ''evidenceChanged'', ''removed'', ''moved''],
         rc_connectionSummary = summaryFor connections [''added'', ''changed'', ''removed'', ''rerouted''],
         rc_boundarySummary = summaryFor boundaries [''added'', ''changed'', ''removed'', ''geometryChanged''],
         rc_presentationChanged = presentationChanged base head,
         rc_provenance = provenanceChange baseRepository headRepository,
         rc_visualPreset = or_default (js_prop (js_prop head ''meta'') ''visual_preset'') (JStr ''classic'')\<rparr>)"

definition compareArchitecture ::
  "(json \<Rightarrow> remote_location option) \<Rightarrow> json \<Rightarrow> json \<Rightarrow> side_evidence \<Rightarrow> side_evidence \<Rightarrow>
    delta_receipt delta_result" where
  "compareArchitecture remote base head evBase evHead =
    delta_bind (requireComparableShape base ''base'') (\<lambda>_.
    delta_bind (requireComparableShape head ''head'') (\<lambda>_.
    delta_bind (stableIndex (js_prop base ''components'') ''components'' ''base'' ''delta/stable-id-required'') (\<lambda>bc.
    delta_bind (stableIndex (js_prop head ''components'') ''components'' ''head'' ''delta/stable-id-required'') (\<lambda>hc.
    delta_bind (shared_component bc hc) (\<lambda>_.
    delta_bind (stableIndex (js_prop base ''connections'') ''connections'' ''base'' ''delta/relationship-id-required'') (\<lambda>bn.
    delta_bind (stableIndex (js_prop head ''connections'') ''connections'' ''head'' ''delta/relationship-id-required'') (\<lambda>hn.
    delta_bind (boundaryIndex (js_prop base ''boundaries'') ''base'') (\<lambda>bb.
    delta_bind (boundaryIndex (js_prop head ''boundaries'') ''head'') (\<lambda>hb.
    let baseRepository = normalizeRepository remote (js_prop (js_prop base ''meta'') ''repository'');
        headRepository = normalizeRepository remote (js_prop (js_prop head ''meta'') ''repository'') in
    delta_bind (same_repository remote baseRepository headRepository) (\<lambda>_.
    Inr (delta_receipt_of base head evBase evHead baseRepository headRepository (bc, hc) (bn, hn) (bb, hb))))))))))))"

section \<open>The rows shown of a receipt\<close>

record delta_row =
  dw_change :: delta_change
  dw_kind :: string
  dw_kindKey :: string
  dw_key :: string
  dw_id :: json

definition described :: "delta_change \<Rightarrow> string \<Rightarrow> json" where
  "described change k = or_else (map_of (ch_described change) k) JUndef"

definition row_of :: "string \<Rightarrow> string \<Rightarrow> string \<Rightarrow> delta_change \<Rightarrow> delta_row" where
  "row_of kind kindKey field change =
    \<lparr>dw_change = change, dw_kind = kind, dw_kindKey = kindKey,
     dw_key = kindKey @ CHR '':'' # js_string (described change field), dw_id = described change field\<rparr>"

definition row_text :: "delta_row \<Rightarrow> string" where
  "row_text r = ch_status (dw_change r) @ CHR '':'' # dw_kind r @ CHR '':'' # js_string (dw_id r)"

definition architectureDeltaChangeRows :: "delta_receipt \<Rightarrow> delta_row list" where
  "architectureDeltaChangeRows receipt =
    js_sort (\<lambda>l r. codepointOrder (row_text l) (row_text r))
      (map (row_of ''Component'' ''component'' ''id'') (rc_components receipt) @
       map (row_of ''Relationship'' ''relationship'' ''id'') (rc_connections receipt) @
       map (row_of ''Boundary'' ''boundary'' ''key'') (rc_boundaries receipt))"

definition reviewPrimaryStates :: "delta_row \<Rightarrow> string list" where
  "reviewPrimaryStates row =
    (let status = ch_status (dw_change row); cls = set (ch_classifications (dw_change row)) in
     if dw_kindKey row = ''component'' \<and> ''geometry'' \<in> cls then [status, ''moved-from'']
     else if dw_kindKey row = ''relationship'' \<and> status = ''changed'' \<and> ''topology'' \<in> cls
     then [''changed'', ''removed'']
     else if dw_kindKey row = ''relationship'' \<and> ''geometry'' \<in> cls then [''moved-from'', status]
     else if dw_kindKey row = ''boundary'' \<and> status \<in> {''changed'', ''geometry-changed''}
     then sorted_strings [status, ''moved-from'']
     else [status])"

section \<open>Lemmas: the canonical text\<close>

lemma codepoint_js_order: "codepointOrder l r = js_order l r"
  using str_less_asym str_less_total by (auto simp: codepointOrder_def js_order_def)

lemma keyed_comparator: "comparator (\<lambda>l r. codepointOrder (f l) (f r))"
  unfolding codepoint_js_order by unfold_locales (rule by_code.cmp_total, rule by_code.cmp_trans)

lemma keyed_sort_perm:
  assumes "mset xs = mset ys" "inj_on f (set xs)"
  shows "js_sort (\<lambda>l r. codepointOrder (f l) (f r)) xs = js_sort (\<lambda>l r. codepointOrder (f l) (f r)) ys"
proof (rule comparator.js_sort_perm[OF keyed_comparator assms(1)])
  fix a b assume "a \<in> set xs" "b \<in> set xs" and
    le: "codepointOrder (f a) (f b) \<le> 0" "codepointOrder (f b) (f a) \<le> 0"
  then have "js_order (f a) (f b) = 0"
    using by_code.anti[of "f a" "f b"] unfolding codepoint_js_order by linarith
  then have "f a = f b" using by_code.zero by simp
  then show "a = b" using assms(2) \<open>a \<in> set xs\<close> \<open>b \<in> set xs\<close> by (simp add: inj_on_def)
qed

lemma key_order_fst: "key_order = (\<lambda>a b. codepointOrder (fst a) (fst b))"
  by (intro ext) (simp add: key_order_def)

text \<open>The same value with the properties of every object in order.\<close>

fun sort_keys :: "json \<Rightarrow> json"
  and sort_keys_items :: "json list \<Rightarrow> json list"
  and sort_keys_members :: "(string \<times> json) list \<Rightarrow> (string \<times> json) list" where
  "sort_keys (JArr vs) = JArr (sort_keys_items vs)"
| "sort_keys (JObj kvs) = JObj (js_sort key_order (sort_keys_members kvs))"
| "sort_keys v = v"
| "sort_keys_items [] = []"
| "sort_keys_items (v # vs) = sort_keys v # sort_keys_items vs"
| "sort_keys_members [] = []"
| "sort_keys_members ((k, v) # kvs) = (k, sort_keys v) # sort_keys_members kvs"

lemma sort_keys_items_map: "sort_keys_items vs = map sort_keys vs"
  by (induction vs) simp_all

lemma sort_keys_members_map: "sort_keys_members kvs = map (\<lambda>kv. (fst kv, sort_keys (snd kv))) kvs"
  by (induction kvs) auto

lemma canonical_items_map: "canonical_items vs = map (\<lambda>v. or_else (canonical v) []) vs"
  by (induction vs) simp_all

lemma canonical_members_map: "canonical_members kvs = map (\<lambda>kv. (fst kv, canonical (snd kv))) kvs"
  by (induction kvs) auto

lemma insert_by_key_map:
  "(\<And>x. fst (f x) = fst x) \<Longrightarrow> insert_by key_order (f x) (map f xs) = map f (insert_by key_order x xs)"
  by (induction xs) (simp_all add: key_order_def)

lemma js_sort_key_map:
  "(\<And>x. fst (f x) = fst x) \<Longrightarrow> js_sort key_order (map f xs) = map f (js_sort key_order xs)"
  by (induction xs) (simp_all add: js_sort_Cons insert_by_key_map)

lemma defined_sort_keys: "defined_json v \<Longrightarrow> defined_json (sort_keys v)"
  by (induction v) (auto simp: sort_keys_items_map sort_keys_members_map)

lemma canonical_text: "defined_json v \<Longrightarrow> canonical v = Some (json_text_of (sort_keys v))"
proof (induction v)
  case (JArr vs)
  then have eq: "map (\<lambda>v. or_else (canonical v) []) vs = map json_text_of (map sort_keys vs)" by simp
  show ?case
    unfolding canonical.simps canonical_items_map sort_keys.simps sort_keys_items_map json_text_simps
      comma_list_def eq ..
next
  case (JObj kvs)
  let ?s = "js_sort key_order kvs"
  have mem: "canonical (snd kv) = Some (json_text_of (sort_keys (snd kv)))" if "kv \<in> set kvs" for kv
    using JObj that by (metis defined_json.simps(3) prod_set_simps(2) singletonI snds.simps surjective_pairing)
  have def: "defined_json (JObj (map (\<lambda>kv. (fst kv, sort_keys (snd kv))) ?s))"
    using JObj.prems defined_sort_keys by auto
  have "canonical (JObj kvs) = Some (CHR ''{'' # join_with '',''
      (map member_line (map (\<lambda>kv. (fst kv, canonical (snd kv))) ?s)) @ ''}'')"
    by (simp add: canonical_members_map js_sort_key_map)
  also have "map member_line (map (\<lambda>kv. (fst kv, canonical (snd kv))) ?s) =
      map member_text (map (\<lambda>kv. (fst kv, sort_keys (snd kv))) ?s)"
    using mem by (simp add: member_line_def member_text_def)
  also have "Some (CHR ''{'' # join_with '','' (map member_text (map (\<lambda>kv. (fst kv, sort_keys (snd kv))) ?s)) @ ''}'') =
      Some (json_text_of (JObj (map (\<lambda>kv. (fst kv, sort_keys (snd kv))) ?s)))"
    using json_text_simps(2)[OF def] by (simp only: comma_list_def)
  also have "JObj (map (\<lambda>kv. (fst kv, sort_keys (snd kv))) ?s) = sort_keys (JObj kvs)"
    by (simp add: sort_keys_members_map js_sort_key_map)
  finally show ?case .
qed (simp_all add: json_stringify_def)

lemma json_equal_sort_keys:
  assumes "defined_json v" "defined_json w"
  shows "json_equal v w \<longleftrightarrow> sort_keys v = sort_keys w"
  using assms json_text_inj[OF defined_sort_keys defined_sort_keys]
  by (simp add: json_equal_def canonical_text del: json_render.simps)

section \<open>Lemmas: the indexes\<close>

definition keyed_items :: "(json \<Rightarrow> json) \<Rightarrow> json list \<Rightarrow> (json, json) jmap" where
  "keyed_items key items = map (\<lambda>item. (key item, item)) items"

lemma jkeys_keyed: "jkeys (keyed_items key items) = map key items"
  by (simp add: keyed_items_def jkeys_def)

lemma jset_fresh: "\<not> jhas m k \<Longrightarrow> jset k v m = m @ [(k, v)]"
  by (induction m) (auto simp: jhas_iff jkeys_def)

lemma index_items_keeps:
  "index_items i items (index, missing, duplicates) = (index', missing', duplicates') \<Longrightarrow>
    (missing' = [] \<longrightarrow> missing = []) \<and> (duplicates' = [] \<longrightarrow> duplicates = [])"
proof (induction items arbitrary: i index missing duplicates)
  case (Cons item items)
  show ?case
  proof (cases "truthy (js_prop item ''id'')")
    case False
    then show ?thesis using Cons.IH[of "Suc i" index "missing @ [i]" duplicates] Cons.prems by simp
  next
    case key: True
    show ?thesis
    proof (cases "jhas index (js_prop item ''id'')")
      case True
      then show ?thesis
        using key Cons.IH[of "Suc i" index missing "duplicates @ [js_prop item ''id'']"] Cons.prems
        by (simp add: Let_def)
    next
      case False
      then show ?thesis
        using key Cons.IH[of "Suc i" "jset (js_prop item ''id'') item index" missing duplicates] Cons.prems
        by (simp add: Let_def)
    qed
  qed
qed simp

definition identified :: "json list \<Rightarrow> bool" where
  "identified items \<longleftrightarrow> (\<forall>item \<in> set items. truthy (js_prop item ''id'')) \<and>
    distinct (map (\<lambda>item. js_prop item ''id'') items)"

text \<open>The index is complete when every item has an id of its own, and an error otherwise.\<close>

lemma index_items_exact:
  assumes "distinct (jkeys index)"
  shows "(\<exists>index'. index_items i items (index, [], []) = (index', [], [])) \<longleftrightarrow>
      identified items \<and> set (jkeys index) \<inter> set (map (\<lambda>item. js_prop item ''id'') items) = {}"
    and "index_items i items (index, [], []) = (index', [], []) \<Longrightarrow>
      index' = index @ keyed_items (\<lambda>item. js_prop item ''id'') items"
  using assms
proof (induction items arbitrary: i index)
  case Nil
  {
    case 1 then show ?case by (simp add: identified_def)
  next
    case 2 then show ?case by (simp add: keyed_items_def)
  }
next
  case (Cons item items)
  let ?k = "js_prop item ''id''"
  have bad: "index_items i (item # items) (index, [], []) \<noteq> (index', [], [])"
    if "\<not> truthy ?k \<or> jhas index ?k" for i index index'
  proof
    assume eq: "index_items i (item # items) (index, [], []) = (index', [], [])"
    show False
    proof (cases "truthy ?k")
      case True
      then have "index_items (Suc i) items (index, [], [?k]) = (index', [], [])" using that eq by (simp add: Let_def)
      then show False using index_items_keeps by blast
    next
      case False
      then have "index_items (Suc i) items (index, [i], []) = (index', [], [])" using eq by (simp add: Let_def)
      then show False using index_items_keeps by blast
    qed
  qed
  have good: "index_items i (item # items) (index, [], []) = index_items (Suc i) items (index @ [(?k, item)], [], [])"
    if "truthy ?k" "\<not> jhas index ?k" for i index
    using that jset_fresh[of index ?k item] by (simp add: Let_def)
  have keys: "jkeys (index @ [(?k, item)]) = jkeys index @ [?k]" for index by (simp add: jkeys_def)
  {
    case 1
    show ?case
    proof (cases "truthy ?k \<and> \<not> jhas index ?k")
      case True
      then have d: "distinct (jkeys (index @ [(?k, item)]))" using 1 by (simp add: keys jhas_iff)
      show ?thesis
        using good True Cons.IH(1)[OF d, of "Suc i"] unfolding keys
        by (auto simp: identified_def jhas_iff)
    next
      case False
      then show ?thesis using bad by (auto simp: identified_def jhas_iff)
    qed
  next
    case 2
    then have ok: "truthy ?k" "\<not> jhas index ?k" using bad by blast+
    have d: "distinct (jkeys (index @ [(?k, item)]))" using 2(2) ok by (simp add: keys jhas_iff)
    show ?case using Cons.IH(2)[OF _ d, of "Suc i"] good[OF ok] 2(1) by (simp add: keyed_items_def)
  }
qed

lemma stableIndex_exact:
  "stableIndex items collection side code = Inr index \<longleftrightarrow>
    identified (list_of items) \<and> index = keyed_items (\<lambda>item. js_prop item ''id'') (list_of items)"
proof -
  obtain ix m d where r: "index_items 0 (list_of items) ([], [], []) = (ix, m, d)"
    by (cases "index_items 0 (list_of items) ([], [], [])")
  have ex: "(\<exists>index'. index_items 0 (list_of items) ([], [], []) = (index', [], [])) \<longleftrightarrow> identified (list_of items)"
    and eq: "index_items 0 (list_of items) ([], [], []) = (index', [], []) \<Longrightarrow>
      index' = keyed_items (\<lambda>item. js_prop item ''id'') (list_of items)" for index'
    using index_items_exact[of "[]" 0 "list_of items"] by (simp_all add: jkeys_def)
  show ?thesis using r ex eq[of ix] by (auto simp: stableIndex_def)
qed

definition boundaries_distinct :: "json list \<Rightarrow> bool" where
  "boundaries_distinct items \<longleftrightarrow> distinct (map boundaryKey items)"

lemma index_boundaries_keeps:
  "index_boundaries items (index, ambiguous) = (index', ambiguous') \<Longrightarrow> ambiguous' = [] \<Longrightarrow> ambiguous = []"
proof (induction items arbitrary: index ambiguous)
  case (Cons item items)
  then show ?case
    by (cases "jhas index (JStr (boundaryKey item))") (auto simp: Let_def)
qed simp

lemma index_boundaries_exact:
  assumes "distinct (jkeys index)"
  shows "(\<exists>index'. index_boundaries items (index, []) = (index', [])) \<longleftrightarrow>
      boundaries_distinct items \<and> set (jkeys index) \<inter> set (map (\<lambda>b. JStr (boundaryKey b)) items) = {}"
    and "index_boundaries items (index, []) = (index', []) \<Longrightarrow>
      index' = index @ keyed_items (\<lambda>b. JStr (boundaryKey b)) items"
  using assms
proof (induction items arbitrary: index)
  case Nil
  {
    case 1 then show ?case by (simp add: boundaries_distinct_def)
  next
    case 2 then show ?case by (simp add: keyed_items_def)
  }
next
  case (Cons item items)
  let ?k = "JStr (boundaryKey item)"
  have bad: "index_boundaries (item # items) (index, []) \<noteq> (index', [])" if "jhas index ?k" for index index'
    using that index_boundaries_keeps[of items index _ index' "[]"] by (auto simp: Let_def)
  have good: "index_boundaries (item # items) (index, []) = index_boundaries items (index @ [(?k, item)], [])"
    if "\<not> jhas index ?k" for index
    using that jset_fresh[of index ?k item] by (simp add: Let_def)
  have keys: "jkeys (index @ [(?k, item)]) = jkeys index @ [?k]" for index by (simp add: jkeys_def)
  {
    case 1
    show ?case
    proof (cases "jhas index ?k")
      case False
      then have d: "distinct (jkeys (index @ [(?k, item)]))" using 1 by (simp add: keys jhas_iff)
      show ?thesis
        using good[OF False] Cons.IH(1)[OF d] False unfolding keys
        by (auto simp: boundaries_distinct_def jhas_iff)
    next
      case True
      then show ?thesis using bad by (auto simp: boundaries_distinct_def jhas_iff)
    qed
  next
    case 2
    then have ok: "\<not> jhas index ?k" using bad by blast
    have d: "distinct (jkeys (index @ [(?k, item)]))" using 2(2) ok by (simp add: keys jhas_iff)
    show ?case using Cons.IH(2)[OF _ d] good[OF ok] 2(1) by (simp add: keyed_items_def)
  }
qed

lemma boundaryIndex_exact:
  "boundaryIndex items side = Inr index \<longleftrightarrow>
    boundaries_distinct (list_of items) \<and> index = keyed_items (\<lambda>b. JStr (boundaryKey b)) (list_of items)"
proof -
  obtain ix a where r: "index_boundaries (list_of items) ([], []) = (ix, a)"
    by (cases "index_boundaries (list_of items) ([], [])")
  have ex: "(\<exists>index'. index_boundaries (list_of items) ([], []) = (index', [])) \<longleftrightarrow>
      boundaries_distinct (list_of items)"
    and eq: "index_boundaries (list_of items) ([], []) = (index', []) \<Longrightarrow>
      index' = keyed_items (\<lambda>b. JStr (boundaryKey b)) (list_of items)" for index'
    using index_boundaries_exact[of "[]" "list_of items"] by (simp_all add: jkeys_def)
  show ?thesis using r ex eq[of ix] by (auto simp: boundaryIndex_def)
qed

section \<open>Lemmas: comparing\<close>

lemma delta_bind_Inr: "delta_bind x f = Inr y \<longleftrightarrow> (\<exists>z. x = Inr z \<and> f z = Inr y)"
  by (cases x) simp_all

abbreviation components_of :: "json \<Rightarrow> json list" where
  "components_of d \<equiv> list_of (js_prop d ''components'')"

abbreviation connections_of :: "json \<Rightarrow> json list" where
  "connections_of d \<equiv> list_of (js_prop d ''connections'')"

abbreviation boundaries_of :: "json \<Rightarrow> json list" where
  "boundaries_of d \<equiv> list_of (js_prop d ''boundaries'')"

abbreviation by_id :: "json list \<Rightarrow> (json, json) jmap" where
  "by_id items \<equiv> keyed_items (\<lambda>item. js_prop item ''id'') items"

abbreviation by_boundary :: "json list \<Rightarrow> (json, json) jmap" where
  "by_boundary items \<equiv> keyed_items (\<lambda>b. JStr (boundaryKey b)) items"

definition repository_of :: "(json \<Rightarrow> remote_location option) \<Rightarrow> json \<Rightarrow> json" where
  "repository_of remote d = normalizeRepository remote (js_prop (js_prop d ''meta'') ''repository'')"

definition comparable :: "(json \<Rightarrow> remote_location option) \<Rightarrow> json \<Rightarrow> json \<Rightarrow> bool" where
  "comparable remote base head \<longleftrightarrow>
    requireComparableShape base ''base'' = Inr () \<and> requireComparableShape head ''head'' = Inr () \<and>
    identified (components_of base) \<and> identified (components_of head) \<and>
    shared_component (by_id (components_of base)) (by_id (components_of head)) = Inr () \<and>
    identified (connections_of base) \<and> identified (connections_of head) \<and>
    boundaries_distinct (boundaries_of base) \<and> boundaries_distinct (boundaries_of head) \<and>
    same_repository remote (repository_of remote base) (repository_of remote head) = Inr ()"

lemma compareArchitecture_exact:
  "compareArchitecture remote base head evBase evHead = Inr r \<longleftrightarrow>
    comparable remote base head \<and>
    r = delta_receipt_of base head evBase evHead (repository_of remote base) (repository_of remote head)
      (by_id (components_of base), by_id (components_of head))
      (by_id (connections_of base), by_id (connections_of head))
      (by_boundary (boundaries_of base), by_boundary (boundaries_of head))"
  unfolding compareArchitecture_def comparable_def repository_of_def Let_def
  by (auto simp: delta_bind_Inr stableIndex_exact boundaryIndex_exact)

lemma distinct_values_set: "set (distinct_values vs) = set vs" "distinct (distinct_values vs)"
proof -
  have "set (foldl (\<lambda>acc v. if v \<in> set acc then acc else acc @ [v]) acc vs) = set acc \<union> set vs \<and>
      (distinct acc \<longrightarrow> distinct (foldl (\<lambda>acc v. if v \<in> set acc then acc else acc @ [v]) acc vs))" for acc
    by (induction vs arbitrary: acc) auto
  from this[of "[]"] show "set (distinct_values vs) = set vs" "distinct (distinct_values vs)"
    by (simp_all add: distinct_values_def)
qed

lemma entity_ids_set [simp]: "set (entity_ids b h) = set (jkeys b) \<union> set (jkeys h)"
  by (simp add: entity_ids_def sorted_values_def distinct_values_set)

lemma distinct_js_sort [simp]: "distinct (js_sort cmp xs) = distinct xs"
  using distinct_map_js_sort[of id] by simp

lemma entity_ids_distinct: "distinct (entity_ids b h)"
  by (simp add: entity_ids_def sorted_values_def distinct_values_set)

lemma in_jkeys: "i \<in> set (jkeys m) \<longleftrightarrow> map_of m i \<noteq> None"
  by (simp add: jkeys_def map_of_eq_None_iff)

lemma entity_ids_same:
  assumes "set (jkeys b) = set (jkeys b')" "set (jkeys h) = set (jkeys h')"
    and "inj_on js_string (set (jkeys b) \<union> set (jkeys h))"
  shows "entity_ids b h = entity_ids b' h'"
  unfolding entity_ids_def sorted_values_def
proof (rule keyed_sort_perm)
  have "set (distinct_values (jkeys b @ jkeys h)) = set (distinct_values (jkeys b' @ jkeys h'))"
    using assms by (simp add: distinct_values_set)
  then show "mset (distinct_values (jkeys b @ jkeys h)) = mset (distinct_values (jkeys b' @ jkeys h'))"
    using set_eq_iff_mset_eq_distinct distinct_values_set(2) by blast
qed (simp add: distinct_values_set assms(3))

lemma compareEntities_same:
  assumes "map_of b = map_of b'" "map_of h = map_of h'"
    and "inj_on js_string (set (jkeys b) \<union> set (jkeys h))"
  shows "compareEntities b h kind groups describe = compareEntities b' h' kind groups describe"
proof -
  have keys: "set (jkeys m) = dom (map_of m)" for m :: "(json, json) jmap"
    by (simp add: jkeys_def dom_map_of_conv_image_fst)
  have "entity_change b h kind groups describe = entity_change b' h' kind groups describe"
    by (intro ext) (simp add: entity_change_def assms(1,2))
  then show ?thesis
    unfolding compareEntities_def using entity_ids_same[of b b' h h'] assms keys by simp
qed

lemma keyed_items_perm:
  assumes "mset items = mset items'" "distinct (map key items)"
  shows "map_of (keyed_items key items) = map_of (keyed_items key items')"
proof (rule map_of_inject_set[THEN iffD2])
  have "mset (map key items) = mset (map key items')" using assms(1) by simp
  then have "distinct (map key items')" using assms(2) by (metis mset_eq_imp_distinct_iff)
  then show "distinct (map fst (keyed_items key items))" "distinct (map fst (keyed_items key items'))"
    using assms(2) by (simp_all add: keyed_items_def comp_def)
  show "set (keyed_items key items) = set (keyed_items key items')"
    using assms(1) by (simp add: keyed_items_def) (metis mset_eq_setD)
qed

text \<open>No difference between a tracked field and itself.\<close>

lemma changed_in_same: "changed_in v v names = []"
  by (simp add: changed_in_def json_equal_def)

lemma sorted_strings_Nil: "sorted_strings [] = []"
  by (simp add: sorted_strings_def)

lemma compareEntities_self:
  fixes m :: "(json, json) jmap"
  shows "compareEntities m m kind groups describe = []"
proof -
  have "entity_change m m kind groups describe i = None" if "i \<in> set (entity_ids m m)" for i
  proof -
    have "i \<in> set (jkeys m)" using that by simp
    then obtain v where "map_of m i = Some v" unfolding in_jkeys by blast
    then show ?thesis
      by (simp add: entity_change_def fieldChanges_def changed_in_same sorted_strings_Nil statusFor_def Let_def)
  qed
  then have "List.map_filter (entity_change m m kind groups describe) ids = []"
    if "set ids \<subseteq> set (entity_ids m m)" for ids
    using that by (induction ids) (simp_all add: List.map_filter_simps)
  then show ?thesis by (simp add: compareEntities_def)
qed

text \<open>A change is reported for exactly the identities that come, go or differ in a tracked
  field.\<close>

definition field_differs :: "json \<Rightarrow> json \<Rightarrow> field_groups \<Rightarrow> bool" where
  "field_differs before after groups \<longleftrightarrow>
    (\<exists>g \<in> set groups. \<exists>f \<in> set (snd g). \<not> json_equal (normalizedField before f) (normalizedField after f))"

lemma sorted_strings_set [simp]: "set (sorted_strings ss) = set ss"
  by (simp add: sorted_strings_def)

lemma statusFor_same:
  assumes "set cls \<subseteq> {''topology'', ''semantic'', ''scope'', ''evidence'', ''geometry''}"
  shows "statusFor cls kind = ''same'' \<longleftrightarrow> cls = []"
proof (cases cls)
  case (Cons c cs)
  then show ?thesis using assms by (auto simp: statusFor_def)
qed (simp add: statusFor_def)

definition known_groups :: "field_groups \<Rightarrow> bool" where
  "known_groups groups \<longleftrightarrow>
    fst ` set groups \<subseteq> {''topology'', ''semantic'', ''scope'', ''evidence'', ''geometry''}"

lemma known_fields: "known_groups COMPONENT_FIELDS" "known_groups CONNECTION_FIELDS" "known_groups BOUNDARY_FIELDS"
  by (simp_all add: known_groups_def COMPONENT_FIELDS_def CONNECTION_FIELDS_def BOUNDARY_FIELDS_def)

lemma entity_change_None:
  assumes "known_groups groups" "i \<in> set (entity_ids b h)"
  shows "entity_change b h kind groups describe i = None \<longleftrightarrow>
    (\<exists>v w. map_of b i = Some v \<and> map_of h i = Some w \<and> \<not> field_differs v w groups)"
proof (cases "map_of b i")
  case (Some v)
  show ?thesis
  proof (cases "map_of h i")
    case w: (Some w)
    let ?cls = "fst (fieldChanges v w groups)"
    have "set ?cls \<subseteq> {''topology'', ''semantic'', ''scope'', ''evidence'', ''geometry''}"
      using assms(1) by (auto simp: fieldChanges_def known_groups_def)
    moreover have "?cls = [] \<longleftrightarrow> \<not> field_differs v w groups"
      by (auto simp: fieldChanges_def field_differs_def changed_in_def filter_empty_conv
          simp flip: set_empty2)
    ultimately show ?thesis
      using statusFor_same[of ?cls kind] Some w by (auto simp: entity_change_def Let_def)
  qed (simp add: entity_change_def Some)
qed (simp add: entity_change_def)

lemma map_filter_append: "List.map_filter f (xs @ ys) = List.map_filter f xs @ List.map_filter f ys"
  by (simp add: List.map_filter_def)

text \<open>The reported changes, one per identity in order.\<close>

lemma compareEntities_ids:
  assumes id: "\<And>i c. entity_change b h kind groups describe i = Some c \<Longrightarrow> f c = i"
  shows "map f (compareEntities b h kind groups describe) =
    filter (\<lambda>i. entity_change b h kind groups describe i \<noteq> None) (entity_ids b h)"
proof -
  have "map f (List.map_filter (entity_change b h kind groups describe) ids) =
      filter (\<lambda>i. entity_change b h kind groups describe i \<noteq> None) ids" for ids
    by (induction ids) (auto simp: List.map_filter_simps id split: option.splits)
  then show ?thesis by (simp add: compareEntities_def)
qed

lemma described_component_id:
  "entity_change b h kind groups describe_component i = Some c \<Longrightarrow> described c ''id'' = i"
  by (auto simp: entity_change_def described_def describe_component_def Let_def
      split: option.splits if_splits)

lemma described_connection_id:
  "entity_change b h kind groups describe_connection i = Some c \<Longrightarrow> described c ''id'' = i"
  by (auto simp: entity_change_def described_def describe_connection_def Let_def
      split: option.splits if_splits)

definition differs :: "(json, json) jmap \<Rightarrow> (json, json) jmap \<Rightarrow> field_groups \<Rightarrow> json \<Rightarrow> bool" where
  "differs b h groups i \<longleftrightarrow>
    (case (map_of b i, map_of h i) of
       (None, None) \<Rightarrow> False
     | (Some v, Some w) \<Rightarrow> field_differs v w groups
     | _ \<Rightarrow> True)"

lemma differs_listed: "differs b h groups i \<Longrightarrow> i \<in> set (entity_ids b h)"
  by (rule ccontr) (simp add: differs_def in_jkeys)

lemma entity_change_differs:
  assumes "known_groups groups" "i \<in> set (entity_ids b h)"
  shows "entity_change b h kind groups describe i \<noteq> None \<longleftrightarrow> differs b h groups i"
proof -
  have "map_of b i \<noteq> None \<or> map_of h i \<noteq> None" using assms(2) by (simp add: in_jkeys)
  then show ?thesis
    unfolding entity_change_None[OF assms] differs_def
    by (cases "map_of b i"; cases "map_of h i") simp_all
qed

lemma compareEntities_exact:
  assumes known: "known_groups groups"
    and id: "\<And>i c. entity_change b h kind groups describe i = Some c \<Longrightarrow> f c = i"
  shows "distinct (map f (compareEntities b h kind groups describe))"
    and "i \<in> f ` set (compareEntities b h kind groups describe) \<longleftrightarrow> differs b h groups i"
proof -
  have ids: "map f (compareEntities b h kind groups describe) =
      filter (\<lambda>i. entity_change b h kind groups describe i \<noteq> None) (entity_ids b h)"
    by (rule compareEntities_ids) (rule id)
  show "distinct (map f (compareEntities b h kind groups describe))"
    unfolding ids using entity_ids_distinct by (rule distinct_filter)
  have "i \<in> f ` set (compareEntities b h kind groups describe) \<longleftrightarrow>
      i \<in> set (filter (\<lambda>i. entity_change b h kind groups describe i \<noteq> None) (entity_ids b h))"
    unfolding ids[symmetric] by simp
  also have "\<dots> \<longleftrightarrow> i \<in> set (entity_ids b h) \<and> entity_change b h kind groups describe i \<noteq> None"
    by (simp del: entity_ids_set)
  also have "\<dots> \<longleftrightarrow> differs b h groups i"
    using entity_change_differs[OF known] differs_listed[of b h groups i] by blast
  finally show "i \<in> f ` set (compareEntities b h kind groups describe) \<longleftrightarrow> differs b h groups i" .
qed

lemma compareEntities_Nil:
  assumes known: "known_groups groups"
  shows "compareEntities b h kind groups describe = [] \<longleftrightarrow> (\<forall>i. \<not> differs b h groups i)"
proof -
  have "compareEntities b h kind groups describe = [] \<longleftrightarrow>
      (\<forall>i \<in> set (entity_ids b h). \<not> entity_change b h kind groups describe i \<noteq> None)"
    by (simp add: compareEntities_def List.map_filter_def filter_empty_conv del: entity_ids_set)
  also have "\<dots> \<longleftrightarrow> (\<forall>i. \<not> differs b h groups i)"
    using entity_change_differs[OF known] differs_listed[of b h groups] by blast
  finally show ?thesis .
qed

lemma component_changes:
  "distinct (map (\<lambda>c. described c ''id'') (compareEntities b h kind COMPONENT_FIELDS describe_component))"
  "i \<in> (\<lambda>c. described c ''id'') ` set (compareEntities b h kind COMPONENT_FIELDS describe_component) \<longleftrightarrow>
    differs b h COMPONENT_FIELDS i"
   by (rule compareEntities_exact[OF known_fields(1)], erule described_component_id)+

lemma connection_changes:
  "distinct (map (\<lambda>c. described c ''id'') (compareEntities b h kind CONNECTION_FIELDS describe_connection))"
  "i \<in> (\<lambda>c. described c ''id'') ` set (compareEntities b h kind CONNECTION_FIELDS describe_connection) \<longleftrightarrow>
    differs b h CONNECTION_FIELDS i"
  by (rule compareEntities_exact[OF known_fields(2)], erule described_connection_id)+

section \<open>Lemmas: reordered snapshots\<close>

text \<open>The same snapshot with its components, relationships and boundaries listed in another
  order, and snapshots whose ids are strings, as the schema requires.\<close>

definition reordered :: "json \<Rightarrow> json \<Rightarrow> bool" where
  "reordered d d' \<longleftrightarrow>
    mset (components_of d) = mset (components_of d') \<and>
    mset (connections_of d) = mset (connections_of d') \<and>
    mset (boundaries_of d) = mset (boundaries_of d') \<and>
    (\<forall>k. k \<notin> {''components'', ''connections'', ''boundaries''} \<longrightarrow> js_prop d k = js_prop d' k)"

definition is_text :: "json \<Rightarrow> bool" where
  "is_text v \<longleftrightarrow> v = JStr (js_string v)"

definition string_ids :: "json \<Rightarrow> bool" where
  "string_ids d \<longleftrightarrow>
    list_all (\<lambda>item. is_text (js_prop item ''id'')) (components_of d @ connections_of d)"

lemma identified_mset: "mset items = mset items' \<Longrightarrow> identified items = identified items'"
  unfolding identified_def
  using mset_eq_setD[of items items'] mset_eq_imp_distinct_iff[of "map (\<lambda>item. js_prop item ''id'') items"
    "map (\<lambda>item. js_prop item ''id'') items'"] by simp

lemma boundaries_distinct_mset: "mset items = mset items' \<Longrightarrow> boundaries_distinct items = boundaries_distinct items'"
  unfolding boundaries_distinct_def
  using mset_eq_imp_distinct_iff[of "map boundaryKey items" "map boundaryKey items'"] by simp

lemma shared_component_exact:
  "shared_component b h = Inr () \<longleftrightarrow> set (jkeys b) \<inter> set (jkeys h) \<noteq> {}"
  by (auto simp: shared_component_def filter_empty_conv jhas_iff)

lemma keys_mset: "mset items = mset items' \<Longrightarrow> set (jkeys (keyed_items key items)) = set (jkeys (keyed_items key items'))"
  unfolding jkeys_keyed using mset_eq_setD[of items items'] by simp

lemma reordered_props:
  assumes "reordered d d'"
  shows "js_prop d' ''meta'' = js_prop d ''meta''" "js_prop d' ''layout'' = js_prop d ''layout''"
    "js_prop d' ''cards'' = js_prop d ''cards''" "js_prop d' ''schema_version'' = js_prop d ''schema_version''"
    "js_prop d' ''diagram_type'' = js_prop d ''diagram_type''"
  using assms by (simp_all add: reordered_def)

lemma reordered_shape:
  assumes "reordered d d'"
  shows "requireComparableShape d' side = requireComparableShape d side"
    "repository_of remote d' = repository_of remote d"
    "receipt_side d' ev repository = receipt_side d ev repository"
    "presentation_of d' = presentation_of d"
    "identified (components_of d') = identified (components_of d)"
    "identified (connections_of d') = identified (connections_of d)"
    "boundaries_distinct (boundaries_of d') = boundaries_distinct (boundaries_of d)"
proof -
  note p = reordered_props[OF assms]
  have m: "mset (components_of d) = mset (components_of d')" "mset (connections_of d) = mset (connections_of d')"
    "mset (boundaries_of d) = mset (boundaries_of d')"
    using assms by (simp_all add: reordered_def)
  show "requireComparableShape d' side = requireComparableShape d side"
    by (simp add: requireComparableShape_def p)
  show "repository_of remote d' = repository_of remote d" by (simp add: repository_of_def p)
  show "receipt_side d' ev repository = receipt_side d ev repository" by (simp add: receipt_side_def p)
  show "presentation_of d' = presentation_of d" by (simp add: presentation_of_def p)
  show "identified (components_of d') = identified (components_of d)"
    by (rule identified_mset) (rule m(1)[symmetric])
  show "identified (connections_of d') = identified (connections_of d)"
    by (rule identified_mset) (rule m(2)[symmetric])
  show "boundaries_distinct (boundaries_of d') = boundaries_distinct (boundaries_of d)"
    by (rule boundaries_distinct_mset) (rule m(3)[symmetric])
qed

lemma inj_text: "(\<And>v. v \<in> V \<Longrightarrow> is_text v) \<Longrightarrow> inj_on js_string V"
  unfolding is_text_def by (rule inj_onI) metis

lemma compareEntities_reordered:
  assumes "mset xs = mset xs'" "mset ys = mset ys'" "distinct (map key xs)" "distinct (map key ys)"
    and "\<And>i. i \<in> set xs \<union> set ys \<Longrightarrow> is_text (key i)"
  shows "compareEntities (keyed_items key xs') (keyed_items key ys') kind groups describe =
    compareEntities (keyed_items key xs) (keyed_items key ys) kind groups describe"
proof (rule compareEntities_same[symmetric])
  show "map_of (keyed_items key xs) = map_of (keyed_items key xs')"
    "map_of (keyed_items key ys) = map_of (keyed_items key ys')"
    by (rule keyed_items_perm; fact assms)+
  show "inj_on js_string (set (jkeys (keyed_items key xs)) \<union> set (jkeys (keyed_items key ys)))"
    by (rule inj_text) (use assms(5) in \<open>auto simp: jkeys_keyed\<close>)
qed

lemma string_ids_text:
  assumes "string_ids base" "string_ids head"
  shows "i \<in> set (components_of base) \<union> set (components_of head) \<Longrightarrow> is_text (js_prop i ''id'')"
    "i \<in> set (connections_of base) \<union> set (connections_of head) \<Longrightarrow> is_text (js_prop i ''id'')"
  using assms by (auto simp: string_ids_def list_all_iff)

lemma comparable_reordered:
  assumes "reordered base base'" "reordered head head'"
  shows "comparable remote base' head' = comparable remote base head"
  unfolding comparable_def shared_component_exact reordered_shape[OF assms(1)] reordered_shape[OF assms(2)]
  using assms keys_mset[of "components_of base" "components_of base'"]
    keys_mset[of "components_of head" "components_of head'"]
  by (simp add: reordered_def)

lemma receipt_reordered:
  assumes "reordered base base'" "reordered head head'" "string_ids base" "string_ids head"
    and "comparable remote base head"
  shows "delta_receipt_of base' head' evBase evHead br hr
      (by_id (components_of base'), by_id (components_of head'))
      (by_id (connections_of base'), by_id (connections_of head'))
      (by_boundary (boundaries_of base'), by_boundary (boundaries_of head')) =
    delta_receipt_of base head evBase evHead br hr
      (by_id (components_of base), by_id (components_of head))
      (by_id (connections_of base), by_id (connections_of head))
      (by_boundary (boundaries_of base), by_boundary (boundaries_of head))"
proof -
  have m: "mset (components_of base) = mset (components_of base')" "mset (components_of head) = mset (components_of head')"
    "mset (connections_of base) = mset (connections_of base')" "mset (connections_of head) = mset (connections_of head')"
    "mset (boundaries_of base) = mset (boundaries_of base')" "mset (boundaries_of head) = mset (boundaries_of head')"
    using assms(1,2) by (simp_all add: reordered_def)
  have ids: "distinct (map (\<lambda>item. js_prop item ''id'') (components_of d))"
    "distinct (map (\<lambda>item. js_prop item ''id'') (connections_of d))"
    "distinct (map (\<lambda>b. JStr (boundaryKey b)) (boundaries_of d))" if "d \<in> {base, head}" for d
  proof -
    have "distinct (map boundaryKey (boundaries_of d))"
      using that assms(5) by (auto simp: comparable_def boundaries_distinct_def)
    then have "distinct (map JStr (map boundaryKey (boundaries_of d)))"
      by (simp add: distinct_map inj_on_def del: map_map)
    then show "distinct (map (\<lambda>b. JStr (boundaryKey b)) (boundaries_of d))" by (simp add: comp_def)
    show "distinct (map (\<lambda>item. js_prop item ''id'') (components_of d))"
      "distinct (map (\<lambda>item. js_prop item ''id'') (connections_of d))"
      using that assms(5) by (auto simp: comparable_def identified_def)
  qed
  have b: "base \<in> {base, head}" and h: "head \<in> {base, head}" by simp_all
  note texts = string_ids_text[OF assms(3,4)]
  have c: "compareEntities (by_id (components_of base')) (by_id (components_of head')) kind groups describe =
      compareEntities (by_id (components_of base)) (by_id (components_of head)) kind groups describe"
    for kind groups describe
    by (rule compareEntities_reordered[OF m(1,2) ids(1)[OF b] ids(1)[OF h]]) (rule texts(1))
  have n: "compareEntities (by_id (connections_of base')) (by_id (connections_of head')) kind groups describe =
      compareEntities (by_id (connections_of base)) (by_id (connections_of head)) kind groups describe"
    for kind groups describe
    by (rule compareEntities_reordered[OF m(3,4) ids(2)[OF b] ids(2)[OF h]]) (rule texts(2))
  have d: "compareEntities (by_boundary (boundaries_of base')) (by_boundary (boundaries_of head')) kind groups describe =
      compareEntities (by_boundary (boundaries_of base)) (by_boundary (boundaries_of head)) kind groups describe"
    for kind groups describe
    by (rule compareEntities_reordered[OF m(5,6) ids(3)[OF b] ids(3)[OF h]]) (simp add: is_text_def)
  show ?thesis
    unfolding delta_receipt_of_def fst_conv snd_conv c n d presentationChanged_def
      reordered_shape[OF assms(1)] reordered_shape[OF assms(2)] reordered_props[OF assms(2)] ..
qed

lemma compare_reordered:
  assumes "reordered base base'" "reordered head head'" "string_ids base" "string_ids head"
    and "compareArchitecture remote base head evBase evHead = Inr r"
  shows "compareArchitecture remote base' head' evBase evHead = Inr r"
proof -
  have ok: "comparable remote base head" using assms(5) unfolding compareArchitecture_exact by simp
  show ?thesis
    using assms(5)
    unfolding compareArchitecture_exact comparable_reordered[OF assms(1,2)]
      reordered_shape(2)[OF assms(1)] reordered_shape(2)[OF assms(2)] receipt_reordered[OF assms(1-4) ok] .
qed

lemma compare_self:
  assumes "compareArchitecture remote d d evBase evHead = Inr r"
  shows "rc_components r = [] \<and> rc_connections r = [] \<and> rc_boundaries r = [] \<and>
    \<not> rc_presentationChanged r \<and> rc_provenance r = JUndef"
  using assms unfolding compareArchitecture_exact
  by (simp add: delta_receipt_of_def Let_def compareEntities_self presentationChanged_def json_equal_def
      provenanceChange_def)

lemma reordered_refl: "reordered d d"
  by (simp add: reordered_def)

section \<open>Two snapshots\<close>

definition no_evidence :: side_evidence where
  "no_evidence = \<lparr>ev_verified = JUndef, ev_rawSha256 = JUndef, ev_semanticSha256 = JUndef, ev_bytes = JUndef\<rparr>"

definition snapshot_value :: "json list \<Rightarrow> json list \<Rightarrow> json list \<Rightarrow> json" where
  "snapshot_value components connections boundaries =
    JObj [(''schema_version'', JNum 1), (''diagram_type'', JStr ''architecture''),
      (''meta'', JObj [(''title'', JStr ''Shop'')]), (''components'', JArr components),
      (''connections'', JArr connections), (''boundaries'', JArr boundaries)]"

definition component_value :: "string \<Rightarrow> string \<Rightarrow> json" where
  "component_value i label = JObj [(''id'', JStr i), (''type'', JStr ''service''), (''label'', JStr label)]"

definition connection_value :: "string \<Rightarrow> string \<Rightarrow> string \<Rightarrow> json" where
  "connection_value i a b = JObj [(''id'', JStr i), (''from'', JStr a), (''to'', JStr b)]"

definition before_snapshot :: json where
  "before_snapshot = snapshot_value [component_value ''web'' ''Web'', component_value ''db'' ''Data'']
     [connection_value ''reads'' ''web'' ''db''] []"

definition after_snapshot :: json where
  "after_snapshot = snapshot_value [component_value ''cache'' ''Cache'', component_value ''web'' ''Site'', component_value ''db'' ''Data'']
     [connection_value ''reads'' ''web'' ''cache''] []"

definition receipt_ids :: "delta_receipt delta_result \<Rightarrow> (json \<times> string) list" where
  "receipt_ids r = map (\<lambda>c. (described c ''id'', ch_status c)) (rc_components (projr r) @ rc_connections (projr r))"

lemma example_receipt:
  "\<not> isl (compareArchitecture (\<lambda>_. None) before_snapshot after_snapshot no_evidence no_evidence)"
  "receipt_ids (compareArchitecture (\<lambda>_. None) before_snapshot after_snapshot no_evidence no_evidence) =
    [(JStr ''cache'', ''added''), (JStr ''web'', ''changed''), (JStr ''reads'', ''changed'')]"
  by code_simp+

definition example_receipt :: delta_receipt where
  "example_receipt = projr (compareArchitecture (\<lambda>_. None) before_snapshot after_snapshot no_evidence no_evidence)"

lemma example_compare:
  "compareArchitecture (\<lambda>_. None) before_snapshot after_snapshot no_evidence no_evidence = Inr example_receipt"
  using example_receipt(1) by (simp add: example_receipt_def)

lemma example_ids:
  "map (\<lambda>c. (described c ''id'', ch_status c)) (rc_components example_receipt @ rc_connections example_receipt) =
    [(JStr ''cache'', ''added''), (JStr ''web'', ''changed''), (JStr ''reads'', ''changed'')]"
  using example_receipt(2) by (simp only: receipt_ids_def example_receipt_def)

definition relisted_snapshot :: json where
  "relisted_snapshot = snapshot_value
     [component_value ''web'' ''Site'', component_value ''cache'' ''Cache'', component_value ''db'' ''Data'']
     [connection_value ''reads'' ''web'' ''cache''] []"

lemma relisted: "reordered after_snapshot relisted_snapshot"
  by (simp add: reordered_def after_snapshot_def relisted_snapshot_def snapshot_value_def)

lemma example_string_ids: "string_ids before_snapshot" "string_ids after_snapshot"
  by code_simp+

section \<open>What a comparison guarantees\<close>



text \<open>C33: The order in which a snapshot lists its components, relationships and boundaries never
  shows: two snapshots compare to the same receipt however their items are ordered, and a snapshot
  compared with a reordering of itself has no change to report.\<close>

theorem delta_order_independent:
  assumes "reordered base base'" "reordered head head'" "string_ids base" "string_ids head"
    and "compareArchitecture remote base head evBase evHead = Inr r"
  shows "compareArchitecture remote base' head' evBase evHead = Inr r \<and>
    (reordered base head \<longrightarrow>
      rc_components r = [] \<and> rc_connections r = [] \<and> rc_boundaries r = [] \<and>
      \<not> rc_presentationChanged r \<and> rc_provenance r = JUndef)"
proof (intro conjI impI compare_reordered[OF assms])
  assume "reordered base head"
  then have "reordered head base" by (simp add: reordered_def)
  then have "compareArchitecture remote base base evBase evHead = Inr r"
    by (rule compare_reordered[OF reordered_refl _ assms(3,4,5)])
  then show "rc_components r = []" "rc_connections r = []" "rc_boundaries r = []"
    "\<not> rc_presentationChanged r" "rc_provenance r = JUndef"
    using compare_self by blast+
qed

theorem delta_order_independent_witness:
  "compareArchitecture (\<lambda>_. None) before_snapshot relisted_snapshot no_evidence no_evidence = Inr example_receipt \<and>
   components_of relisted_snapshot \<noteq> components_of after_snapshot"
  using delta_order_independent[OF reordered_refl relisted example_string_ids example_compare]
  by (simp add: relisted_snapshot_def after_snapshot_def snapshot_value_def component_value_def)

end
