(* ===== verification/Spec2Isabelle.thy ===== *)
theory Spec2Isabelle
imports Config AuthToken Usage Threads ChatFiles Subagents Charts Account Markdown SidecarGraphs UpdateLock
  RouteGrid DiagramDelta
begin

text \<open>
  NextRole is a chat with career and analytics agents: a Next.js frontend (\<^verbatim>\<open>frontend/src\<close>), a Python
  backend that runs the agents (\<^verbatim>\<open>backend\<close>) and, beside it, a Node sidecar that runs graphs written in
  JavaScript (\<^verbatim>\<open>backend/server/api/js\<close>). This development models the JavaScript and TypeScript of the
  program: the behaviour of the frontend and of the sidecar. Paths below are under \<^verbatim>\<open>frontend/src\<close>
  unless they start with \<^verbatim>\<open>backend\<close>.

  \<^bold>\<open>How the parts interact.\<close> The page (\<^verbatim>\<open>app/page.tsx\<close>) decides which agent and thread the address
  names and mounts the chat. The chat hook (\<^verbatim>\<open>app/hooks/useChat.ts\<close>) submits messages to the stream of
  the LangGraph SDK, which gives messages, tool calls, interrupts and the state's files back. The
  approval hook turns interrupts into pending approvals and sends the decisions as one resume per
  interrupt; the chat column shows messages, runs of tool calls, subagent cards and approvals; the
  workspace panel shows plan, files and sources. Every request carries a bearer token when signing in
  is enabled. In the backend the sidecar runs a JavaScript graph for the Python server and keeps its
  checkpoints and store there.

  \<^bold>\<open>Theories, in the order they build on each other.\<close>

  \<^item> \<open>Prelude\<close>: strings and their methods, dynamic values (\<open>json\<close>) and their text, insertion-ordered
    maps, the stable sort, results; the locales \<open>keyed_map\<close> (a map written by folds), \<open>comparator\<close> (an
    order for the sort), \<open>transition_system\<close> (an inductive invariant) and \<open>reducer\<close>, a transition
    system whose next state is a function of the event.
  \<^item> \<open>Config\<close>: \<^verbatim>\<open>app/config/agents.ts\<close>, \<^verbatim>\<open>lib/config.ts\<close>, \<^verbatim>\<open>lib/auth/enabled.ts\<close>,
    \<^verbatim>\<open>useAgentAvailability.ts\<close>, \<^verbatim>\<open>ConfigDialog.tsx\<close>; \<open>AuthToken\<close>: \<^verbatim>\<open>lib/auth/token.ts\<close> and the auth route;
    \<open>Usage\<close>: \<^verbatim>\<open>useUsage.ts\<close>; \<open>Threads\<close>: \<^verbatim>\<open>useThreads.ts\<close>, \<^verbatim>\<open>ThreadList.tsx\<close>.
  \<^item> \<open>FilePaths\<close>: \<^verbatim>\<open>fileCategories.ts\<close>, \<^verbatim>\<open>utils/filePaths.ts\<close>; \<open>AgentFiles\<close>: \<^verbatim>\<open>config/agentFiles.ts\<close>,
    \<^verbatim>\<open>lib/agentFiles.ts\<close>, \<^verbatim>\<open>lib/uploadFiles.ts\<close>; \<open>ChatFiles\<close>: \<^verbatim>\<open>useChat.ts\<close>.
  \<^item> \<open>Messages\<close>, \<open>JsRegex\<close>, \<open>ToolData\<close>, \<open>Sources\<close>: the shared data (\<^verbatim>\<open>types/types.ts\<close>), a matcher with the
    semantics of JavaScript's regular expressions, tool values as text (\<^verbatim>\<open>utils/utils.ts\<close>,
    \<^verbatim>\<open>utils/toolErrors.ts\<close>), the web sources (\<^verbatim>\<open>utils/sources.ts\<close>).
  \<^item> \<open>Approvals\<close>: \<^verbatim>\<open>useInterruptApprovals.ts\<close>; \<open>ApprovalCard\<close>: \<^verbatim>\<open>ToolApprovalInterrupt.tsx\<close>;
    \<open>Transcript\<close>, \<open>ToolRuns\<close>, \<open>ReviewVisible\<close>, \<open>ChatView\<close>, \<open>ToolBox\<close>: \<^verbatim>\<open>ChatInterface.tsx\<close>, \<^verbatim>\<open>ChatMessage.tsx\<close>,
    \<^verbatim>\<open>ToolCallGroup.tsx\<close>, \<^verbatim>\<open>ToolCallBatchList.tsx\<close>, \<^verbatim>\<open>ToolCallBox.tsx\<close>; \<open>Subagents\<close>: \<^verbatim>\<open>SubagentCard.tsx\<close>,
    \<^verbatim>\<open>Workspace.tsx\<close>.
  \<^item> \<open>UiState\<close>: the hooks of panels, toggles and uploads; \<open>Plan\<close>, \<open>FilesPanel\<close>, \<open>FileView\<close>, \<open>Charts\<close>,
    \<open>Markdown\<close>: the workspace sections, the viewer with its print page, charts, markdown; \<open>Page\<close>,
    \<open>Account\<close>: the page with its top bar, signing in and out, the appearance.
  \<^item> \<open>Sidecar\<close>, \<open>SidecarStream\<close>, \<open>SidecarGraphs\<close>: \<^verbatim>\<open>backend/server/api/js\<close> (\<^verbatim>\<open>client.mts\<close>, \<^verbatim>\<open>build.mts\<close>,
    \<^verbatim>\<open>client.http.mts\<close>, \<^verbatim>\<open>traceblock.mts\<close>, \<^verbatim>\<open>src\<close>) and the store handlers of \<^verbatim>\<open>remote.py\<close> it talks to.

  \<^item> \<open>UpdateContract\<close>, \<open>UpdateState\<close>, \<open>UpdateLock\<close>: from the diagram tool archify that the repository carries under
    \<^verbatim>\<open>.agents/skills\<close>, \<^verbatim>\<open>scripts/update-contract.mjs\<close> and \<^verbatim>\<open>scripts/check-update.mjs\<close>: versions and
    release manifests, the cached state of the update check, and the protocol by which processes share it.
  \<^item> \<open>DiagramGeometry\<close>, \<open>MinHeap\<close>, \<open>GridSearch\<close>, \<open>RouteGrid\<close>: from \<^verbatim>\<open>renderers/shared\<close> of archify the boxes,
    segments and routes of \<^verbatim>\<open>geometry.mjs\<close> and the orthogonal router of \<^verbatim>\<open>route-quality.mjs\<close> with its heap
    and its search; \<open>JsonText\<close>, \<open>RepositoryLocation\<close>, \<open>DiagramDelta\<close>: the compact text of dynamic values, the
    remotes of \<^verbatim>\<open>repository-location.mjs\<close> and the comparison of two snapshots of a diagram
    (\<^verbatim>\<open>delta/architecture-delta.mjs\<close>).

  \<^bold>\<open>How code becomes definitions.\<close> A hook or component with state is a record of its refs and states
  with one function per callback and a reaction to events (\<open>token_react\<close>, \<open>approvals_react\<close>,
  \<open>page_react\<close>, \<open>dialog_react\<close>, \<open>panel_react\<close>, \<open>sse_react\<close>); an answer that arrives later is an event of
  its own, so every interleaving is a list of events. What is rendered is a record or a list computed
  from state and props; a click is an event only where the button is shown and enabled. Thrown errors
  are the left summand of a result. Requests and calls of libraries are effects that are logged.

  \<^bold>\<open>What the lemmas show.\<close> Invariants of the reducers by the \<open>reducer\<close> locale (interpretations \<open>tok\<close>,
  \<open>appr\<close>, \<open>fp\<close>, \<open>dlg\<close>, \<open>pg\<close>, \<open>sv\<close>) and of the step relations (\<open>panel\<close>, \<open>card\<close>): an interrupt is resumed at
  most once and completely, one token request is in flight, a document shown belongs to the file
  shown, a denied agent is never active. Folds over maps by \<open>keyed_map\<close> (\<open>am\<close>), orders by \<open>comparator\<close>
  (\<open>by_len\<close>, \<open>code_order\<close>, \<open>slowest\<close>; the signs of \<open>three_way\<close>: \<open>by_code\<close>, \<open>by_size\<close>, \<open>by_identifier\<close>). Across components: every pending approval is visible exactly where
  a row or card claims it, and otherwise in the fallback list; a link in a reply opens an existing file;
  the print page reads what the dialog stored; store operations reach the Python side as they were
  meant; schemas found at build time are the ones served. The update cache is a refinement of running
  its jobs one after another (\<open>UpdateLock\<close>): in the locale \<open>recoverable\<close> every
  interleaving keeps the invariant that of two operations past their check one has fenced the other. The
  router searches with a \<open>priority_queue\<close> (the binary heap is the instance \<open>heap\<close>) over the points of its
  grid turned with a heading; the search always ends, and what it returns is a cheapest walk, clear of
  every obstacle. A comparison of snapshots is determined by what they say and not by its order.

  \<^bold>\<open>Arguments.\<close> Code outside the repository is an argument of the definitions that use it: \<^verbatim>\<open>JSON.parse\<close>,
  \<^verbatim>\<open>parsePartialJson\<close>, the answers of servers, the stream of the SDK, clocks and random ids, \<^verbatim>\<open>Date\<close>
  parsing and \<^verbatim>\<open>localeCompare\<close>, browser storage, the checks of \<^verbatim>\<open>zod\<close>, the document conversion, number
  formats, the module loader and \<^verbatim>\<open>p-retry\<close>. Where a theorem needs a law of such an argument it is a
  hypothesis of the theorem.

  \<^bold>\<open>Numbers, text, bounds.\<close> Numbers are integers where the code counts; the percentage of \<open>Plan\<close> and the
  figures of \<open>Charts\<close> are rationals with the rounding of doubles written out, exact up to 2 to the power
  44 items; coordinates of diagrams are exact rationals, and laws about tolerances are stated for
  multiples of 1/64; the versions of \<open>Sidecar\<close> are stated below 2 to the power 53. Characters are those of
  HOL, with case mapping on Latin-1; typographic dashes, dots and quotes of labels are written in ASCII.
  The matcher of \<open>JsRegex\<close> repeats a subexpression at most as often as characters are left, which loses
  nothing because an empty iteration fails, and its loops over all matches take one round more than the
  text has characters; \<open>match_all_ends\<close> and the last theorem of \<open>Sources\<close> show that this is
  the result of the loop without a bound.

  \<^bold>\<open>Not modelled.\<close> Markup, styling, focus, scrolling and animation; the primitives of
  \<^verbatim>\<open>components/ui\<close> and the drawing of charts by Plotly, which wrap libraries; the configuration of the
  authentication library, of the build and of the tests; the Python code of agents, server and
  analytics except the store handlers; the rest of the third-party skills under \<^verbatim>\<open>.agents\<close> (the layout and
  markup of the renderers, the command line and the browser checks of archify, and others), which are
  installed from other repositories and take no part in the program. In \<open>UpdateLock\<close> the guards against files replaced under the program
  are left out: a call on the file system happens or fails, and a lease runs or has ended.
\<close>

end
